(* ===== verification/Silc_Prelude.thy ===== *)
theory Silc_Prelude
  imports Main "HOL-Library.Word"
begin

text \<open>
  Shared prelude: the fixed-width integer types of \<^verbatim>\<open>lib/silcutil/silctypes.h\<close>, its
  big-endian byte macros, the allocator limit of \<^verbatim>\<open>lib/silcutil/silcmemory.c\<close>, and the
  generic list and word lemmas the components share.  A block of memory is a list of bytes.
\<close>

unbundle bit_operations_syntax

section \<open>Types and collections\<close>

type_synonym byte = "8 word"
type_synonym u8 = "8 word"
type_synonym u16 = "16 word"
type_synonym u32 = "32 word"
type_synonym u64 = "64 word"

named_theorems silc_defs \<open>definitions of straight-line operations, unfolded together\<close>
named_theorems buf_simps \<open>equations of the buffer operations on well-formed buffers\<close>

section \<open>Byte order macros (silctypes.h)\<close>

text \<open>
  The \<open>GET\<close> macros read from the front of a byte block; their callers have checked the
  length.  \<open>SILC_GET64_MSB\<close> composes two 32-bit reads (\<open>SILC_GET_WORD\<close>).
\<close>

definition SILC_GET16_MSB :: "byte list \<Rightarrow> u32" where
  "SILC_GET16_MSB cp = (push_bit 8 (ucast (cp ! 0)) OR ucast (cp ! 1))"

definition SILC_GET32_MSB :: "byte list \<Rightarrow> u32" where
  "SILC_GET32_MSB cp =
     (push_bit 24 (ucast (cp ! 0)) OR push_bit 16 (ucast (cp ! 1))
      OR push_bit 8 (ucast (cp ! 2)) OR ucast (cp ! 3))"

definition SILC_GET64_MSB :: "byte list \<Rightarrow> u64" where
  "SILC_GET64_MSB cp =
     (push_bit 32 (ucast (SILC_GET32_MSB cp)) OR ucast (SILC_GET32_MSB (drop 4 cp)))"

definition SILC_PUT16_MSB :: "u16 \<Rightarrow> byte list" where
  "SILC_PUT16_MSB l = [ucast (drop_bit 8 l), ucast l]"

definition SILC_PUT32_MSB :: "u32 \<Rightarrow> byte list" where
  "SILC_PUT32_MSB l =
     [ucast (drop_bit 24 l), ucast (drop_bit 16 l), ucast (drop_bit 8 l), ucast l]"

definition SILC_PUT64_MSB :: "u64 \<Rightarrow> byte list" where
  "SILC_PUT64_MSB l = SILC_PUT32_MSB (ucast (drop_bit 32 l)) @ SILC_PUT32_MSB (ucast l)"

definition SILC_SWAB_16 :: "u16 \<Rightarrow> u16" where
  "SILC_SWAB_16 l = (push_bit 8 (l AND 0x00FF) OR drop_bit 8 (l AND 0xFF00))"

text \<open>The allocator refuses empty blocks and blocks of one gigabyte or more.\<close>

definition SILC_MAX_ALLOC :: nat where
  "SILC_MAX_ALLOC = 1024 * 1024 * 1024"

definition silc_calloc_ok :: "nat \<Rightarrow> nat \<Rightarrow> bool" where
  "silc_calloc_ok items sz \<longleftrightarrow> \<not> (sz * items \<le> 0 \<or> sz * items \<ge> SILC_MAX_ALLOC)"

section \<open>Lemmas on the byte order macros\<close>

lemma length_PUT16 [simp]: "length (SILC_PUT16_MSB l) = 2"
  by (simp add: SILC_PUT16_MSB_def)

lemma length_PUT32 [simp]: "length (SILC_PUT32_MSB l) = 4"
  by (simp add: SILC_PUT32_MSB_def)

lemma length_PUT64 [simp]: "length (SILC_PUT64_MSB l) = 8"
  by (simp add: SILC_PUT64_MSB_def)

lemma unat_u8_less: "unat (w :: u8) < 256"
proof -
  have "unat w < 2 ^ LENGTH(8)" by (rule unsigned_less)
  then show ?thesis by simp
qed

lemma unat_u16_less: "unat (w :: u16) < 65536"
proof -
  have "unat w < 2 ^ LENGTH(16)" by (rule unsigned_less)
  then show ?thesis by simp
qed

lemma unat_u32_less: "unat (w :: u32) < 4294967296"
proof -
  have "unat w < 2 ^ LENGTH(32)" by (rule unsigned_less)
  then show ?thesis by simp
qed

lemma uint_not_minus_one [simp]: "uint (w :: 'a::len word) \<noteq> -1"
  using unsigned_greater_eq [of w] by (metis neg_0_le_iff_le not_one_le_zero)

lemma ucast_u16_u32 [simp]: "unat (ucast (w :: u16) :: u32) = unat w"
proof -
  have "unat w < 2 ^ 32" using unat_u16_less [of w] by simp
  then show ?thesis by (simp add: unsigned_ucast_eq take_bit_nat_eq_self)
qed

lemma ucast_u16_zero: "(ucast (w :: u16) :: u32) = 0 \<longleftrightarrow> w = 0"
  by (metis ucast_u16_u32 unsigned_eq_0_iff)

lemma bit_byteD [dest]: "bit (a :: byte) n \<Longrightarrow> n < 8"
  by (drule bit_imp_le_length) simp

lemma bit_byte_beyond [simp]: "8 \<le> n \<Longrightarrow> \<not> bit (a :: byte) n"
  by auto

lemma GET16_PUT16: "ucast (SILC_GET16_MSB (SILC_PUT16_MSB l @ r)) = l"
  unfolding SILC_GET16_MSB_def SILC_PUT16_MSB_def
  by (rule bit_word_eqI) (auto simp: bit_simps)

lemma bit_GET32:
  "bit (SILC_GET32_MSB (a # b # c # d # r)) n \<longleftrightarrow>
    (if n < 8 then bit d n else if n < 16 then bit c (n - 8)
     else if n < 24 then bit b (n - 16) else bit a (n - 24))"
proof -
  consider "n < 8" | "8 \<le> n" "n < 16" | "16 \<le> n" "n < 24" | "24 \<le> n" by linarith
  then show ?thesis
    by cases (auto simp: SILC_GET32_MSB_def bit_simps)
qed

lemma GET32_PUT32 [simp]: "SILC_GET32_MSB (SILC_PUT32_MSB l @ r) = l"
  unfolding SILC_PUT32_MSB_def
  by (rule bit_word_eqI) (auto simp: bit_GET32 bit_simps)

lemma GET32_drop4_PUT64: "SILC_GET32_MSB (drop 4 (SILC_PUT64_MSB l @ r)) = ucast l"
  by (simp add: SILC_PUT64_MSB_def)

lemma GET64_PUT64 [simp]: "SILC_GET64_MSB (SILC_PUT64_MSB l @ r) = l"
proof -
  have "SILC_GET32_MSB (SILC_PUT64_MSB l @ r) = ucast (drop_bit 32 l)"
    by (simp add: SILC_PUT64_MSB_def)
  then have "SILC_GET64_MSB (SILC_PUT64_MSB l @ r) =
      (push_bit 32 (ucast (ucast (drop_bit 32 l) :: u32)) OR ucast (ucast l :: u32))"
    unfolding SILC_GET64_MSB_def GET32_drop4_PUT64 by simp
  also have "\<dots> = l"
    by (rule bit_word_eqI) (auto simp: bit_simps)
  finally show ?thesis .
qed

lemma PUT16_GET16: "SILC_PUT16_MSB (ucast (SILC_GET16_MSB (a # b # r))) = [a, b]"
  unfolding SILC_GET16_MSB_def SILC_PUT16_MSB_def
  by (auto intro!: bit_word_eqI simp: bit_simps)

lemma PUT32_GET32: "SILC_PUT32_MSB (SILC_GET32_MSB (a # b # c # d # r)) = [a, b, c, d]"
  unfolding SILC_PUT32_MSB_def
  by (auto intro!: bit_word_eqI simp: bit_GET32 bit_simps)

lemma GET16_append [simp]: "2 \<le> length xs \<Longrightarrow> SILC_GET16_MSB (xs @ ys) = SILC_GET16_MSB xs"
  by (cases xs) (auto simp: SILC_GET16_MSB_def nth_append)

lemma GET16_less: "unat (SILC_GET16_MSB cp) < 65536"
proof -
  have "SILC_GET16_MSB cp = ucast (ucast (SILC_GET16_MSB cp) :: u16)"
    unfolding SILC_GET16_MSB_def
    by (rule bit_word_eqI) (auto simp: bit_simps)
  also have "unat \<dots> = unat (ucast (SILC_GET16_MSB cp) :: u16)"
    by (simp add: unsigned_ucast_eq unsigned_take_bit_eq)
  also have "\<dots> < 65536"
    by (rule unat_u16_less)
  finally show ?thesis by simp
qed

lemma unat_GET16 [simp]: "unat (ucast (SILC_GET16_MSB d) :: u16) = unat (SILC_GET16_MSB d)"
  using GET16_less [of d] by (simp add: unsigned_ucast_eq unsigned_take_bit_eq take_bit_eq_mod)

lemma GET16_ucast_zero [simp]:
  "(ucast (ucast (SILC_GET16_MSB d) :: u16) :: u32) = 0 \<longleftrightarrow> SILC_GET16_MSB d = 0"
  unfolding ucast_u16_zero by (metis unat_GET16 unsigned_eq_0_iff)

lemma SWAB_16_involutive [simp]: "SILC_SWAB_16 (SILC_SWAB_16 l) = l"
proof -
  have lo: "(0x00FF :: u16) = mask 8" and hi: "(0xFF00 :: u16) = push_bit 8 (mask 8)"
    by (simp_all add: mask_eq_exp_minus_1)
  show ?thesis
    unfolding SILC_SWAB_16_def lo hi by (rule bit_word_eqI) (auto simp: bit_simps)
qed

lemma PUT16_GET16_take: "2 \<le> length d \<Longrightarrow> SILC_PUT16_MSB (ucast (SILC_GET16_MSB d)) = take 2 d"
proof (cases d)
  case (Cons a r)
  moreover assume "2 \<le> length d"
  ultimately obtain b r' where "d = a # b # r'" by (cases r) auto
  then show ?thesis by (simp add: PUT16_GET16)
qed simp

lemma PUT32_GET32_take: "4 \<le> length d \<Longrightarrow> SILC_PUT32_MSB (SILC_GET32_MSB d) = take 4 d"
proof -
  assume "4 \<le> length d"
  then obtain a b c e r where "d = a # b # c # e # r"
    by (metis (no_types, lifting) Suc_le_length_iff numeral_eq_Suc pred_numeral_simps(1,2,3)
        semiring_norm(26-28))
  then show ?thesis by (simp add: PUT32_GET32)
qed

lemma ucast_u8_u32_u8 [simp]: "ucast (ucast (w :: u8) :: u32) = w"
  by (intro bit_word_eqI) (auto simp: bit_ucast_iff)

lemma ucast_u16_u32_u16 [simp]: "ucast (ucast (w :: u16) :: u32) = w"
  by (intro bit_word_eqI) (auto simp: bit_ucast_iff)

lemma ucast_of_nat_u16 [simp]: "n < 65536 \<Longrightarrow> ucast (of_nat n :: u16) = (of_nat n :: u32)"
  by (simp add: unsigned_of_nat take_bit_nat_eq_self)

lemma ucast_of_nat_u32 [simp]: "n < 65536 \<Longrightarrow> ucast (of_nat n :: u32) = (of_nat n :: u16)"
  by (simp add: unsigned_of_nat take_bit_nat_eq_self)

lemma take3_nth: "3 \<le> length d \<Longrightarrow> take 3 d = take 2 d @ [d ! 2]"
  using take_Suc_conv_app_nth [of 2 d] by (simp add: numeral_3_eq_3)

lemma take6_nth: "6 \<le> length d \<Longrightarrow> take 6 d = take 2 d @ d ! 2 # d ! 3 # take 2 (drop 4 d)"
  using Cons_nth_drop_Suc [of 2 d, symmetric] Cons_nth_drop_Suc [of 3 d, symmetric] take_add [of 2 4 d]
  by simp

section \<open>Codec contracts\<close>

text \<open>
  The contract of an encoder and a parser.  A codec parses what it encodes; a canonical codec
  accepts nothing else, so that every accepted byte string has exactly one meaning and every
  meaning exactly one byte string.
\<close>

locale codec =
  fixes valid :: "'a \<Rightarrow> bool"
    and encode :: "'a \<Rightarrow> byte list option"
    and parse :: "byte list \<Rightarrow> 'a option"
  assumes encode_total: "valid x \<Longrightarrow> \<exists>b. encode x = Some b"
    and parse_encode: "valid x \<Longrightarrow> encode x = Some b \<Longrightarrow> parse b = Some x"
begin

lemma encode_inj: "valid x \<Longrightarrow> valid y \<Longrightarrow> encode x = encode y \<Longrightarrow> x = y"
  by (metis encode_total option.inject parse_encode)

lemma roundtrip: "valid x \<Longrightarrow> Option.bind (encode x) parse = Some x"
  by (metis bind.bind_lunit encode_total parse_encode)

end

locale canonical_codec = codec +
  assumes encode_parse: "parse b = Some x \<Longrightarrow> valid x \<and> encode x = Some b"
begin

lemma parse_inj: "parse b = Some x \<Longrightarrow> parse b' = Some x \<Longrightarrow> b = b'"
  by (metis encode_parse option.inject)

lemma parse_iff: "parse b = Some x \<longleftrightarrow> valid x \<and> encode x = Some b"
  using encode_parse parse_encode by blast

end

end
