(* ===== verification/Silc_Buffer.thy ===== *)
theory Silc_Buffer
  imports Silc_Prelude
begin

text \<open>
  The buffer object of \<^verbatim>\<open>lib/silcutil/silcbuffer.h\<close>.  The four pointers \<open>head \<le> data \<le>
  tail \<le> end\<close> of the C structure point into one block; the model keeps the block as
  \<open>bmem\<close> (so \<open>head\<close> is offset 0 and \<open>end\<close> is its length) and the other two pointers
  as offsets.  A returned pointer is an offset, and NULL is \<open>None\<close>.  The operations are
  those compiled without \<open>SILC_DEBUG\<close>, where a bad length makes the call return NULL.

  Bytes that \<open>realloc\<close> adds to a block are not initialised; they are taken from the
  argument \<open>junk\<close>, and no result about formatted data depends on it.  The allocator is
  that of \<^verbatim>\<open>silcmemory.c\<close>: it fails exactly on sizes of one gigabyte and more.
\<close>

section \<open>State and operations\<close>

record silc_buffer =
  bmem :: "byte list"
  bdata :: nat
  btail :: nat

definition silc_buffer_truelen :: "silc_buffer \<Rightarrow> nat" where
  "silc_buffer_truelen x = length (bmem x)"

definition silc_buffer_len :: "silc_buffer \<Rightarrow> nat" where
  "silc_buffer_len x = btail x - bdata x"

definition silc_buffer_headlen :: "silc_buffer \<Rightarrow> nat" where
  "silc_buffer_headlen x = bdata x"

definition silc_buffer_taillen :: "silc_buffer \<Rightarrow> nat" where
  "silc_buffer_taillen x = length (bmem x) - btail x"

text \<open>A buffer of length zero is allocated with all four pointers NULL.\<close>

definition silc_buffer_alloc :: "nat \<Rightarrow> silc_buffer option" where
  "silc_buffer_alloc len =
     (if len \<noteq> 0 \<and> \<not> silc_calloc_ok len 1 then None
      else Some \<lparr>bmem = replicate len 0, bdata = 0, btail = 0\<rparr>)"

definition silc_buffer_steal :: "silc_buffer \<Rightarrow> byte list \<times> silc_buffer" where
  "silc_buffer_steal sb = (bmem sb, \<lparr>bmem = [], bdata = 0, btail = 0\<rparr>)"

definition silc_buffer_set :: "byte list \<Rightarrow> silc_buffer" where
  "silc_buffer_set d = \<lparr>bmem = d, bdata = 0, btail = length d\<rparr>"

definition silc_buffer_pull :: "silc_buffer \<Rightarrow> nat \<Rightarrow> nat option \<times> silc_buffer" where
  "silc_buffer_pull sb len =
     (if len > silc_buffer_len sb then (None, sb)
      else (Some (bdata sb), sb\<lparr>bdata := bdata sb + len\<rparr>))"

definition silc_buffer_push :: "silc_buffer \<Rightarrow> nat \<Rightarrow> nat option \<times> silc_buffer" where
  "silc_buffer_push sb len =
     (if bdata sb < len then (None, sb)
      else (Some (bdata sb), sb\<lparr>bdata := bdata sb - len\<rparr>))"

definition silc_buffer_pull_tail :: "silc_buffer \<Rightarrow> nat \<Rightarrow> nat option \<times> silc_buffer" where
  "silc_buffer_pull_tail sb len =
     (if len > silc_buffer_taillen sb then (None, sb)
      else (Some (btail sb), sb\<lparr>btail := btail sb + len\<rparr>))"

definition silc_buffer_push_tail :: "silc_buffer \<Rightarrow> nat \<Rightarrow> nat option \<times> silc_buffer" where
  "silc_buffer_push_tail sb len =
     (if btail sb < bdata sb + len then (None, sb)
      else (Some (btail sb), sb\<lparr>btail := btail sb - len\<rparr>))"

text \<open>\<open>memcpy\<close> of a block into memory at an offset.\<close>

definition memcpy_at :: "nat \<Rightarrow> byte list \<Rightarrow> byte list \<Rightarrow> byte list" where
  "memcpy_at off src mem = take off mem @ src @ drop (off + length src) mem"

definition silc_buffer_put_head ::
  "silc_buffer \<Rightarrow> byte list \<Rightarrow> nat \<Rightarrow> nat option \<times> silc_buffer" where
  "silc_buffer_put_head sb d len =
     (if len > silc_buffer_headlen sb then (None, sb)
      else (Some 0, sb\<lparr>bmem := memcpy_at 0 (take len d) (bmem sb)\<rparr>))"

definition silc_buffer_put ::
  "silc_buffer \<Rightarrow> byte list \<Rightarrow> nat \<Rightarrow> nat option \<times> silc_buffer" where
  "silc_buffer_put sb d len =
     (if len > silc_buffer_len sb then (None, sb)
      else (Some (bdata sb), sb\<lparr>bmem := memcpy_at (bdata sb) (take len d) (bmem sb)\<rparr>))"

definition silc_buffer_put_tail ::
  "silc_buffer \<Rightarrow> byte list \<Rightarrow> nat \<Rightarrow> nat option \<times> silc_buffer" where
  "silc_buffer_put_tail sb d len =
     (if len > silc_buffer_taillen sb then (None, sb)
      else (Some (btail sb), sb\<lparr>bmem := memcpy_at (btail sb) (take len d) (bmem sb)\<rparr>))"

definition silc_buffer_alloc_size :: "nat \<Rightarrow> silc_buffer option" where
  "silc_buffer_alloc_size len =
     map_option (\<lambda>sb. snd (silc_buffer_pull_tail sb len)) (silc_buffer_alloc len)"

definition silc_buffer_reset :: "silc_buffer \<Rightarrow> silc_buffer" where
  "silc_buffer_reset sb = sb\<lparr>bdata := 0, btail := 0\<rparr>"

definition silc_buffer_clear :: "silc_buffer \<Rightarrow> silc_buffer" where
  "silc_buffer_clear sb =
     silc_buffer_reset (sb\<lparr>bmem := replicate (silc_buffer_truelen sb) 0\<rparr>)"

definition silc_buffer_start :: "silc_buffer \<Rightarrow> silc_buffer" where
  "silc_buffer_start sb = sb\<lparr>bdata := 0\<rparr>"

definition silc_buffer_end :: "silc_buffer \<Rightarrow> silc_buffer" where
  "silc_buffer_end sb = sb\<lparr>btail := length (bmem sb)\<rparr>"

text \<open>The bytes between \<open>data\<close> and \<open>tail\<close>: what the buffer holds.\<close>

definition silc_buffer_data :: "silc_buffer \<Rightarrow> byte list" where
  "silc_buffer_data sb = take (silc_buffer_len sb) (drop (bdata sb) (bmem sb))"

definition silc_buffer_copy :: "silc_buffer \<Rightarrow> silc_buffer option" where
  "silc_buffer_copy sb =
     map_option (\<lambda>nb. snd (silc_buffer_put nb (silc_buffer_data sb) (silc_buffer_len sb)))
       (silc_buffer_alloc_size (silc_buffer_len sb))"

definition silc_buffer_clone :: "silc_buffer \<Rightarrow> silc_buffer option" where
  "silc_buffer_clone sb =
     map_option (\<lambda>nb. (snd (silc_buffer_put nb (bmem sb) (silc_buffer_truelen sb)))
         \<lparr>bdata := silc_buffer_headlen sb,
          btail := silc_buffer_headlen sb + silc_buffer_len sb\<rparr>)
       (silc_buffer_alloc_size (silc_buffer_truelen sb))"

definition silc_buffer_realloc ::
  "(nat \<Rightarrow> byte) \<Rightarrow> silc_buffer option \<Rightarrow> nat \<Rightarrow> silc_buffer option" where
  "silc_buffer_realloc junk sbo newsize =
     (case sbo of
        None \<Rightarrow> silc_buffer_alloc newsize
      | Some sb \<Rightarrow>
          if newsize \<le> silc_buffer_truelen sb then Some sb
          else if newsize \<ge> SILC_MAX_ALLOC then None
          else Some (sb\<lparr>bmem := bmem sb @ map junk [silc_buffer_truelen sb..<newsize]\<rparr>))"

definition silc_buffer_realloc_size ::
  "(nat \<Rightarrow> byte) \<Rightarrow> silc_buffer option \<Rightarrow> nat \<Rightarrow> silc_buffer option" where
  "silc_buffer_realloc_size junk sbo newsize =
     map_option (\<lambda>sb. snd (silc_buffer_pull_tail sb (silc_buffer_taillen sb)))
       (silc_buffer_realloc junk sbo newsize)"

text \<open>The new size is a 32-bit sum, so it may wrap around.\<close>

definition silc_buffer_enlarge ::
  "(nat \<Rightarrow> byte) \<Rightarrow> silc_buffer \<Rightarrow> nat \<Rightarrow> bool \<times> silc_buffer" where
  "silc_buffer_enlarge junk sb sz =
     (if sz > silc_buffer_len sb then
        (case (if sz > silc_buffer_taillen sb + silc_buffer_len sb
               then silc_buffer_realloc junk (Some sb)
                 ((silc_buffer_truelen sb +
                   (sz - silc_buffer_taillen sb - silc_buffer_len sb)) mod 2 ^ 32)
               else Some sb) of
           None \<Rightarrow> (False, sb)
         | Some sb' \<Rightarrow> (True, snd (silc_buffer_pull_tail sb' (sz - silc_buffer_len sb'))))
      else (True, sb))"

section \<open>Well-formedness and the effect of the operations\<close>

definition buffer_wf :: "silc_buffer \<Rightarrow> bool" where
  "buffer_wf sb \<longleftrightarrow> bdata sb \<le> btail sb \<and> btail sb \<le> length (bmem sb) \<and> length (bmem sb) < 2 ^ 32 - 1"

lemmas buffer_defs [silc_defs] =
  silc_buffer_truelen_def silc_buffer_len_def silc_buffer_headlen_def silc_buffer_taillen_def
  silc_buffer_set_def silc_buffer_pull_def silc_buffer_push_def silc_buffer_pull_tail_def
  silc_buffer_push_tail_def silc_buffer_put_head_def silc_buffer_put_def silc_buffer_put_tail_def
  silc_buffer_reset_def silc_buffer_clear_def silc_buffer_start_def silc_buffer_end_def
  silc_buffer_steal_def

text \<open>Most callers drop the returned pointer and keep the moved buffer.\<close>

abbreviation buf_pull :: "silc_buffer \<Rightarrow> nat \<Rightarrow> silc_buffer" where
  "buf_pull sb n \<equiv> snd (silc_buffer_pull sb n)"

abbreviation buf_push :: "silc_buffer \<Rightarrow> nat \<Rightarrow> silc_buffer" where
  "buf_push sb n \<equiv> snd (silc_buffer_push sb n)"

abbreviation buf_put :: "silc_buffer \<Rightarrow> byte list \<Rightarrow> nat \<Rightarrow> silc_buffer" where
  "buf_put sb d n \<equiv> snd (silc_buffer_put sb d n)"

lemma length_memcpy_at [simp]:
  "off + length src \<le> length mem \<Longrightarrow> length (memcpy_at off src mem) = length mem"
  by (simp add: memcpy_at_def)

lemma memcpy_at_Nil [simp]: "memcpy_at off [] mem = mem"
  by (simp add: memcpy_at_def)

lemma memcpy_at_append:
  "off + length xs \<le> length mem \<Longrightarrow>
    memcpy_at (off + length xs) ys (memcpy_at off xs mem) = memcpy_at off (xs @ ys) mem"
  by (simp add: memcpy_at_def ac_simps)

lemma take_memcpy_at [simp]: "off \<le> length mem \<Longrightarrow> take off (memcpy_at off src mem) = take off mem"
  by (simp add: memcpy_at_def)

lemma drop_memcpy_at [simp]: "off \<le> length mem \<Longrightarrow> drop off (memcpy_at off src mem) = src @ drop (off + length src) mem"
  by (simp add: memcpy_at_def)

lemma length_silc_buffer_data [simp]:
  "buffer_wf sb \<Longrightarrow> length (silc_buffer_data sb) = silc_buffer_len sb"
  by (auto simp: silc_buffer_data_def silc_buffer_len_def buffer_wf_def)

lemma buffer_len_less: "buffer_wf sb \<Longrightarrow> silc_buffer_len sb < 2 ^ 32 - 1"
  by (auto simp: buffer_wf_def silc_buffer_len_def)

lemma set_wf [simp, intro]: "length d < 2 ^ 32 - 1 \<Longrightarrow> buffer_wf (silc_buffer_set d)"
  by (simp add: buffer_wf_def silc_buffer_set_def)

lemma set_data [simp]: "silc_buffer_data (silc_buffer_set d) = d"
  by (simp add: silc_buffer_data_def silc_buffer_set_def silc_buffer_len_def)

lemma set_len [simp]: "silc_buffer_len (silc_buffer_set d) = length d"
  by (simp add: silc_buffer_set_def silc_buffer_len_def)

lemma pull_wf [simp, intro]: "buffer_wf sb \<Longrightarrow> buffer_wf (buf_pull sb n)"
  by (auto simp: buffer_wf_def silc_buffer_pull_def silc_buffer_len_def)

lemma push_wf [simp, intro]: "buffer_wf sb \<Longrightarrow> buffer_wf (buf_push sb n)"
  by (auto simp: buffer_wf_def silc_buffer_push_def)

lemma pull_tail_wf [simp, intro]: "buffer_wf sb \<Longrightarrow> buffer_wf (snd (silc_buffer_pull_tail sb n))"
  by (auto simp: buffer_wf_def silc_buffer_pull_tail_def silc_buffer_taillen_def)

lemma push_tail_wf [simp, intro]: "buffer_wf sb \<Longrightarrow> buffer_wf (snd (silc_buffer_push_tail sb n))"
  by (auto simp: buffer_wf_def silc_buffer_push_tail_def)

lemma put_wf [simp, intro]: "buffer_wf sb \<Longrightarrow> buffer_wf (buf_put sb d n)"
  by (auto simp: buffer_wf_def silc_buffer_put_def silc_buffer_len_def)

lemma put_head_wf [simp, intro]: "buffer_wf sb \<Longrightarrow> buffer_wf (snd (silc_buffer_put_head sb d n))"
  by (auto simp: buffer_wf_def silc_buffer_put_head_def silc_buffer_headlen_def)

lemma put_tail_wf [simp, intro]: "buffer_wf sb \<Longrightarrow> buffer_wf (snd (silc_buffer_put_tail sb d n))"
  by (auto simp: buffer_wf_def silc_buffer_put_tail_def silc_buffer_taillen_def)

lemma pull_len [simp]:
  "n \<le> silc_buffer_len sb \<Longrightarrow> silc_buffer_len (buf_pull sb n) = silc_buffer_len sb - n"
  by (simp add: silc_buffer_pull_def silc_buffer_len_def)

lemma pull_data [simp]:
  "buffer_wf sb \<Longrightarrow> n \<le> silc_buffer_len sb \<Longrightarrow>
    silc_buffer_data (buf_pull sb n) = drop n (silc_buffer_data sb)"
  by (simp add: silc_buffer_pull_def silc_buffer_data_def silc_buffer_len_def drop_take add.commute)

lemma push_pull [simp]: "n \<le> silc_buffer_len sb \<Longrightarrow> buf_push (buf_pull sb n) n = sb"
  by (simp add: silc_buffer_pull_def silc_buffer_push_def)

lemma pull_pull:
  "m + n \<le> silc_buffer_len sb \<Longrightarrow> buf_pull (buf_pull sb m) n = buf_pull sb (m + n)"
  by (auto simp: silc_buffer_pull_def silc_buffer_len_def)

lemma pull_bdata: "n \<le> silc_buffer_len sb \<Longrightarrow> bdata (buf_pull sb n) = bdata sb + n"
  by (simp add: silc_buffer_pull_def)

lemma pull_frame [simp]: "bmem (buf_pull sb n) = bmem sb" "btail (buf_pull sb n) = btail sb"
  by (simp_all add: silc_buffer_pull_def)

lemma put_data:
  assumes "buffer_wf sb" "n \<le> silc_buffer_len sb" "n \<le> length d"
  shows "silc_buffer_data (buf_put sb d n) = take n d @ drop n (silc_buffer_data sb)"
proof -
  have len: "silc_buffer_len (buf_put sb d n) = silc_buffer_len sb"
    by (simp add: silc_buffer_put_def silc_buffer_len_def)
  have off: "bdata sb \<le> length (bmem sb)"
    using assms(1) by (auto simp: buffer_wf_def)
  have "silc_buffer_data (buf_put sb d n) =
      take (silc_buffer_len sb) (drop (bdata sb) (memcpy_at (bdata sb) (take n d) (bmem sb)))"
    using assms(2) unfolding silc_buffer_data_def len by (simp add: silc_buffer_put_def)
  also have "\<dots> = take n d @ take (silc_buffer_len sb - n) (drop (bdata sb + n) (bmem sb))"
    using assms(2,3) off by (simp add: min_def)
  finally show ?thesis
    by (simp add: silc_buffer_data_def drop_take add.commute)
qed

lemma alloc_size_ok [simp]:
  "n < SILC_MAX_ALLOC \<Longrightarrow>
    silc_buffer_alloc_size n = Some \<lparr>bmem = replicate n 0, bdata = 0, btail = n\<rparr>"
  by (auto simp: silc_buffer_alloc_size_def silc_buffer_alloc_def silc_calloc_ok_def
      silc_buffer_pull_tail_def silc_buffer_taillen_def)

lemma alloc_size_fail: "n \<ge> SILC_MAX_ALLOC \<Longrightarrow> silc_buffer_alloc_size n = None"
  by (simp add: silc_buffer_alloc_size_def silc_buffer_alloc_def silc_calloc_ok_def
      SILC_MAX_ALLOC_def)

lemma enlarge_eq:
  assumes wf: "buffer_wf sb" and small: "bdata sb + n < SILC_MAX_ALLOC"
  shows "silc_buffer_enlarge junk sb n =
    (True, sb\<lparr>bmem := bmem sb @ map junk [length (bmem sb)..<bdata sb + n],
             btail := max (btail sb) (bdata sb + n)\<rparr>)"
proof -
  have le: "bdata sb \<le> btail sb" "btail sb \<le> length (bmem sb)"
    using wf by (auto simp: buffer_wf_def)
  consider "n \<le> btail sb - bdata sb"
    | "n > btail sb - bdata sb" "bdata sb + n \<le> length (bmem sb)"
    | "bdata sb + n > length (bmem sb)"
    by linarith
  then show ?thesis
  proof cases
    case 1
    then have "bdata sb + n \<le> btail sb" using le by linarith
    with 1 le show ?thesis
      by (simp add: silc_buffer_enlarge_def silc_buffer_len_def max_def)
  next
    case 2
    then have "btail sb < bdata sb + n" "\<not> length (bmem sb) - bdata sb < n" using le by linarith+
    with 2 le show ?thesis
      by (simp add: silc_buffer_enlarge_def silc_buffer_len_def silc_buffer_taillen_def
          silc_buffer_pull_tail_def max_def)
  next
    case 3
    then have gt: "btail sb < bdata sb + n" "\<not> n \<le> btail sb - bdata sb" using le by linarith+
    have sum: "length (bmem sb) + (n - (length (bmem sb) - btail sb) - (btail sb - bdata sb)) =
        bdata sb + n" using 3 le by linarith
    have "(bdata sb + n) mod 2 ^ 32 = bdata sb + n"
      using small by (simp add: SILC_MAX_ALLOC_def)
    with 3 le gt sum small show ?thesis
      by (simp add: silc_buffer_enlarge_def silc_buffer_len_def silc_buffer_taillen_def
          silc_buffer_truelen_def silc_buffer_realloc_def silc_buffer_pull_tail_def max_def
          add.commute [of "bdata sb" n])
  qed
qed

section \<open>The cursor contract\<close>

text \<open>
  What the formatting and payload code relies on: a buffer is a cursor over a byte string that
  \<open>pull\<close> advances and \<open>push\<close> takes back.  A series of pulls followed by one push of the sum
  restores the buffer, which is how every parser leaves the buffer it was given.
\<close>

locale byte_cursor =
  fixes wf :: "'b \<Rightarrow> bool"
    and content :: "'b \<Rightarrow> byte list"
    and pull :: "'b \<Rightarrow> nat \<Rightarrow> 'b"
    and push :: "'b \<Rightarrow> nat \<Rightarrow> 'b"
  assumes wf_pull: "wf b \<Longrightarrow> wf (pull b n)"
    and content_pull: "wf b \<Longrightarrow> n \<le> length (content b) \<Longrightarrow> content (pull b n) = drop n (content b)"
    and pull_add: "wf b \<Longrightarrow> m + n \<le> length (content b) \<Longrightarrow> pull (pull b m) n = pull b (m + n)"
    and push_back: "wf b \<Longrightarrow> n \<le> length (content b) \<Longrightarrow> push (pull b n) n = b"
    and pull_zero: "wf b \<Longrightarrow> pull b 0 = b"
begin

lemma pulls_eq:
  "wf b \<Longrightarrow> sum_list ns \<le> length (content b) \<Longrightarrow> foldl pull b ns = pull b (sum_list ns)"
proof (induction ns arbitrary: b)
  case Nil
  then show ?case by (simp add: pull_zero)
next
  case (Cons n ns)
  then have "sum_list ns \<le> length (content (pull b n))"
    by (simp add: content_pull)
  with Cons show ?case
    by (simp add: wf_pull pull_add)
qed

lemma pulls_restore:
  "wf b \<Longrightarrow> sum_list ns \<le> length (content b) \<Longrightarrow> push (foldl pull b ns) (sum_list ns) = b"
  by (simp add: pulls_eq push_back)

lemma pulls_content:
  "wf b \<Longrightarrow> sum_list ns \<le> length (content b) \<Longrightarrow>
    content (foldl pull b ns) = drop (sum_list ns) (content b)"
  by (simp add: pulls_eq content_pull)

end

interpretation bc: byte_cursor buffer_wf silc_buffer_data
  "\<lambda>sb n. buf_pull sb n" "\<lambda>sb n. buf_push sb n"
proof unfold_locales
  fix b :: silc_buffer and m n :: nat
  assume wf: "buffer_wf b"
  show "buffer_wf (buf_pull b n)" using wf by simp
  show "n \<le> length (silc_buffer_data b) \<Longrightarrow>
      silc_buffer_data (buf_pull b n) = drop n (silc_buffer_data b)"
    using wf by simp
  show "m + n \<le> length (silc_buffer_data b) \<Longrightarrow> buf_pull (buf_pull b m) n = buf_pull b (m + n)"
    using wf by (simp add: pull_pull)
  show "n \<le> length (silc_buffer_data b) \<Longrightarrow> buf_push (buf_pull b n) n = b"
    using wf by simp
  show "buf_pull b 0 = b" by (simp add: silc_buffer_pull_def)
qed

end
