(* ===== verification/Silc_Buffmt.thy ===== *)
theory Silc_Buffmt
  imports Silc_Buffer
begin

text \<open>
  Formatting and unformatting of buffers, \<^verbatim>\<open>lib/silcutil/silcbuffmt.c\<close>.  The variable
  argument list up to \<open>SILC_PARAM_END\<close> is a list of parameters.  A data pointer is the block
  it points to (\<open>None\<close> for NULL) and a callback of \<open>SILC_PARAM_FUNC\<close> is a function on the
  buffer that returns its length or \<open>-1\<close>.  The stack variants differ only in the allocator.
  The accumulated length is an \<open>int\<close> that the code converts to an unsigned 32-bit value when
  it moves the buffer back.
\<close>

section \<open>Formatting\<close>

datatype fmt_param =
    SILC_PARAM_FUNC "silc_buffer \<Rightarrow> int \<times> silc_buffer"
  | SILC_PARAM_STRING "byte list option"        \<comment> \<open>the six NUL-terminated string types\<close>
  | SILC_PARAM_DATA "byte list option" u32      \<comment> \<open>the ten types of data and length\<close>
  | SILC_PARAM_UI8_CHAR u8
  | SILC_PARAM_UI16_SHORT u16
  | SILC_PARAM_UI32_INT u32
  | SILC_PARAM_UI64_INT u64
  | SILC_PARAM_SI8_CHAR "8 word"
  | SILC_PARAM_SI16_SHORT "16 word"
  | SILC_PARAM_SI32_INT "32 word"
  | SILC_PARAM_SI64_INT "64 word"
  | SILC_PARAM_BUFFER "silc_buffer option"
  | SILC_PARAM_OFFSET int
  | SILC_PARAM_ADVANCE
  | SILC_PARAM_BAD                              \<comment> \<open>a value that is not a parameter type\<close>

text \<open>Conversion of a C \<open>int\<close> to \<open>SilcUInt32\<close>.\<close>

definition to_u32 :: "int \<Rightarrow> nat" where
  "to_u32 i = nat (i mod 2 ^ 32)"

definition strlen :: "byte list \<Rightarrow> nat" where
  "strlen x = length (takeWhile (\<lambda>b. b \<noteq> 0) x)"

text \<open>
  The body shared by the types that copy bytes: \<open>FORMAT_HAS_SPACE\<close>, \<open>silc_buffer_put\<close> and
  \<open>silc_buffer_pull\<close>; \<open>None\<close> is the jump to \<open>fail\<close>.
\<close>

definition fmt_put ::
  "(nat \<Rightarrow> byte) \<Rightarrow> byte list \<Rightarrow> nat \<Rightarrow> silc_buffer \<Rightarrow> int \<Rightarrow> bool \<times> silc_buffer \<times> int" where
  "fmt_put junk x n dst flen =
     (case silc_buffer_enlarge junk dst n of
        (False, dst') \<Rightarrow> (False, dst', flen)
      | (True, dst') \<Rightarrow> (True, buf_pull (buf_put dst' x n) n, flen + int n))"

fun fmt_step ::
  "(nat \<Rightarrow> byte) \<Rightarrow> fmt_param \<Rightarrow> silc_buffer \<Rightarrow> int \<Rightarrow> bool \<times> silc_buffer \<times> int" where
  "fmt_step junk (SILC_PARAM_FUNC func) dst flen =
     (case func dst of (tmp_len, dst') \<Rightarrow>
        if tmp_len < 0 then (False, dst', flen)
        else if tmp_len \<noteq> 0 then (True, buf_pull dst' (nat tmp_len), flen + tmp_len)
        else (True, dst', flen))"
| "fmt_step junk (SILC_PARAM_STRING xo) dst flen =
     (case xo of None \<Rightarrow> (True, dst, flen)
      | Some x \<Rightarrow> if strlen x \<noteq> 0 then fmt_put junk x (strlen x) dst flen else (True, dst, flen))"
| "fmt_step junk (SILC_PARAM_DATA xo n) dst flen =
     (case xo of None \<Rightarrow> (True, dst, flen)
      | Some x \<Rightarrow> if n \<noteq> 0 then fmt_put junk x (unat n) dst flen else (True, dst, flen))"
| "fmt_step junk (SILC_PARAM_UI8_CHAR x) dst flen = fmt_put junk [x] 1 dst flen"
| "fmt_step junk (SILC_PARAM_UI16_SHORT x) dst flen = fmt_put junk (SILC_PUT16_MSB x) 2 dst flen"
| "fmt_step junk (SILC_PARAM_UI32_INT x) dst flen = fmt_put junk (SILC_PUT32_MSB x) 4 dst flen"
| "fmt_step junk (SILC_PARAM_UI64_INT x) dst flen = fmt_put junk (SILC_PUT64_MSB x) 8 dst flen"
| "fmt_step junk (SILC_PARAM_SI8_CHAR x) dst flen = fmt_put junk [x] 1 dst flen"
| "fmt_step junk (SILC_PARAM_SI16_SHORT x) dst flen = fmt_put junk (SILC_PUT16_MSB x) 2 dst flen"
| "fmt_step junk (SILC_PARAM_SI32_INT x) dst flen = fmt_put junk (SILC_PUT32_MSB x) 4 dst flen"
| "fmt_step junk (SILC_PARAM_SI64_INT x) dst flen = fmt_put junk (SILC_PUT64_MSB x) 8 dst flen"
| "fmt_step junk (SILC_PARAM_BUFFER xo) dst flen =
     (case xo of None \<Rightarrow> (True, dst, flen)
      | Some x \<Rightarrow>
          if silc_buffer_len x \<noteq> 0 then
            (case silc_buffer_enlarge junk dst ((silc_buffer_len x + 4) mod 2 ^ 32) of
               (False, dst') \<Rightarrow> (False, dst', flen)
             | (True, dst') \<Rightarrow>
                 (let xf = SILC_PUT32_MSB (of_nat (silc_buffer_len x));
                      d1 = buf_pull (buf_put dst' xf 4) 4;
                      d2 = buf_pull (buf_put d1 (silc_buffer_data x) (silc_buffer_len x))
                             (silc_buffer_len x)
                  in (True, d2, flen + int ((silc_buffer_len x + 4) mod 2 ^ 32))))
          else (True, dst, flen))"
| "fmt_step junk (SILC_PARAM_OFFSET offst) dst flen =
     (if offst = 0 then (True, dst, flen)
      else if offst > 1 then
        (if offst > int (silc_buffer_len dst) then (False, dst, flen)
         else (True, buf_pull dst (nat offst), flen + offst))
      else (True, buf_push dst (to_u32 (- offst)), flen + - offst))"
| "fmt_step junk SILC_PARAM_ADVANCE dst flen = (True, dst, flen)"
| "fmt_step junk SILC_PARAM_BAD dst flen = (False, dst, flen)"

fun is_advance :: "fmt_param \<Rightarrow> bool" where
  "is_advance SILC_PARAM_ADVANCE = True"
| "is_advance _ = False"

text \<open>The loop over the parameters; the flag \<open>advance\<close> is set by \<open>SILC_PARAM_ADVANCE\<close>.\<close>

fun fmt_loop ::
  "(nat \<Rightarrow> byte) \<Rightarrow> fmt_param list \<Rightarrow> silc_buffer \<Rightarrow> int \<Rightarrow> bool
     \<Rightarrow> bool \<times> silc_buffer \<times> int \<times> bool" where
  "fmt_loop junk [] dst flen advance = (True, dst, flen, advance)"
| "fmt_loop junk (p # ps) dst flen advance =
     (case fmt_step junk p dst flen of
        (False, dst', flen') \<Rightarrow> (False, dst', flen', advance)
      | (True, dst', flen') \<Rightarrow>
          fmt_loop junk ps dst' flen' (advance \<or> is_advance p))"

definition silc_buffer_sformat_vp ::
  "(nat \<Rightarrow> byte) \<Rightarrow> silc_buffer \<Rightarrow> fmt_param list \<Rightarrow> int \<times> silc_buffer" where
  "silc_buffer_sformat_vp junk dst ap =
     (case fmt_loop junk ap dst 0 False of
        (ok, dst', flen, advance) \<Rightarrow>
          (if ok then flen else -1,
           if \<not> advance then buf_push dst' (to_u32 flen) else dst'))"

definition silc_buffer_format ::
  "(nat \<Rightarrow> byte) \<Rightarrow> silc_buffer \<Rightarrow> fmt_param list \<Rightarrow> int \<times> silc_buffer" where
  "silc_buffer_format junk dst ap = silc_buffer_sformat_vp junk dst ap"

section \<open>Unformatting\<close>

text \<open>
  A parameter names what to read; the value that the C code stores through the pointer it was
  given is an element of the result.  A pointer that is not assigned is \<open>None\<close>.
\<close>

datatype unfmt_param =
    U_FUNC "silc_buffer \<Rightarrow> int \<times> silc_buffer"
  | U_DATA u32 | U_DATA_ALLOC u32
  | U_UI8_CHAR | U_UI16_SHORT | U_UI32_INT | U_UI64_INT
  | U_SI8_CHAR | U_SI16_SHORT | U_SI32_INT | U_SI64_INT
  | U_UI8_STRING | U_UI16_STRING | U_UI32_STRING
  | U_UI8_STRING_ALLOC | U_UI16_STRING_ALLOC | U_UI32_STRING_ALLOC
  | U_UI8_NSTRING | U_UI16_NSTRING | U_UI32_NSTRING
  | U_UI8_NSTRING_ALLOC | U_UI16_NSTRING_ALLOC | U_UI32_NSTRING_ALLOC
  | U_BUFFER | U_BUFFER_ALLOC silc_buffer
  | U_OFFSET int | U_ADVANCE | U_BAD

datatype uval =
    VU8 u8 | VU16 u16 | VU32 u32 | VU64 u64
  | VData "byte list option"
  | VNString "byte list option" nat
  | VBuffer silc_buffer

text \<open>
  One step goes on, jumps to \<open>fail\<close>, or has no defined behaviour: the case of
  \<open>SILC_PARAM_FUNC\<close> has no \<open>break\<close> and falls into the case of \<open>SILC_PARAM_DATA\<close>, which
  takes the next parameter's type from the argument list as if it were a pointer.
\<close>

datatype unf_result = Unf_ok silc_buffer "uval list" | Unf_fail silc_buffer | Unf_undefined

definition unformat_has_space :: "silc_buffer \<Rightarrow> nat \<Rightarrow> bool" where
  "unformat_has_space b req \<longleftrightarrow> \<not> req > silc_buffer_len b \<and> \<not> (req + 1) mod 2 ^ 32 \<le> 0"

text \<open>\<open>silc_scalloc (len + 1)\<close> and \<open>memcpy\<close>; nothing is allocated for an empty block.\<close>

definition alloc_copy :: "byte list \<Rightarrow> nat \<Rightarrow> byte list option" where
  "alloc_copy d n = (if n \<noteq> 0 \<and> silc_calloc_ok (n + 1) 1 then Some (take n d) else None)"

definition unf_fixed :: "nat \<Rightarrow> (byte list \<Rightarrow> uval) \<Rightarrow> silc_buffer \<Rightarrow> unf_result" where
  "unf_fixed n get src =
     (if \<not> unformat_has_space src n then Unf_fail src
      else Unf_ok (buf_pull src n) [get (silc_buffer_data src)])"

definition unf_counted ::
  "nat \<Rightarrow> (byte list \<Rightarrow> nat) \<Rightarrow> (byte list \<Rightarrow> nat \<Rightarrow> uval) \<Rightarrow> silc_buffer \<Rightarrow> unf_result" where
  "unf_counted w getlen get src =
     (if \<not> unformat_has_space src w then Unf_fail src
      else let len2 = getlen (silc_buffer_data src); src' = buf_pull src w
           in if \<not> unformat_has_space src' len2 then Unf_fail src'
              else Unf_ok (buf_pull src' len2) [get (silc_buffer_data src') len2])"

abbreviation len8 :: "byte list \<Rightarrow> nat" where "len8 d \<equiv> unat (d ! 0)"
abbreviation len16 :: "byte list \<Rightarrow> nat" where "len16 d \<equiv> unat (SILC_GET16_MSB d)"
abbreviation len32 :: "byte list \<Rightarrow> nat" where "len32 d \<equiv> unat (SILC_GET32_MSB d)"

fun unf_step :: "(nat \<Rightarrow> byte) \<Rightarrow> unfmt_param \<Rightarrow> silc_buffer \<Rightarrow> unf_result" where
  "unf_step junk (U_FUNC func) src =
     (case func src of (tmp_len, src') \<Rightarrow>
        if tmp_len < 0 then Unf_fail src'
        else if tmp_len \<noteq> 0 \<and> \<not> unformat_has_space src' (nat tmp_len) then Unf_fail src'
        else Unf_undefined)"
| "unf_step junk (U_DATA n) src =
     unf_fixed (unat n) (\<lambda>d. VData (if n \<noteq> 0 then Some (take (unat n) d) else None)) src"
| "unf_step junk (U_DATA_ALLOC n) src = unf_fixed (unat n) (\<lambda>d. VData (alloc_copy d (unat n))) src"
| "unf_step junk U_UI8_CHAR src = unf_fixed 1 (\<lambda>d. VU8 (d ! 0)) src"
| "unf_step junk U_UI16_SHORT src = unf_fixed 2 (\<lambda>d. VU16 (ucast (SILC_GET16_MSB d))) src"
| "unf_step junk U_UI32_INT src = unf_fixed 4 (\<lambda>d. VU32 (SILC_GET32_MSB d)) src"
| "unf_step junk U_UI64_INT src = unf_fixed 8 (\<lambda>d. VU64 (SILC_GET64_MSB d)) src"
| "unf_step junk U_SI8_CHAR src = unf_fixed 1 (\<lambda>d. VU8 (d ! 0)) src"
| "unf_step junk U_SI16_SHORT src = unf_fixed 2 (\<lambda>d. VU16 (ucast (SILC_GET16_MSB d))) src"
| "unf_step junk U_SI32_INT src = unf_fixed 4 (\<lambda>d. VU32 (SILC_GET32_MSB d)) src"
| "unf_step junk U_SI64_INT src = unf_fixed 8 (\<lambda>d. VU64 (SILC_GET64_MSB d)) src"
| "unf_step junk U_UI8_STRING src = unf_counted 1 len8 (\<lambda>d n. VData (Some (take n d))) src"
| "unf_step junk U_UI16_STRING src = unf_counted 2 len16 (\<lambda>d n. VData (Some (take n d))) src"
| "unf_step junk U_UI32_STRING src = unf_counted 4 len32 (\<lambda>d n. VData (Some (take n d))) src"
| "unf_step junk U_UI8_STRING_ALLOC src = unf_counted 1 len8 (\<lambda>d n. VData (alloc_copy d n)) src"
| "unf_step junk U_UI16_STRING_ALLOC src = unf_counted 2 len16 (\<lambda>d n. VData (alloc_copy d n)) src"
| "unf_step junk U_UI32_STRING_ALLOC src = unf_counted 4 len32 (\<lambda>d n. VData (alloc_copy d n)) src"
| "unf_step junk U_UI8_NSTRING src = unf_counted 1 len8 (\<lambda>d n. VNString (Some (take n d)) n) src"
| "unf_step junk U_UI16_NSTRING src = unf_counted 2 len16 (\<lambda>d n. VNString (Some (take n d)) n) src"
| "unf_step junk U_UI32_NSTRING src = unf_counted 4 len32 (\<lambda>d n. VNString (Some (take n d)) n) src"
| "unf_step junk U_UI8_NSTRING_ALLOC src = unf_counted 1 len8 (\<lambda>d n. VNString (alloc_copy d n) n) src"
| "unf_step junk U_UI16_NSTRING_ALLOC src = unf_counted 2 len16 (\<lambda>d n. VNString (alloc_copy d n) n) src"
| "unf_step junk U_UI32_NSTRING_ALLOC src = Unf_fail src"  \<comment> \<open>no such case: the default\<close>
| "unf_step junk U_BUFFER src =
     unf_counted 4 len32 (\<lambda>d n. VBuffer (silc_buffer_set (take n d))) src"
| "unf_step junk (U_BUFFER_ALLOC x) src =
     (if \<not> unformat_has_space src 4 then Unf_fail src
      else let len2 = len32 (silc_buffer_data src); src' = buf_pull src 4
           in if \<not> unformat_has_space src' len2 then Unf_fail src'
              else (case silc_buffer_sformat_vp junk x
                           [SILC_PARAM_DATA (Some (silc_buffer_data src')) (of_nat len2)] of
                      (ret, x') \<Rightarrow>
                        if ret < 0 then Unf_fail src'
                        else Unf_ok (buf_pull src' len2) [VBuffer x']))"
| "unf_step junk (U_OFFSET offst) src =
     (if offst = 0 then Unf_ok src []
      else if offst > 1 then
        (if \<not> unformat_has_space src (nat offst) then Unf_fail src
         else Unf_ok (buf_pull src (nat offst)) [])
      else Unf_ok (buf_push src (to_u32 (- offst))) [])"
| "unf_step junk U_ADVANCE src = Unf_ok src []"
| "unf_step junk U_BAD src = Unf_fail src"

fun is_unf_advance :: "unfmt_param \<Rightarrow> bool" where
  "is_unf_advance U_ADVANCE = True"
| "is_unf_advance _ = False"

fun unf_loop ::
  "(nat \<Rightarrow> byte) \<Rightarrow> unfmt_param list \<Rightarrow> silc_buffer \<Rightarrow> bool \<Rightarrow> unf_result \<times> bool" where
  "unf_loop junk [] src advance = (Unf_ok src [], advance)"
| "unf_loop junk (p # ps) src advance =
     (case unf_step junk p src of
        Unf_ok src' vs \<Rightarrow>
          (case unf_loop junk ps src' (advance \<or> is_unf_advance p) of
             (Unf_ok src'' vs', adv) \<Rightarrow> (Unf_ok src'' (vs @ vs'), adv)
           | (r, adv) \<Rightarrow> (r, adv))
      | r \<Rightarrow> (r, advance))"

text \<open>
  The result is the returned length (\<open>-1\<close> on failure), the values and the buffer; \<open>None\<close>
  stands for undefined behaviour.  With \<open>advance\<close> the length is never computed and 0 is
  returned.
\<close>

definition silc_buffer_sunformat_vp ::
  "(nat \<Rightarrow> byte) \<Rightarrow> silc_buffer \<Rightarrow> unfmt_param list \<Rightarrow> (int \<times> uval list \<times> silc_buffer) option" where
  "silc_buffer_sunformat_vp junk src ap =
     (let start_ptr = bdata src in
      case unf_loop junk ap src False of
        (Unf_fail src', _) \<Rightarrow>
          (let len = int (bdata src') - int start_ptr
           in Some (-1, [], buf_push src' (to_u32 len)))
      | (Unf_ok src' vs, advance) \<Rightarrow>
          (if \<not> advance then
             (let len = int (bdata src') - int start_ptr
              in Some (len, vs, buf_push src' (to_u32 len)))
           else Some (0, vs, src'))
      | (Unf_undefined, _) \<Rightarrow> None)"

definition silc_buffer_unformat ::
  "(nat \<Rightarrow> byte) \<Rightarrow> silc_buffer \<Rightarrow> unfmt_param list \<Rightarrow> (int \<times> uval list \<times> silc_buffer) option" where
  "silc_buffer_unformat junk src ap = silc_buffer_sunformat_vp junk src ap"

section \<open>String formatting\<close>

text \<open>
  \<open>silc_buffer_strformat\<close> appends strings after the whole block, whatever \<open>tail\<close> is; a NULL
  string is skipped.  The terminating NUL it writes lies outside the buffer.
\<close>

fun strformat_loop :: "byte list \<Rightarrow> byte list option list \<Rightarrow> byte list option" where
  "strformat_loop mem [] = Some mem"
| "strformat_loop mem (None # ss) = strformat_loop mem ss"
| "strformat_loop mem (Some s # ss) =
     (if strlen s + length mem + 1 \<ge> SILC_MAX_ALLOC then None
      else strformat_loop (mem @ take (strlen s) s) ss)"

definition silc_buffer_strformat ::
  "silc_buffer \<Rightarrow> byte list option list \<Rightarrow> (int \<times> silc_buffer) option" where
  "silc_buffer_strformat dst ss =
     (case strformat_loop (bmem dst) ss of
        None \<Rightarrow> None
      | Some mem \<Rightarrow> Some (int (length mem), dst\<lparr>bmem := mem, btail := length mem\<rparr>))"

section \<open>Formatting writes the concatenated bytes\<close>

text \<open>The bytes a parameter contributes, for the parameters that only append data.\<close>

fun fmt_bytes :: "fmt_param \<Rightarrow> byte list" where
  "fmt_bytes (SILC_PARAM_STRING (Some x)) = take (strlen x) x"
| "fmt_bytes (SILC_PARAM_DATA (Some x) n) = take (unat n) x"
| "fmt_bytes (SILC_PARAM_UI8_CHAR x) = [x]"
| "fmt_bytes (SILC_PARAM_UI16_SHORT x) = SILC_PUT16_MSB x"
| "fmt_bytes (SILC_PARAM_UI32_INT x) = SILC_PUT32_MSB x"
| "fmt_bytes (SILC_PARAM_UI64_INT x) = SILC_PUT64_MSB x"
| "fmt_bytes (SILC_PARAM_SI8_CHAR x) = [x]"
| "fmt_bytes (SILC_PARAM_SI16_SHORT x) = SILC_PUT16_MSB x"
| "fmt_bytes (SILC_PARAM_SI32_INT x) = SILC_PUT32_MSB x"
| "fmt_bytes (SILC_PARAM_SI64_INT x) = SILC_PUT64_MSB x"
| "fmt_bytes (SILC_PARAM_BUFFER (Some x)) =
     (if silc_buffer_len x = 0 then []
      else SILC_PUT32_MSB (of_nat (silc_buffer_len x)) @ silc_buffer_data x)"
| "fmt_bytes _ = []"

text \<open>Such a parameter is plain when the block it names has the length it names.\<close>

fun fmt_plain :: "fmt_param \<Rightarrow> bool" where
  "fmt_plain (SILC_PARAM_DATA (Some x) n) \<longleftrightarrow> unat n \<le> length x"
| "fmt_plain (SILC_PARAM_BUFFER (Some x)) \<longleftrightarrow> buffer_wf x \<and> silc_buffer_len x + 4 < 2 ^ 32"
| "fmt_plain (SILC_PARAM_FUNC _) \<longleftrightarrow> False"
| "fmt_plain (SILC_PARAM_OFFSET _) \<longleftrightarrow> False"
| "fmt_plain SILC_PARAM_ADVANCE \<longleftrightarrow> False"
| "fmt_plain SILC_PARAM_BAD \<longleftrightarrow> False"
| "fmt_plain _ \<longleftrightarrow> True"

text \<open>Writing a block at the cursor and moving the cursor behind it.\<close>

definition buf_write :: "silc_buffer \<Rightarrow> byte list \<Rightarrow> silc_buffer" where
  "buf_write sb xs =
     sb\<lparr>bmem := memcpy_at (bdata sb) xs (bmem sb), btail := max (btail sb) (bdata sb + length xs),
        bdata := bdata sb + length xs\<rparr>"

lemma memcpy_at_beyond:
  "off \<le> length mem \<Longrightarrow> memcpy_at off xs (mem @ map junk [length mem..<off + length xs]) = memcpy_at off xs mem"
  by (simp add: memcpy_at_def)

lemma memcpy_at_memcpy_at:
  "off \<le> length mem \<Longrightarrow>
    memcpy_at (off + length xs) ys (memcpy_at off xs mem) = memcpy_at off (xs @ ys) mem"
  by (simp add: memcpy_at_def ac_simps)

lemma length_memcpy_at_max:
  "off \<le> length mem \<Longrightarrow> length (memcpy_at off xs mem) = max (length mem) (off + length xs)"
  by (simp add: memcpy_at_def)

lemma buf_write_wf:
  "buffer_wf sb \<Longrightarrow> bdata sb + length xs < SILC_MAX_ALLOC \<Longrightarrow> buffer_wf (buf_write sb xs)"
  by (auto simp: buffer_wf_def buf_write_def length_memcpy_at_max SILC_MAX_ALLOC_def)

lemma buf_write_write:
  "buffer_wf sb \<Longrightarrow> buf_write (buf_write sb xs) ys = buf_write sb (xs @ ys)"
  by (auto simp: buffer_wf_def buf_write_def memcpy_at_memcpy_at add.assoc max_def)

lemma buf_write_Nil [simp]: "buffer_wf sb \<Longrightarrow> buf_write sb [] = sb"
  by (auto simp: buf_write_def buffer_wf_def max_def)

lemma bdata_buf_write [simp]: "bdata (buf_write sb xs) = bdata sb + length xs"
  by (simp add: buf_write_def)

lemma strlen_le: "strlen x \<le> length x"
  by (simp add: strlen_def length_takeWhile_le)

lemma put_pull_write:
  assumes "buffer_wf sb" "n \<le> silc_buffer_len sb" "n \<le> length x"
  shows "buf_pull (buf_put sb x n) n = buf_write sb (take n x)"
proof -
  have "max (btail sb) (bdata sb + n) = btail sb"
    using assms(1,2) by (auto simp: buffer_wf_def silc_buffer_len_def)
  moreover have "length (take n x) = n" using assms(3) by simp
  ultimately show ?thesis
    using assms(2) unfolding buf_write_def silc_buffer_put_def silc_buffer_pull_def
    by (simp add: silc_buffer_len_def)
qed

lemma enlarge_write:
  assumes wf: "buffer_wf sb" and small: "bdata sb + n < SILC_MAX_ALLOC"
  obtains sb' where "silc_buffer_enlarge junk sb n = (True, sb')" "buffer_wf sb'"
    "bdata sb' = bdata sb" "n \<le> silc_buffer_len sb'"
    "\<forall>xs. length xs = n \<longrightarrow> buf_write sb' xs = buf_write sb xs"
proof
  let ?sb = "sb\<lparr>bmem := bmem sb @ map junk [length (bmem sb)..<bdata sb + n],
             btail := max (btail sb) (bdata sb + n)\<rparr>"
  show "silc_buffer_enlarge junk sb n = (True, ?sb)"
    by (rule enlarge_eq [OF wf small])
  show "buffer_wf ?sb"
    using wf small by (auto simp: buffer_wf_def SILC_MAX_ALLOC_def)
  show "bdata ?sb = bdata sb" by simp
  show "n \<le> silc_buffer_len ?sb" by (simp add: silc_buffer_len_def)
  have "bdata sb \<le> length (bmem sb)" using wf by (auto simp: buffer_wf_def)
  then show "\<forall>xs. length xs = n \<longrightarrow> buf_write ?sb xs = buf_write sb xs"
    by (auto simp: buf_write_def memcpy_at_beyond)
qed

lemma fmt_put_eq:
  assumes "buffer_wf sb" "bdata sb + n < SILC_MAX_ALLOC" "n \<le> length x"
  shows "fmt_put junk x n sb flen = (True, buf_write sb (take n x), flen + int n)"
proof -
  obtain sb' where sb': "silc_buffer_enlarge junk sb n = (True, sb')" "buffer_wf sb'"
    "bdata sb' = bdata sb" "n \<le> silc_buffer_len sb'"
    "\<forall>xs. length xs = n \<longrightarrow> buf_write sb' xs = buf_write sb xs"
    using enlarge_write [OF assms(1,2), of junk] by blast
  have "buf_pull (buf_put sb' x n) n = buf_write sb (take n x)"
    using put_pull_write [OF sb'(2,4) assms(3)] sb'(5) assms(3) by simp
  then show ?thesis by (simp add: fmt_put_def sb'(1))
qed

lemma fmt_step_buffer:
  assumes "buffer_wf sb" "buffer_wf x" "silc_buffer_len x + 4 < 2 ^ 32" "silc_buffer_len x \<noteq> 0"
    "bdata sb + (silc_buffer_len x + 4) < SILC_MAX_ALLOC"
  shows "fmt_step junk (SILC_PARAM_BUFFER (Some x)) sb flen =
    (True, buf_write sb (fmt_bytes (SILC_PARAM_BUFFER (Some x))), flen + int (silc_buffer_len x + 4))"
proof -
  let ?n = "silc_buffer_len x" and ?xf = "SILC_PUT32_MSB (of_nat (silc_buffer_len x))"
  obtain sb' where sb': "silc_buffer_enlarge junk sb (?n + 4) = (True, sb')" "buffer_wf sb'"
    "bdata sb' = bdata sb" "?n + 4 \<le> silc_buffer_len sb'"
    "\<forall>xs. length xs = ?n + 4 \<longrightarrow> buf_write sb' xs = buf_write sb xs"
    using enlarge_write [OF assms(1,5), of junk] by blast
  have 1: "buf_pull (buf_put sb' ?xf 4) 4 = buf_write sb' ?xf"
    using put_pull_write [OF sb'(2), of 4 ?xf] sb'(4) by simp
  have wf1: "buffer_wf (buf_write sb' ?xf)"
    using sb'(2,3) assms(5) by (intro buf_write_wf) auto
  have "?n \<le> silc_buffer_len (buf_write sb' ?xf)"
    using sb'(4) by (simp add: buf_write_def silc_buffer_len_def)
  then have 2: "buf_pull (buf_put (buf_write sb' ?xf) (silc_buffer_data x) ?n) ?n =
      buf_write sb (?xf @ silc_buffer_data x)"
    using put_pull_write [OF wf1, of ?n "silc_buffer_data x"] assms(2)
      buf_write_write [OF sb'(2)] sb'(5) by simp
  have "(?n + 4) mod 2 ^ 32 = ?n + 4" using assms(3) by simp
  then show ?thesis
    using assms(4) sb'(1) by (simp add: Let_def 1 2 del: power_numeral)
qed

lemma fmt_step_plain:
  assumes "buffer_wf sb" "fmt_plain p" "bdata sb + length (fmt_bytes p) < SILC_MAX_ALLOC"
  shows "fmt_step junk p sb flen =
    (True, buf_write sb (fmt_bytes p), flen + int (length (fmt_bytes p)))"
proof (cases p)
  case (SILC_PARAM_STRING xo)
  then show ?thesis
    using assms by (cases xo) (auto simp: fmt_put_eq strlen_le min_absorb2)
next
  case (SILC_PARAM_DATA xo n)
  then show ?thesis
    using assms by (cases xo) (auto simp: fmt_put_eq min_absorb2)
next
  case (SILC_PARAM_BUFFER xo)
  then show ?thesis
    using assms fmt_step_buffer [of sb _ junk flen]
    by (cases xo) (auto simp del: fmt_step.simps simp: fmt_step.simps(12) split: if_splits)
qed (use assms in \<open>simp_all add: fmt_put_eq\<close>)

lemma plain_not_advance: "fmt_plain p \<Longrightarrow> \<not> is_advance p"
  by (cases p) auto

lemma fmt_loop_plain:
  "buffer_wf sb \<Longrightarrow> \<forall>p \<in> set ps. fmt_plain p \<Longrightarrow>
    bdata sb + length (concat (map fmt_bytes ps)) < SILC_MAX_ALLOC \<Longrightarrow>
    fmt_loop junk ps sb flen adv =
      (True, buf_write sb (concat (map fmt_bytes ps)),
       flen + int (length (concat (map fmt_bytes ps))), adv)"
proof (induction ps arbitrary: sb flen)
  case Nil
  then show ?case by simp
next
  case (Cons p ps)
  have small: "bdata sb + length (fmt_bytes p) < SILC_MAX_ALLOC" using Cons.prems(3) by simp
  have wf: "buffer_wf (buf_write sb (fmt_bytes p))"
    by (rule buf_write_wf [OF Cons.prems(1) small])
  have step: "fmt_step junk p sb flen =
      (True, buf_write sb (fmt_bytes p), flen + int (length (fmt_bytes p)))"
    using Cons.prems small by (intro fmt_step_plain) auto
  show ?case
    using Cons.prems Cons.IH [OF wf, of "flen + int (length (fmt_bytes p))"]
    by (simp add: step plain_not_advance buf_write_write add.assoc)
qed

lemma to_u32_of_nat [simp]: "n < 2 ^ 32 \<Longrightarrow> to_u32 (int n) = n"
  by (simp add: to_u32_def flip: of_nat_power zmod_int)

text \<open>The main equation of formatting: it writes the bytes at \<open>data\<close> and moves back.\<close>

lemma format_plain:
  assumes "buffer_wf sb" "\<forall>p \<in> set ps. fmt_plain p"
    "xs = concat (map fmt_bytes ps)" "bdata sb + length xs < SILC_MAX_ALLOC"
  shows "silc_buffer_format junk sb ps =
    (int (length xs),
     sb\<lparr>bmem := memcpy_at (bdata sb) xs (bmem sb), btail := max (btail sb) (bdata sb + length xs)\<rparr>)"
proof -
  have "fmt_loop junk ps sb 0 False = (True, buf_write sb xs, int (length xs), False)"
    using fmt_loop_plain [OF assms(1,2), of junk 0 False] assms(3,4) by simp
  moreover have "length xs < 2 ^ 32"
    using assms(4) by (simp add: SILC_MAX_ALLOC_def)
  ultimately show ?thesis
    by (simp add: silc_buffer_format_def silc_buffer_sformat_vp_def silc_buffer_push_def buf_write_def
        del: power_numeral)
qed

section \<open>Unformatting is a parser on the bytes of the buffer\<close>

text \<open>
  For the parameters that only move forward, unformatting refines the following functions on
  byte strings: the values read and the number of bytes consumed, or failure.
\<close>

definition pfixed :: "nat \<Rightarrow> (byte list \<Rightarrow> uval) \<Rightarrow> byte list \<Rightarrow> (uval list \<times> nat) option" where
  "pfixed n get d = (if n \<le> length d then Some ([get d], n) else None)"

definition pcounted ::
  "nat \<Rightarrow> (byte list \<Rightarrow> nat) \<Rightarrow> (byte list \<Rightarrow> nat \<Rightarrow> uval) \<Rightarrow> byte list \<Rightarrow> (uval list \<times> nat) option" where
  "pcounted w getlen get d =
     (if w \<le> length d \<and> w + getlen d \<le> length d
      then Some ([get (drop w d) (getlen d)], w + getlen d) else None)"

fun unf_fwd :: "unfmt_param \<Rightarrow> bool" where
  "unf_fwd (U_FUNC _) = False"
| "unf_fwd (U_BUFFER_ALLOC _) = False"
| "unf_fwd (U_OFFSET n) = (n = 0 \<or> n > 1)"
| "unf_fwd U_ADVANCE = False"
| "unf_fwd _ = True"

fun bparse1 :: "unfmt_param \<Rightarrow> byte list \<Rightarrow> (uval list \<times> nat) option" where
  "bparse1 (U_DATA n) d =
     pfixed (unat n) (\<lambda>d. VData (if n \<noteq> 0 then Some (take (unat n) d) else None)) d"
| "bparse1 (U_DATA_ALLOC n) d = pfixed (unat n) (\<lambda>d. VData (alloc_copy d (unat n))) d"
| "bparse1 U_UI8_CHAR d = pfixed 1 (\<lambda>d. VU8 (d ! 0)) d"
| "bparse1 U_UI16_SHORT d = pfixed 2 (\<lambda>d. VU16 (ucast (SILC_GET16_MSB d))) d"
| "bparse1 U_UI32_INT d = pfixed 4 (\<lambda>d. VU32 (SILC_GET32_MSB d)) d"
| "bparse1 U_UI64_INT d = pfixed 8 (\<lambda>d. VU64 (SILC_GET64_MSB d)) d"
| "bparse1 U_SI8_CHAR d = pfixed 1 (\<lambda>d. VU8 (d ! 0)) d"
| "bparse1 U_SI16_SHORT d = pfixed 2 (\<lambda>d. VU16 (ucast (SILC_GET16_MSB d))) d"
| "bparse1 U_SI32_INT d = pfixed 4 (\<lambda>d. VU32 (SILC_GET32_MSB d)) d"
| "bparse1 U_SI64_INT d = pfixed 8 (\<lambda>d. VU64 (SILC_GET64_MSB d)) d"
| "bparse1 U_UI8_STRING d = pcounted 1 len8 (\<lambda>d n. VData (Some (take n d))) d"
| "bparse1 U_UI16_STRING d = pcounted 2 len16 (\<lambda>d n. VData (Some (take n d))) d"
| "bparse1 U_UI32_STRING d = pcounted 4 len32 (\<lambda>d n. VData (Some (take n d))) d"
| "bparse1 U_UI8_STRING_ALLOC d = pcounted 1 len8 (\<lambda>d n. VData (alloc_copy d n)) d"
| "bparse1 U_UI16_STRING_ALLOC d = pcounted 2 len16 (\<lambda>d n. VData (alloc_copy d n)) d"
| "bparse1 U_UI32_STRING_ALLOC d = pcounted 4 len32 (\<lambda>d n. VData (alloc_copy d n)) d"
| "bparse1 U_UI8_NSTRING d = pcounted 1 len8 (\<lambda>d n. VNString (Some (take n d)) n) d"
| "bparse1 U_UI16_NSTRING d = pcounted 2 len16 (\<lambda>d n. VNString (Some (take n d)) n) d"
| "bparse1 U_UI32_NSTRING d = pcounted 4 len32 (\<lambda>d n. VNString (Some (take n d)) n) d"
| "bparse1 U_UI8_NSTRING_ALLOC d = pcounted 1 len8 (\<lambda>d n. VNString (alloc_copy d n) n) d"
| "bparse1 U_UI16_NSTRING_ALLOC d = pcounted 2 len16 (\<lambda>d n. VNString (alloc_copy d n) n) d"
| "bparse1 U_BUFFER d = pcounted 4 len32 (\<lambda>d n. VBuffer (silc_buffer_set (take n d))) d"
| "bparse1 (U_OFFSET n) d = (if nat n \<le> length d then Some ([], nat n) else None)"
| "bparse1 _ d = None"

fun bparse :: "unfmt_param list \<Rightarrow> byte list \<Rightarrow> (uval list \<times> nat) option" where
  "bparse [] d = Some ([], 0)"
| "bparse (p # ps) d =
     (case bparse1 p d of None \<Rightarrow> None
      | Some (vs, n) \<Rightarrow>
          (case bparse ps (drop n d) of None \<Rightarrow> None
           | Some (vs', n') \<Rightarrow> Some (vs @ vs', n + n')))"

lemma has_space_iff [simp]:
  assumes "buffer_wf sb"
  shows "unformat_has_space sb n \<longleftrightarrow> n \<le> silc_buffer_len sb"
proof (cases "n \<le> silc_buffer_len sb")
  case True
  then have "n + 1 < 2 ^ 32" using buffer_len_less [OF assms] by simp
  with True show ?thesis by (simp add: unformat_has_space_def)
qed (simp add: unformat_has_space_def)

text \<open>What a step does on a buffer when its parser consumes \<open>n\<close> bytes or fails.\<close>

definition step_sim :: "(uval list \<times> nat) option \<Rightarrow> silc_buffer \<Rightarrow> unf_result \<Rightarrow> bool" where
  "step_sim r sb u =
     (case r of
        None \<Rightarrow> (\<exists>k \<le> silc_buffer_len sb. u = Unf_fail (buf_pull sb k))
      | Some (vs, n) \<Rightarrow> n \<le> silc_buffer_len sb \<and> u = Unf_ok (buf_pull sb n) vs)"

lemma pull_0 [simp]: "buf_pull sb 0 = sb"
  by (simp add: silc_buffer_pull_def)

lemma step_sim_fail: "step_sim None sb (Unf_fail sb)"
  unfolding step_sim_def by (auto intro: exI [of _ 0])

lemma unf_fixed_sim:
  "buffer_wf sb \<Longrightarrow> step_sim (pfixed n get (silc_buffer_data sb)) sb (unf_fixed n get sb)"
  by (auto simp: unf_fixed_def pfixed_def step_sim_def intro: exI [of _ 0])

lemma unf_counted_sim:
  assumes "buffer_wf sb"
  shows "step_sim (pcounted w getlen get (silc_buffer_data sb)) sb (unf_counted w getlen get sb)"
proof (cases "w \<le> silc_buffer_len sb")
  case True
  then show ?thesis
    using assms
    by (auto simp: unf_counted_def pcounted_def step_sim_def Let_def pull_pull)
next
  case False
  then show ?thesis
    using assms step_sim_fail by (simp add: unf_counted_def pcounted_def)
qed

lemma unf_step_sim:
  assumes "buffer_wf sb" "unf_fwd p"
  shows "step_sim (bparse1 p (silc_buffer_data sb)) sb (unf_step junk p sb)"
proof (cases p)
  case (U_OFFSET n)
  then show ?thesis
    using assms step_sim_fail by (auto simp: step_sim_def)
qed (use assms step_sim_fail in \<open>simp_all add: unf_fixed_sim unf_counted_sim\<close>)

lemma fail_pulled:
  "n \<le> silc_buffer_len sb \<Longrightarrow> k \<le> silc_buffer_len sb - n \<Longrightarrow>
    \<exists>ka \<le> silc_buffer_len sb. buf_pull sb (n + k) = buf_pull sb ka"
  by (rule exI [of _ "n + k"]) simp

lemma fwd_not_advance: "unf_fwd p \<Longrightarrow> \<not> is_unf_advance p"
  by (cases p) auto

lemma unf_loop_sim:
  "buffer_wf sb \<Longrightarrow> \<forall>p \<in> set ps. unf_fwd p \<Longrightarrow>
    step_sim (bparse ps (silc_buffer_data sb)) sb (fst (unf_loop junk ps sb False)) \<and>
    snd (unf_loop junk ps sb False) = False"
proof (induction ps arbitrary: sb)
  case Nil
  then show ?case by (simp add: step_sim_def)
next
  case (Cons p ps)
  have adv: "\<not> is_unf_advance p" using Cons.prems(2) by (simp add: fwd_not_advance)
  have sim: "step_sim (bparse1 p (silc_buffer_data sb)) sb (unf_step junk p sb)"
    using Cons.prems by (simp add: unf_step_sim)
  show ?case
  proof (cases "bparse1 p (silc_buffer_data sb)")
    case None
    with sim show ?thesis by (auto simp: step_sim_def adv)
  next
    case (Some r)
    obtain vs n where r: "r = (vs, n)" by force
    with sim Some have n: "n \<le> silc_buffer_len sb"
      and ok: "unf_step junk p sb = Unf_ok (buf_pull sb n) vs"
      by (auto simp: step_sim_def)
    let ?sb = "buf_pull sb n"
    obtain u where u: "unf_loop junk ps ?sb False = (u, False)"
      and simu: "step_sim (bparse ps (drop n (silc_buffer_data sb))) ?sb u"
      using Cons.IH [of ?sb] Cons.prems n
      by (cases "unf_loop junk ps ?sb False") (auto simp: adv)
    show ?thesis
      using simu n Cons.prems
      by (cases "bparse ps (drop n (silc_buffer_data sb))")
        (auto simp: step_sim_def Some r ok u adv pull_pull fail_pulled)
  qed
qed

text \<open>
  The main equation of unformatting: forward parameters parse the bytes of the buffer and leave
  the buffer exactly as it was, on success and on failure.
\<close>

lemma unformat_fwd:
  assumes wf: "buffer_wf sb" and fwd: "\<forall>p \<in> set ps. unf_fwd p"
  shows "silc_buffer_unformat junk sb ps =
    Some (case bparse ps (silc_buffer_data sb) of
            None \<Rightarrow> (-1, [], sb) | Some (vs, n) \<Rightarrow> (int n, vs, sb))"
proof -
  obtain u where u: "unf_loop junk ps sb False = (u, False)"
    and sim: "step_sim (bparse ps (silc_buffer_data sb)) sb u"
    using unf_loop_sim [OF wf fwd, of junk] by (metis prod.collapse)
  have restore: "buf_push (buf_pull sb k) (to_u32 (int (bdata (buf_pull sb k)) - int (bdata sb))) = sb"
    if "k \<le> silc_buffer_len sb" for k
  proof -
    have "k < 2 ^ 32" using that buffer_len_less [OF wf] by simp
    then show ?thesis using that by (simp add: pull_bdata del: power_numeral)
  qed
  show ?thesis
    using sim restore
    by (cases "bparse ps (silc_buffer_data sb)")
      (auto simp: silc_buffer_unformat_def silc_buffer_sunformat_vp_def u step_sim_def Let_def
        pull_bdata)
qed

section \<open>Round trip\<close>

text \<open>
  A field of a payload, with the parameters that format it, the one that unformats it and the
  value that comes back.  A counted string is formatted as its length followed by its bytes.
\<close>

datatype field =
    F_U8 u8 | F_U16 u16 | F_U32 u32 | F_U64 u64
  | F_DATA "byte list"
  | F_STR8 "byte list" | F_STR16 "byte list" | F_STR32 "byte list"
  | F_STR16_ALLOC "byte list"
  | F_BUFFER "byte list"

abbreviation fmt_data :: "byte list \<Rightarrow> fmt_param" where
  "fmt_data xs \<equiv> SILC_PARAM_DATA (Some xs) (of_nat (length xs))"

fun field_fmt :: "field \<Rightarrow> fmt_param list" where
  "field_fmt (F_U8 x) = [SILC_PARAM_UI8_CHAR x]"
| "field_fmt (F_U16 x) = [SILC_PARAM_UI16_SHORT x]"
| "field_fmt (F_U32 x) = [SILC_PARAM_UI32_INT x]"
| "field_fmt (F_U64 x) = [SILC_PARAM_UI64_INT x]"
| "field_fmt (F_DATA xs) = [fmt_data xs]"
| "field_fmt (F_STR8 xs) = [SILC_PARAM_UI8_CHAR (of_nat (length xs)), fmt_data xs]"
| "field_fmt (F_STR16 xs) = [SILC_PARAM_UI16_SHORT (of_nat (length xs)), fmt_data xs]"
| "field_fmt (F_STR32 xs) = [SILC_PARAM_UI32_INT (of_nat (length xs)), fmt_data xs]"
| "field_fmt (F_STR16_ALLOC xs) = [SILC_PARAM_UI16_SHORT (of_nat (length xs)), fmt_data xs]"
| "field_fmt (F_BUFFER xs) = [SILC_PARAM_BUFFER (Some (silc_buffer_set xs))]"

fun field_unf :: "field \<Rightarrow> unfmt_param" where
  "field_unf (F_U8 x) = U_UI8_CHAR"
| "field_unf (F_U16 x) = U_UI16_SHORT"
| "field_unf (F_U32 x) = U_UI32_INT"
| "field_unf (F_U64 x) = U_UI64_INT"
| "field_unf (F_DATA xs) = U_DATA (of_nat (length xs))"
| "field_unf (F_STR8 xs) = U_UI8_NSTRING"
| "field_unf (F_STR16 xs) = U_UI16_NSTRING"
| "field_unf (F_STR32 xs) = U_UI32_NSTRING"
| "field_unf (F_STR16_ALLOC xs) = U_UI16_NSTRING_ALLOC"
| "field_unf (F_BUFFER xs) = U_BUFFER"

fun field_val :: "field \<Rightarrow> uval" where
  "field_val (F_U8 x) = VU8 x"
| "field_val (F_U16 x) = VU16 x"
| "field_val (F_U32 x) = VU32 x"
| "field_val (F_U64 x) = VU64 x"
| "field_val (F_DATA xs) = VData (Some xs)"
| "field_val (F_STR8 xs) = VNString (Some xs) (length xs)"
| "field_val (F_STR16 xs) = VNString (Some xs) (length xs)"
| "field_val (F_STR32 xs) = VNString (Some xs) (length xs)"
| "field_val (F_STR16_ALLOC xs) = VNString (if xs = [] then None else Some xs) (length xs)"
| "field_val (F_BUFFER xs) = VBuffer (silc_buffer_set xs)"

text \<open>The length fits its field; plain data and buffers are not empty.\<close>

fun field_ok :: "field \<Rightarrow> bool" where
  "field_ok (F_DATA xs) \<longleftrightarrow> xs \<noteq> [] \<and> length xs < 2 ^ 32 - 5"
| "field_ok (F_STR8 xs) \<longleftrightarrow> length xs < 256"
| "field_ok (F_STR16 xs) \<longleftrightarrow> length xs < 65536"
| "field_ok (F_STR32 xs) \<longleftrightarrow> length xs < 2 ^ 32 - 5"
| "field_ok (F_STR16_ALLOC xs) \<longleftrightarrow> length xs < 65536"
| "field_ok (F_BUFFER xs) \<longleftrightarrow> xs \<noteq> [] \<and> length xs < 2 ^ 32 - 5"
| "field_ok _ \<longleftrightarrow> True"

abbreviation fields_bytes :: "field list \<Rightarrow> byte list" where
  "fields_bytes fs \<equiv> concat (map fmt_bytes (concat (map field_fmt fs)))"

lemma GET16_PUT16_unat: "unat (SILC_GET16_MSB (SILC_PUT16_MSB l @ r)) = unat l"
proof -
  have "unat (SILC_GET16_MSB (SILC_PUT16_MSB l @ r)) mod 65536 = unat l"
    using arg_cong [OF GET16_PUT16 [of l r], of unat]
    by (simp add: unsigned_ucast_eq unsigned_take_bit_eq take_bit_eq_mod)
  then show ?thesis using GET16_less by simp
qed

lemma GET16_PUT16_simps [simp]:
  "ucast (SILC_GET16_MSB (SILC_PUT16_MSB l)) = l"
  "unat (SILC_GET16_MSB (SILC_PUT16_MSB l)) = unat l"
  using GET16_PUT16 [of l "[]"] GET16_PUT16_unat [of l "[]"] by simp_all

lemma unat_of_nat_len [simp]:
  "n < 256 \<Longrightarrow> unat (of_nat n :: u8) = n"
  "n < 65536 \<Longrightarrow> unat (of_nat n :: u16) = n"
  "n < 4294967296 \<Longrightarrow> unat (of_nat n :: u32) = n"
  by (simp_all add: unsigned_of_nat take_bit_eq_mod)

lemma of_nat_len_0 [simp]: "n < 4294967296 \<Longrightarrow> (of_nat n :: u32) = 0 \<longleftrightarrow> n = 0"
  using unat_of_nat_len(3) [of n] by fastforce

lemma field_plain: "field_ok f \<Longrightarrow> \<forall>p \<in> set (field_fmt f). fmt_plain p"
  by (cases f) auto

lemma field_fwd: "unf_fwd (field_unf f)"
  by (cases f) auto

lemma bparse1_field:
  assumes "field_ok f"
  shows "bparse1 (field_unf f) (concat (map fmt_bytes (field_fmt f)) @ r) =
    Some ([field_val f], length (concat (map fmt_bytes (field_fmt f))))"
  using assms
  by (cases f)
    (auto simp: pfixed_def pcounted_def alloc_copy_def
      silc_calloc_ok_def SILC_MAX_ALLOC_def)

lemma bparse_fields:
  "\<forall>f \<in> set fs. field_ok f \<Longrightarrow>
    bparse (map field_unf fs) (fields_bytes fs @ r) =
      Some (map field_val fs, length (fields_bytes fs))"
proof (induction fs)
  case Nil
  then show ?case by simp
next
  case (Cons f fs)
  then show ?case
    using bparse1_field [of f "fields_bytes fs @ r"] by simp
qed

lemma buffer_written:
  assumes "buffer_wf sb" "bdata sb + length xs < SILC_MAX_ALLOC"
    "sb' = sb\<lparr>bmem := memcpy_at (bdata sb) xs (bmem sb),
               btail := max (btail sb) (bdata sb + length xs)\<rparr>"
  shows "buffer_wf sb'" "silc_buffer_data sb' = xs @ drop (length xs) (silc_buffer_data sb)"
proof -
  have le: "bdata sb \<le> btail sb" "btail sb \<le> length (bmem sb)" "bdata sb \<le> length (bmem sb)"
    using assms(1) by (auto simp: buffer_wf_def)
  show "buffer_wf sb'"
    using assms le by (auto simp: buffer_wf_def length_memcpy_at_max SILC_MAX_ALLOC_def)
  have "silc_buffer_len sb' = max (silc_buffer_len sb) (length xs)"
    using le by (simp add: assms(3) silc_buffer_len_def)
  moreover have "max a b - b = a - (b :: nat)" for a b by simp
  ultimately show "silc_buffer_data sb' = xs @ drop (length xs) (silc_buffer_data sb)"
    using le by (simp add: assms(3) silc_buffer_data_def drop_take add.commute)
qed

text \<open>
  Property C39. Formatting a list of fields into any buffer that can hold them and unformatting
  the buffer again returns exactly the field values and the number of bytes written, and leaves
  the buffer unchanged; bytes behind the fields are not disturbed.
\<close>

theorem format_unformat_roundtrip:
  assumes "buffer_wf dst" "\<forall>f \<in> set fs. field_ok f"
    and "bdata dst + length (fields_bytes fs) < SILC_MAX_ALLOC"
  shows "case silc_buffer_format junk dst (concat (map field_fmt fs)) of (n, dst') \<Rightarrow>
    n = int (length (fields_bytes fs)) \<and>
    silc_buffer_unformat junk' dst' (map field_unf fs) = Some (n, map field_val fs, dst') \<and>
    silc_buffer_data dst' =
      fields_bytes fs @ drop (length (fields_bytes fs)) (silc_buffer_data dst)"
proof -
  have plain: "\<forall>p \<in> set (concat (map field_fmt fs)). fmt_plain p"
    using assms(2) field_plain by auto
  define dst' where "dst' = dst\<lparr>bmem := memcpy_at (bdata dst) (fields_bytes fs) (bmem dst),
       btail := max (btail dst) (bdata dst + length (fields_bytes fs))\<rparr>"
  have fmt: "silc_buffer_format junk dst (concat (map field_fmt fs)) =
      (int (length (fields_bytes fs)), dst')"
    unfolding dst'_def by (rule format_plain [OF assms(1) plain refl assms(3)])
  note wr = buffer_written [OF assms(1,3) dst'_def]
  have "\<forall>p \<in> set (map field_unf fs). unf_fwd p" using field_fwd by auto
  then have "silc_buffer_unformat junk' dst' (map field_unf fs) =
      Some (int (length (fields_bytes fs)), map field_val fs, dst')"
    using unformat_fwd [OF wr(1)] bparse_fields [OF assms(2)] wr(2) by simp
  with fmt wr(2) show ?thesis by simp
qed

theorem format_unformat_roundtrip_witness:
  "case silc_buffer_format (\<lambda>_. 7) \<lparr>bmem = [9, 9, 9], bdata = 1, btail = 3\<rparr>
      (concat (map field_fmt [F_U16 258, F_STR8 [5], F_BUFFER [6]])) of (n, dst') \<Rightarrow>
    n = 9 \<and>
    silc_buffer_unformat (\<lambda>_. 0) dst' [U_UI16_SHORT, U_UI8_NSTRING, U_BUFFER] =
      Some (9, [VU16 258, VNString (Some [5]) 1, VBuffer (silc_buffer_set [6])], dst')"
  using format_unformat_roundtrip [of "\<lparr>bmem = [9, 9, 9], bdata = 1, btail = 3\<rparr>"
      "[F_U16 258, F_STR8 [5], F_BUFFER [6]]" "\<lambda>_. 0" "\<lambda>_. 7"]
  by (simp add: buffer_wf_def SILC_MAX_ALLOC_def split: prod.splits)



section \<open>Where the code departs from its documentation\<close>

text \<open>
  Four behaviours of the unformatting loop that its header documents otherwise: with
  \<open>SILC_STR_ADVANCE\<close> the returned length is 0; an offset of one is not a step forward; the
  32-bit allocated counted string always fails; and a callback runs into undefined behaviour.
\<close>

lemma unformat_advance_returns_zero:
  "silc_buffer_unformat junk (silc_buffer_set [1, 2]) [U_UI16_SHORT, U_ADVANCE] =
    Some (0, [VU16 258], \<lparr>bmem = [1, 2], bdata = 2, btail = 2\<rparr>)"
  by (simp add: silc_buffer_unformat_def silc_buffer_sunformat_vp_def unf_fixed_def
      silc_buffer_pull_def silc_buffer_set_def silc_buffer_len_def unformat_has_space_def
      SILC_GET16_MSB_def silc_buffer_data_def Let_def)

lemma unformat_offset_one_is_ignored:
  "silc_buffer_unformat junk (silc_buffer_set [1, 2]) [U_OFFSET 1, U_UI8_CHAR] =
    Some (1, [VU8 1], silc_buffer_set [1, 2])"
  by (simp add: silc_buffer_unformat_def silc_buffer_sunformat_vp_def unf_fixed_def
      silc_buffer_pull_def silc_buffer_push_def silc_buffer_set_def silc_buffer_len_def
      unformat_has_space_def silc_buffer_data_def Let_def to_u32_def)

lemma unformat_nstring32_alloc_fails:
  "buffer_wf src \<Longrightarrow> silc_buffer_unformat junk src [U_UI32_NSTRING_ALLOC] = Some (-1, [], src)"
  by (simp add: unformat_fwd)

lemma unformat_func_undefined:
  "func src = (0, src) \<Longrightarrow> silc_buffer_unformat junk src [U_FUNC func] = None"
  by (simp add: silc_buffer_unformat_def silc_buffer_sunformat_vp_def Let_def)

section \<open>Use in the payload code\<close>

text \<open>No parser uses a parameter that allocates a buffer, so the \<open>junk\<close> bytes are irrelevant.\<close>

abbreviation unformat ::
  "silc_buffer \<Rightarrow> unfmt_param list \<Rightarrow> (int \<times> uval list \<times> silc_buffer) option" where
  "unformat sb ps \<equiv> silc_buffer_unformat (\<lambda>_. 0) sb ps"

abbreviation bufformat :: "silc_buffer \<Rightarrow> fmt_param list \<Rightarrow> silc_buffer" where
  "bufformat sb ps \<equiv> snd (silc_buffer_format (\<lambda>_. 0) sb ps)"

lemma bufformat_fresh:
  assumes "\<forall>p \<in> set ps. fmt_plain p" "length (concat (map fmt_bytes ps)) = n" "n < SILC_MAX_ALLOC"
  shows "bufformat \<lparr>bmem = replicate n 0, bdata = 0, btail = n\<rparr> ps =
    silc_buffer_set (concat (map fmt_bytes ps))"
proof -
  have "buffer_wf \<lparr>bmem = replicate n 0, bdata = 0, btail = n\<rparr>"
    using assms(3) by (simp add: buffer_wf_def SILC_MAX_ALLOC_def)
  from format_plain [OF this assms(1) refl] assms(2,3) show ?thesis
    by (simp add: silc_buffer_set_def memcpy_at_def)
qed

lemma unformat_set:
  "length b < 2 ^ 32 - 1 \<Longrightarrow> \<forall>p \<in> set ps. unf_fwd p \<Longrightarrow>
    unformat (silc_buffer_set b) ps =
      Some (case bparse ps b of None \<Rightarrow> (-1, [], silc_buffer_set b)
            | Some (vs, n) \<Rightarrow> (int n, vs, silc_buffer_set b))"
  using unformat_fwd [of "silc_buffer_set b" ps] by simp

lemma format_pull_write:
  assumes "buffer_wf sb" "\<forall>p \<in> set ps. fmt_plain p" "xs = concat (map fmt_bytes ps)"
    "length xs \<le> silc_buffer_len sb" "bdata sb + length xs < SILC_MAX_ALLOC"
  shows "buf_pull (snd (silc_buffer_format junk sb ps)) (length xs) = buf_write sb xs"
proof -
  have "max (btail sb) (bdata sb + length xs) = btail sb"
    using assms(1,4) by (auto simp: buffer_wf_def silc_buffer_len_def)
  then show ?thesis
    using format_plain [OF assms(1,2,3,5), of junk] assms(4)
    by (simp add: silc_buffer_pull_def silc_buffer_len_def buf_write_def)
qed

lemma buf_write_len: "buffer_wf sb \<Longrightarrow> length xs \<le> silc_buffer_len sb \<Longrightarrow>
    silc_buffer_len (buf_write sb xs) = silc_buffer_len sb - length xs"
  by (auto simp: buf_write_def silc_buffer_len_def buffer_wf_def max_def)

lemma fresh_wf: "n < SILC_MAX_ALLOC \<Longrightarrow> buffer_wf \<lparr>bmem = replicate n 0, bdata = 0, btail = n\<rparr>"
  by (simp add: buffer_wf_def SILC_MAX_ALLOC_def)

lemma push_write_fresh:
  "length xs = n \<Longrightarrow>
    buf_push (buf_write \<lparr>bmem = replicate n 0, bdata = 0, btail = n\<rparr> xs) n = silc_buffer_set xs"
  by (simp add: buf_write_def silc_buffer_push_def silc_buffer_set_def memcpy_at_def)

text \<open>
  Payloads that are built in two steps: a header at the start of a buffer that is large enough,
  then the data behind it, reached by a pull or by an offset parameter.
\<close>

lemma format_header:
  assumes "\<forall>p \<in> set ps. fmt_plain p" "n = length (concat (map fmt_bytes ps)) + m" "n < SILC_MAX_ALLOC"
  shows "bufformat \<lparr>bmem = replicate n 0, bdata = 0, btail = n\<rparr> ps =
    silc_buffer_set (concat (map fmt_bytes ps) @ replicate m 0)"
  using format_plain [OF fresh_wf [OF assms(3)] assms(1) refl] assms(2,3)
  by (simp add: silc_buffer_set_def memcpy_at_def)

lemma format_tail:
  assumes "length (xs @ ys) < SILC_MAX_ALLOC" "length zs = length ys"
  shows "buf_push (bufformat (buf_pull (silc_buffer_set (xs @ zs)) (length xs))
      [SILC_PARAM_DATA (Some ys) (of_nat (length ys))]) (length xs) = silc_buffer_set (xs @ ys)"
proof -
  let ?b = "buf_pull (silc_buffer_set (xs @ zs)) (length xs)"
  have wf: "buffer_wf ?b" using assms by (intro pull_wf set_wf) (simp add: SILC_MAX_ALLOC_def)
  have "fmt_bytes (SILC_PARAM_DATA (Some ys) (of_nat (length ys))) = ys"
    "fmt_plain (SILC_PARAM_DATA (Some ys) (of_nat (length ys)))"
    using assms(1) by (simp_all add: unat_of_nat SILC_MAX_ALLOC_def)
  then show ?thesis
    using format_plain [OF wf, of "[SILC_PARAM_DATA (Some ys) (of_nat (length ys))]" ys] assms
    by (simp add: silc_buffer_set_def silc_buffer_pull_def silc_buffer_len_def silc_buffer_push_def
        memcpy_at_def)
qed

lemma format_offset_tail:
  assumes "length (xs @ ys) < SILC_MAX_ALLOC" "length zs = length ys" "1 < length xs"
  shows "bufformat (silc_buffer_set (xs @ zs))
      [SILC_PARAM_OFFSET (int (length xs)), SILC_PARAM_DATA (Some ys) (of_nat (length ys))] =
    silc_buffer_set (xs @ ys)"
proof -
  let ?b = "buf_pull (silc_buffer_set (xs @ zs)) (length xs)"
  have wf: "buffer_wf ?b" using assms by (intro pull_wf set_wf) (simp add: SILC_MAX_ALLOC_def)
  have ys: "fmt_bytes (SILC_PARAM_DATA (Some ys) (of_nat (length ys))) = ys"
    "fmt_plain (SILC_PARAM_DATA (Some ys) (of_nat (length ys)))"
    using assms(1) by (simp_all add: unat_of_nat SILC_MAX_ALLOC_def)
  have b: "?b = \<lparr>bmem = xs @ zs, bdata = length xs, btail = length (xs @ zs)\<rparr>"
    by (simp add: silc_buffer_set_def silc_buffer_pull_def silc_buffer_len_def)
  have "fmt_loop (\<lambda>_. 0) [SILC_PARAM_OFFSET (int (length xs)),
        SILC_PARAM_DATA (Some ys) (of_nat (length ys))] (silc_buffer_set (xs @ zs)) 0 False =
      fmt_loop (\<lambda>_. 0) [SILC_PARAM_DATA (Some ys) (of_nat (length ys))] ?b (int (length xs)) False"
    using assms by simp
  also have "\<dots> = (True, buf_write ?b ys, int (length (xs @ ys)), False)"
    using fmt_loop_plain [OF wf, of "[SILC_PARAM_DATA (Some ys) (of_nat (length ys))]" "\<lambda>_. 0"
        "int (length xs)" False] ys assms(1)
    by (simp add: b del: fmt_loop.simps fmt_bytes.simps)
  moreover have "length (xs @ ys) < 2 ^ 32" using assms(1) by (simp add: SILC_MAX_ALLOC_def)
  moreover have "buf_push (buf_write ?b ys) (length (xs @ ys)) = silc_buffer_set (xs @ ys)"
    using assms(2) unfolding b
    by (simp add: buf_write_def silc_buffer_push_def silc_buffer_set_def memcpy_at_def)
  ultimately show ?thesis
    by (simp add: silc_buffer_format_def silc_buffer_sformat_vp_def del: fmt_loop.simps of_nat_add)
qed

text \<open>Strings with a 16-bit length in front, the most common field of the payloads.\<close>

definition nstr16 :: "byte list \<Rightarrow> byte list" where
  "nstr16 s = SILC_PUT16_MSB (of_nat (length s)) @ s"

definition ptr_of :: "byte list \<Rightarrow> byte list option" where
  "ptr_of s = (if s = [] then None else Some s)"

lemma length_nstr16 [simp]: "length (nstr16 s) = 2 + length s"
  by (simp add: nstr16_def)

lemma bparse1_nstr16:
  "length s < 65536 \<Longrightarrow> bparse1 U_UI16_NSTRING_ALLOC (nstr16 s @ r) =
    Some ([VNString (ptr_of s) (length s)], 2 + length s)"
  by (simp add: pcounted_def nstr16_def ptr_of_def GET16_PUT16_unat unat_of_nat alloc_copy_def
      silc_calloc_ok_def SILC_MAX_ALLOC_def)

lemma bparse1_nstr16D:
  assumes "bparse1 U_UI16_NSTRING_ALLOC d = Some x"
  obtains s r where "d = nstr16 s @ r" "length s < 65536"
proof -
  from assms have len: "2 + len16 d \<le> length d" by (simp add: pcounted_def split: if_splits)
  let ?s = "take (len16 d) (drop 2 d)"
  have l: "length ?s = len16 d" using len by simp
  have "SILC_PUT16_MSB (of_nat (len16 d)) = take 2 d"
    using PUT16_GET16_take [of d] len by simp
  then have "nstr16 ?s = take (2 + len16 d) d"
    unfolding nstr16_def l take_add by simp
  then show ?thesis
    using that [of ?s "drop (2 + len16 d) d"] l GET16_less [of d] by simp
qed

section \<open>Parsing step by step\<close>

lemma bparse1_u16: "bparse1 U_UI16_SHORT (SILC_PUT16_MSB l @ r) = Some ([VU16 l], 2)"
  by (simp add: pfixed_def GET16_PUT16)

lemma bparse1_u16D:
  assumes "bparse1 U_UI16_SHORT d = Some x"
  obtains l r where "d = SILC_PUT16_MSB l @ r"
proof -
  from assms have "2 \<le> length d" by (auto simp: pfixed_def split: if_splits)
  then have "d = SILC_PUT16_MSB (ucast (SILC_GET16_MSB d)) @ drop 2 d" by (simp add: PUT16_GET16_take)
  then show ?thesis by (rule that)
qed

lemma bparse_ConsD:
  assumes "bparse (p # ps) d = Some x"
  obtains vs n x' where "bparse1 p d = Some (vs, n)" "bparse ps (drop n d) = Some x'"
  using assms by (auto split: option.splits)

text \<open>Unformatting that moves the buffer.\<close>

lemma unf_loop_advance:
  "\<forall>p \<in> set ps. unf_fwd p \<Longrightarrow> \<exists>u. \<forall>adv. unf_loop junk ps sb adv = (u, adv)"
proof (induction ps arbitrary: sb)
  case (Cons p ps)
  have p: "\<not> is_unf_advance p" using Cons.prems fwd_not_advance by simp
  show ?case
  proof (cases "unf_step junk p sb")
    case (Unf_ok s vs)
    from Cons obtain u where "\<And>adv. unf_loop junk ps s adv = (u, adv)" by fastforce
    with Unf_ok p show ?thesis by (cases u) simp_all
  qed simp_all
qed simp

lemma push_pulled:
  assumes "buffer_wf sb" "k \<le> silc_buffer_len sb"
  shows "buf_push (buf_pull sb k) (to_u32 (int (bdata (buf_pull sb k)) - int (bdata sb))) = sb"
proof -
  have "k < 2 ^ 32" using assms(2) buffer_len_less [OF assms(1)] by simp
  then show ?thesis using assms(2) by (simp add: pull_bdata del: power_numeral)
qed

lemma unformat_advance:
  assumes "buffer_wf sb" "\<forall>p \<in> set ps. unf_fwd p"
  shows "silc_buffer_unformat junk sb (U_ADVANCE # ps) =
    Some (case bparse ps (silc_buffer_data sb) of None \<Rightarrow> (-1, [], sb) | Some (vs, n) \<Rightarrow> (0, vs, buf_pull sb n))"
proof -
  obtain u where u: "\<And>adv. unf_loop junk ps sb adv = (u, adv)" using unf_loop_advance [OF assms(2)] by blast
  have s: "step_sim (bparse ps (silc_buffer_data sb)) sb u" using unf_loop_sim [OF assms, of junk] u by simp
  have "unf_loop junk (U_ADVANCE # ps) sb False = (u, True)" using u by (cases u) simp_all
  then show ?thesis
    using s push_pulled [OF assms(1)] by (cases "bparse ps (silc_buffer_data sb)")
      (auto simp: silc_buffer_unformat_def silc_buffer_sunformat_vp_def step_sim_def Let_def simp del: unf_loop.simps)
qed

end
