(* ===== verification/Silc_Id.thy ===== *)
theory Silc_Id
  imports Silc_Buffmt
begin

text \<open>
  Server, Client and Channel IDs and the ID Payload, \<^verbatim>\<open>lib/silccore/silcid.c\<close>.  The C functions
  take an ID as \<open>void *\<close> with its type; here the type is the constructor of \<open>silc_id\<close>, and a
  type number read from a packet is a 16-bit word.  All buffers the encoders format are
  allocated with their full size, so formatting never reallocates them.
\<close>

section \<open>Identifiers\<close>

type_synonym id_type = u16

abbreviation SILC_ID_SERVER :: id_type where "SILC_ID_SERVER \<equiv> 1"
abbreviation SILC_ID_CLIENT :: id_type where "SILC_ID_CLIENT \<equiv> 2"
abbreviation SILC_ID_CHANNEL :: id_type where "SILC_ID_CHANNEL \<equiv> 3"

definition SILC_PACKET_MAX_ID_LEN :: nat where "SILC_PACKET_MAX_ID_LEN = 28"
definition CLIENTID_HASH_LEN :: nat where "CLIENTID_HASH_LEN = 88 div 8"
definition ID_SERVER_LEN_PART :: nat where "ID_SERVER_LEN_PART = 4"
definition ID_CLIENT_LEN_PART :: nat where "ID_CLIENT_LEN_PART = CLIENTID_HASH_LEN + 1"
definition ID_CHANNEL_LEN_PART :: nat where "ID_CHANNEL_LEN_PART = 4"

record silc_id_ip =
  ip_data :: "byte list"
  ip_data_len :: u8

record silc_server_id =
  sid_ip :: silc_id_ip
  sid_port :: u16
  sid_rnd :: u16

record silc_client_id =
  cid_ip :: silc_id_ip
  cid_rnd :: u8
  cid_hash :: "byte list"

record silc_channel_id =
  chid_ip :: silc_id_ip
  chid_port :: u16
  chid_rnd :: u16

datatype silc_id =
    ServerID silc_server_id
  | ClientID silc_client_id
  | ChannelID silc_channel_id

fun silc_id_type :: "silc_id \<Rightarrow> id_type" where
  "silc_id_type (ServerID _) = SILC_ID_SERVER"
| "silc_id_type (ClientID _) = SILC_ID_CLIENT"
| "silc_id_type (ChannelID _) = SILC_ID_CHANNEL"

text \<open>The sizes of the three structures (a pad byte follows the 17 bytes of the address).\<close>

definition sizeof_server_id :: nat where "sizeof_server_id = 22"
definition sizeof_client_id :: nat where "sizeof_client_id = 29"
definition sizeof_channel_id :: nat where "sizeof_channel_id = 22"

fun silc_id_get_len :: "silc_id \<Rightarrow> nat" where
  "silc_id_get_len (ServerID i) = ID_SERVER_LEN_PART + unat (ip_data_len (sid_ip i))"
| "silc_id_get_len (ClientID i) = ID_CLIENT_LEN_PART + unat (ip_data_len (cid_ip i))"
| "silc_id_get_len (ChannelID i) = ID_CHANNEL_LEN_PART + unat (ip_data_len (chid_ip i))"

abbreviation ip_bytes :: "silc_id_ip \<Rightarrow> byte list" where
  "ip_bytes ip \<equiv> take (unat (ip_data_len ip)) (ip_data ip)"

definition silc_id_id2str :: "silc_id \<Rightarrow> nat \<Rightarrow> byte list option" where
  "silc_id_id2str sid ret_id_size =
     (let id_len = silc_id_get_len sid in
      if id_len > ret_id_size then None
      else if id_len > SILC_PACKET_MAX_ID_LEN then None
      else Some (case sid of
          ServerID i \<Rightarrow> ip_bytes (sid_ip i) @ SILC_PUT16_MSB (sid_port i) @ SILC_PUT16_MSB (sid_rnd i)
        | ClientID i \<Rightarrow> ip_bytes (cid_ip i) @ [cid_rnd i] @ take CLIENTID_HASH_LEN (cid_hash i)
        | ChannelID i \<Rightarrow>
            ip_bytes (chid_ip i) @ SILC_PUT16_MSB (chid_port i) @ SILC_PUT16_MSB (chid_rnd i)))"

text \<open>The address part: the structure is cleared first, so an IPv4 address ends in zeros.\<close>

definition id_ip_of :: "byte list \<Rightarrow> nat \<Rightarrow> silc_id_ip" where
  "id_ip_of s ip_len =
     \<lparr>ip_data = take ip_len s @ replicate (16 - ip_len) 0, ip_data_len = of_nat ip_len\<rparr>"

definition silc_id_str2id :: "byte list \<Rightarrow> id_type \<Rightarrow> nat \<Rightarrow> silc_id option" where
  "silc_id_str2id s type ret_id_size =
     (let id_len = length s in
      if id_len > SILC_PACKET_MAX_ID_LEN then None
      else if type = SILC_ID_SERVER then
        (if id_len \<noteq> ID_SERVER_LEN_PART + 4 \<and> id_len \<noteq> ID_SERVER_LEN_PART + 16 then None
         else if ret_id_size < sizeof_server_id then None
         else let ip_len = (if id_len > ID_SERVER_LEN_PART + 4 then 16 else 4)
              in Some (ServerID \<lparr>sid_ip = id_ip_of s ip_len,
                   sid_port = ucast (SILC_GET16_MSB (drop ip_len s)),
                   sid_rnd = ucast (SILC_GET16_MSB (drop (ip_len + 2) s))\<rparr>))
      else if type = SILC_ID_CLIENT then
        (if id_len \<noteq> ID_CLIENT_LEN_PART + 4 \<and> id_len \<noteq> ID_CLIENT_LEN_PART + 16 then None
         else if ret_id_size < sizeof_client_id then None
         else let ip_len = (if id_len > ID_CLIENT_LEN_PART + 4 then 16 else 4)
              in Some (ClientID \<lparr>cid_ip = id_ip_of s ip_len, cid_rnd = s ! ip_len,
                   cid_hash = take CLIENTID_HASH_LEN (drop (ip_len + 1) s)\<rparr>))
      else if type = SILC_ID_CHANNEL then
        (if id_len \<noteq> ID_CHANNEL_LEN_PART + 4 \<and> id_len \<noteq> ID_CHANNEL_LEN_PART + 16 then None
         else if ret_id_size < sizeof_channel_id then None
         else let ip_len = (if id_len > ID_CHANNEL_LEN_PART + 4 then 16 else 4)
              in Some (ChannelID \<lparr>chid_ip = id_ip_of s ip_len,
                   chid_port = ucast (SILC_GET16_MSB (drop ip_len s)),
                   chid_rnd = ucast (SILC_GET16_MSB (drop (ip_len + 2) s))\<rparr>))
      else None)"

definition silc_id_str2id2 :: "byte list \<Rightarrow> id_type \<Rightarrow> silc_id option" where
  "silc_id_str2id2 s type =
     (if type = SILC_ID_CLIENT then silc_id_str2id s type sizeof_client_id
      else if type = SILC_ID_SERVER then silc_id_str2id s type sizeof_server_id
      else if type = SILC_ID_CHANNEL then silc_id_str2id s type sizeof_channel_id
      else None)"

text \<open>\<open>memcmp\<close> over the whole structure, and over the nickname hash of two Client IDs.\<close>

definition SILC_ID_COMPARE_TYPE :: "silc_id \<Rightarrow> silc_id \<Rightarrow> bool" where
  "SILC_ID_COMPARE_TYPE id1 id2 \<longleftrightarrow> id1 = id2"

definition SILC_ID_COMPARE_HASH :: "silc_client_id \<Rightarrow> silc_client_id \<Rightarrow> bool" where
  "SILC_ID_COMPARE_HASH id1 id2 \<longleftrightarrow>
     take CLIENTID_HASH_LEN (cid_hash id1) = take CLIENTID_HASH_LEN (cid_hash id2)"

section \<open>ID Payload\<close>

record silc_id_payload =
  idp_type :: id_type
  idp_len :: u16
  idp_id :: "byte list option"

definition silc_id_payload_parse :: "byte list \<Rightarrow> silc_id_payload option" where
  "silc_id_payload_parse payload =
     (case unformat (silc_buffer_set payload) [U_UI16_SHORT, U_UI16_SHORT] of
        Some (ret, [VU16 type, VU16 len], buffer) \<Rightarrow>
          if ret = -1 then None
          else if type > SILC_ID_CHANNEL then None
          else
            let buffer = buf_pull buffer 4 in
            if unat len > silc_buffer_len buffer \<or> unat len > SILC_PACKET_MAX_ID_LEN then None
            else
              (case unformat buffer [U_DATA_ALLOC (ucast len)] of
                 Some (ret, [VData d], _) \<Rightarrow>
                   if ret = -1 then None
                   else Some \<lparr>idp_type = type, idp_len = len, idp_id = d\<rparr>
               | _ \<Rightarrow> None)
      | _ \<Rightarrow> None)"

definition silc_id_payload_parse_id :: "byte list \<Rightarrow> silc_id option" where
  "silc_id_payload_parse_id data =
     (case unformat (silc_buffer_set data) [U_UI16_SHORT, U_UI16_SHORT] of
        Some (ret, [VU16 type, VU16 idlen], buffer) \<Rightarrow>
          if ret = -1 then None
          else if type > SILC_ID_CHANNEL then None
          else
            let buffer = buf_pull buffer 4 in
            if unat idlen > silc_buffer_len buffer \<or> unat idlen > SILC_PACKET_MAX_ID_LEN then None
            else
              (case unformat buffer [U_DATA (ucast idlen)] of
                 Some (ret, [VData id_data], _) \<Rightarrow>
                   if ret = -1 then None
                   else
                     (case id_data of
                        None \<Rightarrow> None   \<comment> \<open>the pointer is not set, but length 0 is refused\<close>
                      | Some s \<Rightarrow>
                          if type = SILC_ID_CLIENT then silc_id_str2id s type sizeof_client_id
                          else if type = SILC_ID_SERVER then silc_id_str2id s type sizeof_server_id
                          else silc_id_str2id s type sizeof_channel_id)
               | _ \<Rightarrow> None)
      | _ \<Rightarrow> None)"

definition silc_id_payload_encode_data :: "byte list \<Rightarrow> id_type \<Rightarrow> silc_buffer option" where
  "silc_id_payload_encode_data s type =
     map_option (\<lambda>buffer. bufformat buffer
         [SILC_PARAM_UI16_SHORT type, SILC_PARAM_UI16_SHORT (of_nat (length s)),
          SILC_PARAM_DATA (Some s) (of_nat (length s))])
       (silc_buffer_alloc_size (4 + length s))"

definition silc_id_payload_encode :: "silc_id \<Rightarrow> silc_buffer option" where
  "silc_id_payload_encode sid =
     (case silc_id_id2str sid 32 of None \<Rightarrow> None
      | Some id_data \<Rightarrow> silc_id_payload_encode_data id_data (silc_id_type sid))"

definition silc_id_payload_get_type :: "silc_id_payload option \<Rightarrow> id_type" where
  "silc_id_payload_get_type p = (case p of None \<Rightarrow> 0 | Some p \<Rightarrow> idp_type p)"

definition silc_id_payload_get_id :: "silc_id_payload option \<Rightarrow> nat \<Rightarrow> silc_id option" where
  "silc_id_payload_get_id p ret_id_len =
     (case p of None \<Rightarrow> None
      | Some p \<Rightarrow> silc_id_str2id (case idp_id p of None \<Rightarrow> [] | Some d \<Rightarrow> d) (idp_type p) ret_id_len)"

definition silc_id_payload_get_len :: "silc_id_payload option \<Rightarrow> u16" where
  "silc_id_payload_get_len p = (case p of None \<Rightarrow> 0 | Some p \<Rightarrow> idp_len p)"

section \<open>Well-formed identifiers\<close>

text \<open>An address has 4 or 16 bytes in a field of 16; the rest of the field is zero.\<close>

definition ip_wf :: "silc_id_ip \<Rightarrow> bool" where
  "ip_wf ip \<longleftrightarrow> length (ip_data ip) = 16 \<and> ip_data_len ip \<in> {4, 16} \<and>
     drop (unat (ip_data_len ip)) (ip_data ip) = replicate (16 - unat (ip_data_len ip)) 0"

fun id_wf :: "silc_id \<Rightarrow> bool" where
  "id_wf (ServerID i) = ip_wf (sid_ip i)"
| "id_wf (ClientID i) = (ip_wf (cid_ip i) \<and> length (cid_hash i) = CLIENTID_HASH_LEN)"
| "id_wf (ChannelID i) = ip_wf (chid_ip i)"

lemmas id_lens =
  SILC_PACKET_MAX_ID_LEN_def CLIENTID_HASH_LEN_def ID_SERVER_LEN_PART_def ID_CLIENT_LEN_PART_def
  ID_CHANNEL_LEN_PART_def sizeof_server_id_def sizeof_client_id_def sizeof_channel_id_def

lemma id_ip_of_wf: "n \<in> {4, 16} \<Longrightarrow> n \<le> length s \<Longrightarrow> ip_wf (id_ip_of s n)"
  by (auto simp: ip_wf_def id_ip_of_def)

lemma ip_bytes_id_ip_of: "n \<in> {4, 16} \<Longrightarrow> n \<le> length s \<Longrightarrow> ip_bytes (id_ip_of s n) = take n s"
  by (auto simp: id_ip_of_def)

lemma id_ip_of_bytes: "ip_wf ip \<Longrightarrow> id_ip_of (ip_bytes ip @ r) (unat (ip_data_len ip)) = ip"
proof -
  assume wf: "ip_wf ip"
  then have "take (unat (ip_data_len ip)) (ip_data ip) @
      replicate (16 - unat (ip_data_len ip)) 0 = ip_data ip"
    by (metis append_take_drop_id ip_wf_def)
  then show ?thesis
    using wf by (cases ip) (auto simp: id_ip_of_def ip_wf_def)
qed

lemma length_ip_bytes: "ip_wf ip \<Longrightarrow> length (ip_bytes ip) = unat (ip_data_len ip)"
  by (auto simp: ip_wf_def)

lemma ip_len_cases: "ip_wf ip \<Longrightarrow> unat (ip_data_len ip) = 4 \<or> unat (ip_data_len ip) = 16"
  by (auto simp: ip_wf_def)

lemma split3: "a + b + c = length s \<Longrightarrow> take a s @ take b (drop a s) @ take c (drop (a + b) s) = s"
  by (metis add.assoc append.assoc append_take_drop_id drop_drop le_refl take_add take_all)

lemma id2str_str2id:
  assumes "silc_id_str2id2 s t = Some i"
  shows "silc_id_id2str i 32 = Some s" "id_wf i" "silc_id_type i = t"
proof -
  consider (server) "t = SILC_ID_SERVER" | (client) "t = SILC_ID_CLIENT" | (channel) "t = SILC_ID_CHANNEL"
    using assms by (auto simp: silc_id_str2id2_def split: if_splits)
  then have "silc_id_id2str i 32 = Some s \<and> id_wf i \<and> silc_id_type i = t"
  proof cases
    case server
    define n where "n = length s - 4"
    have n: "length s = n + 2 + 2" "n \<in> {4, 16}"
      and i: "i = ServerID \<lparr>sid_ip = id_ip_of s n, sid_port = ucast (SILC_GET16_MSB (drop n s)),
          sid_rnd = ucast (SILC_GET16_MSB (drop (n + 2) s))\<rparr>"
      using assms
      by (auto simp: server silc_id_str2id2_def silc_id_str2id_def Let_def n_def id_lens split: if_splits)
    then show ?thesis
      using split3 [of n 2 2 s]
      by (auto simp: server silc_id_id2str_def Let_def id_lens PUT16_GET16_take id_ip_of_def ip_wf_def)
  next
    case client
    define n where "n = length s - 12"
    have n: "length s = n + 1 + 11" "n \<in> {4, 16}"
      and i: "i = ClientID \<lparr>cid_ip = id_ip_of s n, cid_rnd = s ! n,
          cid_hash = take CLIENTID_HASH_LEN (drop (n + 1) s)\<rparr>"
      using assms
      by (auto simp: client silc_id_str2id2_def silc_id_str2id_def Let_def n_def id_lens split: if_splits)
    then show ?thesis
      using split3 [of n 1 11 s] take_Suc_conv_app_nth [of 0 "drop n s"]
      by (auto simp: client silc_id_id2str_def Let_def id_lens id_ip_of_def ip_wf_def)
  next
    case channel
    define n where "n = length s - 4"
    have n: "length s = n + 2 + 2" "n \<in> {4, 16}"
      and i: "i = ChannelID \<lparr>chid_ip = id_ip_of s n, chid_port = ucast (SILC_GET16_MSB (drop n s)),
          chid_rnd = ucast (SILC_GET16_MSB (drop (n + 2) s))\<rparr>"
      using assms
      by (auto simp: channel silc_id_str2id2_def silc_id_str2id_def Let_def n_def id_lens split: if_splits)
    then show ?thesis
      using split3 [of n 2 2 s]
      by (auto simp: channel silc_id_id2str_def Let_def id_lens PUT16_GET16_take id_ip_of_def ip_wf_def)
  qed
  then show "silc_id_id2str i 32 = Some s" "id_wf i" "silc_id_type i = t" by blast+
qed

lemma id2str_eq:
  "id_wf i \<Longrightarrow> silc_id_id2str i 32 = Some (case i of
      ServerID i \<Rightarrow> ip_bytes (sid_ip i) @ SILC_PUT16_MSB (sid_port i) @ SILC_PUT16_MSB (sid_rnd i)
    | ClientID i \<Rightarrow> ip_bytes (cid_ip i) @ cid_rnd i # cid_hash i
    | ChannelID i \<Rightarrow>
        ip_bytes (chid_ip i) @ SILC_PUT16_MSB (chid_port i) @ SILC_PUT16_MSB (chid_rnd i))"
  by (cases i) (auto simp: silc_id_id2str_def Let_def id_lens ip_wf_def)

lemma id2str_length: "id_wf i \<Longrightarrow> silc_id_id2str i 32 = Some s \<Longrightarrow> length s = silc_id_get_len i"
  by (cases i) (auto simp: id2str_eq id_lens ip_wf_def)

lemma get_len_bounds: "id_wf i \<Longrightarrow> 8 \<le> silc_id_get_len i \<and> silc_id_get_len i \<le> 28"
  by (cases i) (auto simp: id_lens ip_wf_def)

lemma str2id_id2str:
  assumes "id_wf i" "silc_id_id2str i 32 = Some s"
  shows "silc_id_str2id2 s (silc_id_type i) = Some i"
proof (cases i)
  case (ServerID x)
  have ip: "id_ip_of (ip_bytes (sid_ip x) @ r) (unat (ip_data_len (sid_ip x))) = sid_ip x" for r
    using assms(1) ServerID by (simp add: id_ip_of_bytes)
  show ?thesis
    using assms ip ip_len_cases [of "sid_ip x"]
    by (cases x) (auto simp: ServerID id2str_eq silc_id_str2id2_def silc_id_str2id_def Let_def
        id_lens ip_wf_def GET16_PUT16)
next
  case (ClientID x)
  have ip: "id_ip_of (ip_bytes (cid_ip x) @ r) (unat (ip_data_len (cid_ip x))) = cid_ip x" for r
    using assms(1) ClientID by (simp add: id_ip_of_bytes)
  show ?thesis
    using assms ip ip_len_cases [of "cid_ip x"]
    by (cases x) (auto simp: ClientID id2str_eq silc_id_str2id2_def silc_id_str2id_def Let_def
        id_lens ip_wf_def nth_append)
next
  case (ChannelID x)
  have ip: "id_ip_of (ip_bytes (chid_ip x) @ r) (unat (ip_data_len (chid_ip x))) = chid_ip x" for r
    using assms(1) ChannelID by (simp add: id_ip_of_bytes)
  show ?thesis
    using assms ip ip_len_cases [of "chid_ip x"]
    by (cases x) (auto simp: ChannelID id2str_eq silc_id_str2id2_def silc_id_str2id_def Let_def
        id_lens ip_wf_def GET16_PUT16)
qed

text \<open>The string form of an ID of a given type is a canonical codec.\<close>

interpretation idc: canonical_codec "\<lambda>i. id_wf i \<and> silc_id_type i = t"
  "\<lambda>i. silc_id_id2str i 32" "\<lambda>s. silc_id_str2id2 s t" for t
proof unfold_locales
  show "id_wf i \<and> silc_id_type i = t \<Longrightarrow> \<exists>b. silc_id_id2str i 32 = Some b" for i
    by (simp add: id2str_eq)
  show "id_wf i \<and> silc_id_type i = t \<Longrightarrow> silc_id_id2str i 32 = Some b \<Longrightarrow>
      silc_id_str2id2 b t = Some i" for i b
    using str2id_id2str by blast
  show "silc_id_str2id2 b t = Some i \<Longrightarrow>
      (id_wf i \<and> silc_id_type i = t) \<and> silc_id_id2str i 32 = Some b" for b i
    using id2str_str2id by blast
qed

text \<open>
  The string form of IDs is canonical: \<open>silc_id_str2id2\<close> accepts a byte string for
  a type exactly when it is the \<open>silc_id_id2str\<close> form of a well-formed ID of this type, and
  returns that ID.  In particular both directions of the conversion are inverse to each other.
\<close>

lemma id_string_canonical:
  "silc_id_str2id2 s t = Some i \<longleftrightarrow>
    id_wf i \<and> silc_id_type i = t \<and> silc_id_id2str i 32 = Some s"
  using idc.parse_iff [of s t i] by blast

text \<open>What the parser of an ID Payload computes on a byte string.\<close>

lemma parse_id_eq:
  assumes "length b < 2 ^ 32 - 1"
  shows "silc_id_payload_parse_id b =
    (if length b < 4 then None
     else let t = ucast (SILC_GET16_MSB b); n = unat (SILC_GET16_MSB (drop 2 b)) in
       if t > SILC_ID_CHANNEL \<or> n > length b - 4 \<or> n > SILC_PACKET_MAX_ID_LEN then None
       else silc_id_str2id2 (take n (drop 4 b)) t)"
proof -
  have wf: "buffer_wf (silc_buffer_set b)" using assms by simp
  have short: "silc_id_str2id [] t k = None" for t k
    by (simp add: silc_id_str2id_def Let_def id_lens)
  have other: "silc_id_str2id s t k = None" if "t \<noteq> 1" "t \<noteq> 2" "t \<noteq> 3" for s t k
    using that by (simp add: silc_id_str2id_def Let_def)
  show ?thesis
    using assms wf
    by (auto simp: silc_id_payload_parse_id_def unformat_fwd pfixed_def Let_def
        silc_id_str2id2_def short other)
qed

definition id_payload_bytes :: "byte list \<Rightarrow> id_type \<Rightarrow> byte list" where
  "id_payload_bytes s t = SILC_PUT16_MSB t @ SILC_PUT16_MSB (of_nat (length s)) @ s"

lemma encode_data_eq:
  "length s < 2 ^ 16 \<Longrightarrow>
    silc_id_payload_encode_data s t = Some (silc_buffer_set (id_payload_bytes s t))"
  using bufformat_fresh [of "[SILC_PARAM_UI16_SHORT t, SILC_PARAM_UI16_SHORT (of_nat (length s)),
        SILC_PARAM_DATA (Some s) (of_nat (length s))]" "4 + length s"]
  by (simp add: silc_id_payload_encode_data_def id_payload_bytes_def SILC_MAX_ALLOC_def)

lemma payload_encode_eq:
  assumes "id_wf i" "silc_id_id2str i 32 = Some s"
  shows "silc_id_payload_encode i = Some (silc_buffer_set (id_payload_bytes s (silc_id_type i)))"
  using id2str_length [OF assms] get_len_bounds [OF assms(1)] assms(2)
  by (simp add: silc_id_payload_encode_def encode_data_eq)

lemma silc_id_type_le: "\<not> SILC_ID_CHANNEL < silc_id_type i"
  by (cases i) simp_all

lemma parse_id_bytes:
  assumes "id_wf i" "silc_id_id2str i 32 = Some s"
    "length (id_payload_bytes s (silc_id_type i) @ r) < 2 ^ 32 - 1"
  shows "silc_id_payload_parse_id (id_payload_bytes s (silc_id_type i) @ r) = Some i"
proof -
  have len: "length s \<le> 28" "8 \<le> length s"
    using id2str_length [OF assms(1,2)] get_len_bounds [OF assms(1)] by auto
  then show ?thesis
    using str2id_id2str [OF assms(1,2)] silc_id_type_le [of i] parse_id_eq [OF assms(3)]
    by (simp add: id_payload_bytes_def Let_def GET16_PUT16 GET16_PUT16_unat
        SILC_PACKET_MAX_ID_LEN_def)
qed

lemma parse_id_bytesD:
  assumes "length b < 2 ^ 32 - 1" "silc_id_payload_parse_id b = Some i"
  obtains s r where "id_wf i" "silc_id_id2str i 32 = Some s"
    "b = id_payload_bytes s (silc_id_type i) @ r"
proof -
  define n t where "n = unat (SILC_GET16_MSB (drop 2 b))" and "t = (ucast (SILC_GET16_MSB b) :: u16)"
  from assms have b: "4 \<le> length b" "n \<le> length b - 4"
    and i: "silc_id_str2id2 (take n (drop 4 b)) t = Some i"
    by (auto simp: parse_id_eq Let_def n_def t_def split: if_splits)
  from b have len: "length (take n (drop 4 b)) = n" by simp
  have "of_nat n = (ucast (SILC_GET16_MSB (drop 2 b)) :: u16)"
    using unat_GET16 [of "drop 2 b"] by (metis n_def of_nat_unat ucast_id)
  then have "id_payload_bytes (take n (drop 4 b)) t = take 2 b @ take 2 (drop 2 b) @ take n (drop 4 b)"
    using b len unfolding id_payload_bytes_def t_def by (simp add: PUT16_GET16_take)
  also have "\<dots> = take (2 + 2 + n) b"
    by (simp only: take_add append_assoc) (simp add: take_drop)
  finally have "b = id_payload_bytes (take n (drop 4 b)) t @ drop (2 + 2 + n) b"
    by (metis append_take_drop_id)
  then show ?thesis
    using that [OF id2str_str2id(2) [OF i] id2str_str2id(1) [OF i]] id2str_str2id(3) [OF i] by blast
qed

text \<open>
  Property C38. \<open>silc_id_payload_parse_id\<close> accepts exactly the byte strings that start with the
  ID Payload \<open>silc_id_payload_encode\<close> makes of a well-formed ID, and returns that ID.
\<close>

theorem id_payload_parse_iff:
  assumes "length b < 2 ^ 32 - 1"
  shows "silc_id_payload_parse_id b = Some i \<longleftrightarrow>
    id_wf i \<and> (\<exists>buf r. silc_id_payload_encode i = Some buf \<and> b = silc_buffer_data buf @ r)"
proof
  assume "silc_id_payload_parse_id b = Some i"
  with assms obtain s r where "id_wf i" "silc_id_id2str i 32 = Some s"
    "b = id_payload_bytes s (silc_id_type i) @ r"
    by (rule parse_id_bytesD)
  then show "id_wf i \<and> (\<exists>buf r. silc_id_payload_encode i = Some buf \<and> b = silc_buffer_data buf @ r)"
    by (auto simp: payload_encode_eq)
next
  assume "id_wf i \<and> (\<exists>buf r. silc_id_payload_encode i = Some buf \<and> b = silc_buffer_data buf @ r)"
  then show "silc_id_payload_parse_id b = Some i"
    using assms parse_id_bytes [of i] payload_encode_eq [of i] id2str_eq [of i] by auto
qed

theorem id_payload_parse_iff_witness:
  "silc_id_payload_parse_id [0, 1, 0, 8, 127, 0, 0, 1, 2, 194, 0, 255] =
    Some (ServerID \<lparr>sid_ip = \<lparr>ip_data = [127, 0, 0, 1] @ replicate 12 0, ip_data_len = 4\<rparr>,
      sid_port = 706, sid_rnd = 255\<rparr>)"
proof -
  let ?i = "ServerID \<lparr>sid_ip = \<lparr>ip_data = [127, 0, 0, 1] @ replicate 12 0, ip_data_len = 4\<rparr>,
      sid_port = 706, sid_rnd = 255\<rparr>"
  have wf: "id_wf ?i" by (simp add: ip_wf_def)
  have "silc_id_id2str ?i 32 = Some [127, 0, 0, 1, 2, 194, 0, 255]"
    unfolding id2str_eq [OF wf] by (simp add: SILC_PUT16_MSB_def)
  from payload_encode_eq [OF wf this] show ?thesis
    using id_payload_parse_iff [of "[0, 1, 0, 8, 127, 0, 0, 1, 2, 194, 0, 255]" ?i] wf
    by (simp add: id_payload_bytes_def SILC_PUT16_MSB_def)
qed

end
