(* ===== verification/Silc_Argument.thy ===== *)
theory Silc_Argument
  imports Silc_Id
begin

text \<open>
  Argument Payloads and Argument List Payloads, \<^verbatim>\<open>lib/silccore/silcargument.c\<close>.  The parallel
  arrays \<open>argv\<close>, \<open>argv_lens\<close> and \<open>argv_types\<close> are one list of triples; an argument of length
  zero has no data pointer.  Decoding a public key and parsing attributes are parameters.
\<close>

section \<open>The payload and its operations\<close>

type_synonym arg_entry = "byte list option \<times> u32 \<times> u32"  \<comment> \<open>data, length, type\<close>

record silc_argument_payload =
  ap_argc :: u32
  ap_args :: "arg_entry list"
  ap_pos :: nat

fun argument_parse_loop :: "nat \<Rightarrow> silc_buffer \<Rightarrow> (arg_entry list \<times> silc_buffer) option" where
  "argument_parse_loop 0 buffer = Some ([], buffer)"
| "argument_parse_loop (Suc n) buffer =
     (case unformat buffer [U_UI16_SHORT, U_UI8_CHAR] of
        Some (ret, [VU16 p_len, VU8 arg_type], buffer) \<Rightarrow>
          if ret = -1 \<or> unat p_len > silc_buffer_len buffer - 3 then None
          else
            let buffer = buf_pull buffer 3 in
            (case unformat buffer [U_DATA_ALLOC (ucast p_len)] of
               Some (ret, [VData arg], buffer) \<Rightarrow>
                 if ret = -1 then None
                 else
                   (case argument_parse_loop n (buf_pull buffer (unat p_len)) of
                      None \<Rightarrow> None
                    | Some (as, buffer) \<Rightarrow> Some ((arg, ucast p_len, ucast arg_type) # as, buffer))
             | _ \<Rightarrow> None)
      | _ \<Rightarrow> None)"

text \<open>The arrays are allocated first, which fails when there are no arguments.\<close>

definition silc_argument_payload_parse :: "byte list \<Rightarrow> u32 \<Rightarrow> silc_argument_payload option" where
  "silc_argument_payload_parse payload argc =
     (if \<not> silc_calloc_ok (unat argc) 8 \<or> \<not> silc_calloc_ok (unat argc) 4 then None
      else
        case argument_parse_loop (unat argc) (silc_buffer_set payload) of
          None \<Rightarrow> None
        | Some (as, buffer) \<Rightarrow>
            if silc_buffer_len buffer \<noteq> 0 then None
            else Some \<lparr>ap_argc = argc, ap_args = as, ap_pos = 0\<rparr>)"

text \<open>Encoding truncates each length to 16 bits; the total is a 32-bit sum.\<close>

fun argument_encode_loop :: "arg_entry list \<Rightarrow> silc_buffer \<Rightarrow> silc_buffer" where
  "argument_encode_loop [] buffer = buffer"
| "argument_encode_loop ((arg, len, type) # as) buffer =
     argument_encode_loop as
       (buf_pull
          (bufformat buffer
             [SILC_PARAM_UI16_SHORT (ucast len), SILC_PARAM_UI8_CHAR (ucast type),
              SILC_PARAM_DATA arg (ucast (ucast len :: u16))])
          (3 + unat (ucast len :: u16)))"

definition silc_argument_payload_encode :: "arg_entry list \<Rightarrow> silc_buffer option" where
  "silc_argument_payload_encode as =
     (let len = sum_list (map (\<lambda>(_, l, _). 3 + unat (ucast l :: u16)) as) mod 2 ^ 32 in
      map_option (\<lambda>buffer. buf_push (argument_encode_loop as buffer) len)
        (silc_buffer_alloc_size len))"

definition silc_argument_payload_encode_one ::
  "(nat \<Rightarrow> byte) \<Rightarrow> silc_buffer option \<Rightarrow> byte list option \<Rightarrow> u32 \<Rightarrow> u32 \<Rightarrow> silc_buffer option" where
  "silc_argument_payload_encode_one junk args arg arg_len arg_type =
     (let len = 3 + unat (ucast arg_len :: u16) in
      case silc_buffer_realloc junk args
             (case args of None \<Rightarrow> len | Some b \<Rightarrow> silc_buffer_truelen b + len) of
        None \<Rightarrow> None
      | Some buffer \<Rightarrow>
          let b1 = buf_pull buffer (silc_buffer_len buffer);
              b2 = snd (silc_buffer_pull_tail b1 len);
              b3 = snd (silc_buffer_format junk b2
                     [SILC_PARAM_UI16_SHORT (ucast arg_len), SILC_PARAM_UI8_CHAR (ucast arg_type),
                      SILC_PARAM_DATA arg (ucast (ucast arg_len :: u16))])
          in Some (buf_push b3 (silc_buffer_headlen b3)))"

fun argument_encode_payload_loop :: "arg_entry list \<Rightarrow> silc_buffer \<Rightarrow> silc_buffer" where
  "argument_encode_payload_loop [] buffer = buffer"
| "argument_encode_payload_loop ((arg, len, type) # as) buffer =
     argument_encode_payload_loop as
       (buf_pull
          (bufformat buffer
             [SILC_PARAM_UI16_SHORT (ucast len), SILC_PARAM_UI8_CHAR (ucast type),
              SILC_PARAM_DATA arg len])
          (3 + unat len))"

definition silc_argument_payload_encode_payload :: "silc_argument_payload \<Rightarrow> silc_buffer option" where
  "silc_argument_payload_encode_payload payload =
     (let as = take (unat (ap_argc payload)) (ap_args payload);
          len = sum_list (map (\<lambda>(_, l, _). 3 + unat l) as) mod 2 ^ 32 in
      map_option (\<lambda>buffer. buf_push (argument_encode_payload_loop as buffer) len)
        (silc_buffer_alloc_size len))"

definition silc_argument_get_arg_num :: "silc_argument_payload option \<Rightarrow> u32" where
  "silc_argument_get_arg_num p = (case p of None \<Rightarrow> 0 | Some p \<Rightarrow> ap_argc p)"

text \<open>
  The first argument is read without a check that there is one: \<open>None\<close> is a read beyond the
  arrays.  The result is the data, the type and the length, and the moved position.
\<close>

definition silc_argument_get_first_arg ::
  "silc_argument_payload \<Rightarrow> ((byte list option \<times> u32 \<times> u32) \<times> silc_argument_payload) option" where
  "silc_argument_get_first_arg p =
     (case ap_args p of [] \<Rightarrow> None
      | (arg, len, type) # _ \<Rightarrow> Some ((arg, type, len), p\<lparr>ap_pos := 1\<rparr>))"

definition silc_argument_get_next_arg ::
  "silc_argument_payload \<Rightarrow> (byte list option \<times> u32 \<times> u32) \<times> silc_argument_payload" where
  "silc_argument_get_next_arg p =
     (if ap_pos p \<ge> unat (ap_argc p) then ((None, 0, 0), p)
      else case ap_args p ! ap_pos p of
        (arg, len, type) \<Rightarrow> ((arg, type, len), p\<lparr>ap_pos := ap_pos p + 1\<rparr>))"

definition silc_argument_get_arg_type ::
  "silc_argument_payload option \<Rightarrow> u32 \<Rightarrow> (byte list \<times> u32) option" where
  "silc_argument_get_arg_type po type =
     (case po of None \<Rightarrow> None
      | Some p \<Rightarrow>
          (case find (\<lambda>(_, _, t). t = type) (take (unat (ap_argc p)) (ap_args p)) of
             None \<Rightarrow> None
           | Some (arg, len, _) \<Rightarrow> map_option (\<lambda>d. (d, len)) arg))"

section \<open>Decoded arguments\<close>

datatype argument_decode_type =
    SILC_ARGUMENT_ID | SILC_ARGUMENT_PUBLIC_KEY | SILC_ARGUMENT_ATTRIBUTES
  | SILC_ARGUMENT_UINT32 | SILC_ARGUMENT_BOOL

datatype ('pk, 'attr) decoded_arg =
    D_ID silc_id | D_PUBLIC_KEY 'pk | D_ATTRIBUTES "'attr option" | D_UINT32 u32 | D_BOOL bool

text \<open>
  The caller gives either \<open>ret_arg\<close> or \<open>ret_arg_alloc\<close> (\<open>alloc\<close>); keys and attributes are
  returned through the latter only.
\<close>

definition silc_argument_decode ::
  "(byte list \<Rightarrow> 'pk option) \<Rightarrow> (byte list \<Rightarrow> 'attr option) \<Rightarrow> bool \<Rightarrow> argument_decode_type \<Rightarrow>
     byte list \<Rightarrow> ('pk, 'attr) decoded_arg option" where
  "silc_argument_decode pk_dec attr_parse alloc dec_type data =
     (case dec_type of
        SILC_ARGUMENT_ID \<Rightarrow> map_option D_ID (silc_id_payload_parse_id data)
      | SILC_ARGUMENT_PUBLIC_KEY \<Rightarrow>
          if \<not> alloc then None else map_option D_PUBLIC_KEY (pk_dec data)
      | SILC_ARGUMENT_ATTRIBUTES \<Rightarrow>
          if \<not> alloc then None else Some (D_ATTRIBUTES (attr_parse data))
      | SILC_ARGUMENT_UINT32 \<Rightarrow>
          if length data \<noteq> 4 then None else Some (D_UINT32 (SILC_GET32_MSB data))
      | SILC_ARGUMENT_BOOL \<Rightarrow>
          if length data \<noteq> 1 then None else Some (D_BOOL (data ! 0 = 1)))"

definition silc_argument_get_decoded ::
  "(byte list \<Rightarrow> 'pk option) \<Rightarrow> (byte list \<Rightarrow> 'attr option) \<Rightarrow> bool \<Rightarrow>
     silc_argument_payload option \<Rightarrow> u32 \<Rightarrow> argument_decode_type \<Rightarrow> ('pk, 'attr) decoded_arg option" where
  "silc_argument_get_decoded pk_dec attr_parse alloc payload type dec_type =
     (case silc_argument_get_arg_type payload type of
        None \<Rightarrow> None
      | Some (tmp, tmp_len) \<Rightarrow>
          silc_argument_decode pk_dec attr_parse alloc dec_type (take (unat tmp_len) tmp))"

definition silc_argument_list_parse :: "byte list \<Rightarrow> silc_argument_payload option" where
  "silc_argument_list_parse payload =
     (if length payload < 5 then None
      else silc_argument_payload_parse (drop 2 payload)
             (ucast (ucast (SILC_GET16_MSB payload) :: u16)))"

text \<open>The loop goes on while the data pointer is not NULL.\<close>

function argument_decode_loop ::
  "(byte list \<Rightarrow> 'd option) \<Rightarrow> silc_argument_payload \<Rightarrow> byte list option \<Rightarrow> u32 \<Rightarrow> u32 \<Rightarrow> (u32 \<times> 'd) list" where
  "argument_decode_loop dec p data type data_len =
     (case data of
        None \<Rightarrow> []
      | Some d \<Rightarrow>
          (case silc_argument_get_next_arg p of
             ((data', type', data_len'), p') \<Rightarrow>
               (case dec (take (unat data_len) d) of None \<Rightarrow> [] | Some v \<Rightarrow> [(type, v)]) @
               argument_decode_loop dec p' data' type' data_len'))"
  by pat_completeness auto
termination
proof (relation "measure (\<lambda>(dec, p, data, type, data_len).
    (if data = None then 0 else 1) + (unat (ap_argc p) - ap_pos p))", goal_cases)
  case 1
  then show ?case by simp
next
  case (2 dec p data type data_len d x p' data' y type' data_len')
  then show ?case
    by (cases "ap_pos p < unat (ap_argc p)")
      (auto simp: silc_argument_get_next_arg_def split: prod.splits if_splits)
qed

definition silc_argument_list_parse_decoded ::
  "(byte list \<Rightarrow> 'pk option) \<Rightarrow> (byte list \<Rightarrow> 'attr option) \<Rightarrow> byte list \<Rightarrow> argument_decode_type \<Rightarrow>
     (u32 \<times> ('pk, 'attr) decoded_arg) list option" where
  "silc_argument_list_parse_decoded pk_dec attr_parse payload dec_type =
     (case silc_argument_list_parse payload of
        None \<Rightarrow> None
      | Some arg \<Rightarrow>
          (case silc_argument_get_first_arg arg of
             None \<Rightarrow> None
           | Some ((data, type, data_len), arg') \<Rightarrow>
               Some (argument_decode_loop
                       (silc_argument_decode pk_dec attr_parse True dec_type)
                       arg' data type data_len)))"

declare argument_decode_loop.simps [simp del]

section \<open>The wire format of arguments\<close>

text \<open>
  An argument that fits its fields: length below \<open>2\<^sup>16\<close>, type below \<open>2\<^sup>8\<close>, data exactly of the
  stated length and absent when it is zero.
\<close>

fun entry_ok :: "arg_entry \<Rightarrow> bool" where
  "entry_ok (arg, l, t) \<longleftrightarrow> unat l < 65536 \<and> unat t < 256 \<and>
     (case arg of None \<Rightarrow> l = 0 | Some d \<Rightarrow> l \<noteq> 0 \<and> length d = unat l)"

fun arg_bytes :: "arg_entry \<Rightarrow> byte list" where
  "arg_bytes (arg, l, t) =
     SILC_PUT16_MSB (ucast l) @ ucast t # (case arg of None \<Rightarrow> [] | Some d \<Rightarrow> d)"

abbreviation args_bytes :: "arg_entry list \<Rightarrow> byte list" where
  "args_bytes as \<equiv> concat (map arg_bytes as)"

lemma unat_ucast16 [simp]: "unat (l :: u32) < 65536 \<Longrightarrow> unat (ucast l :: u16) = unat l"
  by (simp add: unsigned_ucast_eq unsigned_take_bit_eq take_bit_eq_mod)

lemma unat_ucast8 [simp]: "unat (l :: u32) < 256 \<Longrightarrow> unat (ucast l :: u8) = unat l"
  by (simp add: unsigned_ucast_eq unsigned_take_bit_eq take_bit_eq_mod)

lemma ucast_back16: "unat (l :: u32) < 65536 \<Longrightarrow> ucast (ucast l :: u16) = l"
  by (metis of_nat_unat ucast_id ucast_u16_u32 unat_ucast16)

lemma unat_ucast_u8 [simp]: "unat (ucast (w :: u8) :: u32) = unat w"
proof -
  have "unat w < 2 ^ 32" using unat_u8_less [of w] by simp
  then show ?thesis by (simp add: unsigned_ucast_eq take_bit_nat_eq_self)
qed

lemma ucast_back8: "unat (l :: u32) < 256 \<Longrightarrow> ucast (ucast l :: u8) = l"
  by (metis of_nat_unat ucast_id unat_ucast_u8 unat_ucast8)

lemma length_arg_bytes: "entry_ok (a, l, t) \<Longrightarrow> length (arg_bytes (a, l, t)) = 3 + unat l"
  by (cases a) auto

lemma arg_fmt:
  assumes "entry_ok (a, l, t)"
    "ps = [SILC_PARAM_UI16_SHORT (ucast l), SILC_PARAM_UI8_CHAR (ucast t), SILC_PARAM_DATA a l]"
  shows "\<forall>p \<in> set ps. fmt_plain p" "arg_bytes (a, l, t) = concat (map fmt_bytes ps)"
  using assms by (cases a; simp)+

lemma encode_loop_write:
  "buffer_wf sb \<Longrightarrow> \<forall>e \<in> set as. entry_ok e \<Longrightarrow> length (args_bytes as) \<le> silc_buffer_len sb \<Longrightarrow>
    bdata sb + length (args_bytes as) < SILC_MAX_ALLOC \<Longrightarrow>
    argument_encode_loop as sb = buf_write sb (args_bytes as) \<and>
    argument_encode_payload_loop as sb = buf_write sb (args_bytes as)"
proof (induction as arbitrary: sb)
  case Nil
  then show ?case by simp
next
  case (Cons e as)
  obtain a l t where e: "e = (a, l, t)" by (cases e)
  let ?xs = "arg_bytes (a, l, t)"
  from Cons.prems(2) e have ok: "entry_ok (a, l, t)" by simp
  note fmt = arg_fmt [OF ok refl]
  have fit: "length ?xs \<le> silc_buffer_len sb" "bdata sb + length ?xs < SILC_MAX_ALLOC"
    using Cons.prems(3,4) e by auto
  have step: "buf_pull (bufformat sb [SILC_PARAM_UI16_SHORT (ucast l), SILC_PARAM_UI8_CHAR (ucast t),
      SILC_PARAM_DATA a l]) (3 + unat l) = buf_write sb ?xs"
    using format_pull_write [OF Cons.prems(1) fmt fit] unfolding length_arg_bytes [OF ok] .
  have wf: "buffer_wf (buf_write sb ?xs)"
    by (rule buf_write_wf [OF Cons.prems(1) fit(2)])
  have "length (args_bytes as) \<le> silc_buffer_len (buf_write sb ?xs)"
    using Cons.prems(3) unfolding buf_write_len [OF Cons.prems(1) fit(1)] e
    by (simp del: arg_bytes.simps)
  then have "argument_encode_loop as (buf_write sb ?xs) = buf_write (buf_write sb ?xs) (args_bytes as) \<and>
      argument_encode_payload_loop as (buf_write sb ?xs) = buf_write (buf_write sb ?xs) (args_bytes as)"
    using Cons.prems(2,4) e by (intro Cons.IH [OF wf]) auto
  then show ?case
    using step ok Cons.prems(1) by (simp add: e ucast_back16 buf_write_write)
qed

lemma args_len:
  "\<forall>e \<in> set as. entry_ok e \<Longrightarrow>
    sum_list (map (\<lambda>(_, l, _). 3 + unat (ucast l :: u16)) as) = length (args_bytes as) \<and>
    sum_list (map (\<lambda>(_, l, _). 3 + unat l) as) = length (args_bytes as)"
  by (induction as) (auto simp: length_arg_bytes simp del: arg_bytes.simps)

lemma argument_encode_eq:
  assumes "\<forall>e \<in> set as. entry_ok e" "length (args_bytes as) < SILC_MAX_ALLOC"
  shows "silc_argument_payload_encode as = Some (silc_buffer_set (args_bytes as))"
proof -
  have "length (args_bytes as) mod 2 ^ 32 = length (args_bytes as)"
    using assms(2) by (simp add: SILC_MAX_ALLOC_def)
  then show ?thesis
    using assms args_len [OF assms(1)] encode_loop_write [OF fresh_wf [OF assms(2)] assms(1)]
    by (simp add: silc_argument_payload_encode_def Let_def silc_buffer_len_def push_write_fresh)
qed

lemma argument_encode_payload_eq:
  assumes "\<forall>e \<in> set (ap_args p). entry_ok e" "length (args_bytes (ap_args p)) < SILC_MAX_ALLOC"
    "length (ap_args p) = unat (ap_argc p)"
  shows "silc_argument_payload_encode_payload p = Some (silc_buffer_set (args_bytes (ap_args p)))"
proof -
  have "length (args_bytes (ap_args p)) mod 2 ^ 32 = length (args_bytes (ap_args p))"
    using assms(2) by (simp add: SILC_MAX_ALLOC_def)
  then show ?thesis
    using assms args_len [OF assms(1)] encode_loop_write [OF fresh_wf [OF assms(2)] assms(1)]
    by (simp add: silc_argument_payload_encode_payload_def Let_def silc_buffer_len_def
        push_write_fresh)
qed

text \<open>One round of the parsing loop, on the bytes of the buffer.\<close>

lemma parse_loop_Suc:
  assumes "buffer_wf sb"
  shows "argument_parse_loop (Suc n) sb =
    (let d = silc_buffer_data sb; l = unat (SILC_GET16_MSB d) in
     if length d < 3 + l then None
     else case argument_parse_loop n (buf_pull sb (3 + l)) of
        None \<Rightarrow> None
      | Some (as, b) \<Rightarrow>
          Some ((alloc_copy (drop 3 d) l, ucast (ucast (SILC_GET16_MSB d) :: u16), ucast (d ! 2)) # as, b))"
proof (cases "silc_buffer_len sb < 3")
  case True
  then show ?thesis
    using assms by (auto simp: unformat_fwd pfixed_def Let_def)
next
  case False
  let ?d = "silc_buffer_data sb"
  have hd: "unformat sb [U_UI16_SHORT, U_UI8_CHAR] =
      Some (3, [VU16 (ucast (SILC_GET16_MSB ?d)), VU8 (?d ! 2)], sb)"
    using False assms by (simp add: unformat_fwd pfixed_def)
  show ?thesis
  proof (cases "unat (SILC_GET16_MSB ?d) \<le> silc_buffer_len sb - 3")
    case True
    then have "unformat (buf_pull sb 3) [U_DATA_ALLOC (ucast (ucast (SILC_GET16_MSB ?d) :: u16))] =
        Some (int (unat (SILC_GET16_MSB ?d)),
          [VData (alloc_copy (drop 3 ?d) (unat (SILC_GET16_MSB ?d)))], buf_pull sb 3)"
      using False assms by (simp add: unformat_fwd pfixed_def)
    moreover have "\<not> silc_buffer_len sb < 3 + unat (SILC_GET16_MSB ?d)"
      using True False by linarith
    ultimately show ?thesis
      using True False assms by (simp add: hd Let_def pull_pull split: option.splits)
  next
    case False
    then have "silc_buffer_len sb < 3 + unat (SILC_GET16_MSB ?d)" by linarith
    then show ?thesis using False assms by (simp add: hd Let_def)
  qed
qed

declare argument_parse_loop.simps(2) [simp del]

lemma alloc_copy_arg:
  "n < 65536 \<Longrightarrow> alloc_copy d n = (if n = 0 then None else Some (take n d))"
  by (simp add: alloc_copy_def silc_calloc_ok_def SILC_MAX_ALLOC_def)

lemma parse_loop_bytes:
  "buffer_wf sb \<Longrightarrow> \<forall>e \<in> set as. entry_ok e \<Longrightarrow> silc_buffer_data sb = args_bytes as @ r \<Longrightarrow>
    argument_parse_loop (length as) sb = Some (as, buf_pull sb (length (args_bytes as)))"
proof (induction as arbitrary: sb)
  case Nil
  then show ?case by simp
next
  case (Cons e as)
  obtain a l t where e: "e = (a, l, t)" by (cases e)
  from Cons.prems(2) e have ok: "entry_ok (a, l, t)" by simp
  let ?d = "silc_buffer_data sb"
  define q where "q = (case a of None \<Rightarrow> [] | Some d \<Rightarrow> d)"
  have q: "length q = unat l" using ok by (auto simp: q_def split: option.splits)
  have d: "?d = SILC_PUT16_MSB (ucast l) @ ucast t # q @ args_bytes as @ r"
    using Cons.prems(3) by (simp add: e q_def)
  have len: "silc_buffer_len sb = length ?d" using Cons.prems(1) by simp
  have l: "unat (SILC_GET16_MSB ?d) = unat l" "ucast (ucast (SILC_GET16_MSB ?d) :: u16) = l"
    using ok by (simp_all add: d GET16_PUT16_unat GET16_PUT16 ucast_back16)
  have t: "ucast (?d ! 2) = t"
    using ok by (simp add: d nth_append ucast_back8)
  have a: "alloc_copy (drop 3 ?d) (unat l) = a"
    using ok q by (auto simp: d alloc_copy_arg q_def unsigned_eq_0_iff split: option.splits)
  have fit: "3 + unat l \<le> silc_buffer_len sb"
    unfolding len d using q by simp
  have "silc_buffer_data (buf_pull sb (3 + unat l)) = args_bytes as @ r"
    using Cons.prems(1) fit q by (simp add: d)
  then have "argument_parse_loop (length as) (buf_pull sb (3 + unat l)) =
      Some (as, buf_pull (buf_pull sb (3 + unat l)) (length (args_bytes as)))"
    using Cons.prems by (intro Cons.IH) auto
  moreover have "buf_pull (buf_pull sb (3 + unat l)) (length (args_bytes as)) =
      buf_pull sb (length (args_bytes (e # as)))"
    using q unfolding e
    by (subst pull_pull) (auto simp: len d q_def numeral_3_eq_3 split: option.splits)
  ultimately show ?case
    using fit by (simp add: parse_loop_Suc [OF Cons.prems(1)] Let_def l t a len [symmetric] e)
qed

lemma parse_loopD:
  "buffer_wf sb \<Longrightarrow> argument_parse_loop n sb = Some (as, sb') \<Longrightarrow>
    length as = n \<and> (\<forall>e \<in> set as. entry_ok e) \<and> buffer_wf sb' \<and>
    silc_buffer_data sb = args_bytes as @ silc_buffer_data sb'"
proof (induction n arbitrary: sb as)
  case 0
  then show ?case by simp
next
  case (Suc n)
  let ?d = "silc_buffer_data sb"
  let ?l = "unat (SILC_GET16_MSB ?d)"
  let ?e = "(alloc_copy (drop 3 ?d) ?l, ucast (ucast (SILC_GET16_MSB ?d) :: u16), ucast (?d ! 2)) :: arg_entry"
  let ?sb = "buf_pull sb (3 + ?l)"
  from Suc.prems obtain as1 where fit: "3 + ?l \<le> length ?d"
    and as: "as = ?e # as1" and rec: "argument_parse_loop n ?sb = Some (as1, sb')"
    by (auto simp: parse_loop_Suc Let_def split: if_splits option.splits prod.splits)
  have IH: "length as1 = n" "\<forall>e \<in> set as1. entry_ok e" "buffer_wf sb'"
    "silc_buffer_data ?sb = args_bytes as1 @ silc_buffer_data sb'"
    using Suc.IH [OF _ rec] Suc.prems(1) by auto
  have l: "?l < 65536" by (simp add: GET16_less)
  have ok: "entry_ok ?e"
    using l fit by (auto simp: alloc_copy_arg unat_u8_less unsigned_eq_0_iff)
  have "arg_bytes ?e = take 3 ?d @ take ?l (drop 3 ?d)"
    using fit l by (cases "?l = 0") (simp_all add: alloc_copy_arg PUT16_GET16_take take3_nth)
  then have "arg_bytes ?e = take (3 + ?l) ?d" by (simp only: take_add)
  then have "?d = arg_bytes ?e @ silc_buffer_data ?sb"
    using fit Suc.prems(1) by simp
  then show ?case using IH ok by (simp add: as del: arg_bytes.simps)
qed

lemma argument_parse_iff:
  assumes "length b < 2 ^ 32 - 1"
  shows "silc_argument_payload_parse b argc = Some p \<longleftrightarrow>
    0 < argc \<and> 8 * unat argc < SILC_MAX_ALLOC \<and> ap_argc p = argc \<and> ap_pos p = 0 \<and>
    length (ap_args p) = unat argc \<and> (\<forall>e \<in> set (ap_args p). entry_ok e) \<and> b = args_bytes (ap_args p)"
proof -
  let ?sb = "silc_buffer_set b"
  have wf: "buffer_wf ?sb" "silc_buffer_data ?sb = b"
    using assms by auto
  have fwd: "length as = unat argc \<and> (\<forall>e \<in> set as. entry_ok e) \<and> b = args_bytes as"
    if "argument_parse_loop (unat argc) ?sb = Some (as, sb')" "silc_buffer_len sb' = 0" for as sb'
    using parse_loopD [OF wf(1) that(1)] that(2) wf(2) by (auto simp flip: length_0_conv)
  have bwd: "\<exists>sb'. argument_parse_loop (unat argc) ?sb = Some (as, sb') \<and> silc_buffer_len sb' = 0"
    if "length as = unat argc" "\<forall>e \<in> set as. entry_ok e" "b = args_bytes as" for as
    using parse_loop_bytes [OF wf(1) that(2), of "[]"] that wf by simp
  have ok: "silc_calloc_ok (unat argc) 8 \<and> silc_calloc_ok (unat argc) 4 \<longleftrightarrow>
      0 < argc \<and> 8 * unat argc < SILC_MAX_ALLOC"
    by (auto simp: silc_calloc_ok_def word_less_nat_alt)
  have loop: "(\<exists>sb'. argument_parse_loop (unat argc) ?sb = Some (as, sb') \<and> silc_buffer_len sb' = 0) \<longleftrightarrow>
      length as = unat argc \<and> (\<forall>e \<in> set as. entry_ok e) \<and> b = args_bytes as" for as
    using fwd bwd by blast
  have "silc_argument_payload_parse b argc = Some p \<longleftrightarrow>
      (silc_calloc_ok (unat argc) 8 \<and> silc_calloc_ok (unat argc) 4) \<and>
      ap_argc p = argc \<and> ap_pos p = 0 \<and>
      (\<exists>sb'. argument_parse_loop (unat argc) ?sb = Some (ap_args p, sb') \<and> silc_buffer_len sb' = 0)"
    by (cases p) (auto simp: silc_argument_payload_parse_def split: option.splits if_splits)
  then show ?thesis unfolding loop ok by blast
qed

text \<open>
  Appending one argument to what was built so far, with an initially absent buffer or with one
  that holds the arguments encoded before.
\<close>

lemma encode_one_eq:
  assumes "entry_ok (a, l, t)" "length xs + 3 + unat l < SILC_MAX_ALLOC"
    "args = Some (silc_buffer_set xs) \<or> args = None \<and> xs = []"
  shows "silc_argument_payload_encode_one junk args a l t =
    Some (silc_buffer_set (xs @ arg_bytes (a, l, t)))"
proof -
  let ?n = "3 + unat l"
  let ?ps = "[SILC_PARAM_UI16_SHORT (ucast l), SILC_PARAM_UI8_CHAR (ucast t), SILC_PARAM_DATA a l]"
  note fmt = arg_fmt [OF assms(1) refl] and len = length_arg_bytes [OF assms(1)]
  have l: "ucast (ucast l :: u16) = l" "unat (ucast l :: u16) = unat l"
    using assms(1) by (simp_all add: ucast_back16)
  obtain zs where zs: "length zs = ?n"
    "silc_buffer_realloc junk args (case args of None \<Rightarrow> ?n | Some b \<Rightarrow> silc_buffer_truelen b + ?n) =
       Some \<lparr>bmem = xs @ zs, bdata = 0, btail = length xs\<rparr>"
  proof (cases args)
    case None
    then show ?thesis
      using assms(2,3) that [of "replicate ?n 0"]
      by (simp add: silc_buffer_realloc_def silc_buffer_alloc_def silc_calloc_ok_def)
  next
    case (Some b)
    then show ?thesis
      using assms(2,3) that [of "map junk [length xs..<length xs + ?n]"]
      by (simp add: silc_buffer_realloc_def silc_buffer_truelen_def silc_buffer_set_def)
  qed
  let ?b = "\<lparr>bmem = xs @ zs, bdata = length xs, btail = length xs + ?n\<rparr>"
  have wf: "buffer_wf ?b"
    using assms(2) zs(1) by (simp add: buffer_wf_def SILC_MAX_ALLOC_def)
  have b: "snd (silc_buffer_pull_tail (buf_pull \<lparr>bmem = xs @ zs, bdata = 0, btail = length xs\<rparr>
      (silc_buffer_len \<lparr>bmem = xs @ zs, bdata = 0, btail = length xs\<rparr>)) ?n) = ?b"
    using zs(1) by (simp add: silc_buffer_pull_def silc_buffer_pull_tail_def silc_buffer_len_def
        silc_buffer_taillen_def)
  have w: "snd (silc_buffer_format junk ?b ?ps) =
      \<lparr>bmem = xs @ arg_bytes (a, l, t), bdata = length xs, btail = length xs + ?n\<rparr>"
    using format_plain [OF wf fmt] assms(2) zs(1) len
    by (simp add: memcpy_at_def del: arg_bytes.simps)
  show ?thesis
    unfolding silc_argument_payload_encode_one_def Let_def l zs(2) option.case b w
    using len by (simp add: silc_buffer_headlen_def silc_buffer_push_def silc_buffer_set_def
        del: arg_bytes.simps)
qed

section \<open>The argument codec\<close>

definition args_valid :: "silc_argument_payload \<Rightarrow> bool" where
  "args_valid p \<longleftrightarrow> 0 < ap_argc p \<and> 8 * unat (ap_argc p) < SILC_MAX_ALLOC \<and> ap_pos p = 0 \<and>
     length (ap_args p) = unat (ap_argc p) \<and> (\<forall>e \<in> set (ap_args p). entry_ok e) \<and>
     length (args_bytes (ap_args p)) < SILC_MAX_ALLOC"

lemma encode_payload_valid:
  "args_valid p \<Longrightarrow>
    silc_argument_payload_encode_payload p = Some (silc_buffer_set (args_bytes (ap_args p)))"
  by (simp add: args_valid_def argument_encode_payload_eq)

interpretation argc: canonical_codec "\<lambda>p. args_valid p \<and> ap_argc p = argc"
  "\<lambda>p. map_option silc_buffer_data (silc_argument_payload_encode_payload p)"
  "\<lambda>b. if length b < SILC_MAX_ALLOC then silc_argument_payload_parse b argc else None" for argc
proof unfold_locales
  fix p :: silc_argument_payload and b
  assume p: "args_valid p \<and> ap_argc p = argc"
  then show "\<exists>b. map_option silc_buffer_data (silc_argument_payload_encode_payload p) = Some b"
    by (simp add: encode_payload_valid)
  assume "map_option silc_buffer_data (silc_argument_payload_encode_payload p) = Some b"
  with p have "b = args_bytes (ap_args p)" "length b < SILC_MAX_ALLOC"
    by (auto simp: encode_payload_valid args_valid_def)
  with p show "(if length b < SILC_MAX_ALLOC then silc_argument_payload_parse b argc else None) = Some p"
    using argument_parse_iff [of b argc p] by (auto simp: SILC_MAX_ALLOC_def args_valid_def)
next
  fix p :: silc_argument_payload and b
  assume "(if length b < SILC_MAX_ALLOC then silc_argument_payload_parse b argc else None) = Some p"
  then have "args_valid p \<and> ap_argc p = argc \<and> b = args_bytes (ap_args p)"
    by (auto simp: argument_parse_iff args_valid_def SILC_MAX_ALLOC_def split: if_splits)
  then show "(args_valid p \<and> ap_argc p = argc) \<and>
      map_option silc_buffer_data (silc_argument_payload_encode_payload p) = Some b"
    by (simp add: encode_payload_valid)
qed

text \<open>
  Property C26. The wire form of Argument Payloads is canonical: \<open>silc_argument_payload_parse\<close>
  accepts a byte string as \<open>argc\<close> arguments exactly when \<open>silc_argument_payload_encode_payload\<close>
  makes it of a valid payload with that many arguments, and returns this payload.  No byte of the
  input is left over and no length field points beyond it.
\<close>

theorem argument_payload_canonical:
  assumes "length b < SILC_MAX_ALLOC"
  shows "silc_argument_payload_parse b argc = Some p \<longleftrightarrow>
    args_valid p \<and> ap_argc p = argc \<and>
    map_option silc_buffer_data (silc_argument_payload_encode_payload p) = Some b"
  using argc.parse_iff [of b argc p] assms by auto

theorem argument_payload_canonical_witness:
  "silc_argument_payload_parse [0, 2, 7, 65, 66, 0, 0, 9] 2 =
    Some \<lparr>ap_argc = 2, ap_args = [(Some [65, 66], 2, 7), (None, 0, 9)], ap_pos = 0\<rparr>"
proof -
  let ?p = "\<lparr>ap_argc = 2, ap_args = [(Some [65, 66], 2, 7), (None, 0, 9)], ap_pos = 0\<rparr>"
  have v: "args_valid ?p" by (simp add: args_valid_def SILC_MAX_ALLOC_def)
  have "args_bytes (ap_args ?p) = [0, 2, 7, 65, 66, 0, 0, 9]" by code_simp
  with v show ?thesis
    using argument_payload_canonical [of "[0, 2, 7, 65, 66, 0, 0, 9]" 2 ?p]
    by (simp add: encode_payload_valid SILC_MAX_ALLOC_def)
qed

text \<open>
  Looking an argument up after a trip over the wire: encoding a list of arguments and
  parsing the bytes makes \<open>silc_argument_get_arg_type\<close> return, for each type, the data and length
  of the first argument of that type.
\<close>

theorem argument_get_after_encode:
  assumes "as = xs @ (Some d, l, t) # ys" "\<forall>(_, _, t') \<in> set xs. t' \<noteq> t"
    "\<forall>e \<in> set as. entry_ok e" "length (args_bytes as) < SILC_MAX_ALLOC"
    "8 * length as < SILC_MAX_ALLOC"
  shows "\<exists>buf. silc_argument_payload_encode as = Some buf \<and>
    silc_argument_get_arg_type
      (silc_argument_payload_parse (silc_buffer_data buf) (of_nat (length as))) t = Some (d, l)"
proof -
  have n: "unat (of_nat (length as) :: u32) = length as"
    using assms(5) by (simp add: SILC_MAX_ALLOC_def unat_of_nat)
  have "silc_argument_payload_parse (args_bytes as) (of_nat (length as)) =
      Some \<lparr>ap_argc = of_nat (length as), ap_args = as, ap_pos = 0\<rparr>"
    using assms(1,3-5) n
    by (subst argument_parse_iff) (auto simp: SILC_MAX_ALLOC_def word_less_nat_alt)
  moreover have "find (\<lambda>(_, _, t'). t' = t) as = Some (Some d, l, t)"
    using assms(2) unfolding assms(1) by (induction xs) auto
  ultimately show ?thesis
    using argument_encode_eq [OF assms(3,4)] n by (simp add: silc_argument_get_arg_type_def)
qed

theorem argument_get_after_encode_witness:
  "\<exists>buf. silc_argument_payload_encode [(Some [1], 1, 3), (Some [65, 66], 2, 7)] = Some buf \<and>
    silc_argument_get_arg_type
      (silc_argument_payload_parse (silc_buffer_data buf) 2) 7 = Some ([65, 66], 2)"
  using argument_get_after_encode [OF refl, of "[(Some [1], 1, 3)]" 7 "[65, 66]" 2 "[]"]
  by (simp add: SILC_MAX_ALLOC_def)

text \<open>
  Building the arguments one at a time with \<open>silc_argument_payload_encode_one\<close>,
  starting with no buffer, gives the same bytes as encoding them all at once; the reallocated but
  uninitialised memory never shows.
\<close>

theorem encode_one_all:
  assumes "\<forall>e \<in> set as. entry_ok e" "length (args_bytes as) < SILC_MAX_ALLOC" "as \<noteq> []"
  shows "foldl (\<lambda>args (a, l, t). silc_argument_payload_encode_one junk args a l t) None as =
    silc_argument_payload_encode as"
proof -
  let ?f = "\<lambda>args (a, l, t). silc_argument_payload_encode_one junk args a l t"
  have "foldl ?f args as = (if as = [] then args else Some (silc_buffer_set (xs @ args_bytes as)))"
    if "\<forall>e \<in> set as. entry_ok e" "length xs + length (args_bytes as) < SILC_MAX_ALLOC"
      "args = Some (silc_buffer_set xs) \<or> args = None \<and> xs = []" for xs as args
    using that
  proof (induction as arbitrary: xs args)
    case (Cons e as)
    obtain a l t where e: "e = (a, l, t)" by (cases e)
    with Cons.prems have ok: "entry_ok (a, l, t)" by simp
    have sz: "length xs + 3 + unat l + length (args_bytes as) < SILC_MAX_ALLOC"
      using Cons.prems(2) length_arg_bytes [OF ok] by (simp add: e del: arg_bytes.simps)
    have "?f args e = Some (silc_buffer_set (xs @ arg_bytes e))"
      using encode_one_eq [OF ok _ Cons.prems(3)] sz by (simp add: e del: arg_bytes.simps)
    then show ?case
      using Cons.IH [of "xs @ arg_bytes e" "?f args e"] Cons.prems(1) sz length_arg_bytes [OF ok]
      by (simp add: e del: arg_bytes.simps)
  qed simp
  from this [of as "[]" None] assms show ?thesis
    by (simp add: argument_encode_eq)
qed

theorem encode_one_all_witness:
  "foldl (\<lambda>args (a, l, t). silc_argument_payload_encode_one (\<lambda>_. 99) args a l t) None
     [(Some [1], 1, 3), (None, 0, 4), (Some [65, 66], 2, 7)] =
   silc_argument_payload_encode [(Some [1], 1, 3), (None, 0, 4), (Some [65, 66], 2, 7)]"
  using encode_one_all [of "[(Some [1], 1, 3), (None, 0, 4), (Some [65, 66], 2, 7)]" "\<lambda>_. 99"]
  by (simp add: SILC_MAX_ALLOC_def)

text \<open>
  The list decoder stops at the first argument without data, so that the decoded list of a valid
  Argument List Payload may miss arguments.
\<close>

lemma list_parse_decoded_stops_at_empty:
  "silc_argument_list_parse_decoded pk_dec attr_parse
     [0, 3, 0, 1, 1, 1, 0, 0, 2, 0, 1, 3, 1] SILC_ARGUMENT_BOOL = Some [(1, D_BOOL True)]"
proof -
  have "silc_argument_payload_parse [0, 1, 1, 1, 0, 0, 2, 0, 1, 3, 1] 3 =
      Some \<lparr>ap_argc = 3, ap_args = [(Some [1], 1, 1), (None, 0, 2), (Some [1], 1, 3)], ap_pos = 0\<rparr>"
    by (subst argument_parse_iff) (simp_all add: SILC_MAX_ALLOC_def SILC_PUT16_MSB_def)
  then show ?thesis
    by (simp add: silc_argument_list_parse_decoded_def silc_argument_list_parse_def
        SILC_GET16_MSB_def silc_argument_get_first_arg_def argument_decode_loop.simps
        silc_argument_get_next_arg_def silc_argument_decode_def)
qed

end
