(* ===== verification/Silc_Channel.thy ===== *)
theory Silc_Channel
  imports Silc_Argument
begin

text \<open>
  Channel Payloads, lists of them and Channel Key Payloads, \<^verbatim>\<open>lib/silccore/silcchannel.c\<close>.
\<close>

section \<open>Channel Payload\<close>

record silc_channel_payload =
  chp_name :: "byte list option"
  chp_id :: "byte list option"
  chp_mode :: u32
  chp_name_len :: u16
  chp_id_len :: u16

text \<open>The common part of the two parsers: one payload at the start of the buffer.\<close>

definition channel_unformat :: "silc_buffer \<Rightarrow> silc_channel_payload option" where
  "channel_unformat buffer =
     (case unformat buffer [U_UI16_NSTRING_ALLOC, U_UI16_NSTRING_ALLOC, U_UI32_INT] of
        Some (ret, [VNString name name_len, VNString chid id_len, VU32 mode], buffer) \<Rightarrow>
          if ret = -1 then None
          else if (name_len < 1 \<or> name_len > silc_buffer_len buffer - 8) \<or>
                  (id_len < 1 \<or> id_len > silc_buffer_len buffer - 8) \<or>
                  id_len + name_len > silc_buffer_len buffer - 8 then None
          else Some \<lparr>chp_name = name, chp_id = chid, chp_mode = mode,
                     chp_name_len = of_nat name_len, chp_id_len = of_nat id_len\<rparr>
      | _ \<Rightarrow> None)"

definition silc_channel_payload_parse :: "byte list \<Rightarrow> silc_channel_payload option" where
  "silc_channel_payload_parse payload = channel_unformat (silc_buffer_set payload)"

function channel_list_loop :: "silc_buffer \<Rightarrow> silc_channel_payload list option" where
  "channel_list_loop buffer =
     (if silc_buffer_len buffer = 0 then Some []
      else case channel_unformat buffer of
        None \<Rightarrow> None
      | Some newp \<Rightarrow>
          if silc_buffer_len buffer < 2 + unat (chp_name_len newp) + 2 + unat (chp_id_len newp) + 4
          then Some []
          else map_option ((#) newp)
            (channel_list_loop (buf_pull buffer
               (2 + unat (chp_name_len newp) + 2 + unat (chp_id_len newp) + 4))))"
  by pat_completeness auto
termination
  by (relation "measure silc_buffer_len") (auto simp: pull_len)

definition silc_channel_payload_parse_list :: "byte list \<Rightarrow> silc_channel_payload list option" where
  "silc_channel_payload_parse_list payload = channel_list_loop (silc_buffer_set payload)"

definition silc_channel_payload_encode ::
  "byte list \<Rightarrow> u16 \<Rightarrow> byte list \<Rightarrow> u32 \<Rightarrow> u32 \<Rightarrow> silc_buffer option" where
  "silc_channel_payload_encode channel_name channel_name_len channel_id channel_id_len mode =
     map_option (\<lambda>buffer. bufformat buffer
         [SILC_PARAM_UI16_SHORT channel_name_len,
          SILC_PARAM_DATA (Some channel_name) (ucast channel_name_len),
          SILC_PARAM_UI16_SHORT (ucast channel_id_len),
          SILC_PARAM_DATA (Some channel_id) channel_id_len,
          SILC_PARAM_UI32_INT mode])
       (silc_buffer_alloc_size
          ((2 + unat channel_name_len + 2 + unat channel_id_len + 4) mod 2 ^ 32))"

definition silc_channel_get_id_parse :: "silc_channel_payload \<Rightarrow> silc_id option" where
  "silc_channel_get_id_parse payload =
     silc_id_str2id (case chp_id payload of None \<Rightarrow> [] | Some d \<Rightarrow> take (unat (chp_id_len payload)) d)
       SILC_ID_CHANNEL sizeof_channel_id"

section \<open>Channel Key Payload\<close>

record silc_channel_key_payload =
  ckp_id :: "byte list option"
  ckp_cipher :: "byte list option"
  ckp_key :: "byte list option"
  ckp_id_len :: u16
  ckp_cipher_len :: u16
  ckp_key_len :: u16

definition silc_channel_key_payload_parse :: "byte list \<Rightarrow> silc_channel_key_payload option" where
  "silc_channel_key_payload_parse payload =
     (case unformat (silc_buffer_set payload)
             [U_UI16_NSTRING_ALLOC, U_UI16_NSTRING_ALLOC, U_UI16_NSTRING_ALLOC] of
        Some (ret, [VNString chid id_len, VNString cipher cipher_len, VNString key key_len], buffer) \<Rightarrow>
          if ret = -1 then None
          else if id_len < 1 \<or> key_len < 1 \<or> cipher_len < 1 \<or>
                  id_len + cipher_len + key_len > silc_buffer_len buffer - 6 then None
          else Some \<lparr>ckp_id = chid, ckp_cipher = cipher, ckp_key = key, ckp_id_len = of_nat id_len,
                     ckp_cipher_len = of_nat cipher_len, ckp_key_len = of_nat key_len\<rparr>
      | _ \<Rightarrow> None)"

definition silc_channel_key_payload_encode ::
  "u16 \<Rightarrow> byte list \<Rightarrow> u16 \<Rightarrow> byte list \<Rightarrow> u16 \<Rightarrow> byte list \<Rightarrow> silc_buffer option" where
  "silc_channel_key_payload_encode id_len chid cipher_len cipher key_len key =
     map_option (\<lambda>buffer. bufformat buffer
         [SILC_PARAM_UI16_SHORT id_len, SILC_PARAM_DATA (Some chid) (ucast id_len),
          SILC_PARAM_UI16_SHORT cipher_len, SILC_PARAM_DATA (Some cipher) (ucast cipher_len),
          SILC_PARAM_UI16_SHORT key_len, SILC_PARAM_DATA (Some key) (ucast key_len)])
       (silc_buffer_alloc_size (2 + unat id_len + 2 + unat key_len + 2 + unat cipher_len))"

section \<open>The wire format of channel payloads\<close>

text \<open>A payload as the triple of its name, its ID and its mode, and its bytes.\<close>

type_synonym channel_triple = "byte list \<times> byte list \<times> u32"

fun chp_of :: "channel_triple \<Rightarrow> silc_channel_payload" where
  "chp_of (n, i, m) = \<lparr>chp_name = Some n, chp_id = Some i, chp_mode = m,
     chp_name_len = of_nat (length n), chp_id_len = of_nat (length i)\<rparr>"

fun triple_ok :: "channel_triple \<Rightarrow> bool" where
  "triple_ok (n, i, m) \<longleftrightarrow> n \<noteq> [] \<and> i \<noteq> [] \<and> length n < 65536 \<and> length i < 65536"

fun channel_bytes :: "channel_triple \<Rightarrow> byte list" where
  "channel_bytes (n, i, m) = nstr16 n @ nstr16 i @ SILC_PUT32_MSB m"

lemma bparse_channel:
  assumes "length n < 65536" "length i < 65536"
  shows "bparse [U_UI16_NSTRING_ALLOC, U_UI16_NSTRING_ALLOC, U_UI32_INT]
      (nstr16 n @ nstr16 i @ SILC_PUT32_MSB m @ r) =
    Some ([VNString (ptr_of n) (length n), VNString (ptr_of i) (length i), VU32 m],
      length n + length i + 8)"
  using assms by (simp add: bparse1_nstr16 pfixed_def del: bparse1.simps(21))

lemma bparse_channelD:
  assumes "bparse [U_UI16_NSTRING_ALLOC, U_UI16_NSTRING_ALLOC, U_UI32_INT] d = Some x"
  obtains n i m r where "d = nstr16 n @ nstr16 i @ SILC_PUT32_MSB m @ r"
    "length n < 65536" "length i < 65536"
proof -
  from assms obtain x1 where "bparse1 U_UI16_NSTRING_ALLOC d = Some x1"
    by (auto simp del: bparse1.simps split: option.splits)
  then obtain n r1 where n: "d = nstr16 n @ r1" "length n < 65536" by (rule bparse1_nstr16D)
  from assms obtain x2 where "bparse1 U_UI16_NSTRING_ALLOC r1 = Some x2"
    by (auto simp: n(1) bparse1_nstr16 n(2) simp del: bparse1.simps split: option.splits)
  then obtain i r2 where i: "r1 = nstr16 i @ r2" "length i < 65536" by (rule bparse1_nstr16D)
  from assms have "4 \<le> length r2"
    by (auto simp: n i bparse1_nstr16 pfixed_def simp del: bparse1.simps(21) split: option.splits if_splits)
  then have "r2 = SILC_PUT32_MSB (SILC_GET32_MSB r2) @ drop 4 r2"
    by (simp add: PUT32_GET32_take)
  with that [of n i "SILC_GET32_MSB r2" "drop 4 r2"] n i show ?thesis by simp
qed

lemma channel_unformat_bytes:
  assumes "buffer_wf sb" "silc_buffer_data sb = channel_bytes c @ r" "triple_ok c"
  shows "channel_unformat sb = Some (chp_of c)"
proof -
  obtain n i m where c: "c = (n, i, m)" by (cases c)
  have "silc_buffer_len sb = length n + length i + 8 + length r"
    using arg_cong [OF assms(2), of length] assms(1) by (simp add: c)
  moreover have "bparse [U_UI16_NSTRING_ALLOC, U_UI16_NSTRING_ALLOC, U_UI32_INT] (silc_buffer_data sb) =
    Some ([VNString (Some n) (length n), VNString (Some i) (length i), VU32 m], length n + length i + 8)"
    using assms(2,3) bparse_channel [of n i m r] by (simp add: c ptr_of_def del: bparse.simps)
  ultimately show ?thesis
    using assms(1,3)
    by (simp add: channel_unformat_def unformat_fwd c Suc_le_eq del: bparse.simps)
qed

lemma channel_unformatD:
  assumes "buffer_wf sb" "channel_unformat sb = Some p"
  obtains c r where "silc_buffer_data sb = channel_bytes c @ r" "triple_ok c" "p = chp_of c"
proof -
  let ?ps = "[U_UI16_NSTRING_ALLOC, U_UI16_NSTRING_ALLOC, U_UI32_INT]"
  from assms obtain x where "bparse ?ps (silc_buffer_data sb) = Some x"
    by (auto simp: channel_unformat_def unformat_fwd simp del: bparse.simps split: option.splits)
  then obtain n i m r where d: "silc_buffer_data sb = nstr16 n @ nstr16 i @ SILC_PUT32_MSB m @ r"
    "length n < 65536" "length i < 65536"
    by (rule bparse_channelD)
  then have "n \<noteq> [] \<and> i \<noteq> []"
    using assms bparse_channel [OF d(2,3), of m r]
    by (auto simp: channel_unformat_def unformat_fwd simp del: bparse.simps)
  with d have c: "silc_buffer_data sb = channel_bytes (n, i, m) @ r" "triple_ok (n, i, m)"
    by auto
  with channel_unformat_bytes [OF assms(1) c] assms(2) that [OF c] show ?thesis by simp
qed

declare channel_list_loop.simps [simp del]

lemma chp_of_len: "triple_ok c \<Longrightarrow> length (channel_bytes c) =
    2 + unat (chp_name_len (chp_of c)) + 2 + unat (chp_id_len (chp_of c)) + 4"
  by (cases c) (auto simp: unat_of_nat)

lemma channel_list_bytes:
  "buffer_wf sb \<Longrightarrow> \<forall>c \<in> set cs. triple_ok c \<Longrightarrow> silc_buffer_data sb = concat (map channel_bytes cs) \<Longrightarrow>
    channel_list_loop sb = Some (map chp_of cs)"
proof (induction cs arbitrary: sb)
  case Nil
  then have "silc_buffer_len sb = 0" using length_silc_buffer_data [of sb] by simp
  then show ?case by (simp add: channel_list_loop.simps)
next
  case (Cons c cs)
  let ?n = "length (channel_bytes c)"
  have ok: "triple_ok c" using Cons.prems by simp
  have len: "silc_buffer_len sb = ?n + length (concat (map channel_bytes cs))"
    using arg_cong [OF Cons.prems(3), of length] Cons.prems(1) by simp
  have u: "channel_unformat sb = Some (chp_of c)"
    using Cons.prems ok by (intro channel_unformat_bytes) auto
  have "channel_list_loop (buf_pull sb ?n) = Some (map chp_of cs)"
    using Cons.prems len by (intro Cons.IH) auto
  moreover have "silc_buffer_len sb \<noteq> 0" "\<not> silc_buffer_len sb < ?n"
    using len chp_of_len [OF ok] by simp_all
  ultimately show ?case
    using u unfolding channel_list_loop.simps [of sb] chp_of_len [OF ok] by simp
qed

lemma channel_list_bytesD:
  "buffer_wf sb \<Longrightarrow> channel_list_loop sb = Some ps \<Longrightarrow>
    \<exists>cs. (\<forall>c \<in> set cs. triple_ok c) \<and> silc_buffer_data sb = concat (map channel_bytes cs) \<and> ps = map chp_of cs"
proof (induction sb arbitrary: ps rule: channel_list_loop.induct)
  case (1 sb)
  show ?case
  proof (cases "silc_buffer_len sb = 0")
    case True
    with 1 have "length (silc_buffer_data sb) = 0 \<and> ps = []"
      by (simp add: channel_list_loop.simps)
    then show ?thesis by (intro exI [of _ "[]"]) simp
  next
    case False
    with 1 obtain p where p: "channel_unformat sb = Some p"
      by (auto simp: channel_list_loop.simps [of sb] split: option.splits)
    with 1(2) obtain c r where c: "silc_buffer_data sb = channel_bytes c @ r" "triple_ok c" "p = chp_of c"
      by (rule channel_unformatD)
    let ?n = "length (channel_bytes c)"
    have n: "2 + unat (chp_name_len p) + 2 + unat (chp_id_len p) + 4 = ?n"
      using chp_of_len [OF c(2)] c(3) by simp
    have len: "silc_buffer_len sb = ?n + length r"
      using arg_cong [OF c(1), of length] 1(2) by simp
    with 1(3) False p obtain ps' where ps: "ps = p # ps'" "channel_list_loop (buf_pull sb ?n) = Some ps'"
      unfolding channel_list_loop.simps [of sb] p option.case n by auto
    have IH: "buffer_wf sb' \<Longrightarrow> channel_list_loop sb' = Some ps' \<Longrightarrow>
        \<exists>cs. (\<forall>c \<in> set cs. triple_ok c) \<and> silc_buffer_data sb' = concat (map channel_bytes cs) \<and>
          ps' = map chp_of cs" if "sb' = buf_pull sb ?n" for sb'
      using 1(1) [OF False p, unfolded n, of ps'] len unfolding that by simp
    from IH [OF refl _ ps(2)] 1(2) obtain cs where "\<forall>c \<in> set cs. triple_ok c"
      "silc_buffer_data (buf_pull sb ?n) = concat (map channel_bytes cs)" "ps' = map chp_of cs"
      by auto
    with c ps(1) 1(2) len show ?thesis by (intro exI [of _ "c # cs"]) auto
  qed
qed

lemma channel_encode_bytes:
  assumes "triple_ok (n, i, m)"
  shows "silc_channel_payload_encode n (of_nat (length n)) i (of_nat (length i)) m =
    Some (silc_buffer_set (channel_bytes (n, i, m)))"
proof -
  let ?ps = "[SILC_PARAM_UI16_SHORT (of_nat (length n)), SILC_PARAM_DATA (Some n) (ucast (of_nat (length n) :: u16)),
    SILC_PARAM_UI16_SHORT (ucast (of_nat (length i) :: u32)), SILC_PARAM_DATA (Some i) (of_nat (length i)),
    SILC_PARAM_UI32_INT m]"
  have l: "unat (of_nat (length n) :: u16) = length n" "unat (of_nat (length i) :: u32) = length i"
    "(ucast (of_nat (length i) :: u32) :: u16) = of_nat (length i)"
    using assms by (simp_all add: unat_of_nat)
  have b: "\<forall>p \<in> set ?ps. fmt_plain p" "concat (map fmt_bytes ?ps) = channel_bytes (n, i, m)"
    using l by (simp_all add: nstr16_def)
  have sz: "(2 + length n + 2 + length i + 4) mod 2 ^ 32 = 2 + length n + 2 + length i + 4"
    "2 + length n + 2 + length i + 4 < SILC_MAX_ALLOC"
    using assms by (simp_all add: SILC_MAX_ALLOC_def)
  show ?thesis
    unfolding silc_channel_payload_encode_def l(1,2) sz(1) alloc_size_ok [OF sz(2)] option.map
    using bufformat_fresh [OF b(1), of "2 + length n + 2 + length i + 4"] sz(2)
    unfolding b(2) by simp
qed

text \<open>A list of payloads is the concatenation of encoded ones; its codec is canonical.\<close>

definition channel_list_encode :: "silc_channel_payload list \<Rightarrow> byte list option" where
  "channel_list_encode ps = map_option concat (those (map (\<lambda>p.
     Option.bind (chp_name p) (\<lambda>n. Option.bind (chp_id p) (\<lambda>i.
       map_option silc_buffer_data
         (silc_channel_payload_encode n (chp_name_len p) i (ucast (chp_id_len p)) (chp_mode p))))) ps))"

definition channel_list_valid :: "silc_channel_payload list \<Rightarrow> bool" where
  "channel_list_valid ps \<longleftrightarrow> (\<exists>cs. (\<forall>c \<in> set cs. triple_ok c) \<and> ps = map chp_of cs \<and>
     length (concat (map channel_bytes cs)) < 2 ^ 32 - 1)"

lemma channel_list_encode_bytes:
  "\<forall>c \<in> set cs. triple_ok c \<Longrightarrow>
    channel_list_encode (map chp_of cs) = Some (concat (map channel_bytes cs))"
proof (induction cs)
  case Nil
  then show ?case by (simp add: channel_list_encode_def)
next
  case (Cons c cs)
  obtain n i m where c: "c = (n, i, m)" by (cases c)
  have "ucast (of_nat (length i) :: u16) = (of_nat (length i) :: u32)"
    using Cons.prems by (simp add: c)
  then show ?case
    using Cons channel_encode_bytes [of n i m] by (auto simp: channel_list_encode_def c)
qed

interpretation chl: canonical_codec channel_list_valid channel_list_encode
  "\<lambda>b. if length b < 2 ^ 32 - 1 then silc_channel_payload_parse_list b else None"
proof unfold_locales
  fix ps b
  assume "channel_list_valid ps"
  then obtain cs where cs: "\<forall>c \<in> set cs. triple_ok c" "ps = map chp_of cs"
    "length (concat (map channel_bytes cs)) < 2 ^ 32 - 1"
    by (auto simp: channel_list_valid_def)
  then show "\<exists>b. channel_list_encode ps = Some b" by (simp add: channel_list_encode_bytes)
  assume "channel_list_encode ps = Some b"
  with cs have b: "b = concat (map channel_bytes cs)" by (simp add: channel_list_encode_bytes)
  have "channel_list_loop (silc_buffer_set b) = Some ps"
    unfolding cs(2) using cs(1,3) by (intro channel_list_bytes set_wf) (simp_all add: b)
  with cs(3) show "(if length b < 2 ^ 32 - 1 then silc_channel_payload_parse_list b else None) = Some ps"
    by (simp add: silc_channel_payload_parse_list_def b)
next
  fix ps b
  assume "(if length b < 2 ^ 32 - 1 then silc_channel_payload_parse_list b else None) = Some ps"
  then have b: "length b < 2 ^ 32 - 1" "channel_list_loop (silc_buffer_set b) = Some ps"
    by (simp_all add: silc_channel_payload_parse_list_def split: if_splits)
  from channel_list_bytesD [OF set_wf [OF b(1)] b(2)] b(1)
  obtain cs where "\<forall>c \<in> set cs. triple_ok c" "b = concat (map channel_bytes cs)" "ps = map chp_of cs"
    by auto
  with b(1) show "channel_list_valid ps \<and> channel_list_encode ps = Some b"
    by (auto simp: channel_list_valid_def channel_list_encode_bytes)
qed

text \<open>
  Property C37. \<open>silc_channel_payload_parse_list\<close> terminates on every input and accepts a byte
  string exactly when it is the concatenation of what \<open>silc_channel_payload_encode\<close> makes of
  a list of valid channel payloads; it returns that list.
\<close>

theorem channel_list_canonical:
  assumes "length b < 2 ^ 32 - 1"
  shows "silc_channel_payload_parse_list b = Some ps \<longleftrightarrow>
    channel_list_valid ps \<and> channel_list_encode ps = Some b"
  using chl.parse_iff [of b ps] assms by simp

theorem channel_list_canonical_witness:
  "silc_channel_payload_parse_list [0, 1, 97, 0, 1, 9, 0, 0, 0, 4, 0, 1, 98, 0, 1, 8, 0, 0, 0, 0] =
    Some [chp_of ([97], [9], 4), chp_of ([98], [8], 0)]"
proof -
  let ?cs = "[([97], [9], 4), ([98], [8], 0)] :: channel_triple list"
  have v: "channel_list_valid (map chp_of ?cs)"
    unfolding channel_list_valid_def by (intro exI [of _ ?cs]) simp
  have "channel_list_encode (map chp_of ?cs) = Some (concat (map channel_bytes ?cs))"
    by (intro channel_list_encode_bytes) simp
  also have "concat (map channel_bytes ?cs) =
      [0, 1, 97, 0, 1, 9, 0, 0, 0, 4, 0, 1, 98, 0, 1, 8, 0, 0, 0, 0]"
    by code_simp
  finally show ?thesis
    using channel_list_canonical [of "[0, 1, 97, 0, 1, 9, 0, 0, 0, 4, 0, 1, 98, 0, 1, 8, 0, 0, 0, 0]"
        "map chp_of ?cs"] v by simp
qed

section \<open>The wire format of channel keys\<close>

definition key_bytes :: "byte list \<Rightarrow> byte list \<Rightarrow> byte list \<Rightarrow> byte list" where
  "key_bytes i c k = nstr16 i @ nstr16 c @ nstr16 k"

lemma key_encode_bytes:
  assumes "length i < 65536" "length c < 65536" "length k < 65536"
  shows "silc_channel_key_payload_encode (of_nat (length i)) i (of_nat (length c)) c (of_nat (length k)) k =
    Some (silc_buffer_set (key_bytes i c k))"
proof -
  let ?ps = "[SILC_PARAM_UI16_SHORT (of_nat (length i)), SILC_PARAM_DATA (Some i) (ucast (of_nat (length i) :: u16)),
    SILC_PARAM_UI16_SHORT (of_nat (length c)), SILC_PARAM_DATA (Some c) (ucast (of_nat (length c) :: u16)),
    SILC_PARAM_UI16_SHORT (of_nat (length k)), SILC_PARAM_DATA (Some k) (ucast (of_nat (length k) :: u16))]"
  have l: "unat (of_nat (length x) :: u16) = length x" "unat (of_nat (length x) :: u32) = length x"
    if "length x < 65536" for x :: "byte list"
    using that by (simp_all add: unat_of_nat)
  have b: "\<forall>p \<in> set ?ps. fmt_plain p" "concat (map fmt_bytes ?ps) = key_bytes i c k"
    using assms by (simp_all add: nstr16_def key_bytes_def l)
  have sz: "2 + length i + 2 + length k + 2 + length c < SILC_MAX_ALLOC"
    using assms by (simp add: SILC_MAX_ALLOC_def)
  show ?thesis
    unfolding silc_channel_key_payload_encode_def l [OF assms(1)] l [OF assms(2)] l [OF assms(3)]
      alloc_size_ok [OF sz] option.map
    using bufformat_fresh [OF b(1), of "2 + length i + 2 + length k + 2 + length c"] sz
    unfolding b(2) by (simp add: key_bytes_def)
qed

lemma key_parse_bytes:
  assumes "length i < 65536" "length c < 65536" "length k < 65536"
    "length (key_bytes i c k @ r) < 2 ^ 32 - 1"
  shows "silc_channel_key_payload_parse (key_bytes i c k @ r) =
    (if i = [] \<or> c = [] \<or> k = [] then None
     else Some \<lparr>ckp_id = Some i, ckp_cipher = Some c, ckp_key = Some k, ckp_id_len = of_nat (length i),
       ckp_cipher_len = of_nat (length c), ckp_key_len = of_nat (length k)\<rparr>)"
proof -
  let ?b = "key_bytes i c k @ r"
  have "bparse [U_UI16_NSTRING_ALLOC, U_UI16_NSTRING_ALLOC, U_UI16_NSTRING_ALLOC] ?b =
      Some ([VNString (ptr_of i) (length i), VNString (ptr_of c) (length c), VNString (ptr_of k) (length k)],
        length i + length c + length k + 6)"
    using assms(1-3) by (simp add: key_bytes_def bparse1_nstr16 del: bparse1.simps)
  moreover have "length ?b = length i + length c + length k + 6 + length r"
    by (simp add: key_bytes_def)
  ultimately show ?thesis
    using assms(4)
    by (auto simp: silc_channel_key_payload_parse_def unformat_set ptr_of_def Suc_le_eq
        simp del: bparse.simps)
qed

text \<open>
  A channel key that the server distributes reaches the receiver unchanged: parsing
  the Channel Key Payload made of a channel ID, a cipher name and a key, none of them empty, gives
  the three back, whatever padding follows; with one of them empty it is refused.
\<close>

lemma channel_key_roundtrip:
  assumes "length i < 65536" "length c < 65536" "length k < 65536" "length r < 65536"
  shows "\<exists>buf. silc_channel_key_payload_encode (of_nat (length i)) i (of_nat (length c)) c
      (of_nat (length k)) k = Some buf \<and>
    silc_channel_key_payload_parse (silc_buffer_data buf @ r) =
      (if i = [] \<or> c = [] \<or> k = [] then None
       else Some \<lparr>ckp_id = Some i, ckp_cipher = Some c, ckp_key = Some k,
         ckp_id_len = of_nat (length i), ckp_cipher_len = of_nat (length c),
         ckp_key_len = of_nat (length k)\<rparr>)"
  using key_encode_bytes [OF assms(1-3)] key_parse_bytes [OF assms(1-3), of r] assms
  by (simp add: key_bytes_def)

end
