(* ===== verification/Silc_Command.thy ===== *)
theory Silc_Command
  imports Silc_Argument
begin

text \<open>
  Command Payloads and command replies, \<^verbatim>\<open>lib/silccore/silccommand.c\<close>, and the message of
  a reply status, \<^verbatim>\<open>lib/silccore/silcstatus.h\<close>.  Variable argument lists are lists of
  type, data and length.
\<close>

section \<open>The payload and its operations\<close>

type_synonym silc_command = u8
type_synonym silc_status = u8

abbreviation (input) SILC_STATUS_OK :: silc_status where "SILC_STATUS_OK \<equiv> 0"
abbreviation (input) SILC_STATUS_ERR_NO_SUCH_NICK :: silc_status where "SILC_STATUS_ERR_NO_SUCH_NICK \<equiv> 10"

record silc_command_payload =
  cp_cmd :: silc_command
  cp_ident :: u16
  cp_args :: "silc_argument_payload option"

definition SILC_COMMAND_PAYLOAD_LEN :: nat where "SILC_COMMAND_PAYLOAD_LEN = 6"

definition silc_command_payload_parse :: "byte list \<Rightarrow> silc_command_payload option" where
  "silc_command_payload_parse payload =
     (case unformat (silc_buffer_set payload) [U_UI16_SHORT, U_UI8_CHAR, U_UI8_CHAR, U_UI16_SHORT] of
        Some (ret, [VU16 p_len, VU8 cmd, VU8 args_num, VU16 ident], buffer) \<Rightarrow>
          if ret = -1 then None
          else if unat p_len \<noteq> silc_buffer_len buffer then None
          else if cmd = 0 then None
          else
            let buffer = buf_pull buffer SILC_COMMAND_PAYLOAD_LEN in
            if args_num \<noteq> 0 then
              (case silc_argument_payload_parse (silc_buffer_data buffer) (ucast args_num) of
                 None \<Rightarrow> None
               | Some args \<Rightarrow> Some \<lparr>cp_cmd = cmd, cp_ident = ident, cp_args = Some args\<rparr>)
            else Some \<lparr>cp_cmd = cmd, cp_ident = ident, cp_args = None\<rparr>
      | _ \<Rightarrow> None)"

text \<open>
  The header carries the length and the number of arguments truncated to their fields; the
  arguments, when there are any, follow it.
\<close>

definition silc_command_payload_encode ::
  "silc_command \<Rightarrow> arg_entry list \<Rightarrow> u16 \<Rightarrow> silc_buffer option" where
  "silc_command_payload_encode cmd as ident =
     (case (if as \<noteq> [] then map_option Some (silc_argument_payload_encode as) else Some None) of
        None \<Rightarrow> None
      | Some args \<Rightarrow>
          let len = ((case args of None \<Rightarrow> 0 | Some a \<Rightarrow> silc_buffer_len a) +
                      SILC_COMMAND_PAYLOAD_LEN) mod 2 ^ 32 in
          (case silc_buffer_alloc_size len of
             None \<Rightarrow> None
           | Some buffer \<Rightarrow>
               let buffer = bufformat buffer
                 [SILC_PARAM_UI16_SHORT (of_nat len), SILC_PARAM_UI8_CHAR cmd,
                  SILC_PARAM_UI8_CHAR (of_nat (length as)), SILC_PARAM_UI16_SHORT ident] in
               (case args of
                  None \<Rightarrow> Some buffer
                | Some a \<Rightarrow>
                    Some (buf_push
                      (bufformat (buf_pull buffer SILC_COMMAND_PAYLOAD_LEN)
                         [SILC_PARAM_DATA (Some (silc_buffer_data a)) (of_nat (silc_buffer_len a))])
                      SILC_COMMAND_PAYLOAD_LEN))))"

definition silc_command_payload_encode_payload :: "silc_command_payload \<Rightarrow> silc_buffer option" where
  "silc_command_payload_encode_payload payload =
     (let args = Option.bind (cp_args payload) silc_argument_payload_encode_payload;
          argc = silc_argument_get_arg_num (cp_args payload);
          len = ((case args of None \<Rightarrow> 0 | Some a \<Rightarrow> silc_buffer_len a) +
                  SILC_COMMAND_PAYLOAD_LEN) mod 2 ^ 32 in
      (case silc_buffer_alloc_size len of
         None \<Rightarrow> None
       | Some buffer \<Rightarrow>
           let buffer = bufformat buffer
             [SILC_PARAM_UI16_SHORT (of_nat len), SILC_PARAM_UI8_CHAR (cp_cmd payload),
              SILC_PARAM_UI8_CHAR (ucast argc), SILC_PARAM_UI16_SHORT (cp_ident payload)] in
           (case args of
              None \<Rightarrow> Some buffer
            | Some a \<Rightarrow>
                Some (buf_push
                  (bufformat (buf_pull buffer SILC_COMMAND_PAYLOAD_LEN)
                     [SILC_PARAM_DATA (Some (silc_buffer_data a)) (of_nat (silc_buffer_len a))])
                  SILC_COMMAND_PAYLOAD_LEN))))"

text \<open>
  A variable argument is a type, a data pointer and a length; arguments where one of them is zero
  are skipped.  Duplicating the data takes one byte more than its length.
\<close>

type_synonym va_arg = "u32 \<times> byte list option \<times> u32"

fun collect_args :: "va_arg list \<Rightarrow> arg_entry list option" where
  "collect_args [] = Some []"
| "collect_args ((x_type, x, x_len) # ap) =
     (if x_type = 0 \<or> x = None \<or> x_len = 0 then collect_args ap
      else if \<not> silc_calloc_ok (unat x_len + 1) 1 then None
      else map_option ((#) (map_option (take (unat x_len)) x, x_len, x_type)) (collect_args ap))"

definition silc_command_payload_encode_vap ::
  "silc_command \<Rightarrow> u16 \<Rightarrow> va_arg list \<Rightarrow> silc_buffer option" where
  "silc_command_payload_encode_vap cmd ident ap =
     (let argc = length ap in
      if argc \<noteq> 0 \<and> (\<not> silc_calloc_ok argc 8 \<or> \<not> silc_calloc_ok argc 4) then None
      else
        case collect_args ap of None \<Rightarrow> None
        | Some as \<Rightarrow> silc_command_payload_encode cmd as ident)"

definition silc_command_reply_payload_encode_vap ::
  "silc_command \<Rightarrow> silc_status \<Rightarrow> silc_status \<Rightarrow> u16 \<Rightarrow> va_arg list \<Rightarrow> silc_buffer option" where
  "silc_command_reply_payload_encode_vap cmd status error ident ap =
     (let argc = length ap + 1 in
      if \<not> silc_calloc_ok argc 8 \<or> \<not> silc_calloc_ok argc 4 then None
      else
        case collect_args ap of None \<Rightarrow> None
        | Some as \<Rightarrow> silc_command_payload_encode cmd ((Some [status, error], 2, 1) # as) ident)"

text \<open>
  The status: whether the reply is good, and the values of \<open>status\<close> and \<open>error\<close> when they were
  set.  Version 1.0 of the protocol had the status in 16 bits and no error.
\<close>

definition silc_command_get_status ::
  "silc_command_payload \<Rightarrow> bool \<times> (silc_status \<times> silc_status) option" where
  "silc_command_get_status payload =
     (case cp_args payload of
        None \<Rightarrow> (False, None)
      | Some args \<Rightarrow>
          (case silc_argument_get_arg_type (Some args) 1 of
             None \<Rightarrow> (False, None)
           | Some (tmp, tmp_len) \<Rightarrow>
               if tmp_len \<noteq> 2 then (False, None)
               else if tmp ! 0 = 0 \<and> tmp ! 1 \<noteq> 0 then
                 (let s = (ucast (SILC_GET16_MSB tmp) :: u8) in
                  (s < SILC_STATUS_ERR_NO_SUCH_NICK,
                   Some (s, if s \<ge> SILC_STATUS_ERR_NO_SUCH_NICK then s else 0)))
               else
                 (tmp ! 0 < SILC_STATUS_ERR_NO_SUCH_NICK \<and> tmp ! 1 = SILC_STATUS_OK,
                  Some (tmp ! 0,
                    if tmp ! 0 \<ge> SILC_STATUS_ERR_NO_SUCH_NICK then tmp ! 0 else tmp ! 1))))"

definition silc_command_set_ident :: "silc_command_payload \<Rightarrow> u16 \<Rightarrow> silc_command_payload" where
  "silc_command_set_ident payload ident = payload\<lparr>cp_ident := ident\<rparr>"

definition silc_command_set_command ::
  "silc_command_payload \<Rightarrow> silc_command \<Rightarrow> silc_command_payload" where
  "silc_command_set_command payload command = payload\<lparr>cp_cmd := command\<rparr>"

section \<open>The wire format\<close>

definition command_bytes :: "silc_command \<Rightarrow> u16 \<Rightarrow> arg_entry list \<Rightarrow> byte list" where
  "command_bytes cmd ident as =
     SILC_PUT16_MSB (of_nat (length (args_bytes as) + 6)) @ cmd # of_nat (length as) #
       SILC_PUT16_MSB ident @ args_bytes as"

text \<open>Arguments that fit in one command: at most 255, with 65535 bytes in all.\<close>

definition args_fit :: "arg_entry list \<Rightarrow> bool" where
  "args_fit as \<longleftrightarrow> (\<forall>e \<in> set as. entry_ok e) \<and> length as < 256 \<and> length (args_bytes as) + 6 < 65536"

lemma command_encode_bytes:
  assumes "args_fit as"
  shows "silc_command_payload_encode cmd as ident = Some (silc_buffer_set (command_bytes cmd ident as))"
proof -
  let ?ab = "args_bytes as"
  let ?hdr = "[SILC_PARAM_UI16_SHORT (of_nat (length ?ab + 6)), SILC_PARAM_UI8_CHAR cmd,
    SILC_PARAM_UI8_CHAR (of_nat (length as)), SILC_PARAM_UI16_SHORT ident]"
  have sz: "length ?ab + 6 < SILC_MAX_ALLOC" "(length ?ab + 6) mod 2 ^ 32 = length ?ab + 6"
    using assms by (simp_all add: args_fit_def SILC_MAX_ALLOC_def)
  have hdr: "bufformat \<lparr>bmem = replicate (length ?ab + 6) 0, bdata = 0, btail = length ?ab + 6\<rparr> ?hdr =
      silc_buffer_set (concat (map fmt_bytes ?hdr) @ replicate (length ?ab) 0)"
    by (rule format_header) (use sz in simp_all)
  have tail: "buf_push (bufformat (buf_pull (silc_buffer_set (concat (map fmt_bytes ?hdr) @ replicate (length ?ab) 0)) 6)
      [SILC_PARAM_DATA (Some ?ab) (of_nat (length ?ab))]) 6 = silc_buffer_set (concat (map fmt_bytes ?hdr) @ ?ab)"
    using format_tail [of "concat (map fmt_bytes ?hdr)" ?ab "replicate (length ?ab) 0"] sz by simp
  have "silc_argument_payload_encode as = Some (silc_buffer_set ?ab)"
    using assms sz by (intro argument_encode_eq) (auto simp: args_fit_def)
  then show ?thesis
    using sz hdr tail
    by (cases "as = []")
      (simp_all add: silc_command_payload_encode_def SILC_COMMAND_PAYLOAD_LEN_def Let_def
        command_bytes_def)
qed

lemma command_parse_eq:
  assumes "length b < 2 ^ 32 - 1"
  shows "silc_command_payload_parse b =
    (if length b < 6 \<or> unat (SILC_GET16_MSB b) \<noteq> length b \<or> b ! 2 = 0 then None
     else let cp = \<lparr>cp_cmd = b ! 2, cp_ident = ucast (SILC_GET16_MSB (drop 4 b)), cp_args = None\<rparr> in
       if b ! 3 = 0 then Some cp
       else map_option (\<lambda>a. cp\<lparr>cp_args := Some a\<rparr>)
              (silc_argument_payload_parse (drop 6 b) (ucast (b ! 3))))"
proof -
  have wf: "buffer_wf (silc_buffer_set b)" using assms by simp
  let ?ps = "[U_UI16_SHORT, U_UI8_CHAR, U_UI8_CHAR, U_UI16_SHORT]"
  show ?thesis
  proof (cases "length b < 6")
    case True
    then have "unformat (silc_buffer_set b) ?ps = Some (-1, [], silc_buffer_set b)"
      using wf by (simp add: unformat_fwd pfixed_def)
    with True show ?thesis by (simp add: silc_command_payload_parse_def)
  next
    case False
    then have "unformat (silc_buffer_set b) ?ps = Some (6, [VU16 (ucast (SILC_GET16_MSB b)),
        VU8 (b ! 2), VU8 (b ! 3), VU16 (ucast (SILC_GET16_MSB (drop 4 b)))], silc_buffer_set b)"
      using wf by (simp add: unformat_fwd pfixed_def del: One_nat_def) linarith
    with False wf show ?thesis
      by (simp add: silc_command_payload_parse_def Let_def SILC_COMMAND_PAYLOAD_LEN_def
          split: option.split)
  qed
qed

text \<open>Command payloads that have an encoding.\<close>

definition command_args :: "silc_command_payload \<Rightarrow> arg_entry list" where
  "command_args cp = (case cp_args cp of None \<Rightarrow> [] | Some p \<Rightarrow> ap_args p)"

definition command_valid :: "silc_command_payload \<Rightarrow> bool" where
  "command_valid cp \<longleftrightarrow> cp_cmd cp \<noteq> 0 \<and> args_fit (command_args cp) \<and>
     (case cp_args cp of None \<Rightarrow> True | Some p \<Rightarrow> args_valid p)"

lemma encode_payload_encode:
  assumes "command_valid cp"
  shows "silc_command_payload_encode_payload cp =
    silc_command_payload_encode (cp_cmd cp) (command_args cp) (cp_ident cp)"
proof (cases "cp_args cp")
  case None
  then show ?thesis
    by (simp add: silc_command_payload_encode_payload_def silc_command_payload_encode_def
        command_args_def silc_argument_get_arg_num_def SILC_COMMAND_PAYLOAD_LEN_def
        SILC_MAX_ALLOC_def)
next
  case (Some p)
  with assms have p: "args_valid p" "args_fit (ap_args p)" "ap_args p \<noteq> []"
    "unat (ap_argc p) = length (ap_args p)"
    by (auto simp: command_valid_def command_args_def args_valid_def word_less_nat_alt)
  then have "ucast (ap_argc p) = (of_nat (length (ap_args p)) :: u8)"
    by (metis of_nat_unat)
  moreover have "silc_argument_payload_encode (ap_args p) = silc_argument_payload_encode_payload p"
    using p by (simp add: encode_payload_valid argument_encode_eq args_fit_def SILC_MAX_ALLOC_def)
  moreover have "silc_argument_payload_encode_payload p = Some (silc_buffer_set (args_bytes (ap_args p)))"
    using p(1) by (rule encode_payload_valid)
  ultimately show ?thesis
    using Some p by (simp add: silc_command_payload_encode_payload_def silc_command_payload_encode_def
        command_args_def silc_argument_get_arg_num_def Let_def cong: option.case_cong)
qed

lemma encode_payload_bytes:
  "command_valid cp \<Longrightarrow> silc_command_payload_encode_payload cp =
    Some (silc_buffer_set (command_bytes (cp_cmd cp) (cp_ident cp) (command_args cp)))"
  by (simp add: encode_payload_encode command_encode_bytes command_valid_def)

lemma parse_command_bytes:
  assumes "cmd \<noteq> 0" "args_fit as"
  shows "silc_command_payload_parse (command_bytes cmd ident as) =
    Some \<lparr>cp_cmd = cmd, cp_ident = ident,
      cp_args = (if as = [] then None
                 else Some \<lparr>ap_argc = of_nat (length as), ap_args = as, ap_pos = 0\<rparr>)\<rparr>"
proof -
  let ?b = "command_bytes cmd ident as"
  have sz: "length ?b = length (args_bytes as) + 6" "length ?b < 65536"
    using assms(2) by (simp_all add: command_bytes_def args_fit_def)
  have n: "unat (of_nat (length as) :: u8) = length as" "unat (of_nat (length as) :: u32) = length as"
    using assms(2) by (simp_all add: args_fit_def unat_of_nat)
  have n8: "ucast (of_nat (length as) :: u8) = (of_nat (length as) :: u32)"
    by (metis n of_nat_unat ucast_id unat_ucast_u8)
  have "as = []" if "(of_nat (length as) :: u8) = 0"
    using n(1) unfolding that by simp
  then have z: "(of_nat (length as) :: u8) = 0 \<longleftrightarrow> as = []" by auto
  have "unat (SILC_GET16_MSB ?b) = length ?b"
    using sz by (simp add: command_bytes_def GET16_PUT16_unat unat_of_nat del: of_nat_add)
  moreover have "?b ! 2 = cmd" "?b ! 3 = of_nat (length as)"
    "ucast (SILC_GET16_MSB (drop 4 ?b)) = ident" "drop 6 ?b = args_bytes as"
    by (simp_all add: command_bytes_def nth_append GET16_PUT16)
  moreover have "as \<noteq> [] \<Longrightarrow> silc_argument_payload_parse (args_bytes as) (of_nat (length as)) =
      Some \<lparr>ap_argc = of_nat (length as), ap_args = as, ap_pos = 0\<rparr>"
    using assms(2) n
    by (subst argument_parse_iff) (auto simp: SILC_MAX_ALLOC_def args_fit_def word_less_nat_alt)
  ultimately show ?thesis
    using sz assms(1) by (subst command_parse_eq) (simp_all add: Let_def z n8)
qed

lemma command_valid_args:
  "command_valid cp \<Longrightarrow> cp_args cp = Some p \<Longrightarrow>
    p = \<lparr>ap_argc = of_nat (length (ap_args p)), ap_args = ap_args p, ap_pos = 0\<rparr> \<and> ap_args p \<noteq> []"
  by (cases p) (auto simp: command_valid_def args_valid_def word_less_nat_alt)

section \<open>The command codec\<close>

text \<open>
  A payload that announces no arguments is accepted with any trailing bytes, so the codec is not
  canonical there.
\<close>

interpretation cmdc: codec command_valid
  "\<lambda>cp. map_option silc_buffer_data (silc_command_payload_encode_payload cp)" silc_command_payload_parse
proof unfold_locales
  fix cp b
  assume v: "command_valid cp"
  then show "\<exists>b. map_option silc_buffer_data (silc_command_payload_encode_payload cp) = Some b"
    by (simp add: encode_payload_bytes)
  assume "map_option silc_buffer_data (silc_command_payload_encode_payload cp) = Some b"
  with v have b: "b = command_bytes (cp_cmd cp) (cp_ident cp) (command_args cp)"
    by (simp add: encode_payload_bytes)
  have "silc_command_payload_parse b = Some \<lparr>cp_cmd = cp_cmd cp, cp_ident = cp_ident cp,
      cp_args = (if command_args cp = [] then None else Some \<lparr>ap_argc = of_nat (length (command_args cp)),
        ap_args = command_args cp, ap_pos = 0\<rparr>)\<rparr>"
    unfolding b using v by (intro parse_command_bytes) (auto simp: command_valid_def)
  then show "silc_command_payload_parse b = Some cp"
    using command_valid_args [OF v] by (cases cp; cases "cp_args cp") (auto simp: command_args_def)
qed

text \<open>
  Property C27. Every valid command payload survives the wire: \<open>silc_command_payload_encode_payload\<close>
  succeeds on it and \<open>silc_command_payload_parse\<close> gives it back, with its arguments.
\<close>

theorem command_payload_roundtrip:
  assumes "command_valid cp"
  shows "Option.bind (map_option silc_buffer_data (silc_command_payload_encode_payload cp))
    silc_command_payload_parse = Some cp"
  using assms by (rule cmdc.roundtrip)

theorem command_payload_roundtrip_witness:
  "Option.bind (map_option silc_buffer_data (silc_command_payload_encode_payload
      \<lparr>cp_cmd = 3, cp_ident = 77,
       cp_args = Some \<lparr>ap_argc = 1, ap_args = [(Some [97, 98], 2, 1)], ap_pos = 0\<rparr>\<rparr>))
    silc_command_payload_parse =
    Some \<lparr>cp_cmd = 3, cp_ident = 77,
      cp_args = Some \<lparr>ap_argc = 1, ap_args = [(Some [97, 98], 2, 1)], ap_pos = 0\<rparr>\<rparr>"
  by (rule command_payload_roundtrip)
    (simp add: command_valid_def command_args_def args_fit_def args_valid_def SILC_MAX_ALLOC_def)

lemma parse_argc:
  assumes "silc_argument_payload_parse b (ucast (n :: u8)) = Some p" "length b < 65530"
  shows "args_valid p \<and> args_fit (ap_args p) \<and> b = args_bytes (ap_args p) \<and> length (ap_args p) = unat n"
proof -
  have "length b < 2 ^ 32 - 1" using assms(2) by simp
  note p = assms(1) [unfolded argument_parse_iff [OF this]]
  have "unat n < 256" by (rule unat_u8_less)
  with p assms(2) show ?thesis
    by (auto simp: args_valid_def args_fit_def SILC_MAX_ALLOC_def)
qed



text \<open>A payload with no arguments is accepted whatever follows its header.\<close>

lemma command_trailing_bytes_ignored:
  "silc_command_payload_parse [0, 9, 1, 0, 0, 5, 1, 2, 3] =
    Some \<lparr>cp_cmd = 1, cp_ident = 5, cp_args = None\<rparr>"
  by (subst command_parse_eq) (simp_all add: Let_def SILC_GET16_MSB_def)

section \<open>Command replies\<close>

abbreviation collected :: "va_arg list \<Rightarrow> arg_entry list" where
  "collected ap \<equiv> map (\<lambda>(t, x, l). (map_option (take (unat l)) x, l, t))
      (filter (\<lambda>(t, x, l). t \<noteq> 0 \<and> x \<noteq> None \<and> l \<noteq> 0) ap)"

lemma collect_args_ok:
  assumes "\<forall>(t, x, l) \<in> set ap. unat t < 256 \<and> unat l < 65536 \<and> (\<forall>d. x = Some d \<longrightarrow> unat l \<le> length d)"
  shows "collect_args ap = Some (collected ap) \<and> (\<forall>e \<in> set (collected ap). entry_ok e) \<and>
    length (args_bytes (collected ap)) \<le> sum_list (map (\<lambda>(t, x, l). 3 + unat l) ap)"
  using assms
proof (induction ap)
  case (Cons a ap)
  obtain t x l where a: "a = (t, x, l)" by (cases a)
  have "\<forall>(t, x, l) \<in> set ap. unat t < 256 \<and> unat l < 65536 \<and> (\<forall>d. x = Some d \<longrightarrow> unat l \<le> length d)"
    using Cons.prems by simp
  note IH = Cons.IH [OF this]
  show ?case
  proof (cases "t = 0 \<or> x = None \<or> l = 0")
    case True
    with IH show ?thesis by (auto simp: a)
  next
    case False
    then obtain d where x: "x = Some d" by auto
    with False Cons.prems have ok: "entry_ok (Some (take (unat l) d), l, t)" by (simp add: a)
    then have "silc_calloc_ok (unat l + 1) 1" by (simp add: silc_calloc_ok_def SILC_MAX_ALLOC_def)
    with False IH ok length_arg_bytes [OF ok] show ?thesis
      by (simp add: a x del: arg_bytes.simps entry_ok.simps)
  qed
qed simp

text \<open>
  Property C29. The status of a reply survives the wire: what \<open>silc_command_get_status\<close> reads from
  an encoded and parsed reply is the status and error it was made with, an error status being
  reported in both; the reply counts as good exactly when it carries no error.  The one
  exception is a zero status with an error, which is read as the status of protocol version 1.0.
\<close>

theorem reply_status_roundtrip:
  assumes "\<forall>(t, x, l) \<in> set ap. unat t < 256 \<and> unat l < 65536 \<and> (\<forall>d. x = Some d \<longrightarrow> unat l \<le> length d)"
    "length ap < 255" "sum_list (map (\<lambda>(t, x, l). 3 + unat l) ap) + 11 < 65536" "cmd \<noteq> 0"
  shows "\<exists>buf cp. silc_command_reply_payload_encode_vap cmd status error ident ap = Some buf \<and>
    silc_command_payload_parse (silc_buffer_data buf) = Some cp \<and> cp_cmd cp = cmd \<and> cp_ident cp = ident \<and>
    silc_command_get_status cp =
      (if status = 0 \<and> error \<noteq> 0 then (error < 10, Some (error, if error \<ge> 10 then error else 0))
       else (status < 10 \<and> error = 0, Some (status, if status \<ge> 10 then status else error)))"
proof -
  define as where "as = collected ap"
  note as = collect_args_ok [OF assms(1), folded as_def]
  have "length as \<le> length ap" by (simp add: as_def)
  then have fit: "args_fit ((Some [status, error], 2, 1) # as)"
    using as assms(2,3) by (simp add: args_fit_def)
  have "silc_calloc_ok (length ap + 1) 8 \<and> silc_calloc_ok (length ap + 1) 4"
    using assms(2) by (simp add: silc_calloc_ok_def SILC_MAX_ALLOC_def)
  with as have "silc_command_reply_payload_encode_vap cmd status error ident ap =
      Some (silc_buffer_set (command_bytes cmd ident ((Some [status, error], 2, 1) # as)))"
    by (simp add: silc_command_reply_payload_encode_vap_def command_encode_bytes [OF fit])
  moreover have "(ucast (SILC_GET16_MSB [0, error]) :: u8) = error"
    by (intro bit_word_eqI) (auto simp: SILC_GET16_MSB_def bit_simps)
  moreover have "0 < unat (1 + of_nat (length as) :: u32)"
    using \<open>length as \<le> length ap\<close> assms(2) unat_of_nat [of "Suc (length as)", where 'a = 32] by simp
  ultimately show ?thesis
    using parse_command_bytes [OF assms(4) fit, of ident]
    by (auto simp: silc_command_get_status_def silc_argument_get_arg_type_def Let_def
        take_Cons' not_less)
qed

theorem reply_status_roundtrip_witness:
  "\<exists>buf cp. silc_command_reply_payload_encode_vap 3 10 0 9 [(2, Some [97], 1)] = Some buf \<and>
    silc_command_payload_parse (silc_buffer_data buf) = Some cp \<and> cp_cmd cp = 3 \<and> cp_ident cp = 9 \<and>
    silc_command_get_status cp = (False, Some (10, 10))"
  using reply_status_roundtrip [of "[(2, Some [97], 1)]" 3 10 0 9] by simp

end
