(* ===== verification/Silc_Notify.thy ===== *)
theory Silc_Notify
  imports Silc_Command
begin

text \<open>
  Notify Payloads, \<^verbatim>\<open>lib/silccore/silcnotify.c\<close>: how the server announces joins, leaves, mode
  changes and the other events of the network.
\<close>

section \<open>The payload and its operations\<close>

type_synonym silc_notify_type = u16

abbreviation (input) SILC_NOTIFY_TYPE_JOIN :: silc_notify_type where "SILC_NOTIFY_TYPE_JOIN \<equiv> 2"
abbreviation (input) SILC_NOTIFY_TYPE_LEAVE :: silc_notify_type where "SILC_NOTIFY_TYPE_LEAVE \<equiv> 3"

record silc_notify_payload =
  np_type :: silc_notify_type
  np_argc :: u8
  np_args :: "silc_argument_payload option"

definition silc_notify_payload_parse :: "byte list \<Rightarrow> silc_notify_payload option" where
  "silc_notify_payload_parse payload =
     (case unformat (silc_buffer_set payload) [U_UI16_SHORT, U_UI16_SHORT, U_UI8_CHAR] of
        Some (ret, [VU16 type, VU16 len, VU8 argc], buffer) \<Rightarrow>
          if ret = -1 then None
          else if unat len > silc_buffer_len buffer then None
          else if argc \<noteq> 0 then
            (case silc_argument_payload_parse (silc_buffer_data (buf_pull buffer 5)) (ucast argc) of
               None \<Rightarrow> None
             | Some args \<Rightarrow> Some \<lparr>np_type = type, np_argc = argc, np_args = Some args\<rparr>)
          else Some \<lparr>np_type = type, np_argc = argc, np_args = None\<rparr>
      | _ \<Rightarrow> None)"

text \<open>
  The variable arguments are pairs of data and length, and an argument's type is its position,
  starting with 1; absent and empty arguments are skipped but keep their position.
\<close>

fun collect_notify_args :: "nat \<Rightarrow> (byte list option \<times> u32) list \<Rightarrow> arg_entry list option" where
  "collect_notify_args i [] = Some []"
| "collect_notify_args i ((x, x_len) # ap) =
     (if x = None \<or> x_len = 0 then collect_notify_args (i + 1) ap
      else if \<not> silc_calloc_ok (unat x_len + 1) 1 then None
      else map_option ((#) (map_option (take (unat x_len)) x, x_len, of_nat (i + 1)))
             (collect_notify_args (i + 1) ap))"

text \<open>
  The buffer of the arguments is read without a check that it was allocated, so that \<open>None\<close> of
  \<open>silc_argument_payload_encode\<close> is \<open>None\<close> here as well.
\<close>

definition silc_notify_payload_encode ::
  "silc_notify_type \<Rightarrow> (byte list option \<times> u32) list \<Rightarrow> silc_buffer option" where
  "silc_notify_payload_encode type ap =
     (let argc = length ap in
      if argc \<noteq> 0 \<and> (\<not> silc_calloc_ok argc 8 \<or> \<not> silc_calloc_ok argc 4) then None
      else
        case collect_notify_args 0 ap of
          None \<Rightarrow> None
        | Some as \<Rightarrow>
            (case (if argc \<noteq> 0 then silc_argument_payload_encode as else silc_buffer_alloc_size 0) of
               None \<Rightarrow> None
             | Some args \<Rightarrow>
                 let len = (silc_buffer_len args + 5) mod 2 ^ 32 in
                 map_option (\<lambda>buffer.
                     let buffer = bufformat buffer
                       [SILC_PARAM_UI16_SHORT type, SILC_PARAM_UI16_SHORT (of_nat len),
                        SILC_PARAM_UI8_CHAR (of_nat (length as))] in
                     if length as \<noteq> 0 then
                       bufformat buffer
                         [SILC_PARAM_OFFSET 5,
                          SILC_PARAM_DATA (Some (silc_buffer_data args)) (of_nat (silc_buffer_len args))]
                     else buffer)
                   (silc_buffer_alloc_size len)))"

definition silc_notify_payload_encode_args ::
  "silc_notify_type \<Rightarrow> u32 \<Rightarrow> silc_buffer option \<Rightarrow> silc_buffer option" where
  "silc_notify_payload_encode_args type argc args =
     (let len = (5 + (case args of None \<Rightarrow> 0 | Some a \<Rightarrow> silc_buffer_len a)) mod 2 ^ 32 in
      map_option (\<lambda>buffer.
          let buffer = bufformat buffer
            [SILC_PARAM_UI16_SHORT type, SILC_PARAM_UI16_SHORT (of_nat len),
             SILC_PARAM_UI8_CHAR (ucast argc)] in
          case args of
            None \<Rightarrow> buffer
          | Some a \<Rightarrow>
              bufformat buffer
                [SILC_PARAM_OFFSET 5,
                 SILC_PARAM_DATA (Some (silc_buffer_data a)) (of_nat (silc_buffer_len a))])
        (silc_buffer_alloc_size len))"

section \<open>The wire format\<close>

definition notify_bytes :: "silc_notify_type \<Rightarrow> arg_entry list \<Rightarrow> byte list" where
  "notify_bytes type as = SILC_PUT16_MSB type @ SILC_PUT16_MSB (of_nat (length (args_bytes as) + 5)) @
     of_nat (length as) # args_bytes as"

lemma notify_format:
  fixes as :: "arg_entry list" and type :: silc_notify_type
  assumes "args_fit as"
  defines "n \<equiv> length (args_bytes as) + 5"
  defines "b \<equiv> bufformat \<lparr>bmem = replicate n 0, bdata = 0, btail = n\<rparr>
    [SILC_PARAM_UI16_SHORT type, SILC_PARAM_UI16_SHORT (of_nat n), SILC_PARAM_UI8_CHAR (of_nat (length as))]"
  shows "as = [] \<Longrightarrow> b = silc_buffer_set (notify_bytes type as)"
    and "bufformat b [SILC_PARAM_OFFSET 5, SILC_PARAM_DATA (Some (args_bytes as)) (of_nat (length (args_bytes as)))] =
      silc_buffer_set (notify_bytes type as)"
proof -
  let ?hdr = "[SILC_PARAM_UI16_SHORT type, SILC_PARAM_UI16_SHORT (of_nat n),
    SILC_PARAM_UI8_CHAR (of_nat (length as))]"
  have n: "n < SILC_MAX_ALLOC" using assms(1) by (simp add: n_def args_fit_def SILC_MAX_ALLOC_def)
  have b: "b = silc_buffer_set (concat (map fmt_bytes ?hdr) @ replicate (length (args_bytes as)) 0)"
    unfolding b_def by (rule format_header [OF _ _ n]) (simp_all add: n_def)
  then show "as = [] \<Longrightarrow> b = silc_buffer_set (notify_bytes type as)"
    by (simp add: notify_bytes_def n_def)
  show "bufformat b [SILC_PARAM_OFFSET 5, SILC_PARAM_DATA (Some (args_bytes as)) (of_nat (length (args_bytes as)))] =
      silc_buffer_set (notify_bytes type as)"
    using format_offset_tail [of "concat (map fmt_bytes ?hdr)" "args_bytes as"
        "replicate (length (args_bytes as)) 0"] n
    by (simp add: b notify_bytes_def n_def)
qed

lemma notify_encode_args_bytes:
  assumes "args_fit as" "as \<noteq> []"
  shows "silc_notify_payload_encode_args type (of_nat (length as)) (silc_argument_payload_encode as) =
    Some (silc_buffer_set (notify_bytes type as))"
proof -
  have sz: "length (args_bytes as) + 5 < SILC_MAX_ALLOC"
    "(5 + length (args_bytes as)) mod 2 ^ 32 = length (args_bytes as) + 5"
    using assms by (simp_all add: args_fit_def SILC_MAX_ALLOC_def)
  have "(ucast (of_nat (length as) :: u32) :: u8) = of_nat (length as)"
    using assms by (simp add: args_fit_def unsigned_of_nat take_bit_nat_eq_self)
  moreover have "silc_argument_payload_encode as = Some (silc_buffer_set (args_bytes as))"
    using assms by (simp add: argument_encode_eq args_fit_def SILC_MAX_ALLOC_def)
  ultimately show ?thesis
    using notify_format(2) [OF assms(1), of type] sz
    by (simp add: silc_notify_payload_encode_args_def Let_def)
qed

definition notify_parsed :: "silc_notify_type \<Rightarrow> arg_entry list \<Rightarrow> silc_notify_payload" where
  "notify_parsed type as = \<lparr>np_type = type, np_argc = of_nat (length as),
     np_args = (if as = [] then None
                else Some \<lparr>ap_argc = of_nat (length as), ap_args = as, ap_pos = 0\<rparr>)\<rparr>"

lemma notify_parse_eq:
  assumes "length b < 2 ^ 32 - 1"
  shows "silc_notify_payload_parse b =
    (if length b < 5 \<or> unat (SILC_GET16_MSB (drop 2 b)) > length b then None
     else let np = \<lparr>np_type = ucast (SILC_GET16_MSB b), np_argc = b ! 4, np_args = None\<rparr> in
       if b ! 4 = 0 then Some np
       else map_option (\<lambda>a. np\<lparr>np_args := Some a\<rparr>)
              (silc_argument_payload_parse (drop 5 b) (ucast (b ! 4))))"
proof -
  have wf: "buffer_wf (silc_buffer_set b)" using assms by simp
  let ?ps = "[U_UI16_SHORT, U_UI16_SHORT, U_UI8_CHAR]"
  show ?thesis
  proof (cases "length b < 5")
    case True
    then have "unformat (silc_buffer_set b) ?ps = Some (-1, [], silc_buffer_set b)"
      using wf by (simp add: unformat_fwd pfixed_def del: One_nat_def)
    with True show ?thesis by (simp add: silc_notify_payload_parse_def)
  next
    case False
    then have "unformat (silc_buffer_set b) ?ps = Some (5, [VU16 (ucast (SILC_GET16_MSB b)),
        VU16 (ucast (SILC_GET16_MSB (drop 2 b))), VU8 (b ! 4)], silc_buffer_set b)"
      using wf by (simp add: unformat_fwd pfixed_def del: One_nat_def) linarith
    with False wf show ?thesis
      by (simp add: silc_notify_payload_parse_def Let_def split: option.split)
  qed
qed

lemma parse_notify_bytes:
  assumes "args_fit as"
  shows "silc_notify_payload_parse (notify_bytes type as) = Some (notify_parsed type as)"
proof -
  let ?b = "notify_bytes type as"
  have sz: "length ?b = length (args_bytes as) + 5" "length ?b < 65536"
    using assms by (simp_all add: notify_bytes_def args_fit_def)
  have n: "unat (of_nat (length as) :: u8) = length as" "unat (of_nat (length as) :: u32) = length as"
    using assms by (simp_all add: args_fit_def unat_of_nat)
  have n8: "ucast (of_nat (length as) :: u8) = (of_nat (length as) :: u32)"
    using assms by (simp add: args_fit_def unsigned_of_nat take_bit_nat_eq_self)
  have "as = []" if "(of_nat (length as) :: u8) = 0"
    using n(1) unfolding that by simp
  then have z: "(of_nat (length as) :: u8) = 0 \<longleftrightarrow> as = []" by auto
  have "unat (SILC_GET16_MSB (drop 2 ?b)) = length ?b"
    using sz by (simp add: notify_bytes_def GET16_PUT16_unat unat_of_nat del: of_nat_add)
  moreover have "?b ! 4 = of_nat (length as)" "ucast (SILC_GET16_MSB ?b) = type" "drop 5 ?b = args_bytes as"
    by (simp_all add: notify_bytes_def nth_append GET16_PUT16)
  moreover have "as \<noteq> [] \<Longrightarrow> silc_argument_payload_parse (args_bytes as) (of_nat (length as)) =
      Some \<lparr>ap_argc = of_nat (length as), ap_args = as, ap_pos = 0\<rparr>"
    using assms n
    by (subst argument_parse_iff) (auto simp: SILC_MAX_ALLOC_def args_fit_def word_less_nat_alt)
  ultimately show ?thesis
    using sz by (subst notify_parse_eq) (simp_all add: Let_def z n8 notify_parsed_def)
qed

section \<open>Notify arguments by position\<close>

text \<open>The arguments that are sent, with their positions as types.\<close>

fun notify_args :: "nat \<Rightarrow> (byte list option \<times> u32) list \<Rightarrow> arg_entry list" where
  "notify_args i [] = []"
| "notify_args i ((Some d, l) # ap) =
     (if l = 0 then [] else [(Some (take (unat l) d), l, of_nat (i + 1))]) @ notify_args (i + 1) ap"
| "notify_args i ((None, l) # ap) = notify_args (i + 1) ap"

fun va_ok :: "byte list option \<times> u32 \<Rightarrow> bool" where
  "va_ok (Some d, l) \<longleftrightarrow> unat l \<le> length d \<and> unat l < 65536"
| "va_ok (None, l) \<longleftrightarrow> unat l < 65536"

lemma collect_notify_ok:
  "\<forall>a \<in> set ap. va_ok a \<Longrightarrow> i + length ap < 256 \<Longrightarrow>
    collect_notify_args i ap = Some (notify_args i ap) \<and>
    (\<forall>e \<in> set (notify_args i ap). entry_ok e \<and> i < unat (snd (snd e))) \<and>
    length (notify_args i ap) \<le> length ap \<and>
    length (args_bytes (notify_args i ap)) \<le> sum_list (map (\<lambda>(x, l). 3 + unat l) ap)"
proof (induction i ap rule: notify_args.induct)
  case (2 i d l ap)
  have IH: "collect_notify_args (i + 1) ap = Some (notify_args (i + 1) ap) \<and>
    (\<forall>e \<in> set (notify_args (i + 1) ap). entry_ok e \<and> i + 1 < unat (snd (snd e))) \<and>
    length (notify_args (i + 1) ap) \<le> length ap \<and>
    length (args_bytes (notify_args (i + 1) ap)) \<le> sum_list (map (\<lambda>(x, l). 3 + unat l) ap)"
    using "2.prems" by (intro "2.IH") auto
  have ok: "entry_ok (Some (take (unat l) d), l, of_nat (i + 1))" if "l \<noteq> 0"
    using "2.prems" that by (simp add: unat_of_nat del: of_nat_add of_nat_Suc)
  have t: "unat (of_nat (i + 1) :: u32) = i + 1"
    using "2.prems" by (simp add: unat_of_nat del: of_nat_add of_nat_Suc)
  have "silc_calloc_ok (unat l + 1) 1"
    using "2.prems" by (simp add: silc_calloc_ok_def SILC_MAX_ALLOC_def)
  with IH ok t show ?case
    by (auto simp: length_arg_bytes simp del: arg_bytes.simps entry_ok.simps of_nat_add of_nat_Suc
        dest: less_imp_le_nat)
next
  case (3 i l ap)
  then show ?case by force
qed simp

lemma find_notify_args:
  "\<forall>a \<in> set ap. va_ok a \<Longrightarrow> i + length ap < 256 \<Longrightarrow> j < length ap \<Longrightarrow>
    find (\<lambda>(_, _, t). t = of_nat (i + j + 1)) (notify_args i ap) =
      (case ap ! j of
         (Some d, l) \<Rightarrow> if l = 0 then None else Some (Some (take (unat l) d), l, of_nat (i + j + 1))
       | (None, l) \<Rightarrow> None)"
proof (induction i ap arbitrary: j rule: notify_args.induct)
  case (2 i d l ap)
  show ?case
  proof (cases j)
    case 0
    have "find (\<lambda>(_, _, t). t = of_nat (i + 1)) (notify_args (i + 1) ap) = None"
    proof -
      have "\<forall>e \<in> set (notify_args (i + 1) ap). i + 1 < unat (snd (snd e))"
        using collect_notify_ok [of ap "i + 1"] "2.prems" by simp
      moreover have "unat (of_nat (i + 1) :: u32) = i + 1"
        using "2.prems" by (simp add: unat_of_nat del: of_nat_add of_nat_Suc)
      ultimately show ?thesis
        by (auto simp: find_None_iff simp del: of_nat_add of_nat_Suc)
    qed
    with 0 show ?thesis by (simp del: of_nat_add of_nat_Suc)
  next
    case (Suc k)
    have "unat (of_nat (i + j + 1) :: u32) = i + j + 1" "unat (of_nat (i + 1) :: u32) = i + 1"
      using "2.prems" by (simp_all add: unat_of_nat del: of_nat_add of_nat_Suc)
    then have "(of_nat (i + 1) :: u32) \<noteq> of_nat (i + j + 1)"
      using Suc by (metis add.commute add_cancel_right_right nat.distinct(1) add.assoc add_left_cancel)
    moreover have e: "i + 1 + k + 1 = i + j + 1" using Suc by simp
    have "find (\<lambda>(_, _, t). t = of_nat (i + j + 1)) (notify_args (i + 1) ap) =
      (case ap ! k of
         (Some d, l) \<Rightarrow> if l = 0 then None else Some (Some (take (unat l) d), l, of_nat (i + j + 1))
       | (None, l) \<Rightarrow> None)"
      using "2.prems" Suc "2.IH" [of k, unfolded e] by (simp del: of_nat_add of_nat_Suc)
    ultimately show ?thesis
      by (simp add: Suc del: of_nat_add of_nat_Suc cong: option.case_cong prod.case_cong)
  qed
next
  case (3 i l ap)
  show ?case
  proof (cases j)
    case 0
    have "\<forall>e \<in> set (notify_args (i + 1) ap). i + 1 < unat (snd (snd e))"
      using collect_notify_ok [of ap "i + 1"] "3.prems" by simp
    moreover have "unat (of_nat (i + 1) :: u32) = i + 1"
      using "3.prems" by (simp add: unat_of_nat del: of_nat_add of_nat_Suc)
    ultimately show ?thesis
      using 0 by (auto simp: find_None_iff simp del: of_nat_add of_nat_Suc)
  next
    case (Suc k)
    then have e: "i + 1 + k + 1 = i + j + 1" by simp
    show ?thesis
      using "3.prems" Suc "3.IH" [of k, unfolded e] by (simp del: of_nat_add of_nat_Suc)
  qed
qed simp

lemma notify_encode_bytes:
  assumes "args_fit (notify_args 0 ap)" "\<forall>a \<in> set ap. va_ok a" "length ap < 256"
  shows "silc_notify_payload_encode type ap = Some (silc_buffer_set (notify_bytes type (notify_args 0 ap)))"
proof -
  let ?as = "notify_args 0 ap"
  have c: "collect_notify_args 0 ap = Some ?as"
    using collect_notify_ok [OF assms(2), of 0] assms(3) by simp
  have sz: "length (args_bytes ?as) + 5 < SILC_MAX_ALLOC"
    "(length (args_bytes ?as) + 5) mod 2 ^ 32 = length (args_bytes ?as) + 5"
    using assms(1) by (simp_all add: args_fit_def SILC_MAX_ALLOC_def)
  have e: "silc_argument_payload_encode ?as = Some (silc_buffer_set (args_bytes ?as))"
    using assms(1) by (simp add: argument_encode_eq args_fit_def SILC_MAX_ALLOC_def)
  have calloc: "silc_calloc_ok (length ap) 8 \<and> silc_calloc_ok (length ap) 4" if "ap \<noteq> []"
    using assms(3) that by (simp add: silc_calloc_ok_def SILC_MAX_ALLOC_def)
  have z: "silc_buffer_alloc_size 0 = Some (silc_buffer_set (args_bytes ?as))" if "ap = []"
    using that by (simp add: SILC_MAX_ALLOC_def silc_buffer_set_def)
  have a: "(if length ap \<noteq> 0 then silc_argument_payload_encode ?as else silc_buffer_alloc_size 0) =
      Some (silc_buffer_set (args_bytes ?as))"
    using e z by (cases "ap = []") simp_all
  show ?thesis
    unfolding silc_notify_payload_encode_def Let_def c a option.case set_len sz(2)
    using calloc notify_format [OF assms(1), of type] sz(1) by auto
qed

text \<open>
  Property C32. A notify reaches the receiver with its arguments under their positions: encoding
  the arguments of a notify and parsing the bytes gives the notify type back, and the
  \<open>j\<close>-th argument is found under type \<open>j\<close>; an absent or empty argument is not found.
\<close>

theorem notify_roundtrip:
  assumes "\<forall>a \<in> set ap. va_ok a" "length ap < 256"
    "sum_list (map (\<lambda>(x, l). 3 + unat l) ap) + 6 < 65536" "j < length ap"
  shows "\<exists>buf np. silc_notify_payload_encode type ap = Some buf \<and>
    silc_notify_payload_parse (silc_buffer_data buf) = Some np \<and> np_type np = type \<and>
    silc_argument_get_arg_type (np_args np) (of_nat (j + 1)) =
      (case ap ! j of (Some d, l) \<Rightarrow> if l = 0 then None else Some (take (unat l) d, l) | (None, l) \<Rightarrow> None)"
proof -
  let ?as = "notify_args 0 ap"
  have fit: "args_fit ?as"
    using collect_notify_ok [OF assms(1), of 0] assms(2,3) by (simp add: args_fit_def)
  have n: "unat (of_nat (length ?as) :: u32) = length ?as"
    using fit by (simp add: args_fit_def unat_of_nat)
  have f: "find (\<lambda>(_, _, t). t = of_nat (j + 1)) ?as =
      (case ap ! j of
         (Some d, l) \<Rightarrow> if l = 0 then None else Some (Some (take (unat l) d), l, of_nat (j + 1))
       | (None, l) \<Rightarrow> None)"
    using find_notify_args [OF assms(1), of 0 j, unfolded add_0] assms(2,4) by (simp del: of_nat_add of_nat_Suc)
  have "silc_argument_get_arg_type (np_args (notify_parsed type ?as)) (of_nat (j + 1)) =
      (case ap ! j of (Some d, l) \<Rightarrow> if l = 0 then None else Some (take (unat l) d, l) | (None, l) \<Rightarrow> None)"
    using f n by (cases "?as = []")
      (auto simp: notify_parsed_def silc_argument_get_arg_type_def simp del: of_nat_add of_nat_Suc
        split: prod.splits option.splits if_splits)
  then show ?thesis
    using notify_encode_bytes [OF fit assms(1,2)] parse_notify_bytes [OF fit, of type]
    by (simp add: notify_parsed_def)
qed

theorem notify_roundtrip_witness:
  "\<exists>buf np. silc_notify_payload_encode 2 [(Some [1, 2], 2), (None, 0), (Some [5], 1)] = Some buf \<and>
    silc_notify_payload_parse (silc_buffer_data buf) = Some np \<and> np_type np = 2 \<and>
    silc_argument_get_arg_type (np_args np) 3 = Some ([5], 1)"
  using notify_roundtrip [of "[(Some [1, 2], 2), (None, 0), (Some [5], 1)]" 2 2] by simp

text \<open>The length field of a notify is not compared with the length of the payload.\<close>

lemma notify_length_not_checked:
  "silc_notify_payload_parse [0, 2, 0, 0, 0, 1, 2, 3] =
    Some \<lparr>np_type = 2, np_argc = 0, np_args = None\<rparr>"
  by (subst notify_parse_eq) (simp_all add: Let_def SILC_GET16_MSB_def)

end
