(* ===== verification/Silc_Hashfuncs.thy ===== *)
theory Silc_Hashfuncs
  imports Silc_Id
begin

text \<open>
  The hash and comparison functions that the tables of the server use,
  \<^verbatim>\<open>lib/silcutil/silcutil.c\<close>.  A C string is a list of bytes read up to its first zero; a
  pointer is a 64-bit word.  The user context of a function is an argument before the key.
\<close>

unbundle bit_operations_syntax

section \<open>Hash functions\<close>

definition cstr :: "byte list \<Rightarrow> byte list" where
  "cstr s = takeWhile (\<lambda>c. c \<noteq> 0) s"

text \<open>One round of the string hash, with the character already widened.\<close>

definition hash_round :: "u32 \<Rightarrow> u32 \<Rightarrow> u32" where
  "hash_round h c =
     (let h = push_bit 4 h + c; g = h AND 0xf0000000 in
      if g \<noteq> 0 then (h XOR drop_bit 24 g) XOR g else h)"

text \<open>
  \<open>tolower\<close> of the C locale on a character that was converted to \<open>int\<close>: a byte of 128 or more is
  a negative number and stays as it is.
\<close>

definition tolower :: "byte \<Rightarrow> byte" where
  "tolower c = (if 65 \<le> c \<and> c \<le> 90 then c + 32 else c)"

definition silc_hash_string :: "byte list \<Rightarrow> u32" where
  "silc_hash_string key = foldl (\<lambda>h c. hash_round h (scast (tolower c))) 0 (cstr key)"

definition silc_hash_utf8_string :: "byte list \<Rightarrow> u32" where
  "silc_hash_utf8_string key = foldl (\<lambda>h c. hash_round h (ucast c)) 0 (cstr key)"

definition silc_hash_uint :: "u64 \<Rightarrow> u32" where
  "silc_hash_uint key = ucast key"

definition silc_hash_ptr :: "u64 \<Rightarrow> u32" where
  "silc_hash_ptr key = ucast key"

definition silc_hash_client_id_hash :: "byte list \<Rightarrow> u32" where
  "silc_hash_client_id_hash hash =
     foldl (\<lambda>h c. hash_round h (ucast c)) 0 (take CLIENTID_HASH_LEN hash)"

text \<open>The address of an ID folded into the product of its port and random number.\<close>

definition hash_ip :: "u32 \<Rightarrow> silc_id_ip \<Rightarrow> u32" where
  "hash_ip h ip = foldl (\<lambda>h c. h XOR ucast c) h (take (unat (ip_data_len ip)) (ip_data ip))"

definition silc_hash_id :: "id_type \<Rightarrow> silc_id \<Rightarrow> u32" where
  "silc_hash_id id_type key =
     (if id_type = SILC_ID_CLIENT then
        (case key of ClientID i \<Rightarrow> silc_hash_client_id_hash (cid_hash i) | _ \<Rightarrow> 0)
      else if id_type = SILC_ID_SERVER then
        (case key of ServerID i \<Rightarrow> hash_ip (ucast (sid_port i) * ucast (sid_rnd i)) (sid_ip i) | _ \<Rightarrow> 0)
      else if id_type = SILC_ID_CHANNEL then
        (case key of ChannelID i \<Rightarrow> hash_ip (ucast (chid_port i) * ucast (chid_rnd i)) (chid_ip i) | _ \<Rightarrow> 0)
      else 0)"

definition silc_hash_data :: "u32 \<Rightarrow> byte list \<Rightarrow> u32" where
  "silc_hash_data len data =
     foldl (\<lambda>h c. h XOR ucast c)
       ((ucast (data ! 0) * ucast (data ! unat (len - 1)) + 1) * len)
       (take (unat len) data)"

text \<open>Encoding a public key is a parameter; a key that cannot be encoded hashes to 0.\<close>

definition silc_hash_public_key :: "('pk \<Rightarrow> byte list option) \<Rightarrow> 'pk \<Rightarrow> u32" where
  "silc_hash_public_key pk_encode key =
     (case pk_encode key of None \<Rightarrow> 0 | Some pk \<Rightarrow> silc_hash_data (of_nat (length pk)) pk)"

section \<open>Comparison functions\<close>

definition silc_hash_string_compare :: "byte list \<Rightarrow> byte list \<Rightarrow> bool" where
  "silc_hash_string_compare key1 key2 \<longleftrightarrow> map tolower (cstr key1) = map tolower (cstr key2)"

definition silc_hash_id_compare :: "id_type \<Rightarrow> silc_id \<Rightarrow> silc_id \<Rightarrow> bool" where
  "silc_hash_id_compare id_type key1 key2 =
     (if id_type = SILC_ID_CLIENT then
        (case (key1, key2) of
           (ClientID i, ClientID j) \<Rightarrow> SILC_ID_COMPARE_HASH i j
         | _ \<Rightarrow> key1 = key2)
      else SILC_ID_COMPARE_TYPE key1 key2)"

definition silc_hash_id_compare_full :: "id_type \<Rightarrow> silc_id \<Rightarrow> silc_id \<Rightarrow> bool" where
  "silc_hash_id_compare_full id_type key1 key2 = SILC_ID_COMPARE_TYPE key1 key2"

definition silc_hash_client_id_compare :: "silc_id \<Rightarrow> silc_id \<Rightarrow> bool" where
  "silc_hash_client_id_compare key1 key2 = SILC_ID_COMPARE_TYPE key1 key2"

definition silc_hash_data_compare :: "u32 \<Rightarrow> byte list \<Rightarrow> byte list \<Rightarrow> bool" where
  "silc_hash_data_compare len key1 key2 \<longleftrightarrow> take (unat len) key1 = take (unat len) key2"

definition silc_hash_utf8_compare :: "byte list \<Rightarrow> byte list \<Rightarrow> bool" where
  "silc_hash_utf8_compare key1 key2 =
     (let l1 = length (cstr key1); l2 = length (cstr key2) in
      if l1 \<noteq> l2 then False else take l2 key1 = take l2 key2)"

section \<open>The contract of a hash function and its comparison\<close>

text \<open>
  What a hash table needs: the comparison is an equivalence and equal keys have equal hash values.
\<close>

locale hash_keys =
  fixes hash :: "'k \<Rightarrow> u32"
    and cmp :: "'k \<Rightarrow> 'k \<Rightarrow> bool"
  assumes cmp_refl: "cmp k k"
    and cmp_sym: "cmp k k' \<Longrightarrow> cmp k' k"
    and cmp_trans: "cmp k k' \<Longrightarrow> cmp k' k'' \<Longrightarrow> cmp k k''"
    and cmp_hash: "cmp k k' \<Longrightarrow> hash k = hash k'"
begin

lemma cmp_cong: "cmp k k' \<Longrightarrow> cmp k'' k \<longleftrightarrow> cmp k'' k'"
  using cmp_sym cmp_trans by blast

end

lemma foldl_tolower: "foldl (\<lambda>h c. f h (tolower c)) a xs = foldl f a (map tolower xs)"
  by (induction xs arbitrary: a) simp_all

interpretation hk_string: hash_keys silc_hash_string silc_hash_string_compare
  by unfold_locales
    (auto simp: silc_hash_string_compare_def silc_hash_string_def
      foldl_tolower [of "\<lambda>h c. hash_round h (scast c)"])

lemma cstr_length: "take (length (cstr s)) s = cstr s"
  unfolding cstr_def by (metis takeWhile_eq_take)

lemma utf8_compare_iff: "silc_hash_utf8_compare a b \<longleftrightarrow> cstr a = cstr b"
  unfolding silc_hash_utf8_compare_def Let_def by (metis cstr_length)

interpretation hk_utf8: hash_keys silc_hash_utf8_string silc_hash_utf8_compare
  by unfold_locales (auto simp: utf8_compare_iff silc_hash_utf8_string_def)

interpretation hk_ptr: hash_keys silc_hash_ptr "(=)"
  by unfold_locales auto

lemma id_compare_key:
  "silc_hash_id_compare t a b \<longleftrightarrow>
    (let key = \<lambda>i. if t = SILC_ID_CLIENT
       then case i of ClientID c \<Rightarrow> Inl (take CLIENTID_HASH_LEN (cid_hash c)) | _ \<Rightarrow> Inr i else Inr i
     in key a = key b)"
  by (cases a; cases b)
    (auto simp: silc_hash_id_compare_def SILC_ID_COMPARE_TYPE_def SILC_ID_COMPARE_HASH_def)

lemma id_compare_hash: "silc_hash_id_compare t a b \<Longrightarrow> silc_hash_id t a = silc_hash_id t b"
  by (cases a; cases b)
    (auto simp: silc_hash_id_compare_def SILC_ID_COMPARE_TYPE_def SILC_ID_COMPARE_HASH_def
      silc_hash_id_def silc_hash_client_id_hash_def split: if_splits)

interpretation hk_id: hash_keys "silc_hash_id t" "silc_hash_id_compare t" for t
proof unfold_locales
  show "silc_hash_id_compare t a b \<Longrightarrow> silc_hash_id t a = silc_hash_id t b" for a b
    by (rule id_compare_hash)
qed (simp_all add: id_compare_key Let_def)

interpretation hk_id_full: hash_keys "silc_hash_id t" "silc_hash_id_compare_full t" for t
  by unfold_locales (auto simp: silc_hash_id_compare_full_def SILC_ID_COMPARE_TYPE_def)

interpretation hk_watch: hash_keys silc_hash_client_id_hash
  "silc_hash_data_compare (of_nat CLIENTID_HASH_LEN)"
  by unfold_locales
    (auto simp: silc_hash_data_compare_def silc_hash_client_id_hash_def CLIENTID_HASH_LEN_def)

lemma hash_data_take:
  "0 < n \<Longrightarrow> take (unat n) d = take (unat n) e \<Longrightarrow> unat n \<le> length d \<Longrightarrow> unat n \<le> length e \<Longrightarrow>
    silc_hash_data n d = silc_hash_data n e"
proof -
  assume a: "0 < n" "take (unat n) d = take (unat n) e" "unat n \<le> length d" "unat n \<le> length e"
  have n0: "0 < unat n" using a(1) by (simp add: word_less_nat_alt)
  have n1: "unat (n - 1) < unat n"
    using a(1) by (metis measure_unat n0 less_irrefl unsigned_0 less_not_refl3)
  have "d ! i = e ! i" if "i < unat n" for i
    using arg_cong [OF a(2), of "\<lambda>x. x ! i"] that by simp
  with n0 n1 a(2) show ?thesis by (simp add: silc_hash_data_def)
qed

text \<open>
  A Client ID can be looked up by its nickname hash alone: the hash of a full Client ID is the
  hash of its nickname hash, and the comparison looks at nothing else.
\<close>

lemma client_id_by_hash:
  "silc_hash_id SILC_ID_CLIENT (ClientID i) = silc_hash_client_id_hash (cid_hash i)"
  "silc_hash_id_compare SILC_ID_CLIENT (ClientID i) (ClientID j) \<longleftrightarrow>
    take CLIENTID_HASH_LEN (cid_hash i) = take CLIENTID_HASH_LEN (cid_hash j)"
  by (simp_all add: silc_hash_id_def silc_hash_id_compare_def SILC_ID_COMPARE_HASH_def)

end
