(* ===== verification/Silc_Hashtable.thy ===== *)
theory Silc_Hashtable
  imports Silc_Hashfuncs "HOL-Library.Multiset"
begin

text \<open>
  The collision resistant hash table, \<^verbatim>\<open>lib/silcutil/silchashtable.c\<close>.  The chain of a slot is the
  list of its entries; a pointer to a pointer into a chain is the position of the entry.  The
  hash and comparison functions are fields of the table, with their user contexts applied.
  Calls of the destructor are recorded in \<open>ht_destroyed\<close>.  The counter is a natural
  number: a table that exceeds 32 bits does not fit in the memory of the server.
\<close>

section \<open>State\<close>

record ('k, 'c) silc_hash_table =
  ht_table :: "('k \<times> 'c) list list"
  ht_table_size :: nat                          \<comment> \<open>index into \<open>primesize\<close>\<close>
  ht_entry_count :: nat
  ht_hash :: "'k \<Rightarrow> u32"
  ht_compare :: "('k \<Rightarrow> 'k \<Rightarrow> bool) option"     \<comment> \<open>without one, keys are compared by identity\<close>
  ht_destructor :: bool
  ht_auto_rehash :: bool
  ht_destroyed :: "('k \<times> 'c) list"

definition SILC_HASH_TABLE_SIZE :: nat where "SILC_HASH_TABLE_SIZE = 2"

definition primesize :: "nat list" where
  "primesize =
     [3, 5, 11, 17, 37, 67, 109, 131, 163, 257, 367, 521, 823, 1031,
      1237, 1447, 2053, 2389, 2777, 3323, 4099, 5059, 6247, 7001, 8209, 10993,
      14057, 16411, 19181, 21089, 25033, 32771, 40009, 47431, 65537, 106721,
      131101, 262147, 360163, 524309, 810343, 1048583, 2097169, 4194319,
      6153409, 8388617, 13845163, 16777259, 33554467, 67108879]"

fun primesize_loop :: "nat \<Rightarrow> nat \<Rightarrow> nat list \<Rightarrow> nat \<times> nat" where
  "primesize_loop i sz [] = (primesize ! (i - 1), i - 1)"
| "primesize_loop i sz (p # ps) = (if p \<ge> sz then (p, i) else primesize_loop (i + 1) sz ps)"

text \<open>The size of the table and its index.\<close>

definition silc_hash_table_primesize :: "nat \<Rightarrow> nat \<times> nat" where
  "silc_hash_table_primesize sz = primesize_loop 0 sz primesize"

definition SILC_HASH_TABLE_HASH :: "('k, 'c) silc_hash_table \<Rightarrow> ('k \<Rightarrow> u32) \<Rightarrow> 'k \<Rightarrow> nat" where
  "SILC_HASH_TABLE_HASH ht f key = unat (f key) mod (primesize ! ht_table_size ht)"

definition SILC_HASH_REHASH_INC :: "('k, 'c) silc_hash_table \<Rightarrow> bool" where
  "SILC_HASH_REHASH_INC ht \<longleftrightarrow>
     ht_auto_rehash ht \<and> ht_entry_count ht div 2 > primesize ! ht_table_size ht"

definition SILC_HASH_REHASH_DEC :: "('k, 'c) silc_hash_table \<Rightarrow> bool" where
  "SILC_HASH_REHASH_DEC ht \<longleftrightarrow>
     ht_auto_rehash ht \<and> ht_entry_count ht * 2 < primesize ! ht_table_size ht \<and>
     ht_entry_count ht > primesize ! SILC_HASH_TABLE_SIZE"

section \<open>Finding\<close>

definition key_matches :: "('k \<Rightarrow> 'k \<Rightarrow> bool) option \<Rightarrow> 'k \<Rightarrow> 'k \<times> 'c \<Rightarrow> bool" where
  "key_matches compare key e = (case compare of Some f \<Rightarrow> f (fst e) key | None \<Rightarrow> fst e = key)"

text \<open>The slot and the position in its chain, which is the length of the chain when not found.\<close>

definition chain_position :: "('e \<Rightarrow> bool) \<Rightarrow> 'e list \<Rightarrow> nat" where
  "chain_position P chain = length (takeWhile (\<lambda>e. \<not> P e) chain)"

definition silc_hash_table_find_internal ::
  "('k, 'c) silc_hash_table \<Rightarrow> 'k \<Rightarrow> ('k \<Rightarrow> u32) \<Rightarrow> ('k \<Rightarrow> 'k \<Rightarrow> bool) option \<Rightarrow> nat \<times> nat" where
  "silc_hash_table_find_internal ht key hash compare =
     (let i = SILC_HASH_TABLE_HASH ht hash key in
      (i, chain_position (key_matches compare key) (ht_table ht ! i)))"

text \<open>
  With a context, the comparison function is used when the table has one, whichever function was
  passed.
\<close>

definition silc_hash_table_find_internal_context ::
  "('k, 'c) silc_hash_table \<Rightarrow> 'k \<Rightarrow> 'c \<Rightarrow> ('k \<Rightarrow> u32) \<Rightarrow> ('k \<Rightarrow> 'k \<Rightarrow> bool) option \<Rightarrow> nat \<times> nat" where
  "silc_hash_table_find_internal_context ht key context hash compare =
     (let i = SILC_HASH_TABLE_HASH ht hash key;
          cmp = (if ht_compare ht \<noteq> None then compare else None) in
      (i, chain_position (\<lambda>e. key_matches cmp key e \<and> snd e = context) (ht_table ht ! i)))"

text \<open>The calls of the callback for all entries with the key, or one call without a context.\<close>

definition silc_hash_table_find_internal_all ::
  "('k, 'c) silc_hash_table \<Rightarrow> 'k \<Rightarrow> ('k \<Rightarrow> u32) \<Rightarrow> ('k \<Rightarrow> 'k \<Rightarrow> bool) option \<Rightarrow> ('k \<times> 'c option) list" where
  "silc_hash_table_find_internal_all ht key hash compare =
     (let found = filter (key_matches compare key) (ht_table ht ! SILC_HASH_TABLE_HASH ht hash key) in
      if found = [] then [(key, None)] else map (\<lambda>(k, c). (k, Some c)) found)"

definition entry_at :: "('k, 'c) silc_hash_table \<Rightarrow> nat \<times> nat \<Rightarrow> ('k \<times> 'c) option" where
  "entry_at ht p =
     (let chain = ht_table ht ! fst p in if snd p < length chain then Some (chain ! snd p) else None)"

definition silc_hash_table_find_ext ::
  "('k, 'c) silc_hash_table \<Rightarrow> 'k \<Rightarrow> ('k \<Rightarrow> u32) option \<Rightarrow> ('k \<Rightarrow> 'k \<Rightarrow> bool) option \<Rightarrow> ('k \<times> 'c) option" where
  "silc_hash_table_find_ext ht key hash compare =
     entry_at ht (silc_hash_table_find_internal ht key
       (case hash of None \<Rightarrow> ht_hash ht | Some h \<Rightarrow> h)
       (case compare of None \<Rightarrow> ht_compare ht | Some f \<Rightarrow> Some f))"

definition silc_hash_table_find :: "('k, 'c) silc_hash_table \<Rightarrow> 'k \<Rightarrow> ('k \<times> 'c) option" where
  "silc_hash_table_find ht key = silc_hash_table_find_ext ht key None None"

definition silc_hash_table_find_by_context_ext ::
  "('k, 'c) silc_hash_table \<Rightarrow> 'k \<Rightarrow> 'c \<Rightarrow> ('k \<Rightarrow> u32) option \<Rightarrow> ('k \<Rightarrow> 'k \<Rightarrow> bool) option \<Rightarrow> 'k option" where
  "silc_hash_table_find_by_context_ext ht key context hash compare =
     map_option fst (entry_at ht (silc_hash_table_find_internal_context ht key context
       (case hash of None \<Rightarrow> ht_hash ht | Some h \<Rightarrow> h)
       (case compare of None \<Rightarrow> ht_compare ht | Some f \<Rightarrow> Some f)))"

definition silc_hash_table_find_by_context ::
  "('k, 'c) silc_hash_table \<Rightarrow> 'k \<Rightarrow> 'c \<Rightarrow> 'k option" where
  "silc_hash_table_find_by_context ht key context =
     silc_hash_table_find_by_context_ext ht key context None None"

definition silc_hash_table_find_foreach ::
  "('k, 'c) silc_hash_table \<Rightarrow> 'k \<Rightarrow> ('k \<times> 'c option) list" where
  "silc_hash_table_find_foreach ht key =
     silc_hash_table_find_internal_all ht key (ht_hash ht) (ht_compare ht)"

definition silc_hash_table_find_foreach_ext ::
  "('k, 'c) silc_hash_table \<Rightarrow> 'k \<Rightarrow> ('k \<Rightarrow> u32) option \<Rightarrow> ('k \<Rightarrow> 'k \<Rightarrow> bool) option \<Rightarrow> ('k \<times> 'c option) list" where
  "silc_hash_table_find_foreach_ext ht key hash compare =
     silc_hash_table_find_internal_all ht key
       (case hash of None \<Rightarrow> ht_hash ht | Some h \<Rightarrow> h)
       (case compare of None \<Rightarrow> ht_compare ht | Some f \<Rightarrow> Some f)"

definition silc_hash_table_foreach :: "('k, 'c) silc_hash_table \<Rightarrow> ('k \<times> 'c) list" where
  "silc_hash_table_foreach ht = concat (ht_table ht)"

section \<open>Adding, rehashing and replacing\<close>

text \<open>
  The first part of \<open>silc_hash_table_add_internal\<close>: the entry goes to the end of its chain.  The
  second part may rehash; while the table is rehashed, automatic rehashing is off and this first
  part is all that adding does.
\<close>

definition add_entry ::
  "('k \<Rightarrow> u32) \<Rightarrow> 'k \<Rightarrow> 'c \<Rightarrow> ('k, 'c) silc_hash_table \<Rightarrow> ('k, 'c) silc_hash_table" where
  "add_entry hash key context ht =
     (let i = SILC_HASH_TABLE_HASH ht hash key in
      ht\<lparr>ht_table := (ht_table ht)[i := ht_table ht ! i @ [(key, context)]],
         ht_entry_count := ht_entry_count ht + 1\<rparr>)"

definition silc_hash_table_rehash_ext ::
  "('k, 'c) silc_hash_table \<Rightarrow> nat \<Rightarrow> ('k \<Rightarrow> u32) \<Rightarrow> ('k, 'c) silc_hash_table" where
  "silc_hash_table_rehash_ext ht new_size hash =
     (let size_index = snd (silc_hash_table_primesize
            (if new_size \<noteq> 0 then new_size else ht_entry_count ht)) in
      if size_index = ht_table_size ht then ht
      else if \<not> silc_calloc_ok (primesize ! size_index) 8 then
        ht\<lparr>ht_table := [], ht_auto_rehash := False\<rparr>   \<comment> \<open>the table is lost\<close>
      else
        (let new = ht\<lparr>ht_table := replicate (primesize ! size_index) [], ht_table_size := size_index,
                      ht_entry_count := 0, ht_auto_rehash := False\<rparr> in
         (fold (\<lambda>(k, c). add_entry hash k c) (concat (ht_table ht)) new)
           \<lparr>ht_auto_rehash := ht_auto_rehash ht\<rparr>))"

definition silc_hash_table_rehash ::
  "('k, 'c) silc_hash_table \<Rightarrow> nat \<Rightarrow> ('k, 'c) silc_hash_table" where
  "silc_hash_table_rehash ht new_size = silc_hash_table_rehash_ext ht new_size (ht_hash ht)"

definition silc_hash_table_add_internal ::
  "('k, 'c) silc_hash_table \<Rightarrow> 'k \<Rightarrow> 'c \<Rightarrow> ('k \<Rightarrow> u32) \<Rightarrow> ('k, 'c) silc_hash_table" where
  "silc_hash_table_add_internal ht key context hash =
     (let ht = add_entry hash key context ht in
      if SILC_HASH_REHASH_INC ht then silc_hash_table_rehash ht 0 else ht)"

definition silc_hash_table_add ::
  "('k, 'c) silc_hash_table \<Rightarrow> 'k \<Rightarrow> 'c \<Rightarrow> ('k, 'c) silc_hash_table" where
  "silc_hash_table_add ht key context = silc_hash_table_add_internal ht key context (ht_hash ht)"

definition silc_hash_table_add_ext ::
  "('k, 'c) silc_hash_table \<Rightarrow> 'k \<Rightarrow> 'c \<Rightarrow> ('k \<Rightarrow> u32) \<Rightarrow> ('k, 'c) silc_hash_table" where
  "silc_hash_table_add_ext ht key context hash = silc_hash_table_add_internal ht key context hash"

text \<open>Replacing overwrites the first entry of the slot, whatever its key.\<close>

definition silc_hash_table_replace_internal ::
  "('k, 'c) silc_hash_table \<Rightarrow> 'k \<Rightarrow> 'c \<Rightarrow> ('k \<Rightarrow> u32) \<Rightarrow> ('k, 'c) silc_hash_table" where
  "silc_hash_table_replace_internal ht key context hash =
     (let i = SILC_HASH_TABLE_HASH ht hash key;
          ht = (case ht_table ht ! i of
                  e # es \<Rightarrow>
                    ht\<lparr>ht_table := (ht_table ht)[i := (key, context) # es],
                       ht_destroyed := ht_destroyed ht @ (if ht_destructor ht then [e] else [])\<rparr>
                | [] \<Rightarrow>
                    ht\<lparr>ht_table := (ht_table ht)[i := [(key, context)]],
                       ht_entry_count := ht_entry_count ht + 1\<rparr>) in
      if SILC_HASH_REHASH_INC ht then silc_hash_table_rehash ht 0 else ht)"

definition silc_hash_table_replace ::
  "('k, 'c) silc_hash_table \<Rightarrow> 'k \<Rightarrow> 'c \<Rightarrow> ('k, 'c) silc_hash_table" where
  "silc_hash_table_replace ht key context =
     silc_hash_table_replace_internal ht key context (ht_hash ht)"

definition silc_hash_table_replace_ext ::
  "('k, 'c) silc_hash_table \<Rightarrow> 'k \<Rightarrow> 'c \<Rightarrow> ('k \<Rightarrow> u32) \<Rightarrow> ('k, 'c) silc_hash_table" where
  "silc_hash_table_replace_ext ht key context hash = silc_hash_table_replace_internal ht key context hash"

section \<open>Allocation and deletion\<close>

definition silc_hash_table_alloc ::
  "nat \<Rightarrow> ('k \<Rightarrow> u32) \<Rightarrow> ('k \<Rightarrow> 'k \<Rightarrow> bool) option \<Rightarrow> bool \<Rightarrow> bool \<Rightarrow> ('k, 'c) silc_hash_table option" where
  "silc_hash_table_alloc table_size hash compare destructor auto_rehash =
     (let size_index = (if table_size \<noteq> 0 then snd (silc_hash_table_primesize table_size)
                        else SILC_HASH_TABLE_SIZE) in
      if \<not> silc_calloc_ok (primesize ! size_index) 8 then None
      else Some \<lparr>ht_table = replicate (primesize ! size_index) [], ht_table_size = size_index,
                 ht_entry_count = 0, ht_hash = hash, ht_compare = compare,
                 ht_destructor = destructor, ht_auto_rehash = auto_rehash, ht_destroyed = []\<rparr>)"

text \<open>Freeing calls the destructor for every entry; the calls are the result.\<close>

definition silc_hash_table_free :: "('k, 'c) silc_hash_table \<Rightarrow> ('k \<times> 'c) list" where
  "silc_hash_table_free ht = (if ht_destructor ht then concat (ht_table ht) else [])"

definition silc_hash_table_size :: "('k, 'c) silc_hash_table \<Rightarrow> nat" where
  "silc_hash_table_size ht = primesize ! ht_table_size ht"

definition silc_hash_table_count :: "('k, 'c) silc_hash_table \<Rightarrow> nat" where
  "silc_hash_table_count ht = ht_entry_count ht"

text \<open>
  The common end of the deletions: the found entry is unlinked, the destructor is called (one
  given by the caller takes the place of the table's and is not recorded), and the table may shrink.
\<close>

definition del_found ::
  "bool \<Rightarrow> ('k, 'c) silc_hash_table \<Rightarrow> nat \<times> nat \<Rightarrow> bool \<times> ('k, 'c) silc_hash_table" where
  "del_found own_destructor ht p =
     (case entry_at ht p of
        None \<Rightarrow> (False, ht)
      | Some e \<Rightarrow>
          let chain = ht_table ht ! fst p;
              ht = ht\<lparr>ht_table := (ht_table ht)[fst p := take (snd p) chain @ drop (snd p + 1) chain],
                      ht_destroyed := ht_destroyed ht @
                        (if \<not> own_destructor \<and> ht_destructor ht then [e] else []),
                      ht_entry_count := ht_entry_count ht - 1\<rparr> in
          (True, if SILC_HASH_REHASH_DEC ht then silc_hash_table_rehash ht 0 else ht))"

definition silc_hash_table_del ::
  "('k, 'c) silc_hash_table \<Rightarrow> 'k \<Rightarrow> bool \<times> ('k, 'c) silc_hash_table" where
  "silc_hash_table_del ht key =
     del_found False ht (silc_hash_table_find_internal ht key (ht_hash ht) (ht_compare ht))"

definition silc_hash_table_del_ext ::
  "('k, 'c) silc_hash_table \<Rightarrow> 'k \<Rightarrow> ('k \<Rightarrow> u32) option \<Rightarrow> ('k \<Rightarrow> 'k \<Rightarrow> bool) option \<Rightarrow> bool \<Rightarrow>
     bool \<times> ('k, 'c) silc_hash_table" where
  "silc_hash_table_del_ext ht key hash compare destructor =
     del_found destructor ht (silc_hash_table_find_internal ht key
       (case hash of None \<Rightarrow> ht_hash ht | Some h \<Rightarrow> h)
       (case compare of None \<Rightarrow> ht_compare ht | Some f \<Rightarrow> Some f))"

definition silc_hash_table_del_by_context ::
  "('k, 'c) silc_hash_table \<Rightarrow> 'k \<Rightarrow> 'c \<Rightarrow> bool \<times> ('k, 'c) silc_hash_table" where
  "silc_hash_table_del_by_context ht key context =
     del_found False ht (silc_hash_table_find_internal_context ht key context (ht_hash ht) (ht_compare ht))"

definition silc_hash_table_del_by_context_ext ::
  "('k, 'c) silc_hash_table \<Rightarrow> 'k \<Rightarrow> 'c \<Rightarrow> ('k \<Rightarrow> u32) option \<Rightarrow> ('k \<Rightarrow> 'k \<Rightarrow> bool) option \<Rightarrow> bool \<Rightarrow>
     bool \<times> ('k, 'c) silc_hash_table" where
  "silc_hash_table_del_by_context_ext ht key context hash compare destructor =
     del_found destructor ht (silc_hash_table_find_internal_context ht key context
       (case hash of None \<Rightarrow> ht_hash ht | Some h \<Rightarrow> h)
       (case compare of None \<Rightarrow> ht_compare ht | Some f \<Rightarrow> Some f))"

section \<open>Traversal\<close>

text \<open>
  The traversal keeps the rest of the current chain and the next slot; the table is not changed
  between the calls.
\<close>

record ('k, 'c) silc_hash_table_list =
  htl_entry :: "('k \<times> 'c) list"
  htl_index :: nat
  htl_auto_rehash :: bool

definition silc_hash_table_list ::
  "('k, 'c) silc_hash_table \<Rightarrow> ('k, 'c) silc_hash_table_list \<times> ('k, 'c) silc_hash_table" where
  "silc_hash_table_list ht =
     (\<lparr>htl_entry = [], htl_index = 0, htl_auto_rehash = ht_auto_rehash ht\<rparr>,
      ht\<lparr>ht_auto_rehash := False\<rparr>)"

definition silc_hash_table_list_reset ::
  "('k, 'c) silc_hash_table_list \<Rightarrow> ('k, 'c) silc_hash_table \<Rightarrow> ('k, 'c) silc_hash_table" where
  "silc_hash_table_list_reset htl ht = ht\<lparr>ht_auto_rehash := htl_auto_rehash htl\<rparr>"

function next_chain ::
  "('k, 'c) silc_hash_table \<Rightarrow> ('k \<times> 'c) list \<Rightarrow> nat \<Rightarrow> ('k \<times> 'c) list \<times> nat" where
  "next_chain ht entry index =
     (if entry = [] \<and> index < primesize ! ht_table_size ht
      then next_chain ht (ht_table ht ! index) (index + 1) else (entry, index))"
  by pat_completeness auto
termination
  by (relation "measure (\<lambda>(ht, entry, index). primesize ! ht_table_size ht - index)") auto

declare next_chain.simps [simp del]

definition silc_hash_table_get ::
  "('k, 'c) silc_hash_table \<Rightarrow> ('k, 'c) silc_hash_table_list \<Rightarrow>
     ('k \<times> 'c) option \<times> ('k, 'c) silc_hash_table_list" where
  "silc_hash_table_get ht htl =
     (if ht_entry_count ht = 0 then (None, htl)
      else
        case next_chain ht (htl_entry htl) (htl_index htl) of
          ([], index) \<Rightarrow> (None, htl\<lparr>htl_index := index\<rparr>)
        | (e # es, index) \<Rightarrow> (Some e, htl\<lparr>htl_entry := es, htl_index := index\<rparr>))"

section \<open>The invariant\<close>

lemma length_primesize [simp]: "length primesize = 50"
  by (simp add: primesize_def)

lemma primesize_bounds: "p \<in> set primesize \<Longrightarrow> 3 \<le> p \<and> p \<le> 67108879"
  by (auto simp: primesize_def)

lemma primesize_pos: "i < 50 \<Longrightarrow> 0 < primesize ! i"
  using primesize_bounds [of "primesize ! i"] by fastforce

text \<open>No table size is refused by the allocator.\<close>

lemma primesize_calloc: "i < 50 \<Longrightarrow> silc_calloc_ok (primesize ! i) 8"
  using primesize_bounds [of "primesize ! i"] by (fastforce simp: silc_calloc_ok_def SILC_MAX_ALLOC_def)

lemma primesize_loop:
  "i < 50 \<Longrightarrow> ps = drop i primesize \<Longrightarrow>
    snd (primesize_loop i sz ps) < 50 \<and>
    fst (primesize_loop i sz ps) = primesize ! snd (primesize_loop i sz ps) \<and>
    (sz \<le> fst (primesize_loop i sz ps) \<or> snd (primesize_loop i sz ps) = 49)"
proof (induction ps arbitrary: i)
  case Nil
  then show ?case using arg_cong [OF Nil(2), of length] by simp
next
  case (Cons p ps)
  then have p: "p = primesize ! i" "ps = drop (Suc i) primesize"
    by (metis Cons_nth_drop_Suc length_primesize list.inject)+
  show ?case
  proof (cases "i = 49")
    case True
    with p have "ps = []" by simp
    with True p show ?thesis by simp
  next
    case False
    with Cons.IH [of "i + 1"] Cons.prems(1) p show ?thesis by auto
  qed
qed

text \<open>The chosen size is a size of the table and is large enough unless the table is at its maximum.\<close>

lemma primesize_choice:
  "snd (silc_hash_table_primesize sz) < 50"
  "fst (silc_hash_table_primesize sz) = primesize ! snd (silc_hash_table_primesize sz)"
  "sz \<le> primesize ! snd (silc_hash_table_primesize sz) \<or> snd (silc_hash_table_primesize sz) = 49"
  using primesize_loop [of 0 primesize sz] by (auto simp: silc_hash_table_primesize_def)

text \<open>
  Every entry is in the slot of its key, and the counter counts the entries.
\<close>

definition ht_wf :: "('k, 'c) silc_hash_table \<Rightarrow> bool" where
  "ht_wf ht \<longleftrightarrow> ht_table_size ht < 50 \<and> length (ht_table ht) = primesize ! ht_table_size ht \<and>
     (\<forall>i < length (ht_table ht). \<forall>e \<in> set (ht_table ht ! i).
        SILC_HASH_TABLE_HASH ht (ht_hash ht) (fst e) = i) \<and>
     ht_entry_count ht = length (concat (ht_table ht))"

text \<open>
  The abstraction: for every hash value the entries of keys with that value, oldest first.  It
  does not depend on the size of the table.
\<close>

definition ht_class :: "('k, 'c) silc_hash_table \<Rightarrow> u32 \<Rightarrow> ('k \<times> 'c) list" where
  "ht_class ht v = filter (\<lambda>e. ht_hash ht (fst e) = v) (concat (ht_table ht))"

lemma ht_slot: "ht_wf ht \<Longrightarrow> SILC_HASH_TABLE_HASH ht f k < length (ht_table ht)"
  using primesize_pos [of "ht_table_size ht"] by (simp add: ht_wf_def SILC_HASH_TABLE_HASH_def)

lemma filter_concat_slot:
  "(\<forall>i < length xss. i \<noteq> j \<longrightarrow> (\<forall>e \<in> set (xss ! i). \<not> P e)) \<Longrightarrow> j < length xss \<Longrightarrow>
    filter P (concat xss) = filter P (xss ! j)"
proof (induction xss arbitrary: j)
  case (Cons xs xss)
  show ?case
  proof (cases j)
    case 0
    have "filter P ys = []" if "ys \<in> set xss" for ys
      using Cons.prems(1) that 0 by (auto simp: in_set_conv_nth filter_empty_conv)
    then have "filter P (concat xss) = []" by (auto simp: filter_concat)
    with 0 show ?thesis by simp
  next
    case (Suc k)
    with Cons.prems have "filter P xs = []" by (fastforce simp: filter_empty_conv)
    moreover have "filter P (concat xss) = filter P (xss ! k)"
      using Cons.prems Suc by (intro Cons.IH) fastforce+
    ultimately show ?thesis using Suc by simp
  qed
qed simp

lemma class_slot:
  assumes "ht_wf ht"
  shows "ht_class ht v =
    filter (\<lambda>e. ht_hash ht (fst e) = v) (ht_table ht ! (unat v mod (primesize ! ht_table_size ht)))"
  unfolding ht_class_def
proof (rule filter_concat_slot)
  show "unat v mod (primesize ! ht_table_size ht) < length (ht_table ht)"
    using assms primesize_pos [of "ht_table_size ht"] by (simp add: ht_wf_def)
qed (use assms in \<open>auto simp: ht_wf_def SILC_HASH_TABLE_HASH_def\<close>)

lemma concat_update_length:
  "i < length xss \<Longrightarrow>
    length (concat (xss[i := ys])) + length (xss ! i) = length (concat xss) + length ys"
proof (induction xss arbitrary: i)
  case (Cons xs xss)
  then show ?case by (cases i) (auto simp: add.assoc)
qed simp

lemma hash_update [simp]:
  "SILC_HASH_TABLE_HASH (ht\<lparr>ht_table := t, ht_entry_count := n\<rparr>) = SILC_HASH_TABLE_HASH ht"
  "SILC_HASH_TABLE_HASH (ht\<lparr>ht_table := t, ht_destroyed := d\<rparr>) = SILC_HASH_TABLE_HASH ht"
  "SILC_HASH_TABLE_HASH (ht\<lparr>ht_table := t, ht_destroyed := d, ht_entry_count := n\<rparr>) = SILC_HASH_TABLE_HASH ht"
  "SILC_HASH_TABLE_HASH (ht\<lparr>ht_auto_rehash := a\<rparr>) = SILC_HASH_TABLE_HASH ht"
  by (intro ext; simp add: SILC_HASH_TABLE_HASH_def)+

text \<open>Changing one chain to another with entries of the same slot.\<close>

lemma ht_wf_update:
  assumes "ht_wf ht" "i < length (ht_table ht)"
    "\<forall>e \<in> set ys. SILC_HASH_TABLE_HASH ht (ht_hash ht) (fst e) = i"
    "n + length (ht_table ht ! i) = ht_entry_count ht + length ys"
  shows "ht_wf (ht\<lparr>ht_table := (ht_table ht)[i := ys], ht_entry_count := n\<rparr>)"
  using assms concat_update_length [OF assms(2), of ys]
  by (auto simp: ht_wf_def nth_list_update)

lemma class_update:
  assumes "ht_wf ht" "i < length (ht_table ht)"
    "\<forall>e \<in> set ys. SILC_HASH_TABLE_HASH ht (ht_hash ht) (fst e) = i"
    "n + length (ht_table ht ! i) = ht_entry_count ht + length ys"
  shows "ht_class (ht\<lparr>ht_table := (ht_table ht)[i := ys], ht_entry_count := n\<rparr>) v =
    (if unat v mod (primesize ! ht_table_size ht) = i
     then filter (\<lambda>e. ht_hash ht (fst e) = v) ys else ht_class ht v)"
  using class_slot [OF ht_wf_update [OF assms], of v] class_slot [OF assms(1), of v] assms(2)
  by auto

section \<open>The operations refine operations on classes\<close>

lemma alloc_ok:
  assumes "silc_hash_table_alloc n h c d a = Some ht"
  shows "ht_wf ht" "ht_class ht v = []" "ht_hash ht = h" "ht_compare ht = c" "ht_entry_count ht = 0"
proof -
  have i: "(if n \<noteq> 0 then snd (silc_hash_table_primesize n) else SILC_HASH_TABLE_SIZE) < 50"
    using primesize_choice(1) [of n] by (simp add: SILC_HASH_TABLE_SIZE_def)
  with assms show "ht_wf ht" "ht_class ht v = []" "ht_hash ht = h" "ht_compare ht = c"
    "ht_entry_count ht = 0"
    by (auto simp: silc_hash_table_alloc_def Let_def primesize_calloc ht_wf_def ht_class_def
        split: if_splits)
qed

lemma alloc_succeeds: "silc_hash_table_alloc n h c d a \<noteq> None"
  using primesize_choice(1) [of n]
  by (auto simp: silc_hash_table_alloc_def Let_def primesize_calloc SILC_HASH_TABLE_SIZE_def)

lemma add_entry_frame [simp]:
  "ht_hash (add_entry h k c ht) = ht_hash ht" "ht_compare (add_entry h k c ht) = ht_compare ht"
  "ht_destructor (add_entry h k c ht) = ht_destructor ht"
  "ht_destroyed (add_entry h k c ht) = ht_destroyed ht"
  "ht_auto_rehash (add_entry h k c ht) = ht_auto_rehash ht"
  "ht_table_size (add_entry h k c ht) = ht_table_size ht"
  "ht_entry_count (add_entry h k c ht) = ht_entry_count ht + 1"
  by (simp_all add: add_entry_def Let_def)

lemma add_entry_wf: "ht_wf ht \<Longrightarrow> ht_wf (add_entry (ht_hash ht) k c ht)"
  using ht_slot [of ht "ht_hash ht" k] unfolding add_entry_def Let_def
  by (intro ht_wf_update) (auto simp: ht_wf_def)

lemma add_entry_class:
  assumes "ht_wf ht"
  shows "ht_class (add_entry (ht_hash ht) k c ht) v =
    ht_class ht v @ (if ht_hash ht k = v then [(k, c)] else [])"
proof -
  let ?i = "SILC_HASH_TABLE_HASH ht (ht_hash ht) k"
  have "ht_class (add_entry (ht_hash ht) k c ht) v =
      (if unat v mod (primesize ! ht_table_size ht) = ?i
       then filter (\<lambda>e. ht_hash ht (fst e) = v) (ht_table ht ! ?i @ [(k, c)]) else ht_class ht v)"
    unfolding add_entry_def Let_def
    by (rule class_update) (use assms ht_slot [OF assms] in \<open>auto simp: ht_wf_def\<close>)
  then show ?thesis
    using class_slot [OF assms, of v] by (auto simp: SILC_HASH_TABLE_HASH_def)
qed

lemma fold_add_entry:
  "ht_wf ht \<Longrightarrow> ht_hash ht = h \<Longrightarrow>
    (let r = fold (\<lambda>(k, c). add_entry h k c) es ht in
     ht_wf r \<and> (\<forall>v. ht_class r v = ht_class ht v @ filter (\<lambda>e. h (fst e) = v) es) \<and>
     ht_entry_count r = ht_entry_count ht + length es \<and> ht_hash r = h \<and> ht_compare r = ht_compare ht \<and>
     ht_destructor r = ht_destructor ht \<and> ht_destroyed r = ht_destroyed ht \<and>
     ht_table_size r = ht_table_size ht)"
proof (induction es arbitrary: ht)
  case (Cons e es)
  obtain k c where e: "e = (k, c)" by (cases e)
  from Cons.IH [OF add_entry_wf [OF Cons.prems(1), of k c]] Cons.prems show ?case
    by (auto simp: Let_def e add_entry_class)
qed (simp add: Let_def)

lemma ht_wf_auto [simp]: "ht_wf (ht\<lparr>ht_auto_rehash := a\<rparr>) = ht_wf ht"
  by (simp add: ht_wf_def)

lemma ht_class_auto [simp]: "ht_class (ht\<lparr>ht_auto_rehash := a\<rparr>) = ht_class ht"
  by (intro ext) (simp add: ht_class_def)

text \<open>Rehashing keeps the classes, the number of entries and the functions of the table.\<close>

lemma rehash_ok:
  assumes "ht_wf ht"
  shows "ht_wf (silc_hash_table_rehash ht n) \<and> ht_class (silc_hash_table_rehash ht n) = ht_class ht \<and>
    ht_entry_count (silc_hash_table_rehash ht n) = ht_entry_count ht \<and>
    ht_hash (silc_hash_table_rehash ht n) = ht_hash ht \<and>
    ht_compare (silc_hash_table_rehash ht n) = ht_compare ht \<and>
    ht_destructor (silc_hash_table_rehash ht n) = ht_destructor ht \<and>
    ht_destroyed (silc_hash_table_rehash ht n) = ht_destroyed ht \<and>
    ht_auto_rehash (silc_hash_table_rehash ht n) = ht_auto_rehash ht"
proof -
  define j where "j = snd (silc_hash_table_primesize (if n \<noteq> 0 then n else ht_entry_count ht))"
  define new where "new = ht\<lparr>ht_table := replicate (primesize ! j) [], ht_table_size := j,
                      ht_entry_count := 0, ht_auto_rehash := False\<rparr>"
  have j: "j < 50" unfolding j_def by (rule primesize_choice)
  show ?thesis
  proof (cases "j = ht_table_size ht")
    case True
    then show ?thesis
      using assms by (simp add: silc_hash_table_rehash_def silc_hash_table_rehash_ext_def Let_def j_def)
  next
    case False
    have new: "ht_wf new" "ht_class new v = []" "ht_entry_count new = 0" "ht_hash new = ht_hash ht"
      "ht_compare new = ht_compare ht" "ht_destructor new = ht_destructor ht"
      "ht_destroyed new = ht_destroyed ht" for v
      using j by (simp_all add: new_def ht_wf_def ht_class_def)
    have "silc_hash_table_rehash ht n =
        (fold (\<lambda>(k, c). add_entry (ht_hash ht) k c) (concat (ht_table ht)) new)
          \<lparr>ht_auto_rehash := ht_auto_rehash ht\<rparr>"
      using False primesize_calloc [OF j]
      by (simp add: silc_hash_table_rehash_def silc_hash_table_rehash_ext_def Let_def j_def new_def)
    moreover have r: "let r = fold (\<lambda>(k, c). add_entry (ht_hash ht) k c) (concat (ht_table ht)) new in
        ht_wf r \<and> (\<forall>v. ht_class r v = ht_class ht v) \<and> ht_entry_count r = ht_entry_count ht \<and>
        ht_hash r = ht_hash ht \<and> ht_compare r = ht_compare ht \<and>
        ht_destructor r = ht_destructor ht \<and> ht_destroyed r = ht_destroyed ht"
      using fold_add_entry [OF new(1), of "ht_hash ht" "concat (ht_table ht)"] assms
      by (simp add: Let_def new ht_class_def [of ht] ht_wf_def [of ht])
    ultimately show ?thesis by (simp add: Let_def fun_eq_iff)
  qed
qed

lemma add_ok:
  assumes "ht_wf ht"
  shows "ht_wf (silc_hash_table_add ht k c) \<and>
    (\<forall>v. ht_class (silc_hash_table_add ht k c) v =
       ht_class ht v @ (if ht_hash ht k = v then [(k, c)] else [])) \<and>
    ht_entry_count (silc_hash_table_add ht k c) = ht_entry_count ht + 1 \<and>
    ht_hash (silc_hash_table_add ht k c) = ht_hash ht \<and>
    ht_compare (silc_hash_table_add ht k c) = ht_compare ht \<and>
    ht_destroyed (silc_hash_table_add ht k c) = ht_destroyed ht"
  using rehash_ok [OF add_entry_wf [OF assms, of k c], of 0] add_entry_wf [OF assms, of k c]
    add_entry_class [OF assms, of k c]
  by (simp add: silc_hash_table_add_def silc_hash_table_add_internal_def Let_def)

section \<open>Entries under a key\<close>

fun del_first :: "('e \<Rightarrow> bool) \<Rightarrow> 'e list \<Rightarrow> 'e list" where
  "del_first P [] = []"
| "del_first P (x # xs) = (if P x then xs else x # del_first P xs)"

lemma unlink_del_first: "take (chain_position P xs) xs @ drop (chain_position P xs + 1) xs = del_first P xs"
  by (induction xs) (simp_all add: chain_position_def)

lemma position_less_iff: "chain_position P xs < length xs \<longleftrightarrow> (\<exists>x \<in> set xs. P x)"
  by (induction xs) (auto simp: chain_position_def)

lemma length_del_first: "\<exists>x \<in> set xs. P x \<Longrightarrow> length xs = Suc (length (del_first P xs))"
  by (induction xs) auto

lemma del_first_id: "\<forall>x \<in> set xs. \<not> P x \<Longrightarrow> del_first P xs = xs"
  by (induction xs) auto

lemma set_del_first: "set (del_first P xs) \<subseteq> set xs"
  by (induction xs) auto

lemma filter_del_first:
  "\<forall>x \<in> set xs. P x \<longrightarrow> Q x \<Longrightarrow> filter Q (del_first P xs) = del_first P (filter Q xs)"
  by (induction xs) auto

lemma filter_del_first_other:
  "\<forall>x \<in> set xs. P x \<longrightarrow> \<not> Q x \<Longrightarrow> filter Q (del_first P xs) = filter Q xs"
  by (induction xs) auto

lemma del_first_tl: "\<forall>x \<in> set xs. P x \<Longrightarrow> del_first P xs = tl xs"
  by (cases xs) auto

lemma entry_at_find: "entry_at ht (i, chain_position P (ht_table ht ! i)) = find P (ht_table ht ! i)"
proof -
  have "(if chain_position P xs < length xs then Some (xs ! chain_position P xs) else None) = find P xs" for xs
    by (induction xs) (auto simp: chain_position_def)
  then show ?thesis by (simp only: entry_at_def Let_def fst_conv snd_conv)
qed

lemma find_filter_implied: "\<forall>x \<in> set xs. P x \<longrightarrow> Q x \<Longrightarrow> find P (filter Q xs) = find P xs"
  by (induction xs) auto

lemma find_SomeD: "find P xs = Some x \<Longrightarrow> x \<in> set xs \<and> P x"
  by (induction xs) (auto split: if_splits)

lemma find_hd_filter: "find P xs = (case filter P xs of [] \<Rightarrow> None | e # _ \<Rightarrow> Some e)"
  by (induction xs) auto

text \<open>
  The table uses the given functions, and what it stores under a key: the entries whose key
  compares equal, oldest first.
\<close>

definition ht_cmp :: "('k, 'c) silc_hash_table \<Rightarrow> 'k \<Rightarrow> 'k \<Rightarrow> bool" where
  "ht_cmp ht = (case ht_compare ht of None \<Rightarrow> (=) | Some f \<Rightarrow> f)"

definition ht_for :: "('k \<Rightarrow> u32) \<Rightarrow> ('k \<Rightarrow> 'k \<Rightarrow> bool) \<Rightarrow> ('k, 'c) silc_hash_table \<Rightarrow> bool" where
  "ht_for hash cmp ht \<longleftrightarrow> ht_wf ht \<and> ht_hash ht = hash \<and> ht_cmp ht = cmp"

definition ht_stored :: "('k, 'c) silc_hash_table \<Rightarrow> 'k \<Rightarrow> ('k \<times> 'c) list" where
  "ht_stored ht k = filter (\<lambda>e. ht_cmp ht (fst e) k) (ht_class ht (ht_hash ht k))"

lemma key_matches_cmp: "key_matches (ht_compare ht) k = (\<lambda>e. ht_cmp ht (fst e) k)"
  by (rule ext) (simp add: key_matches_def ht_cmp_def split: option.split)

text \<open>The chain in which a key is looked for, and the effect of unlinking an entry from it.\<close>

lemma del_found_ok:
  fixes own :: bool
  assumes "ht_wf ht" "i < length (ht_table ht)" "\<exists>e \<in> set (ht_table ht ! i). P e"
  defines "r \<equiv> snd (del_found own ht (i, chain_position P (ht_table ht ! i)))"
  shows "fst (del_found own ht (i, chain_position P (ht_table ht ! i)))" and "ht_wf r" and
    "ht_class r v = (if unat v mod (primesize ! ht_table_size ht) = i
       then filter (\<lambda>e. ht_hash ht (fst e) = v) (del_first P (ht_table ht ! i)) else ht_class ht v)" and
    "ht_entry_count r = ht_entry_count ht - 1" and "ht_hash r = ht_hash ht" and
    "ht_compare r = ht_compare ht"
proof -
  let ?chain = "ht_table ht ! i"
  obtain e where e: "find P ?chain = Some e"
    using assms(3) by (cases "find P ?chain") (auto simp: find_None_iff)
  define fin where "fin = ht\<lparr>ht_table := (ht_table ht)[i := del_first P ?chain], ht_destroyed := ht_destroyed ht @
      (if \<not> own \<and> ht_destructor ht then [e] else []), ht_entry_count := ht_entry_count ht - 1\<rparr>"
  have "length ?chain = Suc (length (del_first P ?chain))" by (rule length_del_first [OF assms(3)])
  moreover have "length ?chain \<le> ht_entry_count ht"
    using assms(1,2) concat_update_length [OF assms(2), of "[]"] by (simp add: ht_wf_def)
  ultimately have n: "ht_entry_count ht - 1 + length ?chain = ht_entry_count ht + length (del_first P ?chain)"
    by simp
  have slot: "\<forall>e \<in> set (del_first P ?chain). SILC_HASH_TABLE_HASH ht (ht_hash ht) (fst e) = i"
  proof
    fix e assume "e \<in> set (del_first P ?chain)"
    then have "e \<in> set ?chain" by (rule subsetD [OF set_del_first])
    with assms(1,2) show "SILC_HASH_TABLE_HASH ht (ht_hash ht) (fst e) = i"
      by (simp add: ht_wf_def)
  qed
  have wf: "ht_wf fin"
    using ht_wf_update [OF assms(1,2) slot n] by (simp add: fin_def ht_wf_def SILC_HASH_TABLE_HASH_def)
  have cls: "ht_class fin v = (if unat v mod (primesize ! ht_table_size ht) = i
       then filter (\<lambda>e. ht_hash ht (fst e) = v) (del_first P ?chain) else ht_class ht v)" for v
    using class_update [OF assms(1,2) slot n, of v] by (simp add: fin_def ht_class_def)
  have eq: "del_found own ht (i, chain_position P ?chain) =
      (True, if SILC_HASH_REHASH_DEC fin then silc_hash_table_rehash fin 0 else fin)"
    using e unlink_del_first [of P ?chain]
    by (simp add: del_found_def entry_at_find Let_def fin_def)
  show "fst (del_found own ht (i, chain_position P ?chain))" "ht_wf r"
    "ht_class r v = (if unat v mod (primesize ! ht_table_size ht) = i
       then filter (\<lambda>e. ht_hash ht (fst e) = v) (del_first P ?chain) else ht_class ht v)"
    "ht_entry_count r = ht_entry_count ht - 1" "ht_hash r = ht_hash ht" "ht_compare r = ht_compare ht"
    unfolding r_def eq using rehash_ok [OF wf, of 0] wf cls [of v]
    by (simp_all add: fin_def)
qed

lemma del_found_none:
  "\<forall>e \<in> set (ht_table ht ! i). \<not> P e \<Longrightarrow>
    del_found own ht (i, chain_position P (ht_table ht ! i)) = (False, ht)"
  using find_None_iff [of P "ht_table ht ! i"] by (auto simp: del_found_def entry_at_find)

lemma chain_class:
  assumes "ht_wf ht" "\<And>e. P e \<Longrightarrow> ht_hash ht (fst e) = ht_hash ht k"
  defines "chain \<equiv> ht_table ht ! SILC_HASH_TABLE_HASH ht (ht_hash ht) k"
  shows "find P chain = find P (ht_class ht (ht_hash ht k))"
    and "(\<exists>e \<in> set chain. P e) \<longleftrightarrow> (\<exists>e \<in> set (ht_class ht (ht_hash ht k)). P e)"
    and "filter P chain = filter P (ht_class ht (ht_hash ht k))"
proof -
  have c: "ht_class ht (ht_hash ht k) = filter (\<lambda>e. ht_hash ht (fst e) = ht_hash ht k) chain"
    using class_slot [OF assms(1)] by (simp add: chain_def SILC_HASH_TABLE_HASH_def)
  show "find P chain = find P (ht_class ht (ht_hash ht k))"
    unfolding c using assms(2) by (intro find_filter_implied [symmetric]) auto
  show "(\<exists>e \<in> set chain. P e) \<longleftrightarrow> (\<exists>e \<in> set (ht_class ht (ht_hash ht k)). P e)"
    unfolding c using assms(2) by force
  show "filter P chain = filter P (ht_class ht (ht_hash ht k))"
    unfolding c using assms(2) by (auto intro!: filter_cong)
qed

text \<open>Deleting the first entry that satisfies a condition which implies the hash value of a key.\<close>

lemma del_class:
  fixes own :: bool
  assumes "ht_wf ht" "\<And>e. P e \<Longrightarrow> ht_hash ht (fst e) = ht_hash ht k"
  defines "i \<equiv> SILC_HASH_TABLE_HASH ht (ht_hash ht) k"
  defines "r \<equiv> del_found own ht (i, chain_position P (ht_table ht ! i))"
  shows "fst r \<longleftrightarrow> (\<exists>e \<in> set (ht_class ht (ht_hash ht k)). P e)" and "ht_wf (snd r)"
    and "ht_class (snd r) v = (if v = ht_hash ht k then del_first P (ht_class ht v) else ht_class ht v)"
    and "ht_entry_count (snd r) = (if fst r then ht_entry_count ht - 1 else ht_entry_count ht)"
    and "ht_hash (snd r) = ht_hash ht" and "ht_compare (snd r) = ht_compare ht"
proof -
  have i: "i < length (ht_table ht)" unfolding i_def by (rule ht_slot [OF assms(1)])
  note ex = chain_class(2) [of ht P k, OF assms(1,2), folded i_def]
  have c: "ht_class ht v = filter (\<lambda>e. ht_hash ht (fst e) = v)
      (ht_table ht ! (unat v mod (primesize ! ht_table_size ht)))" for v
    by (rule class_slot [OF assms(1)])
  have cls: "filter (\<lambda>e. ht_hash ht (fst e) = v) (del_first P (ht_table ht ! i)) =
      (if v = ht_hash ht k then del_first P (ht_class ht v) else ht_class ht v)"
    if "unat v mod (primesize ! ht_table_size ht) = i" for v
    using assms(2) unfolding c that by (auto simp: filter_del_first filter_del_first_other)
  have ik: "unat (ht_hash ht k) mod (primesize ! ht_table_size ht) = i"
    by (simp add: i_def SILC_HASH_TABLE_HASH_def)
  consider "\<exists>e \<in> set (ht_table ht ! i). P e" | "\<forall>e \<in> set (ht_table ht ! i). \<not> P e" by blast
  then have "(fst r \<longleftrightarrow> (\<exists>e \<in> set (ht_class ht (ht_hash ht k)). P e)) \<and> ht_wf (snd r) \<and>
    (\<forall>v. ht_class (snd r) v = (if v = ht_hash ht k then del_first P (ht_class ht v) else ht_class ht v)) \<and>
    ht_entry_count (snd r) = (if fst r then ht_entry_count ht - 1 else ht_entry_count ht) \<and>
    ht_hash (snd r) = ht_hash ht \<and> ht_compare (snd r) = ht_compare ht"
  proof cases
    case 1
    note d = del_found_ok [OF assms(1) i 1, of own, folded r_def]
    show ?thesis using d cls ik ex 1 by auto
  next
    case 2
    then have "r = (False, ht)" unfolding r_def by (rule del_found_none)
    with 2 assms(1) ex show ?thesis by (auto simp: del_first_id)
  qed
  then show "fst r \<longleftrightarrow> (\<exists>e \<in> set (ht_class ht (ht_hash ht k)). P e)" "ht_wf (snd r)"
    "ht_class (snd r) v = (if v = ht_hash ht k then del_first P (ht_class ht v) else ht_class ht v)"
    "ht_entry_count (snd r) = (if fst r then ht_entry_count ht - 1 else ht_entry_count ht)"
    "ht_hash (snd r) = ht_hash ht" "ht_compare (snd r) = ht_compare ht"
    by blast+
qed

section \<open>The table contract\<close>

context hash_keys
begin

lemma stored_eq:
  "ht_for hash cmp ht \<Longrightarrow> ht_stored ht k = filter (\<lambda>e. cmp (fst e) k) (ht_class ht (hash k))"
  by (simp add: ht_stored_def ht_for_def)

lemma find_stored:
  assumes "ht_for hash cmp ht"
  shows "silc_hash_table_find ht k = (case ht_stored ht k of [] \<Rightarrow> None | e # _ \<Rightarrow> Some e)"
proof -
  have "silc_hash_table_find ht k = find (key_matches (ht_compare ht) k) (ht_table ht ! SILC_HASH_TABLE_HASH ht (ht_hash ht) k)"
    by (simp add: silc_hash_table_find_def silc_hash_table_find_ext_def
        silc_hash_table_find_internal_def Let_def entry_at_find split: option.split)
  also have "\<dots> = find (key_matches (ht_compare ht) k) (ht_class ht (ht_hash ht k))"
    using assms cmp_hash by (intro chain_class) (auto simp: ht_for_def key_matches_cmp)
  finally show ?thesis
    by (simp add: find_hd_filter ht_stored_def key_matches_cmp)
qed

lemma for_add: "ht_for hash cmp ht \<Longrightarrow> ht_for hash cmp (silc_hash_table_add ht k c)"
  using add_ok [of ht k c] by (simp add: ht_for_def ht_cmp_def)

lemma stored_add:
  assumes "ht_for hash cmp ht"
  shows "ht_stored (silc_hash_table_add ht k c) k' = ht_stored ht k' @ (if cmp k k' then [(k, c)] else [])"
  using assms add_ok [of ht k c] stored_eq [OF for_add [OF assms, of k c], of k'] cmp_hash [of k k']
  by (auto simp: stored_eq [OF assms] ht_for_def)

lemma del_stored:
  assumes "ht_for hash cmp ht"
  shows "fst (silc_hash_table_del ht k) \<longleftrightarrow> ht_stored ht k \<noteq> []"
    and "ht_for hash cmp (snd (silc_hash_table_del ht k))"
    and "ht_stored (snd (silc_hash_table_del ht k)) k' =
      (if cmp k k' then tl (ht_stored ht k') else ht_stored ht k')"
    and "ht_entry_count (snd (silc_hash_table_del ht k)) =
      (if ht_stored ht k = [] then ht_entry_count ht else ht_entry_count ht - 1)"
proof -
  let ?P = "\<lambda>e. cmp (fst e) k"
  have ht: "ht_wf ht" "ht_hash ht = hash" "ht_cmp ht = cmp" using assms by (auto simp: ht_for_def)
  have P: "key_matches (ht_compare ht) k = ?P" by (auto simp: key_matches_cmp ht)
  have h: "?P e \<Longrightarrow> ht_hash ht (fst e) = ht_hash ht k" for e using cmp_hash ht by auto
  have d: "silc_hash_table_del ht k = del_found False ht (SILC_HASH_TABLE_HASH ht (ht_hash ht) k,
      chain_position ?P (ht_table ht ! SILC_HASH_TABLE_HASH ht (ht_hash ht) k))"
    by (simp add: silc_hash_table_del_def silc_hash_table_find_internal_def Let_def P)
  note r = del_class [of ht ?P k, OF ht(1) h, of False, folded d]
  have st: "ht_stored ht x = filter (\<lambda>e. cmp (fst e) x) (ht_class ht (hash x))" for x
    by (rule stored_eq [OF assms])
  show f: "fst (silc_hash_table_del ht k) \<longleftrightarrow> ht_stored ht k \<noteq> []"
    using r(1) by (simp add: st ht filter_empty_conv)
  show for_del: "ht_for hash cmp (snd (silc_hash_table_del ht k))"
    using r(2,5,6) ht by (simp add: ht_for_def ht_cmp_def)
  show "ht_entry_count (snd (silc_hash_table_del ht k)) =
      (if ht_stored ht k = [] then ht_entry_count ht else ht_entry_count ht - 1)"
    using r(4) f by simp
  have "filter (\<lambda>e. cmp (fst e) k') (del_first ?P (ht_class ht (hash k'))) =
      (if cmp k k' then tl (ht_stored ht k') else ht_stored ht k')"
  proof (cases "cmp k k'")
    case True
    then have "filter (\<lambda>e. cmp (fst e) k') (del_first ?P (ht_class ht (hash k'))) =
        del_first ?P (ht_stored ht k')"
      unfolding st by (intro filter_del_first) (auto intro: cmp_trans)
    also have "\<dots> = tl (ht_stored ht k')"
      unfolding st by (rule del_first_tl) (auto intro: cmp_trans [OF _ cmp_sym [OF True]])
    finally show ?thesis using True by simp
  next
    case False
    then have "filter (\<lambda>e. cmp (fst e) k') (del_first ?P (ht_class ht (hash k'))) =
        filter (\<lambda>e. cmp (fst e) k') (ht_class ht (hash k'))"
      using cmp_sym cmp_trans by (intro filter_del_first_other) blast
    with False show ?thesis by (simp add: st)
  qed
  moreover have "cmp k k' \<Longrightarrow> hash k' = hash k" using cmp_hash by simp
  ultimately show "ht_stored (snd (silc_hash_table_del ht k)) k' =
      (if cmp k k' then tl (ht_stored ht k') else ht_stored ht k')"
    using r(3) [of "hash k'"] stored_eq [OF for_del, of k'] by (auto simp: st ht)
qed

lemma del_context_stored:
  assumes "ht_for hash cmp ht"
  shows "fst (silc_hash_table_del_by_context ht k c) \<longleftrightarrow> c \<in> snd ` set (ht_stored ht k)"
    and "ht_for hash cmp (snd (silc_hash_table_del_by_context ht k c))"
    and "ht_stored (snd (silc_hash_table_del_by_context ht k c)) k' =
      (if cmp k k' then del_first (\<lambda>e. snd e = c) (ht_stored ht k') else ht_stored ht k')"
proof -
  let ?P = "\<lambda>e. cmp (fst e) k \<and> snd e = c"
  have ht: "ht_wf ht" "ht_hash ht = hash" "ht_cmp ht = cmp" using assms by (auto simp: ht_for_def)
  have h: "?P e \<Longrightarrow> ht_hash ht (fst e) = ht_hash ht k" for e using cmp_hash ht by auto
  have "(if ht_compare ht \<noteq> None then ht_compare ht else None) = ht_compare ht" by simp
  then have d: "silc_hash_table_del_by_context ht k c = del_found False ht (SILC_HASH_TABLE_HASH ht (ht_hash ht) k,
      chain_position ?P (ht_table ht ! SILC_HASH_TABLE_HASH ht (ht_hash ht) k))"
    by (simp add: silc_hash_table_del_by_context_def silc_hash_table_find_internal_context_def Let_def
        key_matches_cmp ht)
  note r = del_class [of ht ?P k, OF ht(1) h, of False, folded d]
  have st: "ht_stored ht x = filter (\<lambda>e. cmp (fst e) x) (ht_class ht (hash x))" for x
    by (rule stored_eq [OF assms])
  show "fst (silc_hash_table_del_by_context ht k c) \<longleftrightarrow> c \<in> snd ` set (ht_stored ht k)"
    using r(1) by (force simp: st ht image_iff)
  show for_del: "ht_for hash cmp (snd (silc_hash_table_del_by_context ht k c))"
    using r(2,5,6) ht by (simp add: ht_for_def ht_cmp_def)
  have "filter (\<lambda>e. cmp (fst e) k') (del_first ?P (ht_class ht (hash k'))) =
      (if cmp k k' then del_first (\<lambda>e. snd e = c) (ht_stored ht k') else ht_stored ht k')"
  proof (cases "cmp k k'")
    case True
    then have "filter (\<lambda>e. cmp (fst e) k') (del_first ?P xs) =
        del_first (\<lambda>e. snd e = c) (filter (\<lambda>e. cmp (fst e) k') xs)" for xs
      using cmp_cong [OF True] by (induction xs) auto
    with True show ?thesis by (simp add: st)
  next
    case False
    then have "filter (\<lambda>e. cmp (fst e) k') (del_first ?P (ht_class ht (hash k'))) =
        filter (\<lambda>e. cmp (fst e) k') (ht_class ht (hash k'))"
      using cmp_sym cmp_trans by (intro filter_del_first_other) blast
    with False show ?thesis by (simp add: st)
  qed
  moreover have "cmp k k' \<Longrightarrow> hash k' = hash k" using cmp_hash by simp
  ultimately show "ht_stored (snd (silc_hash_table_del_by_context ht k c)) k' =
      (if cmp k k' then del_first (\<lambda>e. snd e = c) (ht_stored ht k') else ht_stored ht k')"
    using r(3) [of "hash k'"] stored_eq [OF for_del, of k'] by (auto simp: st ht)
qed

lemma del_context_class:
  assumes "ht_for hash cmp ht"
  shows "ht_class (snd (silc_hash_table_del_by_context ht k c)) v =
    (if v = hash k then del_first (\<lambda>e. cmp (fst e) k \<and> snd e = c) (ht_class ht v) else ht_class ht v)"
proof -
  let ?P = "\<lambda>e. cmp (fst e) k \<and> snd e = c"
  have ht: "ht_wf ht" "ht_hash ht = hash" "ht_cmp ht = cmp" using assms by (auto simp: ht_for_def)
  have h: "?P e \<Longrightarrow> ht_hash ht (fst e) = ht_hash ht k" for e using cmp_hash ht by auto
  have "(if ht_compare ht \<noteq> None then ht_compare ht else None) = ht_compare ht" by simp
  then show ?thesis
    using del_class(3) [of ht ?P k, OF ht(1) h, of False v] ht(2)
    by (simp add: silc_hash_table_del_by_context_def silc_hash_table_find_internal_context_def Let_def
        key_matches_cmp ht)
qed

lemma for_rehash: "ht_for hash cmp ht \<Longrightarrow> ht_for hash cmp (silc_hash_table_rehash ht n)"
  using rehash_ok [of ht n] by (simp add: ht_for_def ht_cmp_def)

lemma stored_rehash: "ht_for hash cmp ht \<Longrightarrow> ht_stored (silc_hash_table_rehash ht n) k = ht_stored ht k"
  using rehash_ok [of ht n] by (simp add: ht_stored_def ht_for_def ht_cmp_def)

lemma for_alloc: "silc_hash_table_alloc n hash (Some cmp) d a = Some ht \<Longrightarrow> ht_for hash cmp ht \<and> ht_stored ht k = []"
  using alloc_ok [of n hash "Some cmp" d a ht] by (simp add: ht_for_def ht_cmp_def ht_stored_def)

end

section \<open>Properties\<close>

text \<open>The states a table goes through.\<close>

inductive ht_reachable :: "('k, 'c) silc_hash_table \<Rightarrow> bool" where
  ht_reach_alloc: "silc_hash_table_alloc n h c d a = Some ht \<Longrightarrow> ht_reachable ht"
| ht_reach_add: "ht_reachable ht \<Longrightarrow> ht_reachable (silc_hash_table_add ht k c)"
| ht_reach_replace: "ht_reachable ht \<Longrightarrow> ht_reachable (silc_hash_table_replace ht k c)"
| ht_reach_del: "ht_reachable ht \<Longrightarrow> ht_reachable (snd (silc_hash_table_del ht k))"
| ht_reach_del_context: "ht_reachable ht \<Longrightarrow> ht_reachable (snd (silc_hash_table_del_by_context ht k c))"
| ht_reach_rehash: "ht_reachable ht \<Longrightarrow> ht_reachable (silc_hash_table_rehash ht n)"
| ht_reach_list: "ht_reachable ht \<Longrightarrow> ht_reachable (snd (silc_hash_table_list ht))"
| ht_reach_reset: "ht_reachable ht \<Longrightarrow> ht_reachable (silc_hash_table_list_reset htl ht)"

lemma replace_wf:
  assumes "ht_wf ht"
  shows "ht_wf (silc_hash_table_replace ht k c)"
proof -
  let ?i = "SILC_HASH_TABLE_HASH ht (ht_hash ht) k"
  let ?t = "(ht_table ht)[?i := (k, c) # tl (ht_table ht ! ?i)]"
  let ?n = "ht_entry_count ht + (if ht_table ht ! ?i = [] then 1 else 0)"
  have i: "?i < length (ht_table ht)" by (rule ht_slot [OF assms])
  have slot: "\<forall>e \<in> set ((k, c) # tl (ht_table ht ! ?i)). SILC_HASH_TABLE_HASH ht (ht_hash ht) (fst e) = ?i"
    using assms i by (cases "ht_table ht ! ?i") (auto simp: ht_wf_def)
  have wf: "ht_wf (ht\<lparr>ht_table := ?t, ht_entry_count := ?n\<rparr>)"
    by (rule ht_wf_update [OF assms i slot]) (cases "ht_table ht ! ?i"; simp)
  define mid where "mid = (case ht_table ht ! ?i of
                  e # es \<Rightarrow>
                    ht\<lparr>ht_table := (ht_table ht)[?i := (k, c) # es],
                       ht_destroyed := ht_destroyed ht @ (if ht_destructor ht then [e] else [])\<rparr>
                | [] \<Rightarrow>
                    ht\<lparr>ht_table := (ht_table ht)[?i := [(k, c)]],
                       ht_entry_count := ht_entry_count ht + 1\<rparr>)"
  have "ht_wf mid"
    using wf by (auto simp: mid_def ht_wf_def split: list.split)
  moreover have "silc_hash_table_replace ht k c =
      (if SILC_HASH_REHASH_INC mid then silc_hash_table_rehash mid 0 else mid)"
    by (simp add: silc_hash_table_replace_def silc_hash_table_replace_internal_def Let_def mid_def)
  ultimately show ?thesis using rehash_ok [of mid 0] by simp
qed

lemma del_wf: "ht_wf ht \<Longrightarrow> i < length (ht_table ht) \<Longrightarrow>
    ht_wf (snd (del_found own ht (i, chain_position P (ht_table ht ! i))))"
  using del_found_ok(2) [of ht i P own] del_found_none [of ht i P own] by (cases "\<exists>e \<in> set (ht_table ht ! i). P e") auto

text \<open>
  Property C22. Every hash table the operations can produce is well formed: its size is one of the
  primes, each entry is in the slot of its key's hash value, and the entry counter is the number
  of entries.
\<close>

theorem hash_table_invariant:
  assumes "ht_reachable ht"
  shows "ht_wf ht"
  using assms
proof (induction rule: ht_reachable.induct)
  case (ht_reach_del ht k)
  then show ?case
    by (simp add: silc_hash_table_del_def silc_hash_table_find_internal_def Let_def del_wf ht_slot)
next
  case (ht_reach_del_context ht k c)
  then show ?case
    by (simp add: silc_hash_table_del_by_context_def silc_hash_table_find_internal_context_def Let_def
        del_wf ht_slot)
qed (auto simp: alloc_ok add_ok replace_wf rehash_ok silc_hash_table_list_def silc_hash_table_list_reset_def)

theorem hash_table_invariant_witness:
  "ht_wf (silc_hash_table_add (the (silc_hash_table_alloc 3 silc_hash_ptr None False True)) 7 CHR ''x'')"
proof -
  obtain ht :: "(u64, char) silc_hash_table" where
    ht: "silc_hash_table_alloc 3 silc_hash_ptr None False True = Some ht"
    using alloc_succeeds by fastforce
  then have "ht_reachable (silc_hash_table_add ht 7 CHR ''x'')"
    by (intro ht_reachable.intros)
  with ht show ?thesis using hash_table_invariant by fastforce
qed

text \<open>
  Property C23. Lookup in a hash table whose functions agree, that is, equal keys hash equally:
  after adding an entry a key is found exactly when it was found before or equals the new key,
  and an entry that was found before is still the one that is found, however the table was
  resized.
\<close>

theorem hash_table_find_add:
  assumes "hash_keys hash cmp" "ht_for hash cmp ht"
  shows "silc_hash_table_find (silc_hash_table_add ht k c) k' =
    (case silc_hash_table_find ht k' of
       Some e \<Rightarrow> Some e
     | None \<Rightarrow> if cmp k k' then Some (k, c) else None)"
  using hash_keys.find_stored [OF assms(1) hash_keys.for_add [OF assms], of k c k']
    hash_keys.find_stored [OF assms, of k'] hash_keys.stored_add [OF assms, of k c k']
  by (auto split: list.split)

theorem hash_table_find_add_witness:
  "\<exists>ht :: (u64, char) silc_hash_table.
    silc_hash_table_find (silc_hash_table_add ht 7 CHR ''x'') 7 = Some (7, CHR ''x'')"
proof -
  obtain ht :: "(u64, char) silc_hash_table" where
    ht: "silc_hash_table_alloc 3 silc_hash_ptr (Some (=)) False True = Some ht"
    using alloc_succeeds by fastforce
  have t: "ht_for silc_hash_ptr (=) ht" "ht_stored ht 7 = []"
    using hk_ptr.for_alloc [OF ht] by auto
  then have "silc_hash_table_find ht 7 = None" by (simp add: hk_ptr.find_stored)
  with hash_table_find_add [OF hk_ptr.hash_keys_axioms t(1), of 7 "CHR ''x''" 7] show ?thesis by auto
qed

text \<open>
  Property C24. Deleting a key removes the entry that lookup would return for it, succeeds exactly
  when there is one, uncovers the next older duplicate, and leaves every other key alone.
\<close>

theorem hash_table_del_spec:
  assumes "hash_keys hash cmp" "ht_for hash cmp ht"
  shows "(fst (silc_hash_table_del ht k) \<longleftrightarrow> silc_hash_table_find ht k \<noteq> None) \<and>
    ht_stored (snd (silc_hash_table_del ht k)) k = tl (ht_stored ht k) \<and>
    (\<not> cmp k k' \<longrightarrow>
       silc_hash_table_find (snd (silc_hash_table_del ht k)) k' = silc_hash_table_find ht k')"
  using hash_keys.del_stored [OF assms, of k] hash_keys.find_stored [OF assms] hash_keys.cmp_refl [OF assms(1), of k]
    hash_keys.find_stored [OF assms(1) hash_keys.del_stored(2) [OF assms, of k], of k']
  by (auto split: list.split)

theorem hash_table_del_spec_witness:
  "\<exists>ht :: (u64, char) silc_hash_table.
    fst (silc_hash_table_del (silc_hash_table_add ht 7 CHR ''x'') 7) \<and>
    ht_stored (snd (silc_hash_table_del (silc_hash_table_add ht 7 CHR ''x'') 7)) 7 = []"
proof -
  obtain ht :: "(u64, char) silc_hash_table" where
    ht: "silc_hash_table_alloc 3 silc_hash_ptr (Some (=)) False True = Some ht"
    using alloc_succeeds by fastforce
  have t: "ht_for silc_hash_ptr (=) ht" "ht_stored ht 7 = []"
    using hk_ptr.for_alloc [OF ht] by auto
  have st: "ht_stored (silc_hash_table_add ht 7 CHR ''x'') 7 = [(7, CHR ''x'')]"
    using hk_ptr.stored_add [OF t(1), of 7 "CHR ''x''" 7] t(2) by simp
  then have "silc_hash_table_find (silc_hash_table_add ht 7 CHR ''x'') 7 \<noteq> None"
    using hk_ptr.find_stored [OF hk_ptr.for_add [OF t(1)], of 7 "CHR ''x''" 7] by simp
  with st hash_table_del_spec [OF hk_ptr.hash_keys_axioms hk_ptr.for_add [OF t(1), of 7 "CHR ''x''"], of 7 7]
  show ?thesis by auto
qed

lemma mset_by_class:
  assumes "\<And>v. filter (\<lambda>e. f e = v) xs = filter (\<lambda>e. f e = v) ys"
  shows "mset xs = mset ys"
proof (rule multiset_eqI)
  fix a
  have "count (mset zs) a = count (mset (filter (\<lambda>e. f e = f a) zs)) a" for zs
    by (simp add: mset_filter)
  then show "count (mset xs) a = count (mset ys) a" using assms [of "f a"] by metis
qed

text \<open>
  Property C25. Resizing a hash table, to any size, changes neither the entries it holds nor their
  number nor the result of any lookup.
\<close>

theorem hash_table_rehash_transparent:
  assumes "hash_keys hash cmp" "ht_for hash cmp ht"
  shows "silc_hash_table_find (silc_hash_table_rehash ht n) k = silc_hash_table_find ht k \<and>
    mset (silc_hash_table_foreach (silc_hash_table_rehash ht n)) = mset (silc_hash_table_foreach ht) \<and>
    silc_hash_table_count (silc_hash_table_rehash ht n) = silc_hash_table_count ht"
proof -
  have wf: "ht_wf ht" using assms(2) by (simp add: ht_for_def)
  note r = rehash_ok [OF wf, of n]
  have "mset (silc_hash_table_foreach (silc_hash_table_rehash ht n)) = mset (silc_hash_table_foreach ht)"
    unfolding silc_hash_table_foreach_def
  proof (rule mset_by_class [where f = "\<lambda>e. ht_hash ht (fst e)"])
    fix v
    show "filter (\<lambda>e. ht_hash ht (fst e) = v) (concat (ht_table (silc_hash_table_rehash ht n))) =
        filter (\<lambda>e. ht_hash ht (fst e) = v) (concat (ht_table ht))"
      using r by (metis ht_class_def)
  qed
  then show ?thesis
    using r hash_keys.find_stored [OF assms(1) hash_keys.for_rehash [OF assms], of n k]
      hash_keys.find_stored [OF assms, of k] hash_keys.stored_rehash [OF assms, of n k]
    by (simp add: silc_hash_table_count_def)
qed

theorem hash_table_rehash_transparent_witness:
  "\<exists>ht :: (u64, char) silc_hash_table.
    silc_hash_table_find (silc_hash_table_rehash (silc_hash_table_add ht 7 CHR ''x'') 100) 7 =
      Some (7, CHR ''x'')"
proof -
  obtain ht :: "(u64, char) silc_hash_table" where
    ht: "silc_hash_table_alloc 3 silc_hash_ptr (Some (=)) False True = Some ht"
    using alloc_succeeds by fastforce
  have t: "ht_for silc_hash_ptr (=) ht" "ht_stored ht 7 = []"
    using hk_ptr.for_alloc [OF ht] by auto
  note a = hk_ptr.for_add [OF t(1), of 7 "CHR ''x''"]
  have "silc_hash_table_find (silc_hash_table_add ht 7 CHR ''x'') 7 = Some (7, CHR ''x'')"
    using hk_ptr.find_stored [OF a, of 7] hk_ptr.stored_add [OF t(1), of 7 "CHR ''x''" 7] t(2) by simp
  with hash_table_rehash_transparent [OF hk_ptr.hash_keys_axioms a, of 100 7] show ?thesis by auto
qed

section \<open>Traversal visits every entry\<close>

definition htl_rest :: "('k, 'c) silc_hash_table \<Rightarrow> ('k, 'c) silc_hash_table_list \<Rightarrow> ('k \<times> 'c) list" where
  "htl_rest ht htl = htl_entry htl @ concat (drop (htl_index htl) (ht_table ht))"

lemma next_chain_rest:
  "ht_wf ht \<Longrightarrow> next_chain ht entry index = (entry', index') \<Longrightarrow>
    entry' @ concat (drop index' (ht_table ht)) = entry @ concat (drop index (ht_table ht)) \<and>
    (entry' = [] \<longrightarrow> entry @ concat (drop index (ht_table ht)) = [])"
proof (induction ht entry index rule: next_chain.induct)
  case (1 ht entry index)
  have len: "length (ht_table ht) = primesize ! ht_table_size ht" using 1(2) by (simp add: ht_wf_def)
  show ?case
  proof (cases "entry = [] \<and> index < primesize ! ht_table_size ht")
    case True
    have "next_chain ht (ht_table ht ! index) (index + 1) = (entry', index')"
      using 1(3) True unfolding next_chain.simps [of ht entry index] by simp
    with 1(1) [OF True 1(2)] True len show ?thesis by (simp flip: Cons_nth_drop_Suc)
  next
    case False
    with 1(3) have "entry' = entry" "index' = index" by (auto simp: next_chain.simps [of ht entry index])
    with False len show ?thesis by auto
  qed
qed

text \<open>
  A traversal with \<open>silc_hash_table_list\<close> and \<open>silc_hash_table_get\<close> visits every entry
  of the table exactly once: each call returns the first of the entries not yet visited and leaves
  the others, and it reports the end only when none is left.
\<close>

lemma hash_table_traversal:
  assumes "ht_wf ht"
  shows "htl_rest (snd (silc_hash_table_list ht)) (fst (silc_hash_table_list ht)) = silc_hash_table_foreach ht \<and>
    (case silc_hash_table_get ht htl of
       (None, _) \<Rightarrow> htl_rest ht htl = [] \<or> ht_entry_count ht = 0
     | (Some e, htl') \<Rightarrow> htl_rest ht htl = e # htl_rest ht htl')"
proof -
  obtain entry' index' where n: "next_chain ht (htl_entry htl) (htl_index htl) = (entry', index')"
    by (cases "next_chain ht (htl_entry htl) (htl_index htl)")
  show ?thesis
    using next_chain_rest [OF assms n]
    by (auto simp: silc_hash_table_list_def silc_hash_table_foreach_def silc_hash_table_get_def htl_rest_def n
        split: list.splits)
qed

text \<open>Replacing a key destroys another key that happens to share its slot.\<close>

lemma replace_destroys_other_key:
  fixes ht :: "(u64, char) silc_hash_table"
  assumes "ht = \<lparr>ht_table = [[], [(1, CHR ''a'')], []], ht_table_size = 0, ht_entry_count = 1,
    ht_hash = silc_hash_ptr, ht_compare = None, ht_destructor = True, ht_auto_rehash = False, ht_destroyed = []\<rparr>"
  shows "silc_hash_table_find ht 1 = Some (1, CHR ''a'')"
    "silc_hash_table_find (silc_hash_table_replace ht 4 CHR ''b'') 1 = None"
    "ht_destroyed (silc_hash_table_replace ht 4 CHR ''b'') = [(1, CHR ''a'')]"
proof -
  have p: "primesize ! 0 = 3" by (simp add: primesize_def)
  have h: "SILC_HASH_TABLE_HASH t silc_hash_ptr 1 = 1" "SILC_HASH_TABLE_HASH t silc_hash_ptr 4 = 1"
    if "ht_table_size t = 0" for t :: "(u64, char) silc_hash_table"
    using that p by (simp_all add: SILC_HASH_TABLE_HASH_def silc_hash_ptr_def)
  have r: "silc_hash_table_replace ht 4 CHR ''b'' =
      ht\<lparr>ht_table := [[], [(4, CHR ''b'')], []], ht_destroyed := [(1, CHR ''a'')]\<rparr>"
    by (simp add: silc_hash_table_replace_def silc_hash_table_replace_internal_def Let_def h assms
        SILC_HASH_REHASH_INC_def)
  have f: "silc_hash_table_find t 1 = find (\<lambda>e. fst e = 1) (ht_table t ! 1)"
    if "ht_table_size t = 0" "ht_hash t = silc_hash_ptr" "ht_compare t = None" for t :: "(u64, char) silc_hash_table"
    using that h [of t] by (simp add: silc_hash_table_find_def silc_hash_table_find_ext_def
        silc_hash_table_find_internal_def Let_def entry_at_find key_matches_def [abs_def])
  show "silc_hash_table_find ht 1 = Some (1, CHR ''a'')"
    using f [of ht] by (simp add: assms)
  show "silc_hash_table_find (silc_hash_table_replace ht 4 CHR ''b'') 1 = None"
    unfolding r by (subst f) (simp_all add: assms)
  show "ht_destroyed (silc_hash_table_replace ht 4 CHR ''b'') = [(1, CHR ''a'')]"
    by (simp add: r)
qed

end
