(* ===== verification/Silc_Idcache.thy ===== *)
theory Silc_Idcache
  imports Silc_Hashtable
begin

text \<open>
  The ID cache, \<^verbatim>\<open>lib/silcapputil/silcidcache.c\<close>: entries that can be found by ID, by name and by
  context, each through a hash table of its own.  Cache entries are in a heap that all caches
  share, because entries move from one cache to another; an entry is the address of its cell.
  The keys of the tables are the IDs and names that the entries' pointers point to.
\<close>

section \<open>State\<close>

record silc_idcache_entry =
  ce_id :: "silc_id option"
  ce_name :: "byte list option"
  ce_context :: "u64 option"

type_synonym entry_ref = nat
type_synonym cache_heap = "silc_idcache_entry option list"   \<comment> \<open>a freed cell is \<open>None\<close>\<close>

record silc_idcache =
  ic_id_table :: "(silc_id, entry_ref) silc_hash_table"
  ic_name_table :: "(byte list, entry_ref) silc_hash_table"
  ic_context_table :: "(u64, entry_ref) silc_hash_table"
  ic_id_type :: id_type

definition heap_get :: "cache_heap \<Rightarrow> entry_ref \<Rightarrow> silc_idcache_entry option" where
  "heap_get h r = (if r < length h then h ! r else None)"

section \<open>Operations\<close>

definition silc_idcache_alloc :: "nat \<Rightarrow> id_type \<Rightarrow> silc_idcache option" where
  "silc_idcache_alloc n id_type =
     (case (silc_hash_table_alloc n (silc_hash_id id_type) (Some (silc_hash_id_compare id_type)) False True,
            silc_hash_table_alloc n silc_hash_utf8_string (Some silc_hash_utf8_compare) False True,
            silc_hash_table_alloc n silc_hash_ptr None False True) of
        (Some id_table, Some name_table, Some context_table) \<Rightarrow>
          Some \<lparr>ic_id_table = id_table, ic_name_table = name_table, ic_context_table = context_table,
                ic_id_type = id_type\<rparr>
      | _ \<Rightarrow> None)"

definition silc_idcache_find_by_id_one :: "silc_idcache \<Rightarrow> silc_id \<Rightarrow> entry_ref option" where
  "silc_idcache_find_by_id_one cache i =
     map_option snd (silc_hash_table_find_ext (ic_id_table cache) i None
       (Some (silc_hash_id_compare_full (ic_id_type cache))))"

definition silc_idcache_find_by_context :: "silc_idcache \<Rightarrow> u64 \<Rightarrow> entry_ref option" where
  "silc_idcache_find_by_context cache context =
     map_option snd (silc_hash_table_find (ic_context_table cache) context)"

definition silc_idcache_find_by_name_one :: "silc_idcache \<Rightarrow> byte list \<Rightarrow> entry_ref option" where
  "silc_idcache_find_by_name_one cache name =
     map_option snd (silc_hash_table_find (ic_name_table cache) name)"

text \<open>The list of found entries, from the calls of the callback; FALSE is the empty list.\<close>

definition silc_idcache_get_all_foreach :: "('k \<times> entry_ref option) list \<Rightarrow> entry_ref list" where
  "silc_idcache_get_all_foreach calls = List.map_filter snd calls"

definition silc_idcache_get_all :: "silc_idcache \<Rightarrow> entry_ref list" where
  "silc_idcache_get_all cache =
     (if silc_hash_table_count (ic_id_table cache) = 0 then []
      else map snd (silc_hash_table_foreach (ic_id_table cache)))"

definition silc_idcache_find_by_id :: "silc_idcache \<Rightarrow> silc_id \<Rightarrow> entry_ref list" where
  "silc_idcache_find_by_id cache i =
     (if silc_hash_table_count (ic_id_table cache) = 0 then []
      else silc_idcache_get_all_foreach (silc_hash_table_find_foreach (ic_id_table cache) i))"

definition silc_idcache_find_by_name :: "silc_idcache \<Rightarrow> byte list \<Rightarrow> entry_ref list" where
  "silc_idcache_find_by_name cache name =
     (if silc_hash_table_count (ic_name_table cache) = 0 then []
      else silc_idcache_get_all_foreach (silc_hash_table_find_foreach (ic_name_table cache) name))"

text \<open>The additions to the three tables, skipped for absent keys.\<close>

definition add_keys :: "silc_idcache_entry \<Rightarrow> entry_ref \<Rightarrow> silc_idcache \<Rightarrow> silc_idcache" where
  "add_keys c r cache =
     cache\<lparr>ic_id_table := (case ce_id c of None \<Rightarrow> ic_id_table cache
                            | Some i \<Rightarrow> silc_hash_table_add (ic_id_table cache) i r),
           ic_name_table := (case ce_name c of None \<Rightarrow> ic_name_table cache
                              | Some n \<Rightarrow> silc_hash_table_add (ic_name_table cache) n r),
           ic_context_table := (case ce_context c of None \<Rightarrow> ic_context_table cache
                                 | Some x \<Rightarrow> silc_hash_table_add (ic_context_table cache) x r)\<rparr>"

text \<open>
  The removals from the three tables; the result of the last one that is done counts, in the order
  name, context, ID.
\<close>

definition del_key :: "bool \<Rightarrow> 'k option \<Rightarrow> entry_ref \<Rightarrow> ('k, entry_ref) silc_hash_table \<Rightarrow>
    bool \<times> ('k, entry_ref) silc_hash_table" where
  "del_key ret ko r ht =
     (case ko of None \<Rightarrow> (ret, ht) | Some k \<Rightarrow> silc_hash_table_del_by_context ht k r)"

definition del_keys :: "silc_idcache_entry \<Rightarrow> entry_ref \<Rightarrow> silc_idcache \<Rightarrow> bool \<times> silc_idcache" where
  "del_keys c r cache =
     (let (ret, name_table) = del_key False (ce_name c) r (ic_name_table cache);
          (ret, context_table) = del_key ret (ce_context c) r (ic_context_table cache);
          (ret, id_table) = del_key ret (ce_id c) r (ic_id_table cache)
      in (ret, cache\<lparr>ic_id_table := id_table, ic_name_table := name_table,
                      ic_context_table := context_table\<rparr>))"

text \<open>
  Adding.  When the ID is in the cache already, the new entry is removed from the tables again,
  where it is not yet, and freed.
\<close>

definition silc_idcache_add ::
  "cache_heap \<Rightarrow> silc_idcache \<Rightarrow> byte list option \<Rightarrow> silc_id option \<Rightarrow> u64 option \<Rightarrow>
     entry_ref option \<times> cache_heap \<times> silc_idcache" where
  "silc_idcache_add h cache name i context =
     (if name = None \<and> i = None \<and> context = None then (None, h, cache)
      else
        let c = \<lparr>ce_id = i, ce_name = name, ce_context = context\<rparr>; r = length h in
        if (case i of None \<Rightarrow> False | Some i \<Rightarrow> silc_idcache_find_by_id_one cache i \<noteq> None)
        then (None, h @ [None], snd (del_keys c r cache))
        else (Some r, h @ [Some c], add_keys c r cache))"

definition silc_idcache_del ::
  "cache_heap \<Rightarrow> silc_idcache \<Rightarrow> entry_ref \<Rightarrow> bool \<times> cache_heap \<times> silc_idcache" where
  "silc_idcache_del h cache r =
     (case heap_get h r of
        None \<Rightarrow> (False, h, cache)       \<comment> \<open>not reached: the entry is in use\<close>
      | Some c \<Rightarrow>
          let (ret, cache) = del_keys c r cache in
          (ret, if ret then h[r := None] else h, cache))"

definition silc_idcache_del_by_id ::
  "cache_heap \<Rightarrow> silc_idcache \<Rightarrow> silc_id \<Rightarrow> bool \<times> cache_heap \<times> silc_idcache" where
  "silc_idcache_del_by_id h cache i =
     (case silc_hash_table_find (ic_id_table cache) i of
        None \<Rightarrow> (False, h, cache)
      | Some (_, c) \<Rightarrow> silc_idcache_del h cache c)"

definition silc_idcache_del_by_context ::
  "cache_heap \<Rightarrow> silc_idcache \<Rightarrow> u64 \<Rightarrow> bool \<times> cache_heap \<times> silc_idcache" where
  "silc_idcache_del_by_context h cache context =
     (case silc_hash_table_find (ic_context_table cache) context of
        None \<Rightarrow> (False, h, cache)
      | Some (_, c) \<Rightarrow> silc_idcache_del h cache c)"

text \<open>Updating the ID and the name of an entry; no check that the new ID is free.\<close>

definition update_id ::
  "cache_heap \<Rightarrow> silc_idcache \<Rightarrow> entry_ref \<Rightarrow> silc_idcache_entry \<Rightarrow> silc_id \<Rightarrow>
     bool \<times> cache_heap \<times> silc_idcache" where
  "update_id h cache r c new_id =
     (let (ok, id_table) = del_key True (ce_id c) r (ic_id_table cache) in
      if \<not> ok then (False, h, cache\<lparr>ic_id_table := id_table\<rparr>)
      else (True, h[r := Some (c\<lparr>ce_id := Some new_id\<rparr>)],
            cache\<lparr>ic_id_table := silc_hash_table_add id_table new_id r\<rparr>))"

definition update_name ::
  "cache_heap \<Rightarrow> silc_idcache \<Rightarrow> entry_ref \<Rightarrow> silc_idcache_entry \<Rightarrow> byte list \<Rightarrow>
     bool \<times> cache_heap \<times> silc_idcache" where
  "update_name h cache r c new_name =
     (let (ok, name_table) = del_key True (ce_name c) r (ic_name_table cache) in
      if \<not> ok then (False, h, cache\<lparr>ic_name_table := name_table\<rparr>)
      else (True, h[r := Some (c\<lparr>ce_name := Some new_name\<rparr>)],
            cache\<lparr>ic_name_table := silc_hash_table_add name_table new_name r\<rparr>))"

definition silc_idcache_update ::
  "cache_heap \<Rightarrow> silc_idcache \<Rightarrow> entry_ref \<Rightarrow> silc_id option \<Rightarrow> byte list option \<Rightarrow>
     bool \<times> cache_heap \<times> silc_idcache" where
  "silc_idcache_update h cache r new_id new_name =
     (case heap_get h r of
        None \<Rightarrow> (False, h, cache)
      | Some c \<Rightarrow>
          let (ok, h, cache) =
            (case new_id of None \<Rightarrow> (True, h, cache) | Some i \<Rightarrow> update_id h cache r c i) in
          if \<not> ok then (False, h, cache)
          else
            case new_name of
              None \<Rightarrow> (True, h, cache)
            | Some n \<Rightarrow>
                (case heap_get h r of None \<Rightarrow> (False, h, cache)
                 | Some c \<Rightarrow> update_name h cache r c n))"

definition silc_idcache_update_by_context ::
  "cache_heap \<Rightarrow> silc_idcache \<Rightarrow> u64 \<Rightarrow> silc_id option \<Rightarrow> byte list option \<Rightarrow>
     bool \<times> cache_heap \<times> silc_idcache" where
  "silc_idcache_update_by_context h cache context new_id new_name =
     (case silc_hash_table_find (ic_context_table cache) context of
        None \<Rightarrow> (False, h, cache)
      | Some (_, c) \<Rightarrow> silc_idcache_update h cache c new_id new_name)"

text \<open>Moving an entry; the assertion that its ID is not in the other cache ends in FALSE.\<close>

definition silc_idcache_move ::
  "cache_heap \<Rightarrow> silc_idcache \<Rightarrow> silc_idcache \<Rightarrow> entry_ref \<Rightarrow> bool \<times> silc_idcache \<times> silc_idcache" where
  "silc_idcache_move h from_cache to_cache r =
     (case heap_get h r of
        None \<Rightarrow> (False, from_cache, to_cache)
      | Some e \<Rightarrow>
          if ic_id_type from_cache \<noteq> ic_id_type to_cache then (False, from_cache, to_cache)
          else
            case (case ce_context e of
                    Some x \<Rightarrow> map_option snd (silc_hash_table_find (ic_context_table from_cache) x)
                  | None \<Rightarrow>
                      (case ce_name e of
                         Some n \<Rightarrow> map_option snd (silc_hash_table_find (ic_name_table from_cache) n)
                       | None \<Rightarrow>
                           (case ce_id e of
                              Some i \<Rightarrow> map_option snd (silc_hash_table_find (ic_id_table from_cache) i)
                            | None \<Rightarrow> None))) of
              None \<Rightarrow> (False, from_cache, to_cache)
            | Some c \<Rightarrow>
                if r \<noteq> c then (False, from_cache, to_cache)
                else if (case ce_id e of None \<Rightarrow> False
                         | Some i \<Rightarrow> silc_idcache_find_by_id_one to_cache i \<noteq> None)
                then (False, from_cache, to_cache)
                else (True, snd (del_keys e r from_cache), add_keys e r to_cache))"

section \<open>A hash table as a set of entries\<close>

text \<open>
  In the tables of a cache every entry reference occurs at most once, so a table is determined by
  the set of its pairs of key and reference.
\<close>

definition table_of ::
  "('k \<Rightarrow> u32) \<Rightarrow> ('k \<Rightarrow> 'k \<Rightarrow> bool) \<Rightarrow> ('k \<times> 'c) set \<Rightarrow> ('k, 'c) silc_hash_table \<Rightarrow> bool" where
  "table_of hash cmp S ht \<longleftrightarrow> ht_for hash cmp ht \<and>
     distinct (map snd (silc_hash_table_foreach ht)) \<and> set (silc_hash_table_foreach ht) = S"

lemma table_of_mset:
  assumes "mset (silc_hash_table_foreach ht) = mset xs" "ht_for hash cmp ht" "distinct (map snd xs)"
  shows "table_of hash cmp (set xs) ht"
  using assms mset_eq_imp_distinct_iff [of "map snd (silc_hash_table_foreach ht)" "map snd xs"]
    mset_eq_setD [OF assms(1)]
  by (simp add: table_of_def)

lemma distinct_del_first: "distinct (map f xs) \<Longrightarrow> distinct (map f (del_first P xs))"
proof (induction xs)
  case (Cons x xs)
  then show ?case using set_del_first [of P xs] by auto
qed simp

lemma set_del_first_unique:
  "distinct (map snd xs) \<Longrightarrow> e \<in> set xs \<Longrightarrow> P e \<Longrightarrow> (\<And>x. P x \<Longrightarrow> snd x = snd e) \<Longrightarrow>
    set (del_first P xs) = set xs - {e}"
proof (induction xs)
  case (Cons x xs)
  show ?case
  proof (cases "P x")
    case True
    then have "snd x = snd e" using Cons.prems(4) by simp
    with Cons.prems(1,2) have "x = e" by (auto simp: image_iff)
    moreover have "e \<notin> set xs" using Cons.prems(1) \<open>x = e\<close> by auto
    ultimately show ?thesis using True by auto
  next
    case False
    then have "x \<noteq> e" "e \<in> set xs" using Cons.prems(2,3) by auto
    moreover from this have "set (del_first P xs) = set xs - {e}"
      using Cons.IH [OF _ _ Cons.prems(3,4)] Cons.prems(1) by simp
    ultimately show ?thesis using False by auto
  qed
qed simp

lemma del_first_cong_set: "\<forall>x \<in> set xs. P x = Q x \<Longrightarrow> del_first P xs = del_first Q xs"
  by (induction xs) auto

context hash_keys
begin

lemma foreach_class_filter:
  "ht_for hash cmp ht \<Longrightarrow> filter (\<lambda>e. hash (fst e) = v) (silc_hash_table_foreach ht) = ht_class ht v"
  by (simp add: silc_hash_table_foreach_def ht_class_def ht_for_def)

lemma foreach_add:
  assumes ht: "ht_for hash cmp ht"
  shows "mset (silc_hash_table_foreach (silc_hash_table_add ht k c)) = mset (silc_hash_table_foreach ht @ [(k, c)])"
proof (rule mset_by_class [where f = "\<lambda>e. hash (fst e)"])
  fix v
  show "filter (\<lambda>e. hash (fst e) = v) (silc_hash_table_foreach (silc_hash_table_add ht k c)) =
      filter (\<lambda>e. hash (fst e) = v) (silc_hash_table_foreach ht @ [(k, c)])"
    using foreach_class_filter [OF for_add [OF ht, of k c], of v] foreach_class_filter [OF ht, of v]
      add_ok [of ht k c] ht by (simp add: ht_for_def)
qed

lemma table_of_add:
  assumes "table_of hash cmp S ht" "c \<notin> snd ` S"
  shows "table_of hash cmp (insert (k, c) S) (silc_hash_table_add ht k c)"
proof -
  have ht: "ht_for hash cmp ht" and d: "distinct (map snd (silc_hash_table_foreach ht))"
    and S: "set (silc_hash_table_foreach ht) = S"
    using assms(1) by (auto simp: table_of_def)
  from table_of_mset [OF foreach_add [OF ht] for_add [OF ht]] d S assms(2) show ?thesis by simp
qed

lemma table_of_stored:
  assumes "table_of hash cmp S ht"
  shows "set (ht_stored ht k) = {e \<in> S. cmp (fst e) k}"
proof -
  have ht: "ht_for hash cmp ht" and S: "set (silc_hash_table_foreach ht) = S"
    using assms(1) by (auto simp: table_of_def)
  have "ht_class ht (hash k) = filter (\<lambda>e. hash (fst e) = hash k) (silc_hash_table_foreach ht)"
    by (rule foreach_class_filter [OF ht, symmetric])
  then show ?thesis using S cmp_hash by (auto simp: stored_eq [OF ht])
qed

lemma table_of_find:
  assumes "table_of hash cmp S ht"
  shows "silc_hash_table_find ht k = Some e \<Longrightarrow> e \<in> S \<and> cmp (fst e) k"
    and "silc_hash_table_find ht k = None \<longleftrightarrow> (\<forall>e \<in> S. \<not> cmp (fst e) k)"
proof -
  have ht: "ht_for hash cmp ht" using assms(1) by (auto simp: table_of_def)
  note st = table_of_stored [OF assms, of k] find_stored [OF ht, of k]
  show "silc_hash_table_find ht k = Some e \<Longrightarrow> e \<in> S \<and> cmp (fst e) k"
    using st by (cases "ht_stored ht k") auto
  show "silc_hash_table_find ht k = None \<longleftrightarrow> (\<forall>e \<in> S. \<not> cmp (fst e) k)"
    using st by (cases "ht_stored ht k") auto
qed

lemma table_of_find_ext:
  assumes "table_of hash cmp S ht" "\<And>k'. full k' k \<Longrightarrow> hash k' = hash k"
  shows "silc_hash_table_find_ext ht k None (Some full) = Some e \<Longrightarrow> e \<in> S \<and> full (fst e) k"
    and "silc_hash_table_find_ext ht k None (Some full) = None \<longleftrightarrow> (\<forall>e \<in> S. \<not> full (fst e) k)"
proof -
  have ht: "ht_for hash cmp ht" "ht_wf ht" "ht_hash ht = hash" and S: "set (silc_hash_table_foreach ht) = S"
    using assms(1) by (auto simp: table_of_def ht_for_def)
  let ?P = "\<lambda>e. full (fst e) k"
  have "silc_hash_table_find_ext ht k None (Some full) = find ?P (ht_table ht ! SILC_HASH_TABLE_HASH ht (ht_hash ht) k)"
    by (simp add: silc_hash_table_find_ext_def silc_hash_table_find_internal_def Let_def entry_at_find
        key_matches_def [abs_def])
  also have "\<dots> = find ?P (ht_class ht (ht_hash ht k))"
    using ht assms(2) by (intro chain_class) auto
  finally have f: "silc_hash_table_find_ext ht k None (Some full) =
      find ?P (filter (\<lambda>e. hash (fst e) = hash k) (silc_hash_table_foreach ht))"
    by (simp add: foreach_class_filter [OF ht(1)] ht(3))
  show "silc_hash_table_find_ext ht k None (Some full) = Some e \<Longrightarrow> e \<in> S \<and> full (fst e) k"
    unfolding f using S by (auto dest: find_SomeD)
  show "silc_hash_table_find_ext ht k None (Some full) = None \<longleftrightarrow> (\<forall>e \<in> S. \<not> full (fst e) k)"
    unfolding f find_None_iff set_filter S using assms(2) by blast
qed

lemma table_of_find_foreach:
  assumes "table_of hash cmp S ht"
  shows "set (List.map_filter snd (silc_hash_table_find_foreach ht k)) = snd ` {e \<in> S. cmp (fst e) k}"
proof -
  have ht: "ht_for hash cmp ht" "ht_wf ht" "ht_hash ht = hash" "ht_cmp ht = cmp" and S: "set (silc_hash_table_foreach ht) = S"
    using assms(1) by (auto simp: table_of_def ht_for_def)
  let ?f = "filter (\<lambda>e. cmp (fst e) k) (ht_table ht ! SILC_HASH_TABLE_HASH ht (ht_hash ht) k)"
  have "?f = filter (\<lambda>e. cmp (fst e) k) (ht_class ht (ht_hash ht k))"
    using ht cmp_hash by (intro chain_class) auto
  then have f: "set ?f = {e \<in> S. cmp (fst e) k}"
    using table_of_stored [OF assms, of k] by (simp add: stored_eq [OF ht(1)] ht(3))
  have "List.map_filter snd (silc_hash_table_find_foreach ht k) = map snd ?f"
    by (auto simp: silc_hash_table_find_foreach_def silc_hash_table_find_internal_all_def Let_def
        key_matches_cmp ht List.map_filter_def comp_def case_prod_beta)
  with f show ?thesis by simp
qed

lemma table_of_count: "table_of hash cmp S ht \<Longrightarrow> silc_hash_table_count ht = 0 \<longleftrightarrow> S = {}"
  by (auto simp: table_of_def ht_for_def ht_wf_def silc_hash_table_count_def silc_hash_table_foreach_def)

lemma foreach_del_context:
  assumes ht: "ht_for hash cmp ht"
  shows "mset (silc_hash_table_foreach (snd (silc_hash_table_del_by_context ht k c))) =
    mset (del_first (\<lambda>e. cmp (fst e) k \<and> snd e = c) (silc_hash_table_foreach ht))"
    (is "mset (silc_hash_table_foreach (snd ?r)) = mset (del_first ?P _)")
proof (rule mset_by_class [where f = "\<lambda>e. hash (fst e)"])
  fix v
  have for_r: "ht_for hash cmp (snd ?r)" by (rule del_context_stored(2) [OF ht])
  have "filter (\<lambda>e. hash (fst e) = v) (silc_hash_table_foreach (snd ?r)) =
      (if v = hash k then del_first ?P (ht_class ht v) else ht_class ht v)"
    using foreach_class_filter [OF for_r, of v] del_context_class [OF ht, of k c v] by simp
  also have "\<dots> = filter (\<lambda>e. hash (fst e) = v) (del_first ?P (silc_hash_table_foreach ht))"
  proof (cases "v = hash k")
    case True
    then show ?thesis
      using cmp_hash foreach_class_filter [OF ht, of v] by (simp add: filter_del_first)
  next
    case False
    then show ?thesis
      using cmp_hash foreach_class_filter [OF ht, of v] by (subst filter_del_first_other) auto
  qed
  finally show "filter (\<lambda>e. hash (fst e) = v) (silc_hash_table_foreach (snd ?r)) =
      filter (\<lambda>e. hash (fst e) = v) (del_first ?P (silc_hash_table_foreach ht))" .
qed

lemma table_of_del:
  assumes "table_of hash cmp S ht"
  shows "fst (silc_hash_table_del_by_context ht k c) \<longleftrightarrow> (\<exists>e \<in> S. cmp (fst e) k \<and> snd e = c)"
    and "table_of hash cmp (S - {e. cmp (fst e) k \<and> snd e = c}) (snd (silc_hash_table_del_by_context ht k c))"
proof -
  have ht: "ht_for hash cmp ht" and d: "distinct (map snd (silc_hash_table_foreach ht))"
    and S: "set (silc_hash_table_foreach ht) = S"
    using assms(1) by (auto simp: table_of_def)
  let ?P = "\<lambda>e. cmp (fst e) k \<and> snd e = c"
  let ?r = "silc_hash_table_del_by_context ht k c"
  show "fst ?r \<longleftrightarrow> (\<exists>e \<in> S. cmp (fst e) k \<and> snd e = c)"
    using del_context_stored(1) [OF ht, of k c] table_of_stored [OF assms, of k] by force
  have for_r: "ht_for hash cmp (snd ?r)" by (rule del_context_stored(2) [OF ht])
  note t = table_of_mset [OF foreach_del_context [OF ht] for_r distinct_del_first [OF d]]
  have "set (del_first ?P (silc_hash_table_foreach ht)) = S - {e. cmp (fst e) k \<and> snd e = c}"
  proof (cases "\<exists>e \<in> S. ?P e")
    case True
    then obtain e where e: "e \<in> S" "?P e" by blast
    have inj: "inj_on snd S" using d S by (simp add: distinct_map)
    have "x = e" if "x \<in> S" "snd x = c" for x
      using inj_onD [OF inj, of x e] that e by simp
    then have "S - {e. cmp (fst e) k \<and> snd e = c} = S - {e}" using e by blast
    with e S set_del_first_unique [OF d, of e ?P] show ?thesis by simp
  next
    case False
    with S have "del_first ?P (silc_hash_table_foreach ht) = silc_hash_table_foreach ht"
      by (intro del_first_id) auto
    with False S show ?thesis by auto
  qed
  with t show "table_of hash cmp (S - {e. cmp (fst e) k \<and> snd e = c}) (snd ?r)" by simp
qed

text \<open>
  When the entries of a key all have one context, deleting by the key is deleting by key and
  context; also when the table is not allowed to resize.
\<close>

lemma del_key_context:
  assumes ht: "ht_for hash cmp ht" and one: "\<And>e. e \<in> set (silc_hash_table_foreach ht) \<Longrightarrow> cmp (fst e) k \<Longrightarrow> snd e = c"
  shows "silc_hash_table_del ht k = silc_hash_table_del_by_context ht k c"
proof -
  let ?chain = "ht_table ht ! SILC_HASH_TABLE_HASH ht (ht_hash ht) k"
  have "SILC_HASH_TABLE_HASH ht (ht_hash ht) k < length (ht_table ht)"
    using ht by (intro ht_slot) (simp add: ht_for_def)
  then have "set ?chain \<subseteq> set (silc_hash_table_foreach ht)"
    using nth_mem by (fastforce simp: silc_hash_table_foreach_def)
  then have "chain_position (\<lambda>e. cmp (fst e) k) ?chain = chain_position (\<lambda>e. cmp (fst e) k \<and> snd e = c) ?chain"
    using one unfolding chain_position_def by (intro arg_cong [where f = length] takeWhile_cong) auto
  moreover have "(if ht_compare ht \<noteq> None then ht_compare ht else None) = ht_compare ht" by simp
  moreover have "ht_cmp ht = cmp" using ht by (simp add: ht_for_def)
  ultimately show ?thesis
    by (simp only: silc_hash_table_del_def silc_hash_table_del_by_context_def silc_hash_table_find_internal_def
        silc_hash_table_find_internal_context_def Let_def key_matches_cmp)
qed

lemma table_of_del_key:
  assumes t: "table_of hash cmp S ht" and one: "\<And>e e'. e \<in> S \<Longrightarrow> e' \<in> S \<Longrightarrow> cmp (fst e) k \<Longrightarrow> cmp (fst e') k \<Longrightarrow> e = e'"
  shows "table_of hash cmp (S - {e. cmp (fst e) k}) (snd (silc_hash_table_del ht k))"
proof -
  have ht: "ht_for hash cmp ht" and S: "set (silc_hash_table_foreach ht) = S" using t by (auto simp: table_of_def)
  show ?thesis
  proof (cases "\<exists>e \<in> S. cmp (fst e) k")
    case True
    then obtain e where e: "e \<in> S" "cmp (fst e) k" by blast
    have "silc_hash_table_del ht k = silc_hash_table_del_by_context ht k (snd e)"
      using one [OF e(1)] e S by (intro del_key_context [OF ht]) blast
    moreover have "S - {e. cmp (fst e) k} = S - {e'. cmp (fst e') k \<and> snd e' = snd e}"
      using one [OF e(1)] e by blast
    ultimately show ?thesis using table_of_del(2) [OF t, of k "snd e"] by simp
  next
    case False
    have "silc_hash_table_del ht k = silc_hash_table_del_by_context ht k undefined"
      using False S by (intro del_key_context [OF ht]) blast
    moreover have "S - {e. cmp (fst e) k} = S - {e'. cmp (fst e') k \<and> snd e' = undefined}" using False by blast
    ultimately show ?thesis using table_of_del(2) [OF t, of k undefined] by simp
  qed
qed

lemma for_auto [simp]: "ht_for hash cmp (ht\<lparr>ht_auto_rehash := a\<rparr>) = ht_for hash cmp ht"
  by (simp add: ht_for_def ht_cmp_def)

lemma table_of_auto [simp]: "table_of hash cmp S (ht\<lparr>ht_auto_rehash := a\<rparr>) = table_of hash cmp S ht"
  by (simp add: table_of_def silc_hash_table_foreach_def)

end

section \<open>The invariant of a cache\<close>

text \<open>
  A cache whose members are the entries \<open>M\<close>: each table holds exactly the pairs of a member's key
  and the member, and no two members have the same ID.
\<close>

definition key_graph :: "cache_heap \<Rightarrow> entry_ref set \<Rightarrow> (silc_idcache_entry \<Rightarrow> 'k option) \<Rightarrow> ('k \<times> entry_ref) set" where
  "key_graph h M sel = {(k, r). r \<in> M \<and> (\<exists>e. heap_get h r = Some e \<and> sel e = Some k)}"

definition ids_unique :: "cache_heap \<Rightarrow> entry_ref set \<Rightarrow> bool" where
  "ids_unique h M \<longleftrightarrow> (\<forall>i r r'. (i, r) \<in> key_graph h M ce_id \<and> (i, r') \<in> key_graph h M ce_id \<longrightarrow> r = r')"

definition cache_ok :: "cache_heap \<Rightarrow> entry_ref set \<Rightarrow> silc_idcache \<Rightarrow> bool" where
  "cache_ok h M cache \<longleftrightarrow>
     table_of (silc_hash_id (ic_id_type cache)) (silc_hash_id_compare (ic_id_type cache))
       (key_graph h M ce_id) (ic_id_table cache) \<and>
     table_of silc_hash_utf8_string silc_hash_utf8_compare (key_graph h M ce_name) (ic_name_table cache) \<and>
     table_of silc_hash_ptr (=) (key_graph h M ce_context) (ic_context_table cache) \<and>
     (\<forall>r \<in> M. heap_get h r \<noteq> None)"

lemma cache_tables:
  assumes "cache_ok h M cache"
  shows "table_of (silc_hash_id (ic_id_type cache)) (silc_hash_id_compare (ic_id_type cache))
       (key_graph h M ce_id) (ic_id_table cache)"
    "table_of silc_hash_utf8_string silc_hash_utf8_compare (key_graph h M ce_name) (ic_name_table cache)"
    "table_of silc_hash_ptr (=) (key_graph h M ce_context) (ic_context_table cache)"
  using assms by (simp_all add: cache_ok_def)

lemma heap_get_append [simp]:
  "heap_get (h @ [x]) r = (if r < length h then heap_get h r else if r = length h then x else None)"
  by (auto simp: heap_get_def nth_append)

lemma heap_get_update [simp]:
  "r < length h \<Longrightarrow> heap_get (h[r := x]) r' = (if r' = r then x else heap_get h r')"
  by (simp add: heap_get_def)

lemma heap_get_length [simp]: "heap_get h (length h) = None"
  by (simp add: heap_get_def)

lemma heap_get_free_cell [simp]: "heap_get (h @ [None]) = heap_get h"
  by (rule ext) (auto simp: heap_get_def nth_append less_Suc_eq)

lemma heap_get_less: "heap_get h r = Some e \<Longrightarrow> r < length h"
  by (simp add: heap_get_def split: if_splits)

lemma key_graph_snd: "snd ` key_graph h M sel \<subseteq> M"
  by (auto simp: key_graph_def)

lemma key_graph_insert:
  assumes "length h \<notin> M"
  shows "key_graph (h @ [Some c]) (insert (length h) M) sel =
    (case sel c of None \<Rightarrow> key_graph h M sel | Some k \<Rightarrow> insert (k, length h) (key_graph h M sel))"
  using assms by (auto simp: key_graph_def heap_get_def nth_append split: option.splits if_splits)

lemma key_graph_remove:
  "key_graph h (M - {r}) sel = key_graph h M sel - {e. snd e = r}"
  by (auto simp: key_graph_def)

lemma key_graph_heap_cong:
  "(\<And>r. r \<in> M \<Longrightarrow> heap_get h' r = heap_get h r) \<Longrightarrow> key_graph h' M sel = key_graph h M sel"
  by (auto simp: key_graph_def)

text \<open>Removing an entry by one of its keys takes exactly this entry out of the table.\<close>

context hash_keys
begin

lemma del_key_member:
  assumes "table_of hash cmp (key_graph h M sel) ht" "r \<in> M" "heap_get h r = Some e"
  shows "table_of hash cmp (key_graph h (M - {r}) sel) (snd (del_key ret (sel e) r ht))"
    and "fst (del_key ret (sel e) r ht) = (if sel e = None then ret else True)"
proof -
  have "table_of hash cmp (key_graph h (M - {r}) sel) (snd (del_key ret (sel e) r ht)) \<and>
      fst (del_key ret (sel e) r ht) = (if sel e = None then ret else True)"
  proof (cases "sel e")
    case None
    with assms(3) have "key_graph h (M - {r}) sel = key_graph h M sel" by (auto simp: key_graph_def)
    with None assms(1) show ?thesis by (simp add: del_key_def)
  next
    case (Some k)
    have "key_graph h M sel - {e. cmp (fst e) k \<and> snd e = r} = key_graph h (M - {r}) sel"
      using assms(3) Some cmp_refl by (auto simp: key_graph_def)
    moreover have "(k, r) \<in> key_graph h M sel" using assms(2,3) Some by (simp add: key_graph_def)
    ultimately show ?thesis
      using Some table_of_del [OF assms(1), of k r] cmp_refl [of k] by (force simp: del_key_def)
  qed
  then show "table_of hash cmp (key_graph h (M - {r}) sel) (snd (del_key ret (sel e) r ht))"
    "fst (del_key ret (sel e) r ht) = (if sel e = None then ret else True)" by auto
qed

lemma add_key_member:
  assumes "table_of hash cmp S ht" "r \<notin> snd ` S"
  shows "table_of hash cmp (case ko of None \<Rightarrow> S | Some k \<Rightarrow> insert (k, r) S)
    (case ko of None \<Rightarrow> ht | Some k \<Rightarrow> silc_hash_table_add ht k r)"
  using assms table_of_add by (auto split: option.split)

end

lemma del_keys_parts:
  "fst (del_keys c r cache) = fst (del_key (fst (del_key (fst (del_key False (ce_name c) r (ic_name_table cache)))
      (ce_context c) r (ic_context_table cache))) (ce_id c) r (ic_id_table cache))"
  "\<exists>b1 b2 b3. snd (del_keys c r cache) = cache\<lparr>ic_id_table := snd (del_key b1 (ce_id c) r (ic_id_table cache)),
    ic_name_table := snd (del_key b2 (ce_name c) r (ic_name_table cache)),
    ic_context_table := snd (del_key b3 (ce_context c) r (ic_context_table cache))\<rparr>"
  by (auto simp: del_keys_def Let_def split: prod.splits) (metis snd_conv)

lemma del_keys_ok:
  assumes "cache_ok h M cache" "r \<in> M" "heap_get h r = Some e"
  shows "cache_ok h (M - {r}) (snd (del_keys e r cache))"
    and "fst (del_keys e r cache) \<longleftrightarrow> ce_id e \<noteq> None \<or> ce_name e \<noteq> None \<or> ce_context e \<noteq> None"
    and "ic_id_type (snd (del_keys e r cache)) = ic_id_type cache"
proof -
  note t = cache_tables [OF assms(1)]
  note d = hk_id.del_key_member [OF t(1) assms(2,3)] hk_utf8.del_key_member [OF t(2) assms(2,3)]
    hk_ptr.del_key_member [OF t(3) assms(2,3)]
  obtain b1 b2 b3 where p: "snd (del_keys e r cache) = cache\<lparr>ic_id_table := snd (del_key b1 (ce_id e) r (ic_id_table cache)),
    ic_name_table := snd (del_key b2 (ce_name e) r (ic_name_table cache)),
    ic_context_table := snd (del_key b3 (ce_context e) r (ic_context_table cache))\<rparr>"
    using del_keys_parts(2) by blast
  show "cache_ok h (M - {r}) (snd (del_keys e r cache))"
    unfolding cache_ok_def p using d assms(1) by (simp add: cache_ok_def)
  show "ic_id_type (snd (del_keys e r cache)) = ic_id_type cache" by (simp add: p)
  show "fst (del_keys e r cache) \<longleftrightarrow> ce_id e \<noteq> None \<or> ce_name e \<noteq> None \<or> ce_context e \<noteq> None"
    unfolding del_keys_parts(1) d(2,4,6) by simp
qed

text \<open>Removing an entry that is in no table changes nothing of what the tables hold.\<close>

lemma del_keys_absent:
  assumes "cache_ok h M cache" "r \<notin> M"
  shows "cache_ok h M (snd (del_keys e r cache))"
    and "ic_id_type (snd (del_keys e r cache)) = ic_id_type cache"
proof -
  have n: "key_graph h M sel - {x. P x \<and> snd x = r} = key_graph h M sel" for P and sel :: "silc_idcache_entry \<Rightarrow> 'k option"
    using assms(2) by (auto simp: key_graph_def)
  obtain b1 b2 b3 where p: "snd (del_keys e r cache) = cache\<lparr>ic_id_table := snd (del_key b1 (ce_id e) r (ic_id_table cache)),
    ic_name_table := snd (del_key b2 (ce_name e) r (ic_name_table cache)),
    ic_context_table := snd (del_key b3 (ce_context e) r (ic_context_table cache))\<rparr>"
    using del_keys_parts(2) by blast
  show "ic_id_type (snd (del_keys e r cache)) = ic_id_type cache" by (simp add: p)
  note t = cache_tables [OF assms(1)]
  note d = hk_id.table_of_del(2) [OF t(1), of _ r, unfolded n] hk_utf8.table_of_del(2) [OF t(2), of _ r, unfolded n]
    hk_ptr.table_of_del(2) [OF t(3), of _ r, unfolded n]
  show "cache_ok h M (snd (del_keys e r cache))"
    unfolding cache_ok_def p using d t assms(1)
    by (auto simp: cache_ok_def del_key_def split: option.split)
qed

lemma add_keys_ok:
  assumes "cache_ok h M cache" "length h \<notin> M"
  shows "cache_ok (h @ [Some c]) (insert (length h) M) (add_keys c (length h) cache)"
proof -
  note t = cache_tables [OF assms(1)]
  have n: "length h \<notin> snd ` key_graph h M sel" for sel :: "silc_idcache_entry \<Rightarrow> 'k option"
    using assms(2) key_graph_snd [of h M sel] by blast
  show ?thesis
    unfolding cache_ok_def add_keys_def key_graph_insert [OF assms(2)]
    using hk_id.add_key_member [OF t(1) n] hk_utf8.add_key_member [OF t(2) n] hk_ptr.add_key_member [OF t(3) n]
      assms(1)
    by (auto simp: cache_ok_def heap_get_def nth_append)
qed

text \<open>Moving: the keys of a member of another cache are added.\<close>

lemma key_graph_join:
  "r \<notin> M \<Longrightarrow> heap_get h r = Some e \<Longrightarrow>
    key_graph h (insert r M) sel = (case sel e of None \<Rightarrow> key_graph h M sel | Some k \<Rightarrow> insert (k, r) (key_graph h M sel))"
  by (auto simp: key_graph_def split: option.split)

lemma add_keys_join:
  assumes "cache_ok h M cache" "r \<notin> M" "heap_get h r = Some c"
  shows "cache_ok h (insert r M) (add_keys c r cache)"
proof -
  note t = cache_tables [OF assms(1)]
  have n: "r \<notin> snd ` key_graph h M sel" for sel :: "silc_idcache_entry \<Rightarrow> 'k option"
    using assms(2) key_graph_snd [of h M sel] by blast
  show ?thesis
    unfolding cache_ok_def add_keys_def key_graph_join [OF assms(2,3)]
    using hk_id.add_key_member [OF t(1) n] hk_utf8.add_key_member [OF t(2) n] hk_ptr.add_key_member [OF t(3) n]
      assms(1,3)
    by (auto simp: cache_ok_def)
qed

section \<open>Properties of the cache\<close>

lemma cache_heap_fresh: "cache_ok h M cache \<Longrightarrow> length h \<notin> M"
  by (auto simp: cache_ok_def)

lemma find_by_id_one_ok:
  assumes "cache_ok h M cache"
  shows "silc_idcache_find_by_id_one cache i = Some r \<Longrightarrow> (i, r) \<in> key_graph h M ce_id"
    and "silc_idcache_find_by_id_one cache i = None \<longleftrightarrow> (\<forall>r. (i, r) \<notin> key_graph h M ce_id)"
  using hk_id.table_of_find_ext [OF cache_tables(1) [OF assms], of "silc_hash_id_compare_full (ic_id_type cache)" i]
  by (auto simp: silc_idcache_find_by_id_one_def silc_hash_id_compare_full_def SILC_ID_COMPARE_TYPE_def)

lemma cache_ok_free_cell: "cache_ok h M cache \<Longrightarrow> cache_ok (h @ [None]) M cache"
proof -
  assume ok: "cache_ok h M cache"
  have g: "key_graph (h @ [None]) M sel = key_graph h M sel" for sel :: "silc_idcache_entry \<Rightarrow> 'k option"
    by (intro key_graph_heap_cong) simp
  from ok show ?thesis by (simp add: cache_ok_def g)
qed

text \<open>Allocation never fails and gives a cache without members.\<close>

lemma idcache_alloc_ok:
  "\<exists>cache. silc_idcache_alloc n t = Some cache \<and> cache_ok h {} cache \<and> ic_id_type cache = t"
proof -
  obtain a :: "(silc_id, entry_ref) silc_hash_table" and b :: "(byte list, entry_ref) silc_hash_table"
    and c :: "(u64, entry_ref) silc_hash_table" where
    t: "silc_hash_table_alloc n (silc_hash_id t) (Some (silc_hash_id_compare t)) False True = Some a"
      "silc_hash_table_alloc n silc_hash_utf8_string (Some silc_hash_utf8_compare) False True = Some b"
      "silc_hash_table_alloc n silc_hash_ptr None False True = Some c"
    using alloc_succeeds by (metis not_None_eq)
  have e: "silc_hash_table_foreach x = []" if "silc_hash_table_alloc n h' c' d' a' = Some x"
    for x :: "('k, entry_ref) silc_hash_table" and h' c' d' a'
    using alloc_ok [OF that] by (simp add: ht_wf_def silc_hash_table_foreach_def)
  show ?thesis
    using t e [OF t(1)] e [OF t(2)] e [OF t(3)] alloc_ok [OF t(1)] alloc_ok [OF t(2)] alloc_ok [OF t(3)]
    by (simp add: silc_idcache_alloc_def cache_ok_def table_of_def ht_for_def ht_cmp_def key_graph_def)
qed

lemma add_ok_spec:
  assumes "cache_ok h M cache" "ids_unique h M" "silc_idcache_add h cache name i context = (ro, h', cache')"
    "name \<noteq> None \<or> i \<noteq> None \<or> context \<noteq> None"
  shows "if \<exists>j r. i = Some j \<and> (j, r) \<in> key_graph h M ce_id
    then ro = None \<and> cache_ok h' M cache' \<and> ids_unique h' M
    else ro = Some (length h) \<and>
      heap_get h' (length h) = Some \<lparr>ce_id = i, ce_name = name, ce_context = context\<rparr> \<and>
      cache_ok h' (insert (length h) M) cache' \<and> ids_unique h' (insert (length h) M)"
proof -
  let ?c = "\<lparr>ce_id = i, ce_name = name, ce_context = context\<rparr>"
  note fresh = cache_heap_fresh [OF assms(1)]
  have dup: "(case i of None \<Rightarrow> False | Some i \<Rightarrow> silc_idcache_find_by_id_one cache i \<noteq> None) \<longleftrightarrow>
      (\<exists>j r. i = Some j \<and> (j, r) \<in> key_graph h M ce_id)"
    using find_by_id_one_ok(2) [OF assms(1)] by (auto split: option.split)
  have cell: "key_graph (h @ [None]) M ce_id = key_graph h M ce_id"
    by (intro key_graph_heap_cong) simp
  show ?thesis
  proof (cases "\<exists>j r. i = Some j \<and> (j, r) \<in> key_graph h M ce_id")
    case True
    with assms(3,4) dup have "ro = None" "h' = h @ [None]" "cache' = snd (del_keys ?c (length h) cache)"
      by (auto simp: silc_idcache_add_def Let_def)
    moreover have "cache_ok (h @ [None]) M (snd (del_keys ?c (length h) cache))"
      by (rule del_keys_absent [OF cache_ok_free_cell [OF assms(1)] fresh])
    ultimately show ?thesis using True assms(2) cell by (simp add: ids_unique_def)
  next
    case False
    with assms(3,4) dup have r: "ro = Some (length h)" "h' = h @ [Some ?c]" "cache' = add_keys ?c (length h) cache"
      by (auto simp: silc_idcache_add_def Let_def)
    have "ids_unique h' (insert (length h) M)"
      using assms(2) False fresh key_graph_snd [of h M ce_id]
      unfolding ids_unique_def r(2) key_graph_insert [OF fresh] by (auto split: option.splits)
    with False r add_keys_ok [OF assms(1) fresh, of ?c] show ?thesis by simp
  qed
qed

text \<open>
  Property C18. Adding to a cache: with an ID that a member has already the addition is refused and
  the members stay; otherwise a new entry with the given ID, name and context becomes a member and
  the IDs of the members remain unique.
\<close>

theorem idcache_add_spec:
  assumes "cache_ok h M cache" "ids_unique h M" "silc_idcache_add h cache name i context = (ro, h', cache')"
    "name \<noteq> None \<or> i \<noteq> None \<or> context \<noteq> None"
  shows "if \<exists>j r. i = Some j \<and> (j, r) \<in> key_graph h M ce_id
    then ro = None \<and> cache_ok h' M cache' \<and> ids_unique h' M
    else ro = Some (length h) \<and>
      heap_get h' (length h) = Some \<lparr>ce_id = i, ce_name = name, ce_context = context\<rparr> \<and>
      cache_ok h' (insert (length h) M) cache' \<and> ids_unique h' (insert (length h) M)"
  by (rule add_ok_spec [OF assms])

theorem idcache_add_spec_witness:
  "\<exists>cache. silc_idcache_alloc 0 SILC_ID_SERVER = Some cache \<and>
    fst (silc_idcache_add [] cache (Some [97]) None (Some 5)) = Some 0"
proof -
  obtain cache where c: "silc_idcache_alloc 0 SILC_ID_SERVER = Some cache" "cache_ok [] {} cache"
    using idcache_alloc_ok [of 0 SILC_ID_SERVER "[]"] by blast
  have u: "ids_unique [] {}" by (simp add: ids_unique_def key_graph_def)
  obtain ro h' cache' where r: "silc_idcache_add [] cache (Some [97]) None (Some 5) = (ro, h', cache')"
    by (cases "silc_idcache_add [] cache (Some [97]) None (Some 5)") auto
  from idcache_add_spec [OF c(2) u r] r c(1) show ?thesis by simp
qed

lemma find_ok_spec:
  assumes "cache_ok h M cache" "ids_unique h M"
  shows "(silc_idcache_find_by_id_one cache i = Some r \<longleftrightarrow> (i, r) \<in> key_graph h M ce_id) \<and>
    set (silc_idcache_find_by_name cache n) = {r. \<exists>n'. (n', r) \<in> key_graph h M ce_name \<and> cstr n' = cstr n} \<and>
    (silc_idcache_find_by_context cache x = Some r \<longrightarrow> (x, r) \<in> key_graph h M ce_context) \<and>
    (silc_idcache_find_by_context cache x = None \<longleftrightarrow> (\<forall>r. (x, r) \<notin> key_graph h M ce_context)) \<and>
    set (silc_idcache_get_all cache) = snd ` key_graph h M ce_id"
proof (intro conjI)
  note t = cache_tables [OF assms(1)]
  show "silc_idcache_find_by_id_one cache i = Some r \<longleftrightarrow> (i, r) \<in> key_graph h M ce_id"
    using find_by_id_one_ok [OF assms(1), of i] assms(2) unfolding ids_unique_def
    by (metis option.exhaust)
  show "set (silc_idcache_find_by_name cache n) = {r. \<exists>n'. (n', r) \<in> key_graph h M ce_name \<and> cstr n' = cstr n}"
    using hk_utf8.table_of_find_foreach [OF t(2), of n] hk_utf8.table_of_count [OF t(2)]
    by (force simp: silc_idcache_find_by_name_def silc_idcache_get_all_foreach_def utf8_compare_iff image_iff)
  show "silc_idcache_find_by_context cache x = Some r \<longrightarrow> (x, r) \<in> key_graph h M ce_context"
    using hk_ptr.table_of_find(1) [OF t(3), of x] by (auto simp: silc_idcache_find_by_context_def)
  show "silc_idcache_find_by_context cache x = None \<longleftrightarrow> (\<forall>r. (x, r) \<notin> key_graph h M ce_context)"
    using hk_ptr.table_of_find(2) [OF t(3), of x] by (auto simp: silc_idcache_find_by_context_def)
  show "set (silc_idcache_get_all cache) = snd ` key_graph h M ce_id"
    using t(1) hk_id.table_of_count [OF t(1)] by (auto simp: silc_idcache_get_all_def table_of_def)
qed

text \<open>
  Property C19. Lookup in a cache with unique IDs: by ID it finds exactly the member with that ID,
  by name exactly the members whose name is the same string, by context a member with that
  context, and it finds nothing only when there is none.
\<close>

theorem idcache_find_spec:
  assumes "cache_ok h M cache" "ids_unique h M"
  shows "(silc_idcache_find_by_id_one cache i = Some r \<longleftrightarrow> (i, r) \<in> key_graph h M ce_id) \<and>
    set (silc_idcache_find_by_name cache n) = {r. \<exists>n'. (n', r) \<in> key_graph h M ce_name \<and> cstr n' = cstr n} \<and>
    (silc_idcache_find_by_context cache x = Some r \<longrightarrow> (x, r) \<in> key_graph h M ce_context) \<and>
    (silc_idcache_find_by_context cache x = None \<longleftrightarrow> (\<forall>r. (x, r) \<notin> key_graph h M ce_context)) \<and>
    set (silc_idcache_get_all cache) = snd ` key_graph h M ce_id"
  by (rule find_ok_spec [OF assms])

theorem idcache_find_spec_witness:
  "\<exists>cache. silc_idcache_alloc 0 SILC_ID_SERVER = Some cache \<and>
    silc_idcache_find_by_context cache 5 = None \<and> set (silc_idcache_find_by_name cache [97]) = {}"
proof -
  obtain cache where c: "silc_idcache_alloc 0 SILC_ID_SERVER = Some cache" "cache_ok [] {} cache"
    using idcache_alloc_ok [of 0 SILC_ID_SERVER "[]"] by blast
  have u: "ids_unique [] {}" by (simp add: ids_unique_def key_graph_def)
  from idcache_find_spec [OF c(2) u, of undefined undefined "[97]" 5] c(1) show ?thesis
    by (auto simp: key_graph_def)
qed

lemma del_ok_spec:
  assumes "cache_ok h M cache" "r \<in> M" "heap_get h r = Some e"
    "ce_id e \<noteq> None \<or> ce_name e \<noteq> None \<or> ce_context e \<noteq> None"
    "silc_idcache_del h cache r = (ret, h', cache')"
  shows "ret \<and> cache_ok h' (M - {r}) cache' \<and> heap_get h' r = None \<and>
    (\<forall>r'. r' \<noteq> r \<longrightarrow> heap_get h' r' = heap_get h r')"
proof -
  note d = del_keys_ok [OF assms(1-3)]
  have r: "r < length h" by (rule heap_get_less [OF assms(3)])
  have res: "ret" "h' = h[r := None]" "cache' = snd (del_keys e r cache)"
    using assms(3-5) d(2) by (auto simp: silc_idcache_del_def Let_def split: prod.splits if_splits)
  have g: "key_graph h' (M - {r}) sel = key_graph h (M - {r}) sel" for sel :: "silc_idcache_entry \<Rightarrow> 'k option"
    using r by (intro key_graph_heap_cong) (simp add: res(2))
  have "cache_ok h' (M - {r}) cache'"
    using d(1) r unfolding cache_ok_def g res(3) by (simp add: res(2))
  with res r show ?thesis by simp
qed

text \<open>
  Property C20. Deleting a member takes it out of all three tables and out of the heap, and leaves
  the other members as they are.
\<close>

theorem idcache_del_spec:
  assumes "cache_ok h M cache" "r \<in> M" "heap_get h r = Some e"
    "ce_id e \<noteq> None \<or> ce_name e \<noteq> None \<or> ce_context e \<noteq> None"
    "silc_idcache_del h cache r = (ret, h', cache')"
  shows "ret \<and> cache_ok h' (M - {r}) cache' \<and> heap_get h' r = None \<and>
    (\<forall>r'. r' \<noteq> r \<longrightarrow> heap_get h' r' = heap_get h r')"
  by (rule del_ok_spec [OF assms])

theorem idcache_del_spec_witness:
  "\<exists>h cache. fst (silc_idcache_del h cache 0)"
proof -
  obtain cache where c: "silc_idcache_alloc 0 SILC_ID_SERVER = Some cache" "cache_ok [] {} cache"
    using idcache_alloc_ok [of 0 SILC_ID_SERVER "[]"] by blast
  let ?c = "\<lparr>ce_id = None, ce_name = Some [97], ce_context = Some 5\<rparr>"
  have "cache_ok [Some ?c] {0} (add_keys ?c 0 cache)"
    using add_keys_ok [OF c(2), of ?c] by simp
  moreover obtain ret h' cache' where "silc_idcache_del [Some ?c] (add_keys ?c 0 cache) 0 = (ret, h', cache')"
    by (cases "silc_idcache_del [Some ?c] (add_keys ?c 0 cache) 0") auto
  ultimately show ?thesis
    using idcache_del_spec [of "[Some ?c]" "{0}" "add_keys ?c 0 cache" 0 ?c ret h' cache']
    by (intro exI [of _ "[Some ?c]"] exI [of _ "add_keys ?c 0 cache"]) (simp add: heap_get_def)
qed

text \<open>Updating one key of a member.\<close>

lemma key_graph_set:
  assumes "r \<in> M" "r < length h" "sel c' = Some k"
  shows "key_graph (h[r := Some c']) M sel = insert (k, r) (key_graph h (M - {r}) sel)"
  using assms by (auto simp: key_graph_def)

lemma key_graph_same:
  assumes "heap_get h r = Some c" "sel c' = sel c"
  shows "key_graph (h[r := Some c']) M sel = key_graph h M sel"
  using assms heap_get_less [OF assms(1)] by (auto simp: key_graph_def split: if_splits)

lemma update_id_ok:
  assumes "cache_ok h M cache" "r \<in> M" "heap_get h r = Some c"
  shows "\<exists>cache'. update_id h cache r c i = (True, h[r := Some (c\<lparr>ce_id := Some i\<rparr>)], cache') \<and>
    cache_ok (h[r := Some (c\<lparr>ce_id := Some i\<rparr>)]) M cache' \<and> ic_id_type cache' = ic_id_type cache"
proof -
  note t = cache_tables [OF assms(1)] and r = heap_get_less [OF assms(3)]
  let ?c = "c\<lparr>ce_id := Some i\<rparr>"
  note d = hk_id.del_key_member [OF t(1) assms(2,3), of True]
  have n: "r \<notin> snd ` key_graph h (M - {r}) ce_id" by (auto simp: key_graph_def)
  have g: "key_graph (h[r := Some ?c]) M ce_id = insert (i, r) (key_graph h (M - {r}) ce_id)"
    "key_graph (h[r := Some ?c]) M ce_name = key_graph h M ce_name"
    "key_graph (h[r := Some ?c]) M ce_context = key_graph h M ce_context"
    using key_graph_set [OF assms(2) r, of ce_id ?c i] by (simp_all add: key_graph_same [OF assms(3)])
  show ?thesis
    using d hk_id.table_of_add [OF d(1) n, of i] t assms(1) r
    by (auto simp: update_id_def Let_def cache_ok_def g split: prod.splits)
qed

lemma update_name_ok:
  assumes "cache_ok h M cache" "r \<in> M" "heap_get h r = Some c"
  shows "\<exists>cache'. update_name h cache r c n = (True, h[r := Some (c\<lparr>ce_name := Some n\<rparr>)], cache') \<and>
    cache_ok (h[r := Some (c\<lparr>ce_name := Some n\<rparr>)]) M cache' \<and> ic_id_type cache' = ic_id_type cache"
proof -
  note t = cache_tables [OF assms(1)] and r = heap_get_less [OF assms(3)]
  let ?c = "c\<lparr>ce_name := Some n\<rparr>"
  note d = hk_utf8.del_key_member [OF t(2) assms(2,3), of True]
  have f: "r \<notin> snd ` key_graph h (M - {r}) ce_name" by (auto simp: key_graph_def)
  have g: "key_graph (h[r := Some ?c]) M ce_name = insert (n, r) (key_graph h (M - {r}) ce_name)"
    "key_graph (h[r := Some ?c]) M ce_id = key_graph h M ce_id"
    "key_graph (h[r := Some ?c]) M ce_context = key_graph h M ce_context"
    using key_graph_set [OF assms(2) r, of ce_name ?c n] by (simp_all add: key_graph_same [OF assms(3)])
  show ?thesis
    using d hk_utf8.table_of_add [OF d(1) f, of n] t assms(1) r
    by (auto simp: update_name_def Let_def cache_ok_def g split: prod.splits)
qed

definition updated_entry ::
  "silc_id option \<Rightarrow> byte list option \<Rightarrow> silc_idcache_entry \<Rightarrow> silc_idcache_entry" where
  "updated_entry new_id new_name c =
     c\<lparr>ce_id := (case new_id of None \<Rightarrow> ce_id c | Some i \<Rightarrow> Some i),
       ce_name := (case new_name of None \<Rightarrow> ce_name c | Some n \<Rightarrow> Some n)\<rparr>"

lemma update_ok_spec:
  assumes "cache_ok h M cache" "r \<in> M" "heap_get h r = Some c"
  shows "\<exists>cache'. silc_idcache_update h cache r new_id new_name =
      (True, h[r := Some (updated_entry new_id new_name c)], cache') \<and>
    cache_ok (h[r := Some (updated_entry new_id new_name c)]) M cache'"
proof -
  let ?c = "c\<lparr>ce_id := (case new_id of None \<Rightarrow> ce_id c | Some i \<Rightarrow> Some i)\<rparr>"
  have r: "r < length h" by (rule heap_get_less [OF assms(3)])
  have "h[r := Some c] = h" using assms(3) r by (metis heap_get_def list_update_id)
  then obtain cache1 where c1: "(case new_id of None \<Rightarrow> (True, h, cache) | Some i \<Rightarrow> update_id h cache r c i) =
      (True, h[r := Some ?c], cache1)" "cache_ok (h[r := Some ?c]) M cache1"
    using assms update_id_ok [OF assms] by (cases new_id) auto
  have g: "heap_get (h[r := Some ?c]) r = Some ?c" using r by simp
  show ?thesis
  proof (cases new_name)
    case None
    with c1 assms(3) show ?thesis
      by (auto simp: silc_idcache_update_def updated_entry_def)
  next
    case (Some n)
    obtain cache2 where "update_name (h[r := Some ?c]) cache1 r ?c n =
        (True, h[r := Some (?c\<lparr>ce_name := Some n\<rparr>)], cache2)"
      "cache_ok (h[r := Some (?c\<lparr>ce_name := Some n\<rparr>)]) M cache2"
      using update_name_ok [OF c1(2) assms(2) g, of n] by auto
    with Some c1(1) assms(3) g show ?thesis
      by (auto simp: silc_idcache_update_def updated_entry_def)
  qed
qed

text \<open>
  Property C21. Updating a member of a cache, for instance after a nickname change, succeeds, gives
  the entry its new ID and name, and leaves it findable under the new keys only: the tables again
  hold exactly the keys of the members.  No other entry changes.
\<close>

theorem idcache_update_spec:
  assumes "cache_ok h M cache" "r \<in> M" "heap_get h r = Some c"
  shows "\<exists>cache'. silc_idcache_update h cache r new_id new_name =
      (True, h[r := Some (updated_entry new_id new_name c)], cache') \<and>
    cache_ok (h[r := Some (updated_entry new_id new_name c)]) M cache'"
  by (rule update_ok_spec [OF assms])

theorem idcache_update_spec_witness:
  "\<exists>h cache. fst (silc_idcache_update h cache 0 None (Some [98]))"
proof -
  obtain cache where c: "silc_idcache_alloc 0 SILC_ID_SERVER = Some cache" "cache_ok [] {} cache"
    using idcache_alloc_ok [of 0 SILC_ID_SERVER "[]"] by blast
  let ?c = "\<lparr>ce_id = None, ce_name = Some [97], ce_context = Some 5\<rparr>"
  have "cache_ok [Some ?c] {0} (add_keys ?c 0 cache)"
    using add_keys_ok [OF c(2), of ?c] by simp
  from idcache_update_spec [OF this, of 0 ?c None "Some [98]"] show ?thesis
    by (intro exI [of _ "[Some ?c]"] exI [of _ "add_keys ?c 0 cache"]) (auto simp: heap_get_def)
qed

lemma move_ok_spec:
  assumes "cache_ok h M src" "cache_ok h N dst" "r \<in> M" "r \<notin> N" "heap_get h r = Some e" "ids_unique h N"
    "silc_idcache_move h src dst r = (ret, src', dst')"
  shows "if ret then cache_ok h (M - {r}) src' \<and> cache_ok h (insert r N) dst' \<and> ids_unique h (insert r N)
    else src' = src \<and> dst' = dst"
proof (cases ret)
  case True
  then have res: "src' = snd (del_keys e r src)" "dst' = add_keys e r dst"
    and dup: "\<not> (case ce_id e of None \<Rightarrow> False | Some i \<Rightarrow> silc_idcache_find_by_id_one dst i \<noteq> None)"
    using assms(5,7) by (auto simp: silc_idcache_move_def split: if_splits option.splits)
  have "ids_unique h (insert r N)"
    using assms(6) dup find_by_id_one_ok(2) [OF assms(2)]
    unfolding ids_unique_def key_graph_join [OF assms(4,5)] by (auto split: option.splits)
  with True res del_keys_ok(1) [OF assms(1,3,5)] add_keys_join [OF assms(2,4,5)] show ?thesis by simp
next
  case False
  then show ?thesis
    using assms(5,7) by (auto simp: silc_idcache_move_def split: if_splits option.splits)
qed

text \<open>
  Moving an entry between the caches of local and global clients: on success it is a
  member of the second cache and no longer of the first, both caches stay well formed, and the IDs
  of the second stay unique; otherwise neither cache changes.
\<close>

lemma idcache_move_spec:
  assumes "cache_ok h M src" "cache_ok h N dst" "r \<in> M" "r \<notin> N" "heap_get h r = Some e" "ids_unique h N"
    "silc_idcache_move h src dst r = (ret, src', dst')"
  shows "if ret then cache_ok h (M - {r}) src' \<and> cache_ok h (insert r N) dst' \<and> ids_unique h (insert r N)
    else src' = src \<and> dst' = dst"
  by (rule move_ok_spec [OF assms])

text \<open>
  Deleting by ID compares Client IDs by their nickname hash only: with an ID that no member has,
  it deletes a client of the same nickname.
\<close>

lemma del_by_id_same_nickname:
  assumes "cache_ok h M cache" "ic_id_type cache = SILC_ID_CLIENT" "r \<in> M" "heap_get h r = Some e"
    "ce_id e = Some (ClientID j)" "take CLIENTID_HASH_LEN (cid_hash j) = take CLIENTID_HASH_LEN (cid_hash i)"
  shows "fst (silc_idcache_del_by_id h cache (ClientID i))"
proof -
  note t = cache_tables(1) [OF assms(1)]
  have "(ClientID j, r) \<in> key_graph h M ce_id" using assms by (simp add: key_graph_def)
  then have "silc_hash_table_find (ic_id_table cache) (ClientID i) \<noteq> None"
    using hk_id.table_of_find(2) [OF t, of "ClientID i"] assms(2,6) client_id_by_hash(2) [of j i]
    by force
  then obtain k r' where f: "silc_hash_table_find (ic_id_table cache) (ClientID i) = Some (k, r')" by auto
  then have "(k, r') \<in> key_graph h M ce_id" using hk_id.table_of_find(1) [OF t] by fastforce
  then obtain e' where e': "r' \<in> M" "heap_get h r' = Some e'" "ce_id e' = Some k" by (auto simp: key_graph_def)
  then have "fst (del_keys e' r' cache)" using del_keys_ok(2) [OF assms(1) e'(1,2)] by simp
  with f e' show ?thesis
    by (auto simp: silc_idcache_del_by_id_def silc_idcache_del_def Let_def split: prod.split)
qed

section \<open>The contract of the cache\<close>

text \<open>
  What the server relies on: a cache with members \<open>M\<close> whose IDs and contexts are unique, the
  effect of every operation on the members, and that a cache only depends on the cells of its own
  members.
\<close>

definition contexts_unique :: "cache_heap \<Rightarrow> entry_ref set \<Rightarrow> bool" where
  "contexts_unique h M \<longleftrightarrow>
     (\<forall>x r r'. (x, r) \<in> key_graph h M ce_context \<and> (x, r') \<in> key_graph h M ce_context \<longrightarrow> r = r')"

definition cache_inv :: "cache_heap \<Rightarrow> entry_ref set \<Rightarrow> silc_idcache \<Rightarrow> bool" where
  "cache_inv h M cache \<longleftrightarrow> cache_ok h M cache \<and> ids_unique h M \<and> contexts_unique h M"

locale id_cache =
  fixes inv :: "cache_heap \<Rightarrow> entry_ref set \<Rightarrow> 'cache \<Rightarrow> bool"
    and add :: "cache_heap \<Rightarrow> 'cache \<Rightarrow> byte list option \<Rightarrow> silc_id option \<Rightarrow> u64 option \<Rightarrow>
      entry_ref option \<times> cache_heap \<times> 'cache"
    and find_id :: "'cache \<Rightarrow> silc_id \<Rightarrow> entry_ref option"
    and del_context :: "cache_heap \<Rightarrow> 'cache \<Rightarrow> u64 \<Rightarrow> bool \<times> cache_heap \<times> 'cache"
    and update :: "cache_heap \<Rightarrow> 'cache \<Rightarrow> entry_ref \<Rightarrow> silc_id option \<Rightarrow> byte list option \<Rightarrow>
      bool \<times> cache_heap \<times> 'cache"
  assumes inv_member: "inv h M c \<Longrightarrow> r \<in> M \<Longrightarrow> heap_get h r \<noteq> None"
    and inv_frame: "inv h M c \<Longrightarrow> (\<And>r. r \<in> M \<Longrightarrow> heap_get h' r = heap_get h r) \<Longrightarrow> inv h' M c"
    and find_iff: "inv h M c \<Longrightarrow> find_id c i = Some r \<longleftrightarrow> (i, r) \<in> key_graph h M ce_id"
    and add_used: "inv h M c \<Longrightarrow> find_id c j \<noteq> None \<Longrightarrow>
      \<exists>c'. add h c n (Some j) x = (None, h @ [None], c') \<and> inv (h @ [None]) M c'"
    and add_free: "inv h M c \<Longrightarrow> (\<And>j. j_opt = Some j \<Longrightarrow> find_id c j = None) \<Longrightarrow>
      (\<And>r. (p, r) \<notin> key_graph h M ce_context) \<Longrightarrow>
      \<exists>c'. add h c n j_opt (Some p) =
        (Some (length h), h @ [Some \<lparr>ce_id = j_opt, ce_name = n, ce_context = Some p\<rparr>], c') \<and>
        inv (h @ [Some \<lparr>ce_id = j_opt, ce_name = n, ce_context = Some p\<rparr>]) (insert (length h) M) c'"
    and del_member: "inv h M c \<Longrightarrow> (p, r) \<in> key_graph h M ce_context \<Longrightarrow>
      \<exists>c'. del_context h c p = (True, h[r := None], c') \<and> inv (h[r := None]) (M - {r}) c'"
    and del_absent: "inv h M c \<Longrightarrow> (\<And>r. (p, r) \<notin> key_graph h M ce_context) \<Longrightarrow> del_context h c p = (False, h, c)"
    and update_member: "inv h M c \<Longrightarrow> r \<in> M \<Longrightarrow> heap_get h r = Some e \<Longrightarrow>
      (\<And>i r'. i' = Some i \<Longrightarrow> find_id c i = Some r' \<Longrightarrow> r' = r) \<Longrightarrow>
      \<exists>c'. update h c r i' n' = (True, h[r := Some (updated_entry i' n' e)], c') \<and>
        inv (h[r := Some (updated_entry i' n' e)]) M c'"
begin

lemma fresh: "inv h M c \<Longrightarrow> length h \<notin> M"
  using inv_member [of h M c "length h"] by auto

lemma find_none: "inv h M c \<Longrightarrow> find_id c i = None \<longleftrightarrow> (\<forall>r. (i, r) \<notin> key_graph h M ce_id)"
  using find_iff [of h M c i] by (metis not_None_eq)

text \<open>What is found after a change, in terms of what was found before.\<close>

lemma find_after_add:
  assumes "inv h M c" "inv (h @ [Some e]) (insert (length h) M) c'"
  shows "find_id c' i = (if ce_id e = Some i then Some (length h) else find_id c i)"
proof -
  have g: "(i, r) \<in> key_graph (h @ [Some e]) (insert (length h) M) ce_id \<longleftrightarrow>
      r = length h \<and> ce_id e = Some i \<or> (i, r) \<in> key_graph h M ce_id" for r
    unfolding key_graph_insert [OF fresh [OF assms(1)]] by (auto split: option.split)
  show ?thesis
  proof (cases "ce_id e = Some i")
    case True
    then have "find_id c' i = Some (length h)" using find_iff [OF assms(2)] g by simp
    with True show ?thesis by simp
  next
    case False
    then have "find_id c' i = Some r \<longleftrightarrow> find_id c i = Some r" for r
      using find_iff [OF assms(2)] find_iff [OF assms(1)] g by simp
    with False show ?thesis by (metis option.exhaust)
  qed
qed

lemma find_after_del:
  assumes "inv h M c" "inv (h[r := None]) (M - {r}) c'" "r < length h"
  shows "find_id c' i = (if find_id c i = Some r then None else find_id c i)"
proof -
  have "(i, r') \<in> key_graph (h[r := None]) (M - {r}) ce_id \<longleftrightarrow> (i, r') \<in> key_graph h M ce_id \<and> r' \<noteq> r" for r'
    using assms(3) by (auto simp: key_graph_def)
  then have "find_id c' i = Some r' \<longleftrightarrow> find_id c i = Some r' \<and> r' \<noteq> r" for r'
    using find_iff [OF assms(2)] find_iff [OF assms(1)] by simp
  then show ?thesis by (metis option.exhaust)
qed

lemma find_after_update:
  assumes "inv h M c" "inv (h[r := Some e']) M c'" "r \<in> M" "heap_get h r = Some e" "ce_id e' = Some j"
  shows "find_id c' i = (if i = j then Some r else if find_id c i = Some r then None else find_id c i)"
proof -
  have r: "r < length h" by (rule heap_get_less [OF assms(4)])
  have g: "(i, r') \<in> key_graph (h[r := Some e']) M ce_id \<longleftrightarrow>
      (if r' = r then i = j else (i, r') \<in> key_graph h M ce_id)" for r'
    using r assms(3,5) by (auto simp: key_graph_def)
  show ?thesis
  proof (cases "i = j")
    case True
    then show ?thesis using find_iff [OF assms(2), of i r] g by simp
  next
    case False
    then have "find_id c' i = Some r' \<longleftrightarrow> find_id c i = Some r' \<and> r' \<noteq> r" for r'
      using find_iff [OF assms(2)] find_iff [OF assms(1)] g by simp
    with False show ?thesis by (metis option.exhaust)
  qed
qed

end

lemma cache_ok_frame:
  "cache_ok h M cache \<Longrightarrow> (\<And>r. r \<in> M \<Longrightarrow> heap_get h' r = heap_get h r) \<Longrightarrow> cache_ok h' M cache"
  using key_graph_heap_cong [of M h' h ce_id] key_graph_heap_cong [of M h' h ce_name]
    key_graph_heap_cong [of M h' h ce_context] by (simp add: cache_ok_def)

lemma cache_inv_frame:
  assumes "cache_inv h M cache" "\<And>r. r \<in> M \<Longrightarrow> heap_get h' r = heap_get h r"
  shows "cache_inv h' M cache"
  using assms(1) cache_ok_frame [OF _ assms(2)] key_graph_heap_cong [OF assms(2), of M ce_id]
    key_graph_heap_cong [OF assms(2), of M ce_context]
  by (simp add: cache_inv_def ids_unique_def contexts_unique_def)

lemma find_by_context_iff:
  assumes "cache_inv h M cache"
  shows "(x, r) \<in> key_graph h M ce_context \<Longrightarrow> silc_hash_table_find (ic_context_table cache) x = Some (x, r)"
    and "(\<And>r. (x, r) \<notin> key_graph h M ce_context) \<Longrightarrow> silc_hash_table_find (ic_context_table cache) x = None"
proof -
  note t = cache_tables(3) [of h M cache]
  have ok: "cache_ok h M cache" and u: "contexts_unique h M" using assms by (simp_all add: cache_inv_def)
  note f = hk_ptr.table_of_find [OF t [OF ok], of x]
  show "silc_hash_table_find (ic_context_table cache) x = None" if "\<And>r. (x, r) \<notin> key_graph h M ce_context"
    using f(2) that by force
  show "silc_hash_table_find (ic_context_table cache) x = Some (x, r)" if m: "(x, r) \<in> key_graph h M ce_context"
  proof -
    obtain x' r' where e: "silc_hash_table_find (ic_context_table cache) x = Some (x', r')"
      using f(2) m by (cases "silc_hash_table_find (ic_context_table cache) x") force+
    from f(1) [OF e] have "x' = x" "(x, r') \<in> key_graph h M ce_context" by auto
    with u m have "r' = r" unfolding contexts_unique_def by blast
    with e \<open>x' = x\<close> show ?thesis by simp
  qed
qed

lemma cache_inv_add_used:
  assumes "cache_inv h M cache" "silc_idcache_find_by_id_one cache j \<noteq> None"
  shows "\<exists>cache'. silc_idcache_add h cache n (Some j) x = (None, h @ [None], cache') \<and>
    cache_inv (h @ [None]) M cache'"
proof -
  have ok: "cache_ok h M cache" "ids_unique h M" "contexts_unique h M" using assms(1) by (simp_all add: cache_inv_def)
  obtain ro h' cache' where a: "silc_idcache_add h cache n (Some j) x = (ro, h', cache')"
    by (cases "silc_idcache_add h cache n (Some j) x") auto
  with assms(2) have "ro = None" "h' = h @ [None]"
    by (auto simp: silc_idcache_add_def Let_def)
  with add_ok_spec [OF ok(1,2) a] ok(3) a show ?thesis
    by (auto simp: cache_inv_def contexts_unique_def key_graph_def split: if_splits)
qed

lemma cache_inv_add_free:
  fixes n :: "byte list option"
  assumes "cache_inv h M cache" "\<And>j. io = Some j \<Longrightarrow> silc_idcache_find_by_id_one cache j = None"
    "\<And>r. (p, r) \<notin> key_graph h M ce_context"
  defines "e \<equiv> \<lparr>ce_id = io, ce_name = n, ce_context = Some p\<rparr>"
  shows "\<exists>cache'. silc_idcache_add h cache n io (Some p) = (Some (length h), h @ [Some e], cache') \<and>
    cache_inv (h @ [Some e]) (insert (length h) M) cache'"
proof -
  have ok: "cache_ok h M cache" "ids_unique h M" "contexts_unique h M" using assms(1) by (simp_all add: cache_inv_def)
  have a: "silc_idcache_add h cache n io (Some p) = (Some (length h), h @ [Some e], add_keys e (length h) cache)"
    using assms(2) by (auto simp: silc_idcache_add_def Let_def e_def split: option.splits)
  have "contexts_unique (h @ [Some e]) (insert (length h) M)"
    using ok(3) assms(3) unfolding contexts_unique_def key_graph_insert [OF cache_heap_fresh [OF ok(1)]]
    by (auto simp: e_def)
  moreover have "\<not> (\<exists>j r. io = Some j \<and> (j, r) \<in> key_graph h M ce_id)"
    using assms(2) find_ok_spec [OF ok(1,2)] by (metis option.distinct(1))
  ultimately show ?thesis
    using a add_ok_spec [OF ok(1,2) a] by (simp add: cache_inv_def)
qed

lemma cache_inv_del:
  assumes "cache_inv h M cache" "(p, r) \<in> key_graph h M ce_context"
  shows "\<exists>cache'. silc_idcache_del_by_context h cache p = (True, h[r := None], cache') \<and>
    cache_inv (h[r := None]) (M - {r}) cache'"
proof -
  have ok: "cache_ok h M cache" "ids_unique h M" "contexts_unique h M" using assms(1) by (simp_all add: cache_inv_def)
  obtain e where e: "r \<in> M" "heap_get h r = Some e" "ce_context e = Some p"
    using assms(2) by (auto simp: key_graph_def)
  obtain ret h' cache' where d: "silc_idcache_del h cache r = (ret, h', cache')"
    by (cases "silc_idcache_del h cache r") auto
  note dk = del_ok_spec [OF ok(1) e(1,2) _ d]
  have ret: ret using dk e(3) by simp
  with d have h': "h' = h[r := None]" using e(2) by (auto simp: silc_idcache_del_def Let_def split: prod.splits)
  have g: "key_graph h' (M - {r}) sel \<subseteq> key_graph h M sel" for sel :: "silc_idcache_entry \<Rightarrow> 'k option"
    using h' heap_get_less [OF e(2)] by (auto simp: key_graph_def)
  have "ids_unique h' (M - {r})" "contexts_unique h' (M - {r})"
    using ok(2,3) g [of ce_id] g [of ce_context] unfolding ids_unique_def contexts_unique_def by blast+
  with dk e(3) d h' find_by_context_iff(1) [OF assms] show ?thesis
    by (simp add: cache_inv_def silc_idcache_del_by_context_def)
qed

lemma cache_inv_update:
  assumes "cache_inv h M cache" "r \<in> M" "heap_get h r = Some e"
    "\<And>i r'. new_id = Some i \<Longrightarrow> silc_idcache_find_by_id_one cache i = Some r' \<Longrightarrow> r' = r"
  shows "\<exists>cache'. silc_idcache_update h cache r new_id n = (True, h[r := Some (updated_entry new_id n e)], cache') \<and>
    cache_inv (h[r := Some (updated_entry new_id n e)]) M cache'"
proof -
  let ?h = "h[r := Some (updated_entry new_id n e)]"
  have ok: "cache_ok h M cache" "ids_unique h M" "contexts_unique h M" using assms(1) by (simp_all add: cache_inv_def)
  have r: "r < length h" by (rule heap_get_less [OF assms(3)])
  have ctx: "key_graph ?h M ce_context = key_graph h M ce_context"
    by (rule key_graph_same [OF assms(3)]) (simp add: updated_entry_def)
  have "ids_unique ?h M"
  proof (cases new_id)
    case None
    then have "key_graph ?h M ce_id = key_graph h M ce_id"
      by (intro key_graph_same [OF assms(3)]) (simp add: updated_entry_def)
    with ok(2) show ?thesis by (simp add: ids_unique_def)
  next
    case (Some i)
    have g: "key_graph ?h M ce_id = insert (i, r) (key_graph h (M - {r}) ce_id)"
      by (rule key_graph_set [OF assms(2) r]) (simp add: updated_entry_def Some)
    have sub: "key_graph h (M - {r}) ce_id \<subseteq> key_graph h M ce_id" by (auto simp: key_graph_def)
    have "(i, r') \<notin> key_graph h (M - {r}) ce_id" for r'
      using assms(4) [OF Some, of r'] find_ok_spec [OF ok(1,2)] by (auto simp: key_graph_def)
    with ok(2) sub show ?thesis unfolding ids_unique_def g by blast
  qed
  with update_ok_spec [OF ok(1) assms(2,3), of new_id n] ctx ok(3) show ?thesis
    by (auto simp: cache_inv_def contexts_unique_def)
qed

interpretation idcache: id_cache cache_inv silc_idcache_add silc_idcache_find_by_id_one
  silc_idcache_del_by_context silc_idcache_update
proof
  fix h M c i r assume "cache_inv h M c"
  then show "silc_idcache_find_by_id_one c i = Some r \<longleftrightarrow> (i, r) \<in> key_graph h M ce_id"
    using find_ok_spec [of h M c i r] by (simp add: cache_inv_def)
next
  fix h M c r assume "cache_inv h M c" "r \<in> M"
  then show "heap_get h r \<noteq> None" by (auto simp: cache_inv_def cache_ok_def)
next
  fix h M c p assume "cache_inv h M c" "\<And>r. (p, r) \<notin> key_graph h M ce_context"
  then show "silc_idcache_del_by_context h c p = (False, h, c)"
    using find_by_context_iff(2) [of h M c p] by (simp add: silc_idcache_del_by_context_def)
next
  fix h M c p r assume "cache_inv h M c" "(p, r) \<in> key_graph h M ce_context"
  then show "\<exists>c'. silc_idcache_del_by_context h c p = (True, h[r := None], c') \<and> cache_inv (h[r := None]) (M - {r}) c'"
    by (rule cache_inv_del)
next
  fix h M c and h' :: cache_heap
  assume "cache_inv h M c" "\<And>r. r \<in> M \<Longrightarrow> heap_get h' r = heap_get h r"
  then show "cache_inv h' M c" by (rule cache_inv_frame)
qed (fact cache_inv_add_used, fact cache_inv_add_free, fact cache_inv_update)

end
