(* ===== verification/Silc_Utf8.thy ===== *)
theory Silc_Utf8
  imports Silc_Hashfuncs
begin

text \<open>
  UTF-8 encoding and decoding, \<^verbatim>\<open>lib/silcutil/silcutf8.c\<close>.  A destination buffer is its size, or
  \<open>None\<close> when the caller passes no buffer; the result is the returned length together with the
  bytes written from the start of the buffer, so that a write past its end shows as more written
  bytes than its size.  Lengths are natural numbers: strings are far shorter than 32-bit lengths
  allow.  The conversions of the locale (\<open>iconv\<close>) and the reading of a two-digit hexadecimal
  number (\<open>sscanf\<close>) are parameters; \<open>isprint\<close> and \<open>isdigit\<close> are those of the C locale.
\<close>

unbundle bit_operations_syntax

section \<open>Encodings\<close>

datatype silc_string_encoding =
    SILC_STRING_ASCII | SILC_STRING_ASCII_ESC | SILC_STRING_BMP | SILC_STRING_BMP_LSB
  | SILC_STRING_UNIVERSAL | SILC_STRING_UNIVERSAL_LSB | SILC_STRING_LOCALE | SILC_STRING_UTF8
  | SILC_STRING_PRINTABLE | SILC_STRING_VISIBLE | SILC_STRING_TELETEX | SILC_STRING_NUMERICAL
  | SILC_STRING_LDAP_DN   \<comment> \<open>also \<open>SILC_STRING_UTF8_ESCAPE\<close>\<close>

definition SILC_GET16_LSB :: "byte list \<Rightarrow> u32" where
  "SILC_GET16_LSB cp = (ucast (cp ! 0) OR push_bit 8 (ucast (cp ! 1)))"

definition SILC_GET32_LSB :: "byte list \<Rightarrow> u32" where
  "SILC_GET32_LSB cp =
     (ucast (cp ! 0) OR push_bit 8 (ucast (cp ! 1))
      OR push_bit 16 (ucast (cp ! 2)) OR push_bit 24 (ucast (cp ! 3)))"

definition SILC_PUT16_LSB :: "u16 \<Rightarrow> byte list" where
  "SILC_PUT16_LSB l = [ucast l, ucast (drop_bit 8 l)]"

definition SILC_PUT32_LSB :: "u32 \<Rightarrow> byte list" where
  "SILC_PUT32_LSB l =
     [ucast l, ucast (drop_bit 8 l), ucast (drop_bit 16 l), ucast (drop_bit 24 l)]"

definition isprint :: "byte \<Rightarrow> bool" where
  "isprint c \<longleftrightarrow> 0x20 \<le> c \<and> c \<le> 0x7e"

definition isdigit :: "byte \<Rightarrow> bool" where
  "isdigit c \<longleftrightarrow> 0x30 \<le> c \<and> c \<le> 0x39"

section \<open>Characters\<close>

text \<open>The next character of a string in a given encoding, and the bytes after it.\<close>

fun read_char :: "silc_string_encoding \<Rightarrow> byte list \<Rightarrow> (u32 \<times> byte list) option" where
  "read_char enc [] = None"
| "read_char enc (b # r) =
     (case enc of
        SILC_STRING_ASCII \<Rightarrow> Some (ucast b, r)
      | SILC_STRING_TELETEX \<Rightarrow> Some (ucast b, r)
      | SILC_STRING_BMP \<Rightarrow> if length r < 1 then None else Some (SILC_GET16_MSB (b # r), drop 1 r)
      | SILC_STRING_BMP_LSB \<Rightarrow> if length r < 1 then None else Some (SILC_GET16_LSB (b # r), drop 1 r)
      | SILC_STRING_UNIVERSAL \<Rightarrow> if length r < 3 then None else Some (SILC_GET32_MSB (b # r), drop 3 r)
      | SILC_STRING_UNIVERSAL_LSB \<Rightarrow>
          if length r < 3 then None else Some (SILC_GET32_LSB (b # r), drop 3 r)
      | SILC_STRING_PRINTABLE \<Rightarrow> if \<not> isprint b then None else Some (ucast b, r)
      | SILC_STRING_VISIBLE \<Rightarrow> if \<not> isprint b then None else Some (ucast b, r)
      | SILC_STRING_NUMERICAL \<Rightarrow> if b \<noteq> 0x20 \<and> \<not> isdigit b then None else Some (ucast b, r)
      | _ \<Rightarrow> None)"

text \<open>
  The UTF-8 sequence of a character, up to six bytes for values of 31 bits: a leading byte with
  its marker and a continuation byte for every six bits.
\<close>

abbreviation utf8_lead :: "u32 \<Rightarrow> u32 \<Rightarrow> u32 \<Rightarrow> byte" where
  "utf8_lead m p x \<equiv> ucast ((x AND m) OR p)"

abbreviation utf8_tail :: "u32 \<Rightarrow> byte" where
  "utf8_tail x \<equiv> ucast ((x AND 0x3f) OR 0x80)"

definition utf8_char :: "u32 \<Rightarrow> byte list" where
  "utf8_char c =
     (if c < 0x80 then [ucast c]
      else if c < 0x800 then [utf8_lead 0x1f 0xc0 (drop_bit 6 c), utf8_tail c]
      else if c < 0x10000 then
        [utf8_lead 0xf 0xe0 (drop_bit 12 c), utf8_tail (drop_bit 6 c), utf8_tail c]
      else if c < 0x200000 then
        [utf8_lead 0x7 0xf0 (drop_bit 18 c), utf8_tail (drop_bit 12 c), utf8_tail (drop_bit 6 c),
         utf8_tail c]
      else if c < 0x4000000 then
        [utf8_lead 0x3 0xf8 (drop_bit 24 c), utf8_tail (drop_bit 18 c), utf8_tail (drop_bit 12 c),
         utf8_tail (drop_bit 6 c), utf8_tail c]
      else
        [utf8_lead 0x1 0xfc (drop_bit 30 c), utf8_tail (drop_bit 24 c), utf8_tail (drop_bit 18 c),
         utf8_tail (drop_bit 12 c), utf8_tail (drop_bit 6 c), utf8_tail c])"

text \<open>Whether the byte at a position continues a sequence, and the bits it carries.\<close>

definition utf8_cont :: "byte list \<Rightarrow> nat \<Rightarrow> bool" where
  "utf8_cont s i \<longleftrightarrow> s ! i AND 0xc0 = 0x80"

abbreviation cont_bits :: "byte list \<Rightarrow> nat \<Rightarrow> u32" where
  "cont_bits s i \<equiv> ucast (s ! i AND 0x3f)"

text \<open>The character at the front of a UTF-8 string and the number of its bytes.\<close>

definition decode_char :: "byte list \<Rightarrow> (u32 \<times> nat) option" where
  "decode_char s =
     (if s ! 0 AND 0x80 = 0 then Some (ucast (s ! 0 AND 0x7f), 1)
      else if s ! 0 AND 0xe0 = 0xc0 then
        if length s < 2 \<or> \<not> utf8_cont s 1 then None
        else let c = push_bit 6 (ucast (s ! 0 AND 0x1f)) OR cont_bits s 1 in
          if c < 0x80 then None else Some (c, 2)
      else if s ! 0 AND 0xf0 = 0xe0 then
        if length s < 3 \<or> \<not> utf8_cont s 1 \<or> \<not> utf8_cont s 2 then None
        else if s ! 0 = 0xed \<and> 0xa0 \<le> s ! 1 \<and> s ! 1 \<le> 0xbf \<and> 0x80 \<le> s ! 2 \<and> s ! 2 \<le> 0xbf then None
        else let c = push_bit 12 (ucast (s ! 0 AND 0xf)) OR push_bit 6 (cont_bits s 1) OR cont_bits s 2 in
          if c < 0x800 then None else Some (c, 3)
      else if s ! 0 AND 0xf8 = 0xf0 then
        if length s < 4 \<or> \<not> utf8_cont s 1 \<or> \<not> utf8_cont s 2 \<or> \<not> utf8_cont s 3 then None
        else let c = push_bit 18 (ucast (s ! 0 AND 0x7)) OR push_bit 12 (cont_bits s 1)
               OR push_bit 6 (cont_bits s 2) OR cont_bits s 3 in
          if c < 0x10000 then None else Some (c, 4)
      else if s ! 0 AND 0xfc = 0xf8 then
        if length s < 5 \<or> \<not> utf8_cont s 1 \<or> \<not> utf8_cont s 2 \<or> \<not> utf8_cont s 3 \<or> \<not> utf8_cont s 4 then None
        else let c = push_bit 24 (ucast (s ! 0 AND 0x3)) OR push_bit 18 (cont_bits s 1)
               OR push_bit 12 (cont_bits s 2) OR push_bit 6 (cont_bits s 3) OR cont_bits s 4 in
          if c < 0x200000 then None else Some (c, 5)
      else if s ! 0 AND 0xfe = 0xfc then
        if length s < 6 \<or> \<not> utf8_cont s 1 \<or> \<not> utf8_cont s 2 \<or> \<not> utf8_cont s 3 \<or> \<not> utf8_cont s 4
          \<or> \<not> utf8_cont s 5 then None
        else let c = push_bit 30 (ucast (s ! 0 AND 0x1)) OR push_bit 24 (cont_bits s 1)
               OR push_bit 18 (cont_bits s 2) OR push_bit 12 (cont_bits s 3)
               OR push_bit 6 (cont_bits s 4) OR cont_bits s 5 in
          if c < 0x4000000 then None else Some (c, 6)
      else None)"

section \<open>Encoding\<close>

type_synonym conversion = "nat \<times> byte list"   \<comment> \<open>the returned length and the written bytes\<close>

text \<open>A piece goes to the buffer, if there is one; the length counts it in any case.\<close>

definition put_piece :: "nat option \<Rightarrow> byte list \<Rightarrow> conversion \<Rightarrow> conversion" where
  "put_piece dst piece r = (fst r + length piece, if dst = None then snd r else snd r @ piece)"

text \<open>The check before a character of the buffer's space; for one byte it allows one too many.\<close>

definition encode_no_room :: "nat option \<Rightarrow> nat \<Rightarrow> u32 \<Rightarrow> bool" where
  "encode_no_room dst enclen c =
     (case dst of None \<Rightarrow> False
      | Some utf8_size \<Rightarrow>
          if c < 0x80 then enclen > utf8_size else enclen + length (utf8_char c) > utf8_size)"

lemma read_char_shorter: "read_char enc s = Some (c, r) \<Longrightarrow> length r < length s"
  by (cases s) (auto split: silc_string_encoding.splits if_splits)

function encode_loop :: "silc_string_encoding \<Rightarrow> byte list \<Rightarrow> nat option \<Rightarrow> conversion \<Rightarrow> conversion" where
  "encode_loop enc bin dst r =
     (if bin = [] then r
      else case read_char enc bin of
        None \<Rightarrow> (0, snd r)
      | Some (c, bin') \<Rightarrow>
          if encode_no_room dst (fst r) c then (0, snd r)
          else encode_loop enc bin' dst (put_piece dst (utf8_char c) r))"
  by auto
termination
  by (relation "measure (\<lambda>(_, bin, _, _). length bin)") (auto dest: read_char_shorter)

declare encode_loop.simps [simp del]

definition ldap_special :: "byte \<Rightarrow> bool" where
  "ldap_special cv \<longleftrightarrow> cv \<in> {0x2c, 0x2b, 0x22, 0x5c, 0x3c, 0x3e, 0x3b, 0x20, 0x23}"

text \<open>The next byte of a distinguished name with its escape removed, and the bytes after it.\<close>

definition unescape_char :: "(byte list \<Rightarrow> byte option) \<Rightarrow> byte list \<Rightarrow> (byte \<times> byte list) option" where
  "unescape_char sscanf_02X bin =
     (case bin of
        [] \<Rightarrow> None
      | b # bs \<Rightarrow>
          if b = 0x5c then
            (case bs of
               [] \<Rightarrow> None
             | cv # cs \<Rightarrow>
                 if \<not> ldap_special cv then
                   if cs = [] then None
                   else map_option (\<lambda>hexval. (hexval, drop 1 cs)) (sscanf_02X bs)
                 else Some (cv, cs))
          else Some (b, bs))"

lemma unescape_char_shorter: "unescape_char f s = Some (c, r) \<Longrightarrow> length r < length s"
  by (auto simp: unescape_char_def split: list.splits if_splits)

function unescape_loop ::
  "(byte list \<Rightarrow> byte option) \<Rightarrow> byte list \<Rightarrow> nat option \<Rightarrow> conversion \<Rightarrow> conversion" where
  "unescape_loop sscanf_02X bin dst r =
     (if bin = [] then r
      else case unescape_char sscanf_02X bin of
        None \<Rightarrow> (0, snd r)
      | Some (c, bin') \<Rightarrow>
          if (case dst of None \<Rightarrow> False | Some utf8_size \<Rightarrow> fst r + 1 > utf8_size) then (0, snd r)
          else unescape_loop sscanf_02X bin' dst (put_piece dst [c] r))"
  by auto
termination
  by (relation "measure (\<lambda>(_, bin, _, _). length bin)") (auto dest: unescape_char_shorter)

declare unescape_loop.simps [simp del]

text \<open>Decoding a piece of a character, for the encodings that decoding supports.\<close>

definition ldap_escape :: "nat \<Rightarrow> bool \<Rightarrow> byte \<Rightarrow> byte list" where
  "ldap_escape enclen last_char cv =
     (if enclen = 0 \<and> (cv = 0x23 \<or> cv = 0x20) then [0x5c, cv]
      else if last_char \<and> cv = 0x20 then [0x5c, cv]
      else if cv \<in> {0x2c, 0x2b, 0x22, 0x5c, 0x3c, 0x3e, 0x3b} then [0x5c, cv]
      else if \<not> isprint cv then
        (let hex = (\<lambda>d :: byte. if d < 10 then 0x30 + d else 0x37 + d) in
         [0x5c, hex (drop_bit 4 cv), hex (cv AND 0xf)])
      else [cv])"

fun put_escaped :: "nat option \<Rightarrow> bool \<Rightarrow> byte list \<Rightarrow> conversion \<Rightarrow> bool \<times> conversion" where
  "put_escaped dst last_char [] r = (True, r)"
| "put_escaped dst last_char (cv # cvs) r =
     (let piece = ldap_escape (fst r) last_char cv in
      if (case dst of None \<Rightarrow> False | Some bin_size \<Rightarrow> fst r + length piece > bin_size) then (False, r)
      else put_escaped dst last_char cvs (put_piece dst piece r))"

text \<open>The bytes of a character in the encodings that do not escape; larger values are truncated.\<close>

definition char_bytes :: "silc_string_encoding \<Rightarrow> u32 \<Rightarrow> byte list option" where
  "char_bytes enc c =
     (case enc of
        SILC_STRING_ASCII \<Rightarrow> Some [ucast c]
      | SILC_STRING_PRINTABLE \<Rightarrow> Some [ucast c]
      | SILC_STRING_VISIBLE \<Rightarrow> Some [ucast c]
      | SILC_STRING_TELETEX \<Rightarrow> Some [ucast c]
      | SILC_STRING_NUMERICAL \<Rightarrow> Some [ucast c]
      | SILC_STRING_BMP \<Rightarrow> Some (SILC_PUT16_MSB (ucast c))
      | SILC_STRING_BMP_LSB \<Rightarrow> Some (SILC_PUT16_LSB (ucast c))
      | SILC_STRING_UNIVERSAL \<Rightarrow> Some (SILC_PUT32_MSB c)
      | SILC_STRING_UNIVERSAL_LSB \<Rightarrow> Some (SILC_PUT32_LSB c)
      | _ \<Rightarrow> None)"

definition put_char ::
  "silc_string_encoding \<Rightarrow> nat option \<Rightarrow> u32 \<Rightarrow> byte list \<Rightarrow> bool \<Rightarrow> conversion \<Rightarrow> bool \<times> conversion" where
  "put_char enc dst c bytes last_char r =
     (if enc = SILC_STRING_LDAP_DN then put_escaped dst last_char bytes r
      else case char_bytes enc c of
        None \<Rightarrow> (False, r)
      | Some piece \<Rightarrow>
          if (case dst of None \<Rightarrow> False | Some bin_size \<Rightarrow> fst r + length piece > bin_size) then (False, r)
          else (True, put_piece dst piece r))"

lemma decode_char_length: "decode_char s = Some (c, n) \<Longrightarrow> s \<noteq> [] \<Longrightarrow> 0 < n \<and> n \<le> length s"
  by (cases s) (auto simp: decode_char_def Let_def Suc_le_eq split: if_splits)

function decode_loop :: "silc_string_encoding \<Rightarrow> byte list \<Rightarrow> nat option \<Rightarrow> conversion \<Rightarrow> conversion" where
  "decode_loop enc utf8 dst r =
     (if utf8 = [] then r
      else case decode_char utf8 of
        None \<Rightarrow> (0, snd r)
      | Some (c, bytes) \<Rightarrow>
          (case put_char enc dst c (take bytes utf8) (bytes = length utf8) r of
             (False, r') \<Rightarrow> (0, snd r')
           | (True, r') \<Rightarrow> decode_loop enc (drop bytes utf8) dst r'))"
  by auto
termination
  by (relation "measure (\<lambda>(_, s, _, _). length s)") (auto dest!: decode_char_length)

declare decode_loop.simps [simp del]

text \<open>Decoding; the conversion to the locale is only tried into a buffer.\<close>

definition silc_utf8_decode ::
  "(byte list \<Rightarrow> nat \<Rightarrow> byte list option) \<Rightarrow> byte list \<Rightarrow> silc_string_encoding \<Rightarrow> nat option \<Rightarrow> conversion" where
  "silc_utf8_decode iconv utf8 bin_encoding dst =
     (if utf8 = [] then (0, [])
      else if bin_encoding = SILC_STRING_UTF8 then
        if fst (decode_loop SILC_STRING_ASCII utf8 None (0, [])) = 0 \<or>
           length utf8 > (case dst of None \<Rightarrow> 0 | Some bin_size \<Rightarrow> bin_size) then (0, [])
        else (length utf8, utf8)
      else if bin_encoding = SILC_STRING_LOCALE then
        (case Option.bind dst (iconv utf8) of
           Some out \<Rightarrow> (length out, out)
         | None \<Rightarrow> decode_loop SILC_STRING_ASCII utf8 dst (0, []))
      else decode_loop bin_encoding utf8 dst (0, []))"

definition silc_utf8_valid :: "byte list \<Rightarrow> bool" where
  "silc_utf8_valid utf8 \<longleftrightarrow> fst (silc_utf8_decode (\<lambda>_ _. None) utf8 SILC_STRING_ASCII None) \<noteq> 0"

definition silc_utf8_encode ::
  "(byte list \<Rightarrow> nat \<Rightarrow> byte list option) \<Rightarrow> (byte list \<Rightarrow> byte option) \<Rightarrow>
     byte list \<Rightarrow> silc_string_encoding \<Rightarrow> nat option \<Rightarrow> conversion" where
  "silc_utf8_encode iconv sscanf_02X bin bin_encoding dst =
     (if bin = [] then (0, [])
      else if bin_encoding = SILC_STRING_UTF8 then
        if \<not> silc_utf8_valid bin then (0, [])
        else (case dst of
                None \<Rightarrow> (length bin, [])
              | Some utf8_size \<Rightarrow> if length bin > utf8_size then (0, []) else (length bin, bin))
      else if bin_encoding = SILC_STRING_LDAP_DN then unescape_loop sscanf_02X bin dst (0, [])
      else if bin_encoding = SILC_STRING_LOCALE then
        (case Option.bind dst (iconv bin) of
           Some out \<Rightarrow> (length out, out)
         | None \<Rightarrow> encode_loop SILC_STRING_ASCII bin dst (0, []))
      else encode_loop bin_encoding bin dst (0, []))"

definition silc_utf8_encoded_len ::
  "(byte list \<Rightarrow> nat \<Rightarrow> byte list option) \<Rightarrow> (byte list \<Rightarrow> byte option) \<Rightarrow>
     byte list \<Rightarrow> silc_string_encoding \<Rightarrow> nat" where
  "silc_utf8_encoded_len iconv sscanf_02X bin bin_encoding =
     fst (silc_utf8_encode iconv sscanf_02X bin bin_encoding None)"

definition silc_utf8_decoded_len ::
  "(byte list \<Rightarrow> nat \<Rightarrow> byte list option) \<Rightarrow> byte list \<Rightarrow> silc_string_encoding \<Rightarrow> nat" where
  "silc_utf8_decoded_len iconv bin bin_encoding = fst (silc_utf8_decode iconv bin bin_encoding None)"

section \<open>Characters and their sequences\<close>

text \<open>The characters that have a UTF-8 sequence: 31 bits and not a surrogate.\<close>

definition valid_char :: "u32 \<Rightarrow> bool" where
  "valid_char c \<longleftrightarrow> c < 0x80000000 \<and> \<not> (0xd800 \<le> c \<and> c \<le> 0xdfff)"

lemma bit_unat_less: "unat (c :: 32 word) < 2 ^ k \<Longrightarrow> bit c n \<Longrightarrow> n < k"
proof -
  assume "unat c < 2 ^ k" "bit c n"
  then have "take_bit k (unat c) = unat c" "bit (unat c) n"
    by (simp_all add: take_bit_nat_eq_self bit_simps)
  then show "n < k" by (metis bit_take_bit_iff)
qed

text \<open>Masking a leading or continuation byte.\<close>

lemma utf8_lead_and:
  "utf8_lead m p x AND q = (ucast x AND (ucast m AND q)) OR (ucast p AND q)"
  by (simp add: unsigned_or_eq unsigned_and_eq bit.conj_disj_distrib2 and.assoc)

lemma and_mask_u8: "a AND 0x7f = take_bit 7 a" "a AND 0x3f = take_bit 6 a" "a AND 0x1f = take_bit 5 a" "a AND 0xf = take_bit 4 a" "a AND 7 = take_bit 3 a"
  "a AND 3 = take_bit 2 a" "a AND 1 = take_bit 1 a" for a :: byte
  by (simp_all add: take_bit_eq_mask mask_eq_exp_minus_1)

lemma and_mask_u32: "a AND 0x7f = take_bit 7 a" "a AND 0x3f = take_bit 6 a" "a AND 0x1f = take_bit 5 a" "a AND 0xf = take_bit 4 a" "a AND 7 = take_bit 3 a"
  "a AND 3 = take_bit 2 a" "a AND 1 = take_bit 1 a" for a :: u32
  by (simp_all add: take_bit_eq_mask mask_eq_exp_minus_1)

text \<open>Reassembling a value from its leading bits and its six-bit groups.\<close>

lemma tail_value [simp]: "ucast (ucast (x :: u32) AND 0x3f :: byte) = x AND 0x3f"
  unfolding and_mask_u8 and_mask_u32 by (rule bit_word_eqI) (auto simp: bit_simps)

lemma lead_value:
  assumes "unat c < 2 ^ (k + m)" "m \<le> 8"
  shows "ucast (take_bit m (ucast (drop_bit k c) :: byte)) = drop_bit k (c :: u32)"
proof (rule bit_word_eqI)
  fix n
  have "bit c (k + n) \<Longrightarrow> n < m" using bit_unat_less [OF assms(1), of "k + n"] by simp
  with assms(2) show "bit (ucast (take_bit m (ucast (drop_bit k c) :: byte)) :: u32) n = bit (drop_bit k c) n"
    by (auto simp: bit_simps dest: bit_imp_le_length)
qed

lemma group_step:
  "push_bit (k + 6) (drop_bit (k + 6) c) OR push_bit k (drop_bit k c AND 0x3f) = push_bit k (drop_bit k (c :: u32))"
  unfolding and_mask_u32
proof (rule bit_word_eqI)
  fix n
  show "bit (push_bit (k + 6) (drop_bit (k + 6) c) OR push_bit k (take_bit 6 (drop_bit k c))) n =
      bit (push_bit k (drop_bit k c)) n"
    by (cases "n < k + 6") (auto simp: bit_simps)
qed

lemmas utf8_groups = group_step [of 0, simplified] group_step [of 6, simplified]
  group_step [of 12, simplified] group_step [of 18, simplified] group_step [of 24, simplified]



lemma byte_parts: "a AND q = p \<Longrightarrow> a = p OR (a AND NOT q)" for a :: byte
  by (metis bit.conj_disj_distrib bit.disj_cancel_right and.right_neutral)

lemma byte_not: "NOT 0xc0 = (0x3f :: byte)" "NOT 0xe0 = (0x1f :: byte)" "NOT 0xf0 = (0xf :: byte)"
  "NOT 0xf8 = (7 :: byte)" "NOT 0xfc = (3 :: byte)" "NOT 0xfe = (1 :: byte)"  "NOT 0x80 = (0x7f :: byte)"
  by code_simp+

lemma utf8_bytes:
  "a AND 0x80 = 0 \<Longrightarrow> a = take_bit 7 a"
  "a AND 0xc0 = 0x80 \<Longrightarrow> a = 0x80 OR take_bit 6 a"
  "a AND 0xe0 = 0xc0 \<Longrightarrow> a = 0xc0 OR take_bit 5 a"
  "a AND 0xf0 = 0xe0 \<Longrightarrow> a = 0xe0 OR take_bit 4 a"
  "a AND 0xf8 = 0xf0 \<Longrightarrow> a = 0xf0 OR take_bit 3 a"
  "a AND 0xfc = 0xf8 \<Longrightarrow> a = 0xf8 OR take_bit 2 a"
  "a AND 0xfe = 0xfc \<Longrightarrow> a = 0xfc OR take_bit 1 a" for a :: byte
  by (drule byte_parts, simp only: byte_not and_mask_u8 or.left_neutral)+

lemma nat_group: "r < 64 \<Longrightarrow> push_bit 6 m OR r = 64 * m + (r :: nat)"
proof -
  assume "r < 64"
  then have "r = take_bit 6 r" by (simp add: take_bit_nat_eq_self)
  moreover have "push_bit 6 m AND take_bit 6 r = 0" by (rule bit_eqI) (auto simp: bit_simps)
  ultimately have "push_bit 6 m + r = push_bit 6 m OR r" using disjunctive_add_eq_or by metis
  then show ?thesis by (simp add: push_bit_eq_mult)
qed

lemma unat_group3:
  "unat (push_bit 12 (ucast (take_bit 4 (a :: byte))) OR push_bit 6 (ucast (take_bit 6 (b :: byte)))
     OR (ucast (take_bit 6 (d :: byte)) :: u32)) = 4096 * (unat a mod 16) + 64 * (unat b mod 64) + unat d mod 64"
    (is "unat ?c = ?n")
proof -
  have e: "ucast (take_bit k x) = (of_nat (unat x mod 2 ^ k) :: u32)" for k and x :: byte
  proof -
    have "unat (take_bit k x) = unat x mod 2 ^ k" by (metis unsigned_take_bit_eq take_bit_eq_mod)
    then show ?thesis by (metis of_nat_unat)
  qed
  have "?c = of_nat (push_bit 6 (push_bit 6 (unat a mod 16) OR unat b mod 64) OR unat d mod 64)"
    unfolding e by (simp add: of_nat_or_eq push_bit_of_nat [symmetric] push_bit_or or.assoc)
  then have c: "?c = of_nat ?n" by (simp add: nat_group algebra_simps)
  have "?n < 2 ^ 32"
    using mod_less_divisor [of 16 "unat a"] mod_less_divisor [of 64 "unat b"] mod_less_divisor [of 64 "unat d"] by simp
  then have "take_bit LENGTH(32) ?n = ?n" by (simp add: take_bit_nat_eq_self)
  then show ?thesis unfolding c unsigned_of_nat by simp
qed

lemma unat_lead: 
  fixes a :: byte
  shows "a AND 0xf0 = 0xe0 \<Longrightarrow> unat a = 224 + unat a mod 16" "a AND 0xc0 = 0x80 \<Longrightarrow> unat a = 128 + unat a mod 64"
proof -
  have z: "224 AND take_bit 4 n = 0" "128 AND take_bit 6 n = 0" for n :: nat 
    by (simp_all add: take_bit_eq_mask mask_eq_exp_minus_1 and.left_commute [of 224] and.left_commute [of 128])
  show "unat a = 224 + unat a mod 16" if "a AND 0xf0 = 0xe0"
  proof -
    have "unat a = 224 OR take_bit 4 (unat a)" using arg_cong [OF utf8_bytes(4) [OF that], of unat]
      by (simp add: unsigned_or_eq unsigned_take_bit_eq)
    with disjunctive_add_eq_or [OF z(1) [of "unat a"]] show ?thesis by (simp add: take_bit_eq_mod)
  qed
  show "unat a = 128 + unat a mod 64" if "a AND 0xc0 = 0x80"
  proof -
    have "unat a = 128 OR take_bit 6 (unat a)" using arg_cong [OF utf8_bytes(2) [OF that], of unat]
      by (simp add: unsigned_or_eq unsigned_take_bit_eq)
    with disjunctive_add_eq_or [OF z(2) [of "unat a"]] show ?thesis by (simp add: take_bit_eq_mod)
  qed
qed

lemma surrogate_range:
  "A < 16 \<Longrightarrow> B < 64 \<Longrightarrow> D < (64 :: nat) \<Longrightarrow>
    55296 \<le> 4096 * A + 64 * B + D \<and> 4096 * A + 64 * B + D \<le> 57343 \<longleftrightarrow>
    224 + A = 237 \<and> 160 \<le> 128 + B"
  by (cases "A \<le> 12"; cases "A = 13"; cases "B < 32") linarith+

lemma surrogate_bytes:
  assumes "c = push_bit 12 (ucast (take_bit 4 (a :: byte))) OR push_bit 6 (ucast (take_bit 6 (b :: byte))) OR (ucast (take_bit 6 (d :: byte)) :: u32)"
    "a AND 0xf0 = 0xe0" "b AND 0xc0 = 0x80" "d AND 0xc0 = 0x80"
  shows "(0xd800 \<le> c \<and> c \<le> 0xdfff) \<longleftrightarrow> a = 0xed \<and> 0xa0 \<le> b \<and> b \<le> 0xbf \<and> 0x80 \<le> d \<and> d \<le> 0xbf"
proof -
  have n: "unat a = 224 + unat a mod 16" "unat b = 128 + unat b mod 64" "unat d = 128 + unat d mod 64"
    using unat_lead assms(2-4) by blast+
  have l: "unat a mod 16 < 16" "unat b mod 64 < 64" "unat d mod 64 < 64" by simp_all
  have ed: "a = 0xed \<longleftrightarrow> unat a = 237" by (auto intro: unsigned_word_eqI [where 'a = nat])
  have "unat b \<le> 191" "128 \<le> unat d" "unat d \<le> 191" using n l by linarith+
  then show ?thesis
    unfolding word_le_nat_alt ed assms(1) unat_group3
    using surrogate_range [OF l] n by simp
qed

lemmas utf8_unfold = decode_char_def utf8_char_def utf8_cont_def utf8_lead_and
    or.assoc [symmetric] utf8_groups

lemma decode_utf8_char:
  assumes "valid_char c"
  shows "decode_char (utf8_char c @ r) = Some (c, length (utf8_char c))"
proof -
  consider "c < 0x80" | "\<not> c < 0x80" "c < 0x800" | "\<not> c < 0x800" "c < 0x10000" | "\<not> c < 0x10000" "c < 0x200000" 
    | "\<not> c < 0x200000" "c < 0x4000000" | "\<not> c < 0x4000000" "c < 0x80000000" 
    using assms by (fastforce simp: valid_char_def)
  then show ?thesis
  proof cases
    case 1
    then have v: "ucast (ucast (drop_bit 0 c) AND 0x7f :: byte) = drop_bit 0 c"
      unfolding and_mask_u8 by (intro lead_value) (simp_all add: word_less_nat_alt)
    have "(ucast c :: byte) = ucast c AND 0x7f"
      using arg_cong [OF v, of "ucast :: u32 \<Rightarrow> byte"] by simp
    then have "ucast c AND 0x80 = (ucast c AND 0x7f) AND (0x80 :: byte)" by (rule arg_cong)
    then have "ucast c AND 0x80 = (0 :: byte)" by (simp add: and.assoc)
    with 1 v show ?thesis by (simp add: utf8_unfold)
  next
    case 2
    then have "ucast (ucast (drop_bit 6 c) AND 0x1f :: byte) = drop_bit 6 c"
      unfolding and_mask_u8 by (intro lead_value) (simp_all add: word_less_nat_alt)
    with 2 show ?thesis by (simp add: utf8_unfold)
  next
    case 3
    let ?a = "utf8_lead 0xf 0xe0 (drop_bit 12 c)" and ?b = "utf8_tail (drop_bit 6 c)" and ?d = "utf8_tail c"
    have l: "ucast (ucast (drop_bit 12 c) AND 0xf :: byte) = drop_bit 12 c"
      using 3 unfolding and_mask_u8 by (intro lead_value) (simp_all add: word_less_nat_alt)
    have v: "c = push_bit 12 (ucast (take_bit 4 ?a)) OR push_bit 6 (ucast (take_bit 6 ?b)) OR ucast (take_bit 6 ?d)"
      unfolding and_mask_u8 [symmetric] using l by (simp add: utf8_lead_and or.assoc [symmetric] utf8_groups)
    have "\<not> (?a = 0xed \<and> 0xa0 \<le> ?b \<and> ?b \<le> 0xbf \<and> 0x80 \<le> ?d \<and> ?d \<le> 0xbf)"
      using surrogate_bytes [OF v] assms by (auto simp: valid_char_def utf8_lead_and)
    moreover have "\<not> c < 0x80" using 3 by (simp add: word_less_nat_alt)
    ultimately show ?thesis using 3 l by (simp add: utf8_unfold)
  next
    case 4
    then have "ucast (ucast (drop_bit 18 c) AND 7 :: byte) = drop_bit 18 c" "\<not> c < 0x80" "\<not> c < 0x800"
      unfolding and_mask_u8 by (intro lead_value | simp add: word_less_nat_alt)+
    with 4 show ?thesis by (simp add: utf8_unfold)
  next
    case 5
    then have "ucast (ucast (drop_bit 24 c) AND 3 :: byte) = drop_bit 24 c" "\<not> c < 0x80" "\<not> c < 0x800" "\<not> c < 0x10000"
      unfolding and_mask_u8 by (intro lead_value | simp add: word_less_nat_alt)+
    with 5 show ?thesis by (simp add: utf8_unfold)
  next
    case 6
    then have "ucast (ucast (drop_bit 30 c) AND 1 :: byte) = drop_bit 30 c" "\<not> c < 0x80" "\<not> c < 0x800" "\<not> c < 0x10000" "\<not> c < 0x200000"
      unfolding and_mask_u8 by (intro lead_value | simp add: word_less_nat_alt)+
    with 6 show ?thesis by (simp add: utf8_unfold)
  qed
qed

definition group :: "u32 \<Rightarrow> byte \<Rightarrow> u32" where
  "group x b = (push_bit 6 x OR ucast (take_bit 6 b))"

lemma take_bit6_unat: "unat (take_bit 6 (b :: byte)) < 64"
  using take_bit_nat_less_exp [of 6 "unat b"] by (simp add: unsigned_take_bit_eq)

lemma group_parts:
  assumes "unat x < 2 ^ 26"
  shows "drop_bit 6 (group x b) = x" "take_bit 6 (group x b) = ucast (take_bit 6 b)"
    "unat (group x b) = 64 * unat x + unat (take_bit 6 b)"
proof -
  show "drop_bit 6 (group x b) = x"
  proof (rule bit_word_eqI)
    fix n
    show "bit (drop_bit 6 (group x b)) n = bit x n"
      using bit_unat_less [OF assms, of n]
      by (auto simp add: group_def bit_drop_bit_eq bit_or_iff bit_push_bit_iff bit_ucast_iff bit_take_bit_iff)
  qed
  show "take_bit 6 (group x b) = ucast (take_bit 6 b)"
    by (intro bit_word_eqI) (auto simp: group_def bit_simps)
  have "group x b = of_nat (push_bit 6 (unat x) OR unat (take_bit 6 b))"
    by (simp add: group_def of_nat_or_eq push_bit_of_nat [symmetric])
  also have "\<dots> = of_nat (64 * unat x + unat (take_bit 6 b))"
    by (simp only: nat_group [OF take_bit6_unat])
  finally have g: "group x b = of_nat (64 * unat x + unat (take_bit 6 b))" .
  have "64 * unat x + unat (take_bit 6 b) < 2 ^ LENGTH(32)" using assms take_bit6_unat [of b] by simp
  then have "take_bit LENGTH(32) (64 * unat x + unat (take_bit 6 b)) = 64 * unat x + unat (take_bit 6 b)"
    by (rule take_bit_nat_eq_self)
  then show "unat (group x b) = 64 * unat x + unat (take_bit 6 b)"
    unfolding g unsigned_of_nat by simp
qed

lemma group_less: "unat x < n \<Longrightarrow> n \<le> 2 ^ 26 \<Longrightarrow> unat (group x b) < 64 * n"
  using group_parts(3) [of x b] take_bit6_unat [of b] by simp

lemma tail_back: "take_bit 6 x = ucast (take_bit 6 b) \<Longrightarrow> b AND 0xc0 = 0x80 \<Longrightarrow> utf8_tail x = b"
  using utf8_bytes(2) [of b] by (simp add: and_mask_u32 unsigned_or_eq or.commute)

lemma lead_back:
  assumes "c = ucast (take_bit m a)" "a = p OR take_bit m (a :: byte)"
  shows "(ucast (c OR ucast p :: u32) :: byte) = a"
  using assms(2) by (simp add: assms(1) unsigned_or_eq or.commute)

lemma take_bit_lead: "unat (ucast (take_bit m (a :: byte)) :: u32) < 2 ^ m"
proof -
  have "unat x < 2 ^ 32" for x :: byte using unsigned_less [of x, where 'a = nat] by simp
  then have "unat (ucast x :: u32) = unat x" for x :: byte
    by (simp add: unsigned_ucast_eq take_bit_nat_eq_self)
  then show ?thesis using take_bit_nat_less_exp [of m "unat a"] by (simp only: unsigned_take_bit_eq)
qed


lemma group_sequences:
  fixes b d e f g :: byte
  shows "push_bit 12 x OR push_bit 6 (ucast (take_bit 6 b)) OR ucast (take_bit 6 d) = group (group x b) d"
    "push_bit 18 x OR push_bit 12 (ucast (take_bit 6 b)) OR push_bit 6 (ucast (take_bit 6 d)) OR
      ucast (take_bit 6 e) = group (group (group x b) d) e"
    "push_bit 24 x OR push_bit 18 (ucast (take_bit 6 b)) OR push_bit 12 (ucast (take_bit 6 d)) OR
      push_bit 6 (ucast (take_bit 6 e)) OR ucast (take_bit 6 f) = group (group (group (group x b) d) e) f"
    "push_bit 30 x OR push_bit 24 (ucast (take_bit 6 b)) OR push_bit 18 (ucast (take_bit 6 d)) OR
      push_bit 12 (ucast (take_bit 6 e)) OR push_bit 6 (ucast (take_bit 6 f)) OR ucast (take_bit 6 g) =
      group (group (group (group (group x b) d) e) f) g"
  by (simp_all add: group_def push_bit_or or.assoc)

lemma group_tail: "unat x < 2 ^ 26 \<Longrightarrow> b AND 0xc0 = 0x80 \<Longrightarrow> utf8_tail (group x b) = b"
  using group_parts(2) [of x b] tail_back by metis

lemma group_drop: "unat x < 2 ^ 26 \<Longrightarrow> drop_bit (k + 6) (group x b) = drop_bit k x"
  using group_parts(1) [of x b] drop_bit_drop_bit [of k 6 "group x b"] by metis

lemmas group_drops = group_drop [of _ 0, simplified] group_drop [of _ 6, simplified] group_drop [of _ 12, simplified]
  group_drop [of _ 18, simplified] group_drop [of _ 24, simplified]

lemma lead_tail:
  "a AND 0xe0 = 0xc0 \<Longrightarrow> utf8_lead 0x1f 0xc0 (ucast (take_bit 5 a)) = a"
  "a AND 0xf0 = 0xe0 \<Longrightarrow> utf8_lead 0xf 0xe0 (ucast (take_bit 4 a)) = a"
  "a AND 0xf8 = 0xf0 \<Longrightarrow> utf8_lead 7 0xf0 (ucast (take_bit 3 a)) = a"
  "a AND 0xfc = 0xf8 \<Longrightarrow> utf8_lead 3 0xf8 (ucast (take_bit 2 a)) = a"
  "a AND 0xfe = 0xfc \<Longrightarrow> utf8_lead 1 0xfc (ucast (take_bit 1 a)) = a"
proof -
  have t: "take_bit k (ucast (take_bit k a) :: u32) = ucast (take_bit k a)" for k
    by (rule bit_word_eqI) (auto simp: bit_simps)
  show "a AND 0xe0 = 0xc0 \<Longrightarrow> utf8_lead 0x1f 0xc0 (ucast (take_bit 5 a)) = a"
    using lead_back [OF refl, of a "0xc0" 5] utf8_bytes(3) [of a] by (simp add: and_mask_u32 t)
  show "a AND 0xf0 = 0xe0 \<Longrightarrow> utf8_lead 0xf 0xe0 (ucast (take_bit 4 a)) = a"
    using lead_back [OF refl, of a "0xe0" 4] utf8_bytes(4) [of a] by (simp add: and_mask_u32 t)
  show "a AND 0xf8 = 0xf0 \<Longrightarrow> utf8_lead 7 0xf0 (ucast (take_bit 3 a)) = a"
    using lead_back [OF refl, of a "0xf0" 3] utf8_bytes(5) [of a] by (simp add: and_mask_u32 t)
  show "a AND 0xfc = 0xf8 \<Longrightarrow> utf8_lead 3 0xf8 (ucast (take_bit 2 a)) = a"
    using lead_back [OF refl, of a "0xf8" 2] utf8_bytes(6) [of a] by (simp add: and_mask_u32 t)
  show "a AND 0xfe = 0xfc \<Longrightarrow> utf8_lead 1 0xfc (ucast (take_bit 1 a)) = a"
  proof -
    assume "a AND 0xfe = 0xfc"
    from lead_back [OF refl utf8_bytes(7) [OF this]]
    have "(ucast (ucast (take_bit 1 a) OR ucast (0xfc :: byte) :: u32) :: byte) = a" .
    moreover have "ucast (0xfc :: byte) = (0xfc :: u32)" by simp
    ultimately show ?thesis by (simp only: and_mask_u32 t)
  qed
qed

text \<open>The sequences of two to six bytes are determined by their values.\<close>

lemma utf8_unique2:
  assumes "a AND 0xe0 = 0xc0" "b AND 0xc0 = 0x80" "\<not> group (ucast (take_bit 5 a)) b < 0x80"
  shows "utf8_char (group (ucast (take_bit 5 a)) b) = [a, b] \<and> valid_char (group (ucast (take_bit 5 a)) b)"
proof -
  let ?x = "ucast (take_bit 5 a) :: u32" and ?c = "group (ucast (take_bit 5 a)) b"
  have x: "unat ?x < 32" using take_bit_lead [of 5 a] by simp
  have c: "unat ?c < 0x800" using group_less [OF x, of b] by simp
  have "utf8_char ?c = [utf8_lead 0x1f 0xc0 (drop_bit 6 ?c), utf8_tail ?c]"
    using c assms(3) unfolding utf8_char_def word_less_nat_alt by simp
  moreover have "drop_bit 6 ?c = ?x" "utf8_tail ?c = b" using x assms(2) by (simp_all add: group_drops group_tail)
  ultimately show ?thesis
    using c lead_tail(1) [OF assms(1)] by (simp add: valid_char_def word_less_nat_alt word_le_nat_alt)
qed

lemma utf8_unique3:
  assumes "a AND 0xf0 = 0xe0" "b AND 0xc0 = 0x80" "d AND 0xc0 = 0x80" "\<not> c < 0x800"
    "\<not> (a = 0xed \<and> 0xa0 \<le> b \<and> b \<le> 0xbf \<and> 0x80 \<le> d \<and> d \<le> 0xbf)"
    "c = group (group (ucast (take_bit 4 a)) b) d"
  shows "utf8_char c = [a, b, d] \<and> valid_char c"
proof -
  let ?x = "ucast (take_bit 4 a) :: u32" and ?y = "group (ucast (take_bit 4 a)) b"
  have x: "unat ?x < 16" using take_bit_lead [of 4 a] by simp
  have y: "unat ?y < 1024" using group_less [OF x, of b] by simp
  have c: "unat c < 0x10000" using group_less [OF y, of d] assms(6) by simp
  have "utf8_char c = [utf8_lead 0xf 0xe0 (drop_bit 12 c), utf8_tail (drop_bit 6 c), utf8_tail c]"
    using c assms(4) unfolding utf8_char_def word_less_nat_alt by simp
  moreover have "drop_bit 12 c = ?x" "drop_bit 6 c = ?y" "utf8_tail ?y = b" "utf8_tail c = d"
    using x y assms(2,3) unfolding assms(6) by (simp_all add: group_drops group_tail)
  moreover have "\<not> (0xd800 \<le> c \<and> c \<le> 0xdfff)"
    using surrogate_bytes [OF _ assms(1-3), of c] assms(5,6) group_sequences(1) [of "ucast (take_bit 4 a)" b d] by simp
  ultimately show ?thesis
    using c lead_tail(2) [OF assms(1)] by (simp add: valid_char_def word_less_nat_alt)
qed

lemma utf8_unique4:
  assumes "a AND 0xf8 = 0xf0" "b AND 0xc0 = 0x80" "d AND 0xc0 = 0x80" "e AND 0xc0 = 0x80" "\<not> c < 0x10000"
    "c = group (group (group (ucast (take_bit 3 a)) b) d) e"
  shows "utf8_char c = [a, b, d, e] \<and> valid_char c"
proof -
  let ?x = "ucast (take_bit 3 a) :: u32" and ?y = "group (ucast (take_bit 3 a)) b" and ?z = "group (group (ucast (take_bit 3 a)) b) d"
  have x: "unat ?x < 8" using take_bit_lead [of 3 a] by simp
  have y: "unat ?y < 512" using group_less [OF x, of b] by simp
  have z: "unat ?z < 32768" using group_less [OF y, of d] by simp
  have c: "unat c < 0x200000" using group_less [OF z, of e] assms(6) by simp
  have "utf8_char c = [utf8_lead 7 0xf0 (drop_bit 18 c), utf8_tail (drop_bit 12 c), utf8_tail (drop_bit 6 c), utf8_tail c]"
    using c assms(5) unfolding utf8_char_def word_less_nat_alt by simp
  moreover have "drop_bit 18 c = ?x" "drop_bit 12 c = ?y" "drop_bit 6 c = ?z" "utf8_tail ?y = b" "utf8_tail ?z = d" "utf8_tail c = e"
    using x y z assms(2-4) unfolding assms(6) by (simp_all add: group_drops group_tail)
  ultimately show ?thesis
    using c assms(5) lead_tail(3) [OF assms(1)] by (simp add: valid_char_def word_less_nat_alt word_le_nat_alt)
qed

lemma utf8_unique5:
  assumes "a AND 0xfc = 0xf8" "b AND 0xc0 = 0x80" "d AND 0xc0 = 0x80" "e AND 0xc0 = 0x80" "f AND 0xc0 = 0x80" "\<not> c < 0x200000"
    "c = group (group (group (group (ucast (take_bit 2 a)) b) d) e) f"
  shows "utf8_char c = [a, b, d, e, f] \<and> valid_char c"
proof -
  let ?x = "ucast (take_bit 2 a) :: u32" 
  let ?y = "group ?x b" let ?z = "group ?y d" let ?w = "group ?z e"
  have x: "unat ?x < 4" using take_bit_lead [of 2 a] by simp
  have y: "unat ?y < 256" using group_less [OF x, of b] by simp
  have z: "unat ?z < 16384" using group_less [OF y, of d] by simp
  have w: "unat ?w < 1048576" using group_less [OF z, of e] by simp
  have c: "unat c < 0x4000000" using group_less [OF w, of f] assms(7) by simp
  have "utf8_char c = [utf8_lead 3 0xf8 (drop_bit 24 c), utf8_tail (drop_bit 18 c), utf8_tail (drop_bit 12 c), utf8_tail (drop_bit 6 c), utf8_tail c]"
    using c assms(6) unfolding utf8_char_def word_less_nat_alt by simp
  moreover have "drop_bit 24 c = ?x" "drop_bit 18 c = ?y" "drop_bit 12 c = ?z" "drop_bit 6 c = ?w" "utf8_tail ?y = b" "utf8_tail ?z = d" "utf8_tail ?w = e" "utf8_tail c = f"
    using x y z w assms(2-5) unfolding assms(7) by (simp_all add: group_drops group_tail)
  ultimately show ?thesis
    using c assms(6) lead_tail(4) [OF assms(1)] by (simp add: valid_char_def word_less_nat_alt word_le_nat_alt)
qed

lemma utf8_unique6:
  assumes "a AND 0xfe = 0xfc" "b AND 0xc0 = 0x80" "d AND 0xc0 = 0x80" "e AND 0xc0 = 0x80" "f AND 0xc0 = 0x80" "g AND 0xc0 = 0x80"
    "\<not> c < 0x4000000" "c = group (group (group (group (group (ucast (take_bit 1 a)) b) d) e) f) g"
  shows "utf8_char c = [a, b, d, e, f, g] \<and> valid_char c"
proof -
  let ?x = "ucast (take_bit 1 a) :: u32" 
  let ?y = "group ?x b" let ?z = "group ?y d" let ?w = "group ?z e" let ?v = "group ?w f"
  have x: "unat ?x < 2" using take_bit_lead [of 1 a] by simp
  have y: "unat ?y < 128" using group_less [OF x, of b] by simp
  have z: "unat ?z < 8192" using group_less [OF y, of d] by simp
  have w: "unat ?w < 524288" using group_less [OF z, of e] by simp
  have v: "unat ?v < 33554432" using group_less [OF w, of f] by simp
  have c: "unat c < 0x80000000" using group_less [OF v, of g] assms(8) by simp
  have "utf8_char c = [utf8_lead 1 0xfc (drop_bit 30 c), utf8_tail (drop_bit 24 c), utf8_tail (drop_bit 18 c), utf8_tail (drop_bit 12 c), utf8_tail (drop_bit 6 c), utf8_tail c]"
    using c assms(7) unfolding utf8_char_def word_less_nat_alt by simp
  moreover have "drop_bit 30 c = ?x" "drop_bit 24 c = ?y" "drop_bit 18 c = ?z" "drop_bit 12 c = ?w" "drop_bit 6 c = ?v" "utf8_tail ?y = b" "utf8_tail ?z = d" "utf8_tail ?w = e" "utf8_tail ?v = f" "utf8_tail c = g"
    using x y z w v assms(2-6) unfolding assms(8) by (simp_all add: group_drops group_tail)
  ultimately show ?thesis
    using c assms(7) lead_tail(5) [OF assms(1)] by (simp add: valid_char_def word_less_nat_alt word_le_nat_alt)
qed

lemma decode_char_unique:
  assumes "decode_char s = Some (c, n)" "s \<noteq> []"
  shows "take n s = utf8_char c \<and> valid_char c"
proof -
  obtain a r where s: "s = a # r" using assms(2) by (cases s) auto
  show ?thesis
  proof (cases "a AND 0x80 = 0")
    case True
    then have "a = take_bit 7 a" by (rule utf8_bytes)
    moreover have c: "c = ucast (take_bit 7 a)" "n = 1" using assms(1) True by (simp_all add: decode_char_def s and_mask_u8)
    moreover have "unat c < 128" using take_bit_lead [of 7 a] c(1) by simp
    ultimately show ?thesis by (simp add: s utf8_char_def valid_char_def word_less_nat_alt word_le_nat_alt)
  next
    case False
    note d = assms(1) [unfolded decode_char_def s utf8_cont_def and_mask_u8]
    consider "a AND 0xe0 = 0xc0" | "a AND 0xe0 \<noteq> 0xc0" "a AND 0xf0 = 0xe0" 
      | "a AND 0xe0 \<noteq> 0xc0" "a AND 0xf0 \<noteq> 0xe0" "a AND 0xf8 = 0xf0"
      | "a AND 0xe0 \<noteq> 0xc0" "a AND 0xf0 \<noteq> 0xe0" "a AND 0xf8 \<noteq> 0xf0" "a AND 0xfc = 0xf8"
      | "a AND 0xe0 \<noteq> 0xc0" "a AND 0xf0 \<noteq> 0xe0" "a AND 0xf8 \<noteq> 0xf0" "a AND 0xfc \<noteq> 0xf8" "a AND 0xfe = 0xfc"
      using assms(1) False by (auto simp: decode_char_def s split: if_splits)
    then show ?thesis
    proof cases
      case 1
      with d False obtain b r' where r: "r = b # r'" by (cases r) auto
      have "c = group (ucast (take_bit 5 a)) b" "n = 2" "b AND 0xc0 = 0x80" "\<not> c < 0x80"
        using 1 False d by (auto simp: r Let_def group_def split: if_splits)
      with 1 utf8_unique2 [of a b] r s show ?thesis by simp
    next
      case 2
      with d False obtain b e r' where r: "r = b # e # r'" by (cases r; cases "tl r") auto
      have "c = group (group (ucast (take_bit 4 a)) b) e" "n = 3" "b AND 0xc0 = 0x80" "e AND 0xc0 = 0x80" "\<not> c < 0x800"
        "\<not> (a = 0xed \<and> 0xa0 \<le> b \<and> b \<le> 0xbf \<and> 0x80 \<le> e \<and> e \<le> 0xbf)"
        using 2 False d by (auto simp: r Let_def group_sequences(1) split: if_splits)
      with 2 utf8_unique3 [of a b e c] r s show ?thesis by simp
    next
      case 3
      with d False obtain b e f r' where r: "r = b # e # f # r'" by (cases r; cases "tl r"; cases "tl (tl r)") auto
      have "c = group (group (group (ucast (take_bit 3 a)) b) e) f" "n = 4" "b AND 0xc0 = 0x80" "e AND 0xc0 = 0x80"
        "f AND 0xc0 = 0x80" "\<not> c < 0x10000"
        using 3 False d by (auto simp: r Let_def group_sequences(2) split: if_splits)
      with 3 utf8_unique4 [of a b e f c] r s show ?thesis by simp
    next
      case 4
      with d False obtain b e f g r' where r: "r = b # e # f # g # r'"
        by (cases r; cases "tl r"; cases "tl (tl r)"; cases "tl (tl (tl r))") auto
      have "c = group (group (group (group (ucast (take_bit 2 a)) b) e) f) g" "n = 5" "b AND 0xc0 = 0x80"
        "e AND 0xc0 = 0x80" "f AND 0xc0 = 0x80" "g AND 0xc0 = 0x80" "\<not> c < 0x200000"
        using 4 False d by (auto simp: r Let_def group_sequences(3) split: if_splits)
      with 4 utf8_unique5 [of a b e f g c] r s show ?thesis by simp
    next
      case 5
      with d False obtain b e f g h r' where r: "r = b # e # f # g # h # r'"
        by (cases r; cases "tl r"; cases "tl (tl r)"; cases "tl (tl (tl r))"; cases "tl (tl (tl (tl r)))") auto
      have "c = group (group (group (group (group (ucast (take_bit 1 a)) b) e) f) g) h" "n = 6" "b AND 0xc0 = 0x80"
        "e AND 0xc0 = 0x80" "f AND 0xc0 = 0x80" "g AND 0xc0 = 0x80" "h AND 0xc0 = 0x80" "\<not> c < 0x4000000"
        using 5 False d by (auto simp del: take_bit_Suc_0 take_bit_of_1 simp: r Let_def group_sequences(4) split: if_splits)
      with 5 utf8_unique6 [of a b e f g h c] r s show ?thesis by simp
    qed
  qed
qed

section \<open>Strings\<close>

abbreviation utf8_string :: "u32 list \<Rightarrow> byte list" where
  "utf8_string cs \<equiv> concat (map utf8_char cs)"

lemma utf8_char_nonempty [simp]: "utf8_char c \<noteq> []"
  by (simp add: utf8_char_def)

definition dst_room :: "nat option \<Rightarrow> nat \<Rightarrow> bool" where
  "dst_room dst n = (case dst of None \<Rightarrow> True | Some k \<Rightarrow> n \<le> k)"

lemma dst_room_mono: "dst_room dst n \<Longrightarrow> m \<le> n \<Longrightarrow> dst_room dst m"
  by (auto simp: dst_room_def split: option.splits)

lemma put_piece_append: "put_piece dst b (put_piece dst a r) = put_piece dst (a @ b) r"
  by (simp add: put_piece_def)

lemma fst_put_piece [simp]: "fst (put_piece dst p r) = fst r + length p"
  by (simp add: put_piece_def)

lemma put_piece_nil [simp]: "put_piece dst [] r = r"
  by (simp add: put_piece_def)

lemma decode_char_prefix:
  "valid_char c \<Longrightarrow> decode_char (utf8_char c @ r) = Some (c, length (utf8_char c))"
  by (rule decode_utf8_char)

text \<open>
  A fixed-width encoding of characters: what decoding writes for a character, the reader of the
  encoder reads back.
\<close>

locale char_encoding =
  fixes enc :: silc_string_encoding
    and rep :: "u32 \<Rightarrow> bool"
    and bytes :: "u32 \<Rightarrow> byte list"
  assumes bytes_written: "char_bytes enc c = Some (bytes c)"
    and bytes_read: "rep c \<Longrightarrow> read_char enc (bytes c @ r) = Some (c, r)"
    and bytes_nonempty: "bytes c \<noteq> []"
    and no_escape: "enc \<noteq> SILC_STRING_LDAP_DN" "enc \<noteq> SILC_STRING_UTF8" "enc \<noteq> SILC_STRING_LOCALE"
begin

lemma decode_string:
  "\<forall>c \<in> set cs. valid_char c \<Longrightarrow> dst_room dst (fst r + length (concat (map bytes cs))) \<Longrightarrow>
    decode_loop enc (utf8_string cs) dst r = put_piece dst (concat (map bytes cs)) r"
proof (induction cs arbitrary: r)
  case Nil
  then show ?case by (subst decode_loop.simps) simp
next
  case (Cons c cs)
  have room: "dst_room dst (fst r + length (bytes c))" using Cons.prems(2) by (rule dst_room_mono) simp
  have "put_char enc dst c (take (length (utf8_char c)) (utf8_string (c # cs)))
      (length (utf8_char c) = length (utf8_string (c # cs))) r = (True, put_piece dst (bytes c) r)"
    using room by (auto simp: put_char_def bytes_written no_escape dst_room_def split: option.splits)
  moreover have "decode_loop enc (utf8_string cs) dst (put_piece dst (bytes c) r) =
      put_piece dst (bytes c @ concat (map bytes cs)) r"
    using Cons by (simp add: put_piece_append add.assoc)
  ultimately show ?case
    using decode_char_prefix [of c "utf8_string cs"] Cons.prems(1) by (subst decode_loop.simps) simp
qed

lemma encode_string:
  "\<forall>c \<in> set cs. rep c \<Longrightarrow> dst_room dst (fst r + length (utf8_string cs)) \<Longrightarrow>
    encode_loop enc (concat (map bytes cs)) dst r = put_piece dst (utf8_string cs) r"
proof (induction cs arbitrary: r)
  case Nil
  then show ?case by (subst encode_loop.simps) simp
next
  case (Cons c cs)
  have room: "dst_room dst (fst r + length (utf8_char c))" using Cons.prems(2) by (rule dst_room_mono) simp
  then have "\<not> encode_no_room dst (fst r) c"
    by (auto simp: encode_no_room_def dst_room_def split: option.splits)
  moreover have "read_char enc (bytes c @ concat (map bytes cs)) = Some (c, concat (map bytes cs))"
    using Cons.prems(1) by (simp add: bytes_read)
  moreover have "encode_loop enc (concat (map bytes cs)) dst (put_piece dst (utf8_char c) r) =
      put_piece dst (utf8_char c @ utf8_string cs) r"
    using Cons by (simp add: put_piece_append add.assoc)
  ultimately show ?case using bytes_nonempty [of c] by (subst encode_loop.simps) simp
qed

end

lemma ucast_byte_id: "c < 0x100 \<Longrightarrow> ucast (ucast (c :: u32) :: byte) = c"
  using lead_value [of c 0 8] by (simp add: word_less_nat_alt take_bit_word_eq_self)

lemma ucast_u16_id: "c < 0x10000 \<Longrightarrow> ucast (ucast (c :: u32) :: u16) = c"
proof (rule bit_word_eqI)
  fix n
  assume "c < 0x10000"
  then show "bit (ucast (ucast c :: u16) :: u32) n = bit c n"
    using bit_unat_less [of c 16 n] by (auto simp: bit_simps word_less_nat_alt)
qed

interpretation enc_ascii: char_encoding SILC_STRING_ASCII "\<lambda>c. c < 0x100" "\<lambda>c. [ucast c]"
  by unfold_locales (simp_all add: char_bytes_def ucast_byte_id)

interpretation enc_universal: char_encoding SILC_STRING_UNIVERSAL "\<lambda>c. True" SILC_PUT32_MSB
proof unfold_locales
  fix c r
  show "read_char SILC_STRING_UNIVERSAL (SILC_PUT32_MSB c @ r) = Some (c, r)"
    using GET32_PUT32 [of c r] by (simp add: SILC_PUT32_MSB_def)
qed (simp_all add: char_bytes_def SILC_PUT32_MSB_def)

interpretation enc_bmp: char_encoding SILC_STRING_BMP "\<lambda>c. c < 0x10000" "\<lambda>c. SILC_PUT16_MSB (ucast c)"
proof unfold_locales
  fix c :: u32 and r
  assume c: "c < 0x10000"
  let ?l = "SILC_PUT16_MSB (ucast c) @ r"
  have "SILC_GET16_MSB ?l = c"
  proof -
    have "unat (SILC_GET16_MSB ?l) = unat (ucast (SILC_GET16_MSB ?l) :: u16)" by simp
    also have "\<dots> = unat (ucast c :: u16)" by (simp only: GET16_PUT16)
    also have "\<dots> = unat (ucast (ucast c :: u16) :: u32)" by simp
    also have "\<dots> = unat c" by (simp only: ucast_u16_id [OF c])
    finally show ?thesis by (rule unsigned_word_eqI)
  qed
  then show "read_char SILC_STRING_BMP ?l = Some (c, r)" by (simp add: SILC_PUT16_MSB_def)
qed (simp_all add: char_bytes_def SILC_PUT16_MSB_def)

lemma GET32_PUT32_LSB: "SILC_GET32_LSB (SILC_PUT32_LSB l @ r) = l"
proof (rule bit_word_eqI)
  fix n :: nat
  assume "n < LENGTH(32)"
  then consider "n < 8" | "8 \<le> n" "n < 16" | "16 \<le> n" "n < 24" | "24 \<le> n" "n < 32" by fastforce
  then show "bit (SILC_GET32_LSB (SILC_PUT32_LSB l @ r)) n = bit l n"
    by cases (auto simp: SILC_GET32_LSB_def SILC_PUT32_LSB_def bit_simps)
qed

lemma GET16_PUT16_LSB: "c < 0x10000 \<Longrightarrow> SILC_GET16_LSB (SILC_PUT16_LSB (ucast c) @ r) = c"
proof (rule bit_word_eqI)
  fix n
  assume "c < 0x10000"
  then show "bit (SILC_GET16_LSB (SILC_PUT16_LSB (ucast c) @ r)) n = bit c n"
    using bit_unat_less [of c 16 n]
    by (auto simp: SILC_GET16_LSB_def SILC_PUT16_LSB_def bit_simps word_less_nat_alt)
qed

interpretation enc_universal_lsb: char_encoding SILC_STRING_UNIVERSAL_LSB "\<lambda>c. True" SILC_PUT32_LSB
proof unfold_locales
  fix c r
  show "read_char SILC_STRING_UNIVERSAL_LSB (SILC_PUT32_LSB c @ r) = Some (c, r)"
    using GET32_PUT32_LSB [of c r] by (simp add: SILC_PUT32_LSB_def)
qed (simp_all add: char_bytes_def SILC_PUT32_LSB_def)

interpretation enc_bmp_lsb: char_encoding SILC_STRING_BMP_LSB "\<lambda>c. c < 0x10000" "\<lambda>c. SILC_PUT16_LSB (ucast c)"
proof unfold_locales
  fix c :: u32 and r
  assume "c < 0x10000"
  from GET16_PUT16_LSB [OF this, of r]
  show "read_char SILC_STRING_BMP_LSB (SILC_PUT16_LSB (ucast c) @ r) = Some (c, r)"
    by (simp add: SILC_PUT16_LSB_def)
qed (simp_all add: char_bytes_def SILC_PUT16_LSB_def)

text \<open>Decoding to single bytes counts the characters, or returns 0.\<close>

lemma decode_count:
  "fst (decode_loop SILC_STRING_ASCII s None r) = n \<Longrightarrow> n \<noteq> 0 \<Longrightarrow> s \<noteq> [] \<Longrightarrow>
    \<exists>cs. cs \<noteq> [] \<and> (\<forall>c \<in> set cs. valid_char c) \<and> s = utf8_string cs"
proof (induction SILC_STRING_ASCII s "None :: nat option" r rule: decode_loop.induct)
  case (1 utf8 r)
  from 1(2-4) obtain c b where d: "decode_char utf8 = Some (c, b)"
    by (subst (asm) decode_loop.simps) (auto split: option.splits)
  have p: "put_char SILC_STRING_ASCII None c (take b utf8) (b = length utf8) r = (True, put_piece None [ucast c] r)"
    by (simp add: put_char_def char_bytes_def)
  have rest: "fst (decode_loop SILC_STRING_ASCII (drop b utf8) None (put_piece None [ucast c] r)) = n"
    using 1(2,4) d p by (subst (asm) decode_loop.simps) simp
  have u: "take b utf8 = utf8_char c" "valid_char c" using decode_char_unique [OF d 1(4)] by simp_all
  show ?case
  proof (cases "drop b utf8 = []")
    case True
    then have "utf8 = utf8_string [c]" using u(1) append_take_drop_id [of b utf8] by simp
    with u(2) show ?thesis by (intro exI [of _ "[c]"]) simp
  next
    case False
    with 1(1) [OF 1(4) d refl p [symmetric] refl rest 1(3)] obtain cs where
      cs: "\<forall>c \<in> set cs. valid_char c" "drop b utf8 = utf8_string cs" by blast
    then have "utf8 = utf8_string (c # cs)" using u(1) append_take_drop_id [of b utf8] by simp
    with u(2) cs(1) show ?thesis by (intro exI [of _ "c # cs"]) simp
  qed
qed

section \<open>Properties\<close>

text \<open>
  Property C35. A byte string passes the UTF-8 check exactly when it is the concatenation of the
  sequences of one or more characters of at most 31 bits that are no surrogates.  So no character
  has a second form that passes the check: overlong sequences are refused.
\<close>

theorem utf8_valid_iff:
  "silc_utf8_valid s \<longleftrightarrow> (\<exists>cs. cs \<noteq> [] \<and> (\<forall>c \<in> set cs. valid_char c) \<and> s = utf8_string cs)"
proof
  assume "silc_utf8_valid s"
  then show "\<exists>cs. cs \<noteq> [] \<and> (\<forall>c \<in> set cs. valid_char c) \<and> s = utf8_string cs"
    using decode_count [OF refl, of s "(0, [])"] by (auto simp: silc_utf8_valid_def silc_utf8_decode_def split: if_splits)
next
  assume "\<exists>cs. cs \<noteq> [] \<and> (\<forall>c \<in> set cs. valid_char c) \<and> s = utf8_string cs"
  then obtain cs where cs: "cs \<noteq> []" "\<forall>c \<in> set cs. valid_char c" "s = utf8_string cs" by blast
  then have "s \<noteq> []" by (cases cs) auto
  then show "silc_utf8_valid s"
    using cs enc_ascii.decode_string [OF cs(2), of None "(0, [])"]
    by (simp add: silc_utf8_valid_def silc_utf8_decode_def dst_room_def)
qed

theorem utf8_valid_iff_witness:
  "silc_utf8_valid [0x61, 0xc3, 0xa4]"
proof -
  have "utf8_string [0x61, 0xe4] = [0x61, 0xc3, 0xa4]" by (simp add: utf8_char_def)
  moreover have "\<forall>c \<in> set [0x61, 0xe4]. valid_char c" by (simp add: valid_char_def)
  ultimately show ?thesis using utf8_valid_iff [of "[0x61, 0xc3, 0xa4]"] by (metis list.distinct(1))
qed

definition rep_char :: "silc_string_encoding \<Rightarrow> u32 \<Rightarrow> bool" where
  "rep_char enc c = (case enc of
       SILC_STRING_ASCII \<Rightarrow> c < 0x100
     | SILC_STRING_BMP \<Rightarrow> c < 0x10000 | SILC_STRING_BMP_LSB \<Rightarrow> c < 0x10000
     | SILC_STRING_UNIVERSAL \<Rightarrow> True | SILC_STRING_UNIVERSAL_LSB \<Rightarrow> True
     | _ \<Rightarrow> False)"

abbreviation char_string :: "silc_string_encoding \<Rightarrow> u32 list \<Rightarrow> byte list" where
  "char_string enc cs \<equiv> concat (map (\<lambda>c. the (char_bytes enc c)) cs)"

lemma loops_roundtrip:
  assumes "\<forall>c \<in> set cs. valid_char c \<and> rep_char enc c" "cs \<noteq> []"
    "dst_room d1 (length (utf8_string cs))" "dst_room d2 (length (char_string enc cs))"
  shows "encode_loop enc (char_string enc cs) d1 (0, []) = put_piece d1 (utf8_string cs) (0, []) \<and>
    decode_loop enc (utf8_string cs) d2 (0, []) = put_piece d2 (char_string enc cs) (0, [])"
proof -
  have v: "\<forall>c \<in> set cs. valid_char c" using assms(1) by blast
  consider "enc = SILC_STRING_ASCII" | "enc = SILC_STRING_BMP" | "enc = SILC_STRING_BMP_LSB"
    | "enc = SILC_STRING_UNIVERSAL" | "enc = SILC_STRING_UNIVERSAL_LSB"
    using assms(1,2) by (cases enc; cases cs) (auto simp: rep_char_def)
  then show ?thesis
    using assms enc_ascii.encode_string enc_ascii.decode_string [OF v] enc_bmp.encode_string
      enc_bmp.decode_string [OF v] enc_bmp_lsb.encode_string enc_bmp_lsb.decode_string [OF v]
      enc_universal.encode_string enc_universal.decode_string [OF v]
      enc_universal_lsb.encode_string enc_universal_lsb.decode_string [OF v]
    by cases (simp_all add: char_bytes_def rep_char_def)
qed

text \<open>
  Property C36. A string in 8-bit, 16-bit or 32-bit characters (either byte order) whose characters
  are valid is encoded to its UTF-8 form, and decoding gives the string back; the length functions
  predict both lengths, and buffers of these lengths suffice.
\<close>

theorem utf8_roundtrip:
  assumes "\<forall>c \<in> set cs. valid_char c \<and> rep_char enc c" "cs \<noteq> []"
    "length (utf8_string cs) \<le> n" "length (char_string enc cs) \<le> m"
  shows "silc_utf8_encode iconv sscanf_02X (char_string enc cs) enc (Some n) = (length (utf8_string cs), utf8_string cs) \<and>
    silc_utf8_decode iconv (utf8_string cs) enc (Some m) = (length (char_string enc cs), char_string enc cs) \<and>
    silc_utf8_encoded_len iconv sscanf_02X (char_string enc cs) enc = length (utf8_string cs) \<and>
    silc_utf8_decoded_len iconv (utf8_string cs) enc = length (char_string enc cs)"
proof -
  have e: "rep_char enc (hd cs)" using assms(1,2) by simp
  then have ne: "enc \<noteq> SILC_STRING_UTF8" "enc \<noteq> SILC_STRING_LOCALE" "enc \<noteq> SILC_STRING_LDAP_DN"
    by (auto simp: rep_char_def)
  have "char_string enc cs \<noteq> []" "utf8_string cs \<noteq> []"
    using assms(2) e by (cases cs; cases enc; simp add: rep_char_def char_bytes_def SILC_PUT16_MSB_def
      SILC_PUT16_LSB_def SILC_PUT32_MSB_def SILC_PUT32_LSB_def)+
  with ne loops_roundtrip [OF assms(1,2), of "Some n" "Some m"] loops_roundtrip [OF assms(1,2), of None None] assms(3,4)
  show ?thesis
    by (simp add: silc_utf8_encode_def silc_utf8_decode_def silc_utf8_encoded_len_def
        silc_utf8_decoded_len_def dst_room_def put_piece_def)
qed

theorem utf8_roundtrip_witness:
  "silc_utf8_encode (\<lambda>_ _. None) (\<lambda>_. None) [0, 0, 0, 0xe4] SILC_STRING_UNIVERSAL (Some 2) = (2, [0xc3, 0xa4]) \<and>
    silc_utf8_decode (\<lambda>_ _. None) [0xc3, 0xa4] SILC_STRING_UNIVERSAL (Some 4) = (4, [0, 0, 0, 0xe4])"
proof -
  have "utf8_string [0xe4] = [0xc3, 0xa4]" by (simp add: utf8_char_def)
  moreover have "char_string SILC_STRING_UNIVERSAL [0xe4] = [0, 0, 0, 0xe4]"
    by (simp add: char_bytes_def SILC_PUT32_MSB_def)
  ultimately show ?thesis
    using utf8_roundtrip [of "[0xe4]" SILC_STRING_UNIVERSAL 2 4 "\<lambda>_ _. None" "\<lambda>_. None"]
    by (simp add: valid_char_def rep_char_def)
qed

text \<open>
  The check of the space for a one-byte character is off by one: a buffer of \<open>n\<close> bytes gets
  \<open>n + 1\<close> bytes written, and the call succeeds.
\<close>

lemma encode_writes_past_end:
  assumes "length bin = n + 1" "\<forall>b \<in> set bin. b < 0x80"
  shows "silc_utf8_encode iconv sscanf_02X bin SILC_STRING_ASCII (Some n) = (n + 1, bin)"
proof -
  have "encode_loop SILC_STRING_ASCII xs (Some n) r = put_piece (Some n) xs r"
    if "\<forall>b \<in> set xs. b < 0x80" "fst r + length xs \<le> n + 1" for xs and r :: conversion
    using that
  proof (induction xs arbitrary: r)
    case Nil
    then show ?case by (subst encode_loop.simps) simp
  next
    case (Cons b xs)
    have b: "(ucast b :: u32) < 0x80"
    proof -
      have "unat b < 2 ^ 32" using unat_u8_less [of b] by simp
      then show ?thesis using Cons.prems(1) by (simp add: word_less_nat_alt unsigned_ucast_eq take_bit_nat_eq_self)
    qed
    have "\<not> encode_no_room (Some n) (fst r) (ucast b)" using b Cons.prems(2) by (simp add: encode_no_room_def)
    moreover have "utf8_char (ucast b) = [b]" using b by (simp add: utf8_char_def)
    moreover have "encode_loop SILC_STRING_ASCII xs (Some n) (put_piece (Some n) [b] r) = put_piece (Some n) ([b] @ xs) r"
      using Cons by (simp add: put_piece_append)
    ultimately show ?case by (subst encode_loop.simps) simp
  qed
  from this [of bin "(0, [])"] assms show ?thesis
    by (auto simp: silc_utf8_encode_def put_piece_def)
qed

end
