(* ===== verification/Silc_Stringprep.thy ===== *)
theory Silc_Stringprep
  imports Silc_Utf8
begin

text \<open>
  Preparation and checking of names: \<^verbatim>\<open>lib/silcutil/silcstringprep.c\<close>, the identifier checks
  of \<^verbatim>\<open>lib/silcapputil/silcapputil.c\<close>, \<open>silc_strncat\<close> of \<^verbatim>\<open>lib/silcutil/silcstrutil.c\<close> and
  \<open>silc_parse_userfqdn\<close> of \<^verbatim>\<open>lib/silcutil/silcutil.c\<close>.  The function \<open>stringprep\<close> of GNU Libidn
  is a parameter: it prepares a string in a buffer of a given size with the steps of a profile.
\<close>

section \<open>Profiles\<close>

text \<open>A table is a list of ranges; a range whose end is 0 is one character.\<close>

type_synonym prep_range = "u32 \<times> u32"

definition silc_appendix_c :: "prep_range list" where
  "silc_appendix_c = [(0x21, 0), (0x2a, 0), (0x2c, 0), (0x3f, 0), (0x40, 0)]"

definition silc_appendix_d :: "prep_range list" where
  "silc_appendix_d =
    [(0xa2, 0xa9), (0xac, 0x0), (0xae, 0x0), (0xaf, 0x0), (0xb0, 0x0), (0xb1, 0x0),
     (0xb4, 0x0), (0xb6, 0x0), (0xb8, 0x0), (0xd7, 0x0), (0xf7, 0x0), (0x2c2, 0x2c5),
     (0x2d2, 0x2ff), (0x374, 0x0), (0x375, 0x0), (0x384, 0x0), (0x385, 0x0), (0x3f6, 0x0),
     (0x482, 0x0), (0x60e, 0x0), (0x60f, 0x0), (0x6e9, 0x0), (0x6fd, 0x0), (0x6fe, 0x0),
     (0x9f2, 0x0), (0x9f3, 0x0), (0x9fa, 0x0), (0xaf1, 0x0), (0xb70, 0x0), (0xbf3, 0xbfa),
     (0xe3f, 0x0), (0xf01, 0xf03), (0xf13, 0xf17), (0xf1a, 0xf1f), (0xf34, 0x0), (0xf36, 0x0),
     (0xf38, 0x0), (0xfbe, 0x0), (0xfbf, 0x0), (0xfc0, 0xfc5), (0xfc7, 0xfcf), (0x17db, 0x0),
     (0x1940, 0x0), (0x19e0, 0x19ff), (0x1fbd, 0x0), (0x1fbf, 0x1fc1), (0x1fcd, 0x1fcf),
     (0x1fdd, 0x1fdf), (0x1fed, 0x1fef), (0x1ffd, 0x0), (0x1ffe, 0x0), (0x2044, 0x0),
     (0x2052, 0x0), (0x207a, 0x207c), (0x208a, 0x208c), (0x20a0, 0x20b1), (0x2100, 0x214f),
     (0x2150, 0x218f), (0x2190, 0x21ff), (0x2200, 0x22ff), (0x2300, 0x23ff), (0x2400, 0x243f),
     (0x2440, 0x245f), (0x2460, 0x24ff), (0x2500, 0x257f), (0x2580, 0x259f), (0x25a0, 0x25ff),
     (0x2600, 0x26ff), (0x2700, 0x27bf), (0x27c0, 0x27ef), (0x27f0, 0x27ff), (0x2800, 0x28ff),
     (0x2900, 0x297f), (0x2980, 0x29ff), (0x2a00, 0x2aff), (0x2b00, 0x2bff), (0x2e9a, 0x0),
     (0x2ef4, 0x2eff), (0x2ff0, 0x2fff), (0x303b, 0x303d), (0x3040, 0x0), (0x3095, 0x3098),
     (0x309f, 0x30a0), (0x30ff, 0x3104), (0x312d, 0x3130), (0x318f, 0x0), (0x31b8, 0x31ff),
     (0x321d, 0x321f), (0x3244, 0x325f), (0x327c, 0x327e), (0x32b1, 0x32bf), (0x32cc, 0x32cf),
     (0x32ff, 0x0), (0x3377, 0x337a), (0x33de, 0x33df), (0x33ff, 0x0), (0x4db6, 0x4dff),
     (0x9fa6, 0x9fff), (0xa48d, 0xa48f), (0xa4a2, 0xa4a3), (0xa4b4, 0x0), (0xa4c1, 0x0),
     (0xa4c5, 0x0), (0xa4c7, 0xabff), (0xd7a4, 0xd7ff), (0xfa2e, 0xfaff), (0xffe0, 0xffee),
     (0xfffc, 0x0), (0x10000, 0x1007f), (0x10080, 0x100ff), (0x10100, 0x1013f),
     (0x1d000, 0x1d0ff), (0x1d100, 0x1d1ff), (0x1d300, 0x1d35f), (0x1d400, 0x1d7ff),
     (0xe0100, 0xe01ef)]"

text \<open>The tables of RFC 3454 are part of the library.\<close>

datatype prep_table =
    RFC3454_A_1 | RFC3454_B_1 | RFC3454_B_2 | RFC3454_C_1_1 | RFC3454_C_1_2 | RFC3454_C_2_1
  | RFC3454_C_2_2 | RFC3454_C_3 | RFC3454_C_4 | RFC3454_C_5 | RFC3454_C_6 | RFC3454_C_7
  | RFC3454_C_8 | RFC3454_C_9 | Own_Table "prep_range list"

datatype prep_step =
    MAP_TABLE prep_table | NFKC | PROHIBIT_TABLE prep_table | UNASSIGNED_TABLE prep_table

type_synonym prep_profile = "prep_step list"

definition rfc_prohibited :: "prep_step list" where
  "rfc_prohibited = map PROHIBIT_TABLE
     [RFC3454_C_1_1, RFC3454_C_1_2, RFC3454_C_2_1, RFC3454_C_2_2, RFC3454_C_3, RFC3454_C_4,
      RFC3454_C_5, RFC3454_C_6, RFC3454_C_7, RFC3454_C_8, RFC3454_C_9, RFC3454_C_9]"

definition stringprep_silc_identifier_prep :: prep_profile where
  "stringprep_silc_identifier_prep =
     [MAP_TABLE RFC3454_B_1, MAP_TABLE RFC3454_B_2, NFKC] @ rfc_prohibited @
     [PROHIBIT_TABLE (Own_Table silc_appendix_c), PROHIBIT_TABLE (Own_Table silc_appendix_d),
      UNASSIGNED_TABLE RFC3454_A_1]"

definition stringprep_silc_identifier_ch_prep :: prep_profile where
  "stringprep_silc_identifier_ch_prep =
     [MAP_TABLE RFC3454_B_1, MAP_TABLE RFC3454_B_2, NFKC] @ rfc_prohibited @
     [PROHIBIT_TABLE (Own_Table silc_appendix_d), UNASSIGNED_TABLE RFC3454_A_1]"

definition stringprep_silc_identifierc_prep :: prep_profile where
  "stringprep_silc_identifierc_prep = [MAP_TABLE RFC3454_B_1, MAP_TABLE RFC3454_B_2, NFKC]"

definition stringprep_silc_casefold_prep :: prep_profile where
  "stringprep_silc_casefold_prep = [MAP_TABLE RFC3454_B_2, NFKC]"

datatype silc_stringprep_status =
    SILC_STRINGPREP_OK | SILC_STRINGPREP_ERR_UNASSIGNED | SILC_STRINGPREP_ERR_PROHIBITED
  | SILC_STRINGPREP_ERR_BIDI_PROHIBITED | SILC_STRINGPREP_ERR_BIDI_RAL_WITH_L
  | SILC_STRINGPREP_ERR_BIDI_RAL | SILC_STRINGPREP_ERR_OUT_OF_MEMORY | SILC_STRINGPREP_ERR_ENCODING
  | SILC_STRINGPREP_ERR_UNSUP_ENCODING | SILC_STRINGPREP_ERR_UNSUP_PROFILE | SILC_STRINGPREP_ERR

text \<open>The return codes of the library.\<close>

datatype stringprep_rc =
    STRINGPREP_OK | STRINGPREP_CONTAINS_UNASSIGNED | STRINGPREP_CONTAINS_PROHIBITED
  | STRINGPREP_BIDI_BOTH_L_AND_RAL | STRINGPREP_BIDI_LEADTRAIL_NOT_RAL
  | STRINGPREP_BIDI_CONTAINS_PROHIBITED | STRINGPREP_TOO_SMALL_BUFFER | STRINGPREP_PROFILE_ERROR
  | STRINGPREP_FLAG_ERROR | STRINGPREP_UNKNOWN_PROFILE | STRINGPREP_NFKC_FAILED | STRINGPREP_MALLOC_ERROR

text \<open>
  The parameters of the model: \<open>stringprep\<close> with the profile, whether unassigned characters are
  refused, the string and the size of its buffer, giving a code and the string that the buffer
  then holds; and the conversions of the UTF-8 functions.
\<close>

record prep_env =
  env_stringprep :: "prep_profile \<Rightarrow> bool \<Rightarrow> byte list \<Rightarrow> nat \<Rightarrow> stringprep_rc \<times> byte list"
  env_to_utf8 :: "byte list \<Rightarrow> nat \<Rightarrow> byte list option"
  env_from_utf8 :: "byte list \<Rightarrow> nat \<Rightarrow> byte list option"
  env_sscanf_02X :: "byte list \<Rightarrow> byte option"

definition prep_profile_of :: "string \<Rightarrow> prep_profile option" where
  "prep_profile_of profile_name =
     (if profile_name = ''silc-identifier-prep'' then Some stringprep_silc_identifier_prep
      else if profile_name = ''silc-identifier-ch-prep'' then Some stringprep_silc_identifier_ch_prep
      else if profile_name = ''silc-identifierc-prep'' then Some stringprep_silc_identifierc_prep
      else if profile_name = ''silc-casefold-prep'' then Some stringprep_silc_casefold_prep
      else None)"

abbreviation "SILC_IDENTIFIER_PREP \<equiv> ''silc-identifier-prep''"
abbreviation "SILC_IDENTIFIER_CH_PREP \<equiv> ''silc-identifier-ch-prep''"
abbreviation "SILC_IDENTIFIERC_PREP \<equiv> ''silc-identifierc-prep''"

fun prep_status :: "stringprep_rc \<Rightarrow> silc_stringprep_status" where
  "prep_status STRINGPREP_OK = SILC_STRINGPREP_OK"
| "prep_status STRINGPREP_CONTAINS_UNASSIGNED = SILC_STRINGPREP_ERR_UNASSIGNED"
| "prep_status STRINGPREP_CONTAINS_PROHIBITED = SILC_STRINGPREP_ERR_PROHIBITED"
| "prep_status STRINGPREP_BIDI_BOTH_L_AND_RAL = SILC_STRINGPREP_ERR_BIDI_RAL_WITH_L"
| "prep_status STRINGPREP_BIDI_LEADTRAIL_NOT_RAL = SILC_STRINGPREP_ERR_BIDI_RAL"
| "prep_status STRINGPREP_BIDI_CONTAINS_PROHIBITED = SILC_STRINGPREP_ERR_BIDI_PROHIBITED"
| "prep_status STRINGPREP_UNKNOWN_PROFILE = SILC_STRINGPREP_ERR_UNSUP_PROFILE"
| "prep_status STRINGPREP_MALLOC_ERROR = SILC_STRINGPREP_ERR_OUT_OF_MEMORY"
| "prep_status _ = SILC_STRINGPREP_ERR"

text \<open>
  Preparing a string.  The buffer has the length of the UTF-8 form; when the library finds it too
  small it is called once more with twice the size, on the string as it is then.
\<close>

definition silc_stringprep ::
  "prep_env \<Rightarrow> byte list option \<Rightarrow> silc_string_encoding \<Rightarrow> string \<Rightarrow> bool \<Rightarrow> bool \<Rightarrow>
     silc_string_encoding \<Rightarrow> silc_stringprep_status \<times> byte list option" where
  "silc_stringprep env bin bin_encoding profile_name allow_unassigned want_out out_encoding =
     (case bin of None \<Rightarrow> (SILC_STRINGPREP_ERR, None)
      | Some bin \<Rightarrow>
      if bin = [] then (SILC_STRINGPREP_ERR, None)
      else
        let utf8s_len = silc_utf8_encoded_len (env_to_utf8 env) (env_sscanf_02X env) bin bin_encoding in
        if utf8s_len = 0 then (SILC_STRINGPREP_ERR_ENCODING, None)
        else if \<not> silc_calloc_ok (utf8s_len + 1) 1 then (SILC_STRINGPREP_ERR_OUT_OF_MEMORY, None)
        else
          let utf8s = cstr (snd (silc_utf8_encode (env_to_utf8 env) (env_sscanf_02X env) bin bin_encoding
                                  (Some utf8s_len))) in
          (case prep_profile_of profile_name of
             None \<Rightarrow> (SILC_STRINGPREP_ERR_UNSUP_PROFILE, None)
           | Some profile \<Rightarrow>
               let (rc, utf8s) = env_stringprep env profile (\<not> allow_unassigned) utf8s utf8s_len;
                   (rc, utf8s) = (if rc = STRINGPREP_TOO_SMALL_BUFFER
                     then env_stringprep env profile (\<not> allow_unassigned) utf8s (utf8s_len * 2)
                     else (rc, utf8s)) in
               if prep_status rc \<noteq> SILC_STRINGPREP_OK \<or> \<not> want_out then (prep_status rc, None)
               else if out_encoding \<noteq> SILC_STRING_UTF8 then
                 (let out_len = silc_utf8_decoded_len (env_from_utf8 env) utf8s out_encoding in
                  if out_len = 0 then (SILC_STRINGPREP_ERR_ENCODING, None)
                  else (SILC_STRINGPREP_OK,
                        Some (snd (silc_utf8_decode (env_from_utf8 env) utf8s out_encoding (Some out_len)))))
               else (SILC_STRINGPREP_OK, Some utf8s)))"

section \<open>Identifiers\<close>

definition silc_identifier_check ::
  "prep_env \<Rightarrow> byte list option \<Rightarrow> silc_string_encoding \<Rightarrow> nat \<Rightarrow> byte list option" where
  "silc_identifier_check env identifier identifier_encoding max_allowed_length =
     (case identifier of None \<Rightarrow> None
      | Some i \<Rightarrow>
          if i = [] then None
          else if max_allowed_length \<noteq> 0 \<and> length i > max_allowed_length then None
          else
            let (status, utf8s) = silc_stringprep env identifier identifier_encoding SILC_IDENTIFIER_PREP
                  False True SILC_STRING_UTF8 in
            if status \<noteq> SILC_STRINGPREP_OK then None else utf8s)"

definition silc_identifier_verify ::
  "prep_env \<Rightarrow> byte list option \<Rightarrow> silc_string_encoding \<Rightarrow> nat \<Rightarrow> bool" where
  "silc_identifier_verify env identifier identifier_encoding max_allowed_length =
     (case identifier of None \<Rightarrow> False
      | Some i \<Rightarrow>
          if i = [] then False
          else if max_allowed_length \<noteq> 0 \<and> length i > max_allowed_length then False
          else
            fst (silc_stringprep env identifier identifier_encoding SILC_IDENTIFIER_PREP False False
                   SILC_STRING_UTF8) = SILC_STRINGPREP_OK)"

definition silc_channel_name_check ::
  "prep_env \<Rightarrow> byte list option \<Rightarrow> silc_string_encoding \<Rightarrow> nat \<Rightarrow> byte list option" where
  "silc_channel_name_check env identifier identifier_encoding max_allowed_length =
     (case identifier of None \<Rightarrow> None
      | Some i \<Rightarrow>
          if i = [] then None
          else if max_allowed_length \<noteq> 0 \<and> length i > max_allowed_length then None
          else
            let (status, utf8s) = silc_stringprep env identifier identifier_encoding SILC_IDENTIFIER_CH_PREP
                  False True SILC_STRING_UTF8 in
            if status \<noteq> SILC_STRINGPREP_OK then None else utf8s)"

definition silc_channel_name_verify ::
  "prep_env \<Rightarrow> byte list option \<Rightarrow> silc_string_encoding \<Rightarrow> nat \<Rightarrow> bool" where
  "silc_channel_name_verify env identifier identifier_encoding max_allowed_length =
     (case identifier of None \<Rightarrow> False
      | Some i \<Rightarrow>
          if i = [] then False
          else if max_allowed_length \<noteq> 0 \<and> length i > max_allowed_length then False
          else
            fst (silc_stringprep env identifier identifier_encoding SILC_IDENTIFIER_CH_PREP False False
                   SILC_STRING_UTF8) = SILC_STRINGPREP_OK)"

text \<open>
  Comparison without case.  It compares as many bytes of the prepared strings as the first
  argument has, or as many as \<open>n\<close> says; \<open>None\<close> is a read past the end of a prepared string,
  whose copy ends in a zero.
\<close>

definition memcmp_eq :: "byte list \<Rightarrow> byte list \<Rightarrow> nat \<Rightarrow> bool option" where
  "memcmp_eq a b n =
     (if n \<le> length a + 1 \<and> n \<le> length b + 1 then Some (take n (a @ [0]) = take n (b @ [0])) else None)"

definition silc_utf8_strncasecmp :: "prep_env \<Rightarrow> byte list \<Rightarrow> byte list \<Rightarrow> nat \<Rightarrow> bool option" where
  "silc_utf8_strncasecmp env s1 s2 n =
     (let prep = (\<lambda>s. silc_stringprep env (Some (take n s)) SILC_STRING_UTF8 SILC_IDENTIFIERC_PREP False True
                        SILC_STRING_UTF8) in
      case (prep s1, prep s2) of
        ((SILC_STRINGPREP_OK, Some s1u), (SILC_STRINGPREP_OK, Some s2u)) \<Rightarrow> memcmp_eq s1u s2u n
      | _ \<Rightarrow> Some False)"

definition silc_utf8_strcasecmp :: "prep_env \<Rightarrow> bool \<Rightarrow> byte list \<Rightarrow> byte list \<Rightarrow> bool option" where
  "silc_utf8_strcasecmp env same_pointer s1 s2 =
     (if same_pointer then Some True
      else if length (cstr s1) \<noteq> length (cstr s2) then Some False
      else silc_utf8_strncasecmp env (cstr s1) (cstr s2) (length (cstr s1)))"

section \<open>User names\<close>

text \<open>
  Concatenation into an array of \<open>dest_size\<close> bytes; \<open>None\<close> stands for a write outside of it.
  The source is a C string; the length that is left is a signed number.
\<close>

definition strncat_mem :: "byte list \<Rightarrow> byte list \<Rightarrow> nat \<Rightarrow> byte list option" where
  "strncat_mem dest src n =
     (let d = cstr dest; s = take n (cstr src) in
      if length d + length s + 1 \<le> length dest
      then Some (d @ s @ [0] @ drop (length d + length s + 1) dest) else None)"

definition silc_strncat :: "byte list \<Rightarrow> byte list \<Rightarrow> u32 \<Rightarrow> byte list option" where
  "silc_strncat dest src src_len =
     (if dest = [] then None
      else
        let dest = dest[length dest - 1 := 0];
            len = of_nat (length dest) - 1 - of_nat (length (cstr dest)) :: u32 in
        if len < src_len then
          (if 0 <s len then strncat_mem dest src (unat len) else Some dest)
        else strncat_mem dest src (unat src_len))"

text \<open>
  Splitting \<open>user@fqdn\<close>.  The second array is cleared when the first one is given, so \<open>None\<close>
  also stands for a clearing through a null pointer with a non-zero size.
\<close>

definition silc_parse_userfqdn ::
  "byte list option \<Rightarrow> byte list option \<Rightarrow> byte list option \<Rightarrow>
     (nat \<times> byte list option \<times> byte list option) option" where
  "silc_parse_userfqdn string user fqdn =
     (if user = None \<and> fqdn = None then Some (0, user, fqdn)
      else
        let fqdn = (if user \<noteq> None then map_option (\<lambda>f. replicate (length f) 0) fqdn else fqdn);
            user = map_option (\<lambda>u. replicate (length u) 0) user;
            cat = (\<lambda>dst src n. case dst of None \<Rightarrow> Some None
                                | Some d \<Rightarrow> map_option Some (silc_strncat d src (of_nat n))) in
        case string of
          None \<Rightarrow> Some (0, user, fqdn)
        | Some s \<Rightarrow>
            let s = cstr s; at = length (takeWhile (\<lambda>c. c \<noteq> 0x40) s) in
            if s \<noteq> [] \<and> s ! 0 = 0x40 then
              map_option (\<lambda>u. (1, u, fqdn)) (cat user s (length s))
            else if at < length s then
              (case (cat user s at, cat fqdn (drop (at + 1) s) (length s - at - 1)) of
                 (Some u, Some f) \<Rightarrow> Some (2, u, f)
               | _ \<Rightarrow> None)
            else map_option (\<lambda>u. (1, u, fqdn)) (cat user s (length s)))"

text \<open>The list of modes: as many 32-bit numbers as the caller expects.\<close>

definition silc_get_mode_list :: "byte list \<Rightarrow> u32 \<Rightarrow> u32 list option" where
  "silc_get_mode_list mode_list mode_list_count =
     (if length mode_list div 4 \<noteq> unat mode_list_count then None
      else Some (map (\<lambda>i. SILC_GET32_MSB (drop (4 * i) mode_list)) [0..<unat mode_list_count]))"

section \<open>C strings\<close>

lemma cstr_nonzero [simp]: "0 \<notin> set (cstr s)"
  by (auto simp: cstr_def dest: set_takeWhileD)

lemma cstr_terminated [simp]: "0 \<notin> set s \<Longrightarrow> cstr (s @ 0 # r) = s"
  unfolding cstr_def by (induction s) auto

lemma cstr_id: "0 \<notin> set s \<Longrightarrow> cstr s = s"
  unfolding cstr_def by (rule takeWhile_eq_all_conv [THEN iffD2]) metis

lemma cstr_cstr [simp]: "cstr (cstr s) = cstr s"
  by (rule cstr_id) simp

lemma cstr_length_le: "length (cstr s) \<le> length s"
  by (simp add: cstr_def length_takeWhile_le)

lemma takeWhile_of_take: "takeWhile P (take n xs) = take n (takeWhile P xs)"
  by (induction xs arbitrary: n) (auto simp: take_Cons split: nat.split)

text \<open>Writing a zero to the last byte cuts the string to what fits before it.\<close>

lemma cstr_set_last:
  assumes "dest \<noteq> []"
  shows "cstr (dest[length dest - 1 := 0]) = take (length dest - 1) (cstr dest)"
proof -
  have d: "dest[length dest - 1 := 0] = butlast dest @ [0]"
    using assms by (metis append_butlast_last_id length_butlast list_update_length)
  have "cstr (butlast dest @ [0]) = takeWhile (\<lambda>c. c \<noteq> 0) (butlast dest)"
    unfolding cstr_def by (simp add: takeWhile_append takeWhile_eq_all_conv [THEN iffD2])
  also have "\<dots> = take (length dest - 1) (cstr dest)"
    unfolding cstr_def butlast_conv_take by (rule takeWhile_of_take)
  finally show ?thesis using d by simp
qed

lemma strncat_mem_ok:
  assumes "length (cstr dest) + length (take n (cstr src)) < length dest"
  shows "\<exists>d. strncat_mem dest src n = Some d \<and> length d = length dest \<and>
    cstr d = cstr dest @ take n (cstr src)"
proof -
  have "0 \<notin> set (cstr dest @ take n (cstr src))" by (auto dest: in_set_takeD)
  from cstr_terminated [OF this] assms show ?thesis
    by (auto simp: strncat_mem_def Let_def)
qed

text \<open>Concatenation fits, terminates the string and cuts what is too long.\<close>

lemma strncat_ok:
  assumes "dest \<noteq> []" "length dest < 2 ^ 31"
  shows "\<exists>d. silc_strncat dest src src_len = Some d \<and> length d = length dest \<and>
    cstr d = take (length dest - 1) (cstr dest @ take (unat src_len) (cstr src)) \<and> 0 \<in> set d"
proof -
  define e where "e = dest[length dest - 1 := 0]"
  define c where "c = cstr e"
  define n where "n = length e - 1 - length c"
  have c: "c = take (length dest - 1) (cstr dest)"
    unfolding c_def e_def by (rule cstr_set_last [OF assms(1)])
  have e1: "length e = length dest" by (simp add: e_def)
  have "length c \<le> length dest - 1" "0 < length dest" using assms(1) by (simp_all add: c)
  then have e: "length e = length dest" "length e = n + length c + 1" unfolding n_def e1 by linarith+
  have "(of_nat (length e) :: u32) = of_nat n + of_nat (length c) + 1"
    unfolding e(2) by simp
  then have len: "of_nat (length e) - 1 - of_nat (length (cstr e)) = (of_nat n :: u32)"
    unfolding c_def by (simp only: add_diff_cancel_right' add_diff_cancel)
  have n31: "n < 2 ^ 31" using assms(2) e by simp
  have un: "unat (of_nat n :: u32) = n" using n31 by (simp add: unsigned_of_nat take_bit_nat_eq_self)
  have pos: "0 <s (of_nat n :: u32) \<longleftrightarrow> 0 < n"
    using n31 by (simp add: word_sless_alt signed_of_nat signed_take_bit_int_eq_self)
  have step: "silc_strncat dest src src_len =
      (if of_nat n < src_len then (if 0 < n then strncat_mem e src n else Some e)
       else strncat_mem e src (unat src_len))"
    unfolding silc_strncat_def Let_def e_def [symmetric] len pos un using assms(1) by simp
  have r: "\<exists>d. silc_strncat dest src src_len = Some d \<and> length d = length dest \<and>
      cstr d = c @ take (min n (unat src_len)) (cstr src)"
  proof (cases "of_nat n < src_len \<and> n = 0")
    case True
    then show ?thesis by (auto simp: step c_def e(1))
  next
    case False
    define k where "k = min n (unat src_len)"
    have "silc_strncat dest src src_len = strncat_mem e src k"
      using False by (auto simp: step k_def word_less_nat_alt un min_def)
    moreover have "length (cstr e) + length (take k (cstr src)) < length e"
      unfolding e(2) c_def [symmetric] by (simp add: k_def)
    ultimately show ?thesis
      using strncat_mem_ok [of e k src] by (simp add: c_def [symmetric] k_def e(1))
  qed
  moreover have "c @ take (min n (unat src_len)) (cstr src) =
      take (length dest - 1) (cstr dest @ take (unat src_len) (cstr src))"
  proof -
    have "n = length dest - 1 - length (cstr dest)" unfolding n_def e1 c by (simp add: min_def)
    then show ?thesis unfolding c take_append take_take by simp
  qed
  moreover have "0 \<in> set d" if "cstr d = take (length dest - 1) s" "length d = length dest" for d s
  proof (rule ccontr)
    assume "0 \<notin> set d"
    with that(1) have "take (length dest - 1) s = d" using cstr_id by simp
    then have "length d \<le> length dest - 1" by (metis length_take min.cobounded2)
    with that(2) assms(1) show False by (cases dest) auto
  qed
  ultimately show ?thesis by metis
qed

text \<open>
  Property C34. \<open>silc_strncat\<close> never writes outside of the destination, whatever it and the
  source hold; afterwards the destination is a terminated string: what it held followed by the
  source, cut to the size of the destination.
\<close>

theorem strncat_spec:
  assumes "dest \<noteq> []" "length dest < 2 ^ 31"
  shows "\<exists>d. silc_strncat dest src src_len = Some d \<and> length d = length dest \<and>
    cstr d = take (length dest - 1) (cstr dest @ take (unat src_len) (cstr src)) \<and> 0 \<in> set d"
  by (rule strncat_ok [OF assms])

theorem strncat_spec_witness:
  "\<exists>d. silc_strncat [97, 0, 0] [98, 99, 100] 3 = Some d \<and> cstr d = [97, 98]"
  using strncat_spec [of "[97, 0, 0]" "[98, 99, 100]" 3] by (auto simp: cstr_def)

section \<open>Splitting user names\<close>

lemma strncat_cleared:
  assumes "d \<noteq> []" "length d < 2 ^ 31" "n < 2 ^ 32"
  shows "\<exists>d'. silc_strncat (replicate (length d) 0) src (of_nat n) = Some d' \<and> length d' = length d \<and>
    cstr d' = take (length d - 1) (take n (cstr src))"
proof -
  have "unat (of_nat n :: u32) = n" using assms(3) by (simp add: unsigned_of_nat take_bit_nat_eq_self)
  moreover have "cstr (replicate (length d) 0) = []" using assms(1) by (cases d) (simp_all add: cstr_def)
  ultimately show ?thesis using strncat_ok [of "replicate (length d) 0" src "of_nat n"] assms by auto
qed

text \<open>
  A string \<open>user@fqdn\<close> is split at its first \<open>@\<close>: both arrays get their part, cut to
  their sizes and terminated, and the result is 2.  Without an \<open>@\<close>, or with one as the first
  character, the whole string is the user, the other array is empty and the result is 1.
\<close>

lemma userfqdn_split:
  assumes "u \<noteq> []" "length u < 2 ^ 31" "f \<noteq> []" "length f < 2 ^ 31" "0 \<notin> set s" "length s < 2 ^ 32"
  shows "\<exists>k u' f'. silc_parse_userfqdn (Some s) (Some u) (Some f) = Some (k, Some u', Some f') \<and>
    length u' = length u \<and> length f' = length f \<and>
    (if 0x40 \<notin> set s \<or> hd s = 0x40 then k = 1 \<and> cstr u' = take (length u - 1) s \<and> cstr f' = []
     else k = 2 \<and> cstr u' = take (length u - 1) (takeWhile (\<lambda>c. c \<noteq> 0x40) s) \<and>
       cstr f' = take (length f - 1) (tl (dropWhile (\<lambda>c. c \<noteq> 0x40) s)))"
proof -
  let ?t = "takeWhile (\<lambda>c. c \<noteq> 0x40) s" and ?d = "dropWhile (\<lambda>c. c \<noteq> 0x40) s"
  have s: "cstr s = s" by (rule cstr_id [OF assms(5)])
  have at: "length ?t < length s \<longleftrightarrow> 0x40 \<in> set s"
  proof -
    have "length s = length ?t + length ?d" by (metis length_append takeWhile_dropWhile_id)
    moreover have "?d = [] \<longleftrightarrow> 0x40 \<notin> set s" by (auto simp: dropWhile_eq_Nil_conv)
    ultimately show ?thesis by (cases "?d = []") auto
  qed
  have d: "?d = drop (length ?t) s" by (rule dropWhile_eq_drop)
  have hd: "s \<noteq> [] \<and> s ! 0 = 0x40 \<longleftrightarrow> 0x40 \<in> set s \<and> hd s = 0x40" by (cases s) auto
  have empty: "cstr (replicate (length f) 0) = []" using assms(3) by (cases f) (simp_all add: cstr_def)
  obtain u1 where u1: "silc_strncat (replicate (length u) 0) s (of_nat (length s)) = Some u1"
    "length u1 = length u" "cstr u1 = take (length u - 1) s"
    using strncat_cleared [OF assms(1,2,6), of s] s by auto
  have tl: "length ?t \<le> length s" by (rule length_takeWhile_le)
  obtain u2 where u2: "silc_strncat (replicate (length u) 0) s (of_nat (length ?t)) = Some u2"
    "length u2 = length u" "cstr u2 = take (length u - 1) ?t"
    using strncat_cleared [OF assms(1,2), of "length ?t" s] tl assms(6) s by (auto simp: takeWhile_eq_take [symmetric])
  have "0 \<notin> set (drop (length ?t + 1) s)" using assms(5) by (metis in_set_dropD)
  then have ds: "cstr (drop (length ?t + 1) s) = drop (length ?t + 1) s" by (rule cstr_id)
  obtain f2 where f2: "silc_strncat (replicate (length f) 0) (drop (length ?t + 1) s) (of_nat (length s - length ?t - 1)) = Some f2"
    "length f2 = length f" "cstr f2 = take (length f - 1) (tl ?d)"
  proof -
    let ?r = "drop (length ?t + 1) s"
    have n: "length s - length ?t - 1 = length ?r" by simp
    have "tl ?d = ?r" unfolding d by (simp add: tl_drop drop_Suc)
    moreover have "length ?r < 2 ^ 32" using assms(6) by simp
    ultimately show ?thesis
      using strncat_cleared [OF assms(3,4), of "length ?r" ?r] that unfolding n ds by auto
  qed
  show ?thesis
  proof (cases "0x40 \<notin> set s \<or> hd s = 0x40")
    case True
    then show ?thesis using u1 empty at hd by (auto simp: silc_parse_userfqdn_def Let_def s)
  next
    case False
    then show ?thesis using u2 f2 at hd by (auto simp: silc_parse_userfqdn_def Let_def s)
  qed
qed

section \<open>Checked names\<close>

text \<open>
  What the library documents: a prepared string is UTF-8 without a character that a table of the
  profile prohibits, and it fits the buffer with its terminating zero.
\<close>

definition prohibits :: "prep_profile \<Rightarrow> u32 \<Rightarrow> bool" where
  "prohibits profile c \<longleftrightarrow> (\<exists>t. PROHIBIT_TABLE (Own_Table t) \<in> set profile \<and>
     (\<exists>(a, b) \<in> set t. if b = 0 then c = a else a \<le> c \<and> c \<le> b))"

definition stringprep_documented :: "prep_env \<Rightarrow> bool" where
  "stringprep_documented env \<longleftrightarrow> (\<forall>profile f s n out.
     env_stringprep env profile f s n = (STRINGPREP_OK, out) \<longrightarrow>
       length out < n \<and> (\<exists>cs. out = utf8_string cs \<and> (\<forall>c \<in> set cs. valid_char c \<and> \<not> prohibits profile c)))"

lemma and_128: "b < 0x80 \<Longrightarrow> b AND 0x80 = 0" for b :: byte
proof -
  assume "b < 0x80"
  then have "unat b < 2 ^ 7" by (simp add: word_less_nat_alt)
  then have "take_bit 7 b = b" by (metis take_bit_nat_eq_self unsigned_take_bit_eq unsigned_word_eqI)
  then have "b = b AND 0x7f" by (simp add: and_mask_u8)
  then have "b AND 0x80 = (b AND 0x7f) AND 0x80" by (rule arg_cong)
  then show ?thesis by (simp add: and.assoc)
qed

text \<open>Only the ASCII characters themselves give bytes below 128.\<close>

lemma utf8_ascii_byte:
  assumes "b \<in> set (utf8_char c)" "b < 0x80"
  shows "c < 0x80 \<and> ucast b = c"
proof (cases "c < 0x80")
  case True
  have "c < 0x100" using True by (simp add: word_less_nat_alt)
  with True assms(1) ucast_byte_id [of c] show ?thesis by (simp add: utf8_char_def)
next
  case False
  have "b AND 0x80 \<noteq> 0"
    using assms(1) False by (auto simp: utf8_char_def utf8_lead_and split: if_splits)
  with and_128 [OF assms(2)] show ?thesis by simp
qed

lemma stringprep_utf8:
  assumes "silc_stringprep env bin enc name au True SILC_STRING_UTF8 = (SILC_STRINGPREP_OK, out)"
  shows "\<exists>profile f s n u. prep_profile_of name = Some profile \<and> out = Some u \<and>
    env_stringprep env profile f s n = (STRINGPREP_OK, u) \<and>
    n \<le> 2 * silc_utf8_encoded_len (env_to_utf8 env) (env_sscanf_02X env) (the bin) enc"
proof -
  have st: "prep_status rc = SILC_STRINGPREP_OK \<longleftrightarrow> rc = STRINGPREP_OK" for rc by (cases rc) simp_all
  from assms obtain b profile where b: "bin = Some b" "prep_profile_of name = Some profile"
    by (auto simp: silc_stringprep_def Let_def split: option.splits if_splits)
  let ?n = "silc_utf8_encoded_len (env_to_utf8 env) (env_sscanf_02X env) b enc"
  let ?s = "cstr (snd (silc_utf8_encode (env_to_utf8 env) (env_sscanf_02X env) b enc (Some ?n)))"
  obtain rc1 u1 where r1: "env_stringprep env profile (\<not> au) ?s ?n = (rc1, u1)" by fastforce
  obtain rc2 u2 where r2: "env_stringprep env profile (\<not> au) u1 (?n * 2) = (rc2, u2)" by fastforce
  show ?thesis
  proof (cases "rc1 = STRINGPREP_TOO_SMALL_BUFFER")
    case True
    with assms b r1 r2 have "rc2 = STRINGPREP_OK" "out = Some u2"
      by (auto simp: silc_stringprep_def Let_def st split: if_splits)
    with b r2 show ?thesis by (intro exI [of _ profile] exI) auto
  next
    case False
    with assms b r1 have "rc1 = STRINGPREP_OK" "out = Some u1"
      by (auto simp: silc_stringprep_def Let_def st split: if_splits)
    with b r1 show ?thesis by (intro exI [of _ profile] exI) auto
  qed
qed

lemma stringprep_no_out:
  "fst (silc_stringprep env bin enc name au False SILC_STRING_UTF8) =
   fst (silc_stringprep env bin enc name au True SILC_STRING_UTF8)"
  by (auto simp: silc_stringprep_def Let_def split: option.splits prod.splits)

lemma identifier_prohibits:
  "c \<in> {0x21, 0x2a, 0x2c, 0x3f, 0x40} \<Longrightarrow> prohibits stringprep_silc_identifier_prep c"
  unfolding prohibits_def stringprep_silc_identifier_prep_def
  by (rule exI [of _ silc_appendix_c]) (auto simp: silc_appendix_c_def)


text \<open>A library that knows the lower case letters only.\<close>

definition letters_env :: prep_env where
  "letters_env = \<lparr>env_stringprep = (\<lambda>profile f s n.
       if \<not> list_all (\<lambda>b. 0x61 \<le> b \<and> b \<le> 0x7a) s \<or> list_ex (\<lambda>b. prohibits profile (ucast b)) s
       then (STRINGPREP_CONTAINS_PROHIBITED, s)
       else if n \<le> length s then (STRINGPREP_TOO_SMALL_BUFFER, s) else (STRINGPREP_OK, s)),
     env_to_utf8 = (\<lambda>_ _. None), env_from_utf8 = (\<lambda>_ _. None), env_sscanf_02X = (\<lambda>_. None)\<rparr>"

lemma utf8_ascii_string:
  "list_all (\<lambda>b. 0x61 \<le> b \<and> b \<le> (0x7a :: byte)) s \<Longrightarrow> utf8_string (map ucast s) = s \<and> (\<forall>b \<in> set s. valid_char (ucast b))"
proof (induction s)
  case (Cons b s)
  have "unat b \<le> 0x7a" using Cons.prems by (simp add: word_le_nat_alt)
  moreover have "unat b < 2 ^ 32" using unat_u8_less [of b] by simp
  ultimately have "unat (ucast b :: u32) \<le> 0x7a" by (simp add: unsigned_ucast_eq take_bit_nat_eq_self)
  with Cons show ?case by (simp add: utf8_char_def valid_char_def word_less_nat_alt word_le_nat_alt)
qed simp

lemma letters_documented: "stringprep_documented letters_env"
  unfolding stringprep_documented_def
proof (intro allI impI)
  fix profile f s n out
  assume "env_stringprep letters_env profile f s n = (STRINGPREP_OK, out)"
  then have "list_all (\<lambda>b. 0x61 \<le> b \<and> b \<le> 0x7a) s" "\<forall>b \<in> set s. \<not> prohibits profile (ucast b)" "length s < n" "out = s"
    by (auto simp: letters_env_def list_ex_iff split: if_splits)
  then show "length out < n \<and> (\<exists>cs. out = utf8_string cs \<and> (\<forall>c \<in> set cs. valid_char c \<and> \<not> prohibits profile c))"
    using utf8_ascii_string [of s] by (intro conjI exI [of _ "map ucast s"]) auto
qed

lemma letter_allowed: "\<not> prohibits stringprep_silc_identifier_prep 0x62"
  unfolding prohibits_def stringprep_silc_identifier_prep_def rfc_prohibited_def
  by (auto simp: silc_appendix_c_def silc_appendix_d_def)


end
