(* ===== verification/Server_Data.thy ===== *)
theory Server_Data
  imports Silc_Idcache Silc_Stringprep
begin

text \<open>
  The data of the server, \<^verbatim>\<open>apps/silcd/idlist.h\<close> and \<^verbatim>\<open>apps/silcd/server_internal.h\<close>: entries of
  servers, clients and channels, the membership entries that a channel's user list and a client's
  channel list share, the local and the global ID list, and the statistics.  Entries live in
  stores, maps from addresses; pointers are addresses, and a null pointer is \<open>None\<close>.  Pointers to
  objects of libraries (keys, ciphers, connections) are addresses that are never followed.
  What the server sends or schedules is a trace of events, in order.
\<close>

unbundle bit_operations_syntax

section \<open>Entries\<close>

type_synonym ptr = u64

abbreviation SILC_IDLIST_STATUS_NONE :: u8 where "SILC_IDLIST_STATUS_NONE \<equiv> 0x00"
abbreviation SILC_IDLIST_STATUS_REGISTERED :: u8 where "SILC_IDLIST_STATUS_REGISTERED \<equiv> 0x01"
abbreviation SILC_IDLIST_STATUS_RESOLVED :: u8 where "SILC_IDLIST_STATUS_RESOLVED \<equiv> 0x02"
abbreviation SILC_IDLIST_STATUS_RESOLVING :: u8 where "SILC_IDLIST_STATUS_RESOLVING \<equiv> 0x04"
abbreviation SILC_IDLIST_STATUS_LOCAL :: u8 where "SILC_IDLIST_STATUS_LOCAL \<equiv> 0x20"

record silc_idlist_data =
  id_conn_type :: u8
  id_sconn :: "ptr option"
  id_rekey :: "ptr option"
  id_hash :: "ptr option"
  id_public_key :: "ptr option"
  id_fingerprint :: "byte list"
  id_last_receive :: int
  id_last_sent :: int
  id_created :: u64
  id_status :: u8

definition empty_idata :: silc_idlist_data where
  "empty_idata = \<lparr>id_conn_type = 0, id_sconn = None, id_rekey = None, id_hash = None,
     id_public_key = None, id_fingerprint = replicate 20 0, id_last_receive = 0, id_last_sent = 0,
     id_created = 0, id_status = 0\<rparr>"

record silc_server_entry =
  se_data :: silc_idlist_data
  se_server_name :: "byte list option"
  se_server_type :: u8
  se_id :: "silc_server_id option"
  se_server_info :: "byte list option"
  se_motd :: "byte list option"
  se_router :: "ptr option"
  se_connection :: "ptr option"
  se_backup :: bool

record silc_channel_client_entry =
  cce_client :: ptr
  cce_mode :: u32
  cce_channel :: ptr

record silc_client_entry =
  cl_data :: silc_idlist_data
  cl_nickname :: "byte list option"
  cl_servername :: "byte list option"
  cl_username :: "byte list option"
  cl_userinfo :: "byte list option"
  cl_id :: "silc_client_id option"
  cl_mode :: u32
  cl_last_command :: int
  cl_fast_command :: u8
  cl_attrs :: "byte list option"
  cl_router :: "ptr option"
  cl_channels :: "(ptr, ptr) silc_hash_table"      \<comment> \<open>channel to membership\<close>
  cl_connection :: "ptr option"
  cl_updated :: u64
  cl_resolve_cmd_ident :: u16
  cl_resuming_client :: "ptr option"
  cl_local_detached :: bool

record silc_channel_entry =
  ch_channel_name :: "byte list option"
  ch_mode :: u32
  ch_id :: "silc_channel_id option"
  ch_topic :: "byte list option"
  ch_cipher :: "byte list option"
  ch_hmac_name :: "byte list option"
  ch_founder_key :: "ptr option"
  ch_channel_pubkeys :: "(byte list, ptr) silc_hash_table option"    \<comment> \<open>digest to public key\<close>
  ch_user_limit :: u32
  ch_passphrase :: "byte list option"
  ch_invite_list :: "(ptr, byte list) silc_hash_table option"
  ch_ban_list :: "(ptr, byte list) silc_hash_table option"
  ch_user_list :: "(ptr, ptr) silc_hash_table"     \<comment> \<open>client to membership\<close>
  ch_user_count :: u32
  ch_router :: "ptr option"
  ch_send_key :: "ptr option"
  ch_receive_key :: "ptr option"
  ch_key :: "byte list option"
  ch_hmac :: "ptr option"
  ch_rekey :: "ptr option"
  ch_created :: u64
  ch_updated :: u64
  ch_global_users :: bool
  ch_disabled :: bool
  ch_users_resolved :: bool

record silc_id_list =
  il_servers :: silc_idcache
  il_clients :: silc_idcache
  il_channels :: silc_idcache

section \<open>The server\<close>

abbreviation SILC_SERVER :: u8 where "SILC_SERVER \<equiv> 0"
abbreviation SILC_ROUTER :: u8 where "SILC_ROUTER \<equiv> 1"
abbreviation SILC_BACKUP_ROUTER :: u8 where "SILC_BACKUP_ROUTER \<equiv> 2"

text \<open>The counters that the modelled code changes; all wrap at 32 bits.\<close>

record silc_server_statistics =
  st_my_clients :: u32
  st_my_channels :: u32
  st_my_chanclients :: u32
  st_my_server_ops :: u32
  st_my_router_ops :: u32
  st_cell_clients :: u32
  st_cell_channels :: u32
  st_cell_chanclients :: u32
  st_clients :: u32
  st_channels :: u32
  st_chanclients :: u32
  st_server_ops :: u32
  st_router_ops :: u32
  st_my_aways :: u32
  st_commands_sent :: u32

datatype which_list = Local_List | Global_List

text \<open>What is sent or scheduled.\<close>

datatype server_event =
    Ev_Check_Watchers ptr "byte list option" u16
  | Ev_Notify_To_Channel ptr u16 "byte list list"
  | Ev_Send_Channel_Key "ptr option" ptr bool
  | Ev_Rekey_Timeout ptr
  | Ev_Task_Del "ptr option"
  | Ev_Command "ptr option" u8 u16                 \<comment> \<open>connection, command, identifier\<close>
  | Ev_Force_Cumode ptr ptr u32                    \<comment> \<open>channel, membership, mode\<close>
  | Ev_Join_Reply ptr ptr bool u32 "byte list" "byte list"
  | Ev_Notify_Join ptr "silc_client_id option"
  | Ev_Backup_Channel_Key ptr
  | Ev_Notify_Cumode ptr u32 "silc_client_id option" "silc_client_id option" "ptr option"
  | Ev_Reply "byte list"                           \<comment> \<open>command reply payload, to the sender\<close>
  | Ev_Notify_Leave ptr "silc_client_id option"
  | Ev_Notify_Kicked ptr "silc_client_id option" "silc_client_id option" "byte list option"
  | Ev_Notify_Topic ptr silc_client_id "byte list"
  | Ev_Notify_Umode "silc_client_id option" u32
  | Ev_Notify_Cmode ptr u32 silc_client_id "byte list option" "byte list option" "byte list option" "ptr option" "byte list option"

record silc_server =
  sv_id :: "silc_server_id option"
  sv_server_type :: u8
  sv_standalone :: bool
  sv_server_shutdown :: bool
  sv_router :: "ptr option"
  sv_cmd_ident :: u16
  sv_local_list :: silc_id_list
  sv_global_list :: silc_id_list
  sv_cache_heap :: cache_heap
  sv_servers :: "ptr \<rightharpoonup> silc_server_entry"
  sv_clients :: "ptr \<rightharpoonup> silc_client_entry"
  sv_channels :: "ptr \<rightharpoonup> silc_channel_entry"
  sv_chls :: "ptr \<rightharpoonup> silc_channel_client_entry"
  sv_stat :: silc_server_statistics
  sv_trace :: "server_event list"

definition get_list :: "which_list \<Rightarrow> silc_server \<Rightarrow> silc_id_list" where
  "get_list w s = (case w of Local_List \<Rightarrow> sv_local_list s | Global_List \<Rightarrow> sv_global_list s)"

definition put_list :: "which_list \<Rightarrow> silc_id_list \<Rightarrow> silc_server \<Rightarrow> silc_server" where
  "put_list w l s =
     (case w of Local_List \<Rightarrow> s\<lparr>sv_local_list := l\<rparr> | Global_List \<Rightarrow> s\<lparr>sv_global_list := l\<rparr>)"

definition emit :: "server_event \<Rightarrow> silc_server \<Rightarrow> silc_server" where
  "emit e s = s\<lparr>sv_trace := sv_trace s @ [e]\<rparr>"

definition SILC_PRIMARY_ROUTE :: "silc_server \<Rightarrow> ptr option" where
  "SILC_PRIMARY_ROUTE s =
     (if \<not> sv_standalone s then Option.bind (Option.bind (sv_router s) (sv_servers s)) se_connection else None)"

definition SILC_IS_LOCAL :: "silc_idlist_data \<Rightarrow> bool" where
  "SILC_IS_LOCAL d \<longleftrightarrow> id_status d AND SILC_IDLIST_STATUS_LOCAL \<noteq> 0"

definition is_registered :: "silc_idlist_data \<Rightarrow> bool" where
  "is_registered d \<longleftrightarrow> id_status d AND SILC_IDLIST_STATUS_REGISTERED \<noteq> 0"

end
