(* ===== verification/Server_Idlist.thy ===== *)
theory Server_Idlist
  imports Server_Data
begin

text \<open>
  The ID lists of the server, \<^verbatim>\<open>apps/silcd/idlist.c\<close>: adding, finding, renaming and deleting
  servers, clients and channels.  A new entry gets the address that the allocator returns, which
  is an argument, as is the current time.  An operation that can end in a failed assertion or
  follow a null pointer gives \<open>None\<close> in that case.  Names are normalised through the identifier
  checks.
\<close>

section \<open>Common functions\<close>

definition silc_idlist_add_data :: "u64 \<Rightarrow> silc_idlist_data \<Rightarrow> silc_idlist_data \<Rightarrow> silc_idlist_data" where
  "silc_idlist_add_data now idata data =
     data\<lparr>id_conn_type := id_conn_type idata, id_sconn := id_sconn idata, id_hash := id_hash idata,
          id_public_key := id_public_key idata, id_fingerprint := id_fingerprint idata,
          id_rekey := id_rekey idata, id_last_receive := id_last_receive idata,
          id_last_sent := id_last_sent idata, id_status := id_status idata, id_created := now\<rparr>"

definition silc_idlist_del_data :: "silc_idlist_data \<Rightarrow> silc_idlist_data" where
  "silc_idlist_del_data idata = idata\<lparr>id_rekey := None, id_hash := None, id_public_key := None\<rparr>"

text \<open>The context of a found cache entry.\<close>

definition entry_context :: "silc_server \<Rightarrow> entry_ref \<Rightarrow> ptr option" where
  "entry_context s r = Option.bind (heap_get (sv_cache_heap s) r) ce_context"

text \<open>Normalising an optional name: \<open>None\<close> when the name is refused.\<close>

definition normalize :: "(byte list option \<Rightarrow> byte list option) \<Rightarrow> byte list option \<Rightarrow> byte list option option" where
  "normalize check name = (case name of None \<Rightarrow> Some None | Some n \<Rightarrow> map_option Some (check (Some n)))"

text \<open>Changing the fields of an entry through a pointer.\<close>

definition update_server :: "ptr \<Rightarrow> (silc_server_entry \<Rightarrow> silc_server_entry) \<Rightarrow> silc_server \<Rightarrow> silc_server" where
  "update_server p f s = s\<lparr>sv_servers := (sv_servers s)(p := map_option f (sv_servers s p))\<rparr>"

definition update_client :: "ptr \<Rightarrow> (silc_client_entry \<Rightarrow> silc_client_entry) \<Rightarrow> silc_server \<Rightarrow> silc_server" where
  "update_client p f s = s\<lparr>sv_clients := (sv_clients s)(p := map_option f (sv_clients s p))\<rparr>"

definition update_channel :: "ptr \<Rightarrow> (silc_channel_entry \<Rightarrow> silc_channel_entry) \<Rightarrow> silc_server \<Rightarrow> silc_server" where
  "update_channel p f s = s\<lparr>sv_channels := (sv_channels s)(p := map_option f (sv_channels s p))\<rparr>"

section \<open>Servers\<close>

definition silc_idlist_add_server ::
  "prep_env \<Rightarrow> ptr \<Rightarrow> which_list \<Rightarrow> byte list option \<Rightarrow> u8 \<Rightarrow> silc_server_id option \<Rightarrow> ptr option \<Rightarrow> ptr option \<Rightarrow>
     silc_server \<Rightarrow> ptr option \<times> silc_server" where
  "silc_idlist_add_server env p w server_name server_type i router connection s =
     (case normalize (\<lambda>n. silc_identifier_check env n SILC_STRING_UTF8 256) (map_option cstr server_name) of
        None \<Rightarrow> (None, s)
      | Some server_namec \<Rightarrow>
          let l = get_list w s;
              server = \<lparr>se_data = empty_idata, se_server_name = server_name, se_server_type = server_type,
                se_id = i, se_server_info = None, se_motd = None, se_router = router,
                se_connection = connection, se_backup = False\<rparr>;
              (r, h, cache) = silc_idcache_add (sv_cache_heap s) (il_servers l) server_namec
                (map_option ServerID i) (Some p);
              s = put_list w (l\<lparr>il_servers := cache\<rparr>) (s\<lparr>sv_cache_heap := h\<rparr>) in
          case r of
            None \<Rightarrow> (None, s)
          | Some _ \<Rightarrow> (Some p, s\<lparr>sv_servers := (sv_servers s)(p \<mapsto> server)\<rparr>))"

text \<open>The found entry, when it is registered or need not be.\<close>

definition registered_ok :: "bool \<Rightarrow> silc_idlist_data option \<Rightarrow> bool" where
  "registered_ok registered d = (case d of None \<Rightarrow> True | Some d \<Rightarrow> \<not> registered \<or> is_registered d)"

definition silc_idlist_find_server_by_id ::
  "which_list \<Rightarrow> silc_server_id option \<Rightarrow> bool \<Rightarrow> silc_server \<Rightarrow> ptr option" where
  "silc_idlist_find_server_by_id w i registered s =
     (case i of None \<Rightarrow> None
      | Some i \<Rightarrow>
          (case silc_idcache_find_by_id_one (il_servers (get_list w s)) (ServerID i) of
             None \<Rightarrow> None
           | Some r \<Rightarrow>
               let server = entry_context s r in
               if registered_ok registered (map_option se_data (Option.bind server (sv_servers s)))
               then server else None))"

definition silc_idlist_find_server_by_name ::
  "which_list \<Rightarrow> byte list \<Rightarrow> bool \<Rightarrow> silc_server \<Rightarrow> ptr option" where
  "silc_idlist_find_server_by_name w name registered s =
     (case silc_idcache_find_by_name_one (il_servers (get_list w s)) name of
        None \<Rightarrow> None
      | Some r \<Rightarrow>
          let server = entry_context s r in
          if registered_ok registered (map_option se_data (Option.bind server (sv_servers s)))
          then server else None)"

text \<open>
  Finding by host name or address and port; the names of the peer of a connection are a
  parameter.  An entry without an ID whose peer matches is a null pointer that is followed.
\<close>

definition conn_matches ::
  "(ptr \<Rightarrow> (byte list option \<times> byte list option) option) \<Rightarrow> byte list \<Rightarrow> u16 \<Rightarrow> silc_server_entry \<Rightarrow> bool option" where
  "conn_matches sock_info hostname port server =
     (case Option.bind (se_connection server) sock_info of
        None \<Rightarrow> Some False
      | Some (host, ip) \<Rightarrow>
          let same = (\<lambda>n. case n of None \<Rightarrow> False | Some n \<Rightarrow> silc_hash_string_compare n hostname) in
          if same host \<or> same ip
          then map_option (\<lambda>i. sid_port i = SILC_SWAB_16 port) (se_id server)
          else Some False)"

fun find_by_conn ::
  "(ptr \<Rightarrow> (byte list option \<times> byte list option) option) \<Rightarrow> byte list \<Rightarrow> u16 \<Rightarrow> silc_server \<Rightarrow>
     entry_ref list \<Rightarrow> ptr option option" where
  "find_by_conn sock_info hostname port s [] = Some None"
| "find_by_conn sock_info hostname port s (r # rs) =
     (case Option.bind (entry_context s r) (sv_servers s) of
        None \<Rightarrow> None
      | Some server \<Rightarrow>
          (case conn_matches sock_info hostname port server of
             None \<Rightarrow> None
           | Some True \<Rightarrow> Some (entry_context s r)
           | Some False \<Rightarrow> find_by_conn sock_info hostname port s rs))"

definition silc_idlist_find_server_by_conn ::
  "(ptr \<Rightarrow> (byte list option \<times> byte list option) option) \<Rightarrow> which_list \<Rightarrow> byte list \<Rightarrow> u16 \<Rightarrow> bool \<Rightarrow>
     silc_server \<Rightarrow> ptr option option" where
  "silc_idlist_find_server_by_conn sock_info w hostname port registered s =
     (case find_by_conn sock_info hostname port s (silc_idcache_get_all (il_servers (get_list w s))) of
        None \<Rightarrow> None
      | Some server \<Rightarrow>
          Some (if registered_ok registered (map_option se_data (Option.bind server (sv_servers s)))
                then server else None))"

text \<open>
  Replacing a Server ID: the entry is removed from the cache, gets its new ID and is added again;
  the result of the addition is not looked at.  A cached entry without a name is a null pointer
  that is copied from.
\<close>

definition silc_idlist_replace_server_id ::
  "which_list \<Rightarrow> silc_server_id option \<Rightarrow> silc_server_id option \<Rightarrow> silc_server \<Rightarrow>
     (ptr option \<times> silc_server) option" where
  "silc_idlist_replace_server_id w old_id new_id s =
     (case (old_id, new_id) of
        (Some old, Some new) \<Rightarrow>
          (case silc_idcache_find_by_id_one (il_servers (get_list w s)) (ServerID old) of
             None \<Rightarrow> Some (None, s)
           | Some r \<Rightarrow>
               (case (entry_context s r, Option.bind (heap_get (sv_cache_heap s) r) ce_name) of
                  (Some p, Some name) \<Rightarrow>
                    (case Option.bind (sv_servers s p) se_id of
                       None \<Rightarrow> None
                     | Some own \<Rightarrow>
                         let l = get_list w s;
                             (_, h, cache) = silc_idcache_del_by_id (sv_cache_heap s) (il_servers l) (ServerID own);
                             (_, h, cache) = silc_idcache_add h cache (Some name) (Some (ServerID new)) (Some p) in
                         Some (Some p, update_server p (\<lambda>e. e\<lparr>se_id := Some new\<rparr>)
                           (put_list w (l\<lparr>il_servers := cache\<rparr>) (s\<lparr>sv_cache_heap := h\<rparr>))))
                | _ \<Rightarrow> None))
      | _ \<Rightarrow> Some (None, s))"

definition silc_idlist_del_server :: "which_list \<Rightarrow> ptr option \<Rightarrow> silc_server \<Rightarrow> bool \<times> silc_server" where
  "silc_idlist_del_server w entry s =
     (case entry of
        None \<Rightarrow> (False, s)
      | Some p \<Rightarrow>
          let l = get_list w s;
              (ok, h, cache) = silc_idcache_del_by_context (sv_cache_heap s) (il_servers l) p;
              s = put_list w (l\<lparr>il_servers := cache\<rparr>) (s\<lparr>sv_cache_heap := h\<rparr>) in
          if \<not> ok then (False, s)
          else (True, s\<lparr>sv_servers := (sv_servers s)(p := None)\<rparr>))"

section \<open>Clients\<close>

text \<open>The check of a user name, which may be \<open>user@host\<close>.\<close>

definition username_ok :: "prep_env \<Rightarrow> byte list \<Rightarrow> bool option" where
  "username_ok env username =
     (case silc_parse_userfqdn (Some username) (Some (replicate 129 0)) (Some (replicate 257 0)) of
        Some (ret, Some u, Some h) \<Rightarrow>
          Some (ret \<noteq> 0 \<and> silc_identifier_verify env (Some (cstr u)) SILC_STRING_UTF8 128 \<and>
                (ret > 1 \<longrightarrow> silc_identifier_verify env (Some (cstr h)) SILC_STRING_UTF8 256))
      | _ \<Rightarrow> None)"

definition empty_members :: "(ptr, ptr) silc_hash_table" where
  "empty_members = the (silc_hash_table_alloc 3 silc_hash_ptr None False True)"

definition silc_idlist_add_client ::
  "prep_env \<Rightarrow> ptr \<Rightarrow> which_list \<Rightarrow> byte list option \<Rightarrow> byte list option \<Rightarrow> byte list option \<Rightarrow>
     silc_client_id option \<Rightarrow> ptr option \<Rightarrow> ptr option \<Rightarrow> silc_server \<Rightarrow> (ptr option \<times> silc_server) option" where
  "silc_idlist_add_client env p w nickname username userinfo i router connection s =
     (case normalize (\<lambda>n. silc_identifier_check env n SILC_STRING_UTF8 128) (map_option cstr nickname) of
        None \<Rightarrow> Some (None, s)
      | Some nicknamec \<Rightarrow>
          (case (case username of None \<Rightarrow> Some True | Some u \<Rightarrow> username_ok env u) of
             None \<Rightarrow> None
           | Some False \<Rightarrow> Some (None, s)
           | Some True \<Rightarrow>
               let l = get_list w s;
                   client = \<lparr>cl_data = empty_idata, cl_nickname = nickname, cl_servername = None,
                     cl_username = map_option cstr username, cl_userinfo = userinfo, cl_id = i, cl_mode = 0,
                     cl_last_command = 0, cl_fast_command = 0, cl_attrs = None, cl_router = router,
                     cl_channels = empty_members, cl_connection = connection, cl_updated = 0,
                     cl_resolve_cmd_ident = 0, cl_resuming_client = None, cl_local_detached = False\<rparr>;
                   (r, h, cache) = silc_idcache_add (sv_cache_heap s) (il_clients l) nicknamec
                     (map_option ClientID i) (Some p);
                   s = put_list w (l\<lparr>il_clients := cache\<rparr>) (s\<lparr>sv_cache_heap := h\<rparr>) in
               Some (case r of
                   None \<Rightarrow> (None, s)
                 | Some _ \<Rightarrow> (Some p, s\<lparr>sv_clients := (sv_clients s)(p \<mapsto> client)\<rparr>))))"

text \<open>
  Deleting a client.  The cache calls the destructor of its entry, which asserts that the client
  is on no channel and frees it.
\<close>

definition silc_idlist_client_destructor :: "ptr \<Rightarrow> silc_server \<Rightarrow> silc_server option" where
  "silc_idlist_client_destructor p s =
     (case sv_clients s p of
        None \<Rightarrow> None
      | Some client \<Rightarrow>
          if silc_hash_table_count (cl_channels client) \<noteq> 0 then None
          else Some (s\<lparr>sv_clients := (sv_clients s)(p := None)\<rparr>))"

definition silc_idlist_del_client :: "which_list \<Rightarrow> ptr option \<Rightarrow> silc_server \<Rightarrow> (bool \<times> silc_server) option" where
  "silc_idlist_del_client w entry s =
     (case entry of
        None \<Rightarrow> Some (False, s)
      | Some p \<Rightarrow>
          let l = get_list w s;
              (ok, h, cache) = silc_idcache_del_by_context (sv_cache_heap s) (il_clients l) p;
              s = put_list w (l\<lparr>il_clients := cache\<rparr>) (s\<lparr>sv_cache_heap := h\<rparr>) in
          if \<not> ok then Some (False, s)
          else map_option (Pair True) (silc_idlist_client_destructor p s))"

text \<open>The clients found so far and those with the given nickname; FALSE is \<open>None\<close>.\<close>

definition silc_idlist_get_clients_by_nickname ::
  "which_list \<Rightarrow> byte list \<Rightarrow> ptr option list \<Rightarrow> silc_server \<Rightarrow> ptr option list option" where
  "silc_idlist_get_clients_by_nickname w nickname clients s =
     (let list = silc_idcache_find_by_name (il_clients (get_list w s)) nickname in
      if list = [] then None else Some (clients @ map (entry_context s) list))"

text \<open>
  The same by the hash of the nickname, optionally only those of a server.  The hash function is
  a parameter.  The outer option is a crash: an entry without a client, or a comparison that reads
  too far.
\<close>

definition hash_lookup_id :: "byte list \<Rightarrow> silc_client_id" where
  "hash_lookup_id hash = \<lparr>cid_ip = \<lparr>ip_data = replicate 16 0, ip_data_len = 0\<rparr>, cid_rnd = 0,
     cid_hash = take CLIENTID_HASH_LEN hash\<rparr>"

fun narrow_by_server ::
  "prep_env \<Rightarrow> byte list \<Rightarrow> silc_server \<Rightarrow> entry_ref list \<Rightarrow> entry_ref list option" where
  "narrow_by_server env server s [] = Some []"
| "narrow_by_server env server s (r # rs) =
     (case Option.bind (entry_context s r) (sv_clients s) of
        None \<Rightarrow> None
      | Some client \<Rightarrow>
          (case cl_servername client of
             None \<Rightarrow> map_option ((#) r) (narrow_by_server env server s rs)
           | Some n \<Rightarrow>
               (case silc_utf8_strcasecmp env False n server of
                  None \<Rightarrow> None
                | Some True \<Rightarrow> map_option ((#) r) (narrow_by_server env server s rs)
                | Some False \<Rightarrow> narrow_by_server env server s rs)))"

definition silc_idlist_get_clients_by_hash ::
  "prep_env \<Rightarrow> (byte list \<Rightarrow> byte list) \<Rightarrow> which_list \<Rightarrow> byte list \<Rightarrow> byte list option \<Rightarrow> ptr option list \<Rightarrow>
     silc_server \<Rightarrow> ptr option list option option" where
  "silc_idlist_get_clients_by_hash env md5 w nickname server clients s =
     (let list = silc_idcache_find_by_id (il_clients (get_list w s))
            (ClientID (hash_lookup_id (md5 (cstr nickname)))) in
      if list = [] then Some None
      else
        case (case server of None \<Rightarrow> Some list | Some n \<Rightarrow> narrow_by_server env n s list) of
          None \<Rightarrow> None
        | Some list \<Rightarrow> Some (if list = [] then None else Some (clients @ map (entry_context s) list)))"

definition silc_idlist_find_client_by_id ::
  "which_list \<Rightarrow> silc_client_id option \<Rightarrow> bool \<Rightarrow> silc_server \<Rightarrow> ptr option" where
  "silc_idlist_find_client_by_id w i registered s =
     (case i of None \<Rightarrow> None
      | Some i \<Rightarrow>
          (case silc_idcache_find_by_id_one (il_clients (get_list w s)) (ClientID i) of
             None \<Rightarrow> None
           | Some r \<Rightarrow>
               let client = entry_context s r in
               if registered_ok registered (map_option cl_data (Option.bind client (sv_clients s)))
               then client else None))"

abbreviation SILC_NOTIFY_TYPE_NICK_CHANGE :: u16 where "SILC_NOTIFY_TYPE_NICK_CHANGE \<equiv> 6"

text \<open>
  Replacing a Client ID and nickname.  The entry of the cache and the client share the memory of
  the ID.  A router tells the watchers of the old nickname before and those of the new one after.
\<close>

definition silc_idlist_replace_client_id ::
  "prep_env \<Rightarrow> which_list \<Rightarrow> silc_client_id option \<Rightarrow> silc_client_id option \<Rightarrow> byte list option \<Rightarrow>
     silc_server \<Rightarrow> (ptr option \<times> silc_server) option" where
  "silc_idlist_replace_client_id env w old_id new_id nickname s =
     (case (old_id, new_id) of
        (Some old, Some new) \<Rightarrow>
          (case normalize (\<lambda>n. silc_identifier_check env n SILC_STRING_UTF8 128) (map_option cstr nickname) of
             None \<Rightarrow> Some (None, s)
           | Some nicknamec \<Rightarrow>
               (case silc_idcache_find_by_id_one (il_clients (get_list w s)) (ClientID old) of
                  None \<Rightarrow> Some (None, s)
                | Some r \<Rightarrow>
                    (case entry_context s r of
                       None \<Rightarrow> None
                     | Some p \<Rightarrow>
                         let watch = (\<lambda>s. if sv_server_type s = SILC_ROUTER
                               then emit (Ev_Check_Watchers p nickname SILC_NOTIFY_TYPE_NICK_CHANGE) s else s);
                             s = watch s;
                             l = get_list w s;
                             (ok, h, cache) = silc_idcache_update (sv_cache_heap s) (il_clients l) r
                               (Some (ClientID new)) nicknamec;
                             s = put_list w (l\<lparr>il_clients := cache\<rparr>) (s\<lparr>sv_cache_heap := h\<rparr>) in
                         if \<not> ok then Some (None, s)
                         else
                           Some (Some p, watch (s\<lparr>sv_clients := (sv_clients s)(p := map_option
                             (\<lambda>e. e\<lparr>cl_id := Some new, cl_nickname := map_option cstr nickname\<rparr>) (sv_clients s p))\<rparr>)))))
      | _ \<Rightarrow> Some (None, s))"

section \<open>Channels\<close>

text \<open>The allocation of a default HMAC, when none is given, is the argument \<open>default_hmac\<close>.\<close>

definition silc_idlist_add_channel ::
  "prep_env \<Rightarrow> ptr \<Rightarrow> u64 \<Rightarrow> ptr option \<Rightarrow> which_list \<Rightarrow> byte list option \<Rightarrow> u32 \<Rightarrow> silc_channel_id option \<Rightarrow>
     ptr option \<Rightarrow> ptr option \<Rightarrow> ptr option \<Rightarrow> ptr option \<Rightarrow> silc_server \<Rightarrow> ptr option \<times> silc_server" where
  "silc_idlist_add_channel env p now default_hmac w channel_name mode i router send_key receive_key hmac s =
     (case normalize (\<lambda>n. silc_channel_name_check env n SILC_STRING_UTF8 256) (map_option cstr channel_name) of
        None \<Rightarrow> (None, s)
      | Some channel_namec \<Rightarrow>
          (case (case hmac of Some h \<Rightarrow> Some h | None \<Rightarrow> default_hmac) of
             None \<Rightarrow> (None, s)
           | Some hmac \<Rightarrow>
               let l = get_list w s;
                   channel = \<lparr>ch_channel_name = channel_name, ch_mode = mode, ch_id = i, ch_topic = None,
                     ch_cipher = None, ch_hmac_name = None, ch_founder_key = None, ch_channel_pubkeys = None,
                     ch_user_limit = 0, ch_passphrase = None, ch_invite_list = None, ch_ban_list = None,
                     ch_user_list = empty_members, ch_user_count = 0, ch_router = router,
                     ch_send_key = send_key, ch_receive_key = receive_key, ch_key = None,
                     ch_hmac = Some hmac, ch_rekey = None, ch_created = now, ch_updated = now,
                     ch_global_users = False, ch_disabled = False, ch_users_resolved = False\<rparr>;
                   (r, h, cache) = silc_idcache_add (sv_cache_heap s) (il_channels l) channel_namec
                     (map_option ChannelID i) (Some p);
                   s = put_list w (l\<lparr>il_channels := cache\<rparr>) (s\<lparr>sv_cache_heap := h\<rparr>) in
               case r of
                 None \<Rightarrow> (None, s)
               | Some _ \<Rightarrow> (Some p, s\<lparr>sv_channels := (sv_channels s)(p \<mapsto> channel)\<rparr>)))"

text \<open>Removing a user of a deleted channel: from the client's list of channels, and its membership.\<close>

definition free_chl :: "ptr \<Rightarrow> silc_server \<Rightarrow> silc_server" where
  "free_chl k s = s\<lparr>sv_chls := (sv_chls s)(k := None)\<rparr>"

definition silc_idlist_del_channel_foreach :: "ptr \<Rightarrow> silc_server \<Rightarrow> silc_server option" where
  "silc_idlist_del_channel_foreach k s =
     (case sv_chls s k of
        None \<Rightarrow> None
      | Some chl \<Rightarrow>
          if sv_clients s (cce_client chl) = None then None
          else Some (free_chl k (update_client (cce_client chl)
            (\<lambda>c. c\<lparr>cl_channels := snd (silc_hash_table_del (cl_channels c) (cce_channel chl))\<rparr>) s)))"

fun del_channel_users :: "ptr list \<Rightarrow> silc_server \<Rightarrow> silc_server option" where
  "del_channel_users [] s = Some s"
| "del_channel_users (k # ks) s = Option.bind (silc_idlist_del_channel_foreach k s) (del_channel_users ks)"

definition silc_idlist_del_channel :: "which_list \<Rightarrow> ptr option \<Rightarrow> silc_server \<Rightarrow> (bool \<times> silc_server) option" where
  "silc_idlist_del_channel w entry s =
     (case entry of
        None \<Rightarrow> Some (False, s)
      | Some p \<Rightarrow>
          let l = get_list w s;
              (ok, h, cache) = silc_idcache_del_by_context (sv_cache_heap s) (il_channels l) p;
              s = put_list w (l\<lparr>il_channels := cache\<rparr>) (s\<lparr>sv_cache_heap := h\<rparr>) in
          if \<not> ok then Some (False, s)
          else
            case sv_channels s p of
              None \<Rightarrow> None
            | Some channel \<Rightarrow>
                map_option (\<lambda>s. (True, s\<lparr>sv_channels := (sv_channels s)(p := None)\<rparr>))
                  (del_channel_users (map snd (silc_hash_table_foreach (ch_user_list channel))) s))"

definition touch_channel :: "u64 \<Rightarrow> ptr \<Rightarrow> silc_server \<Rightarrow> silc_server" where
  "touch_channel now p s = update_channel p (\<lambda>c. c\<lparr>ch_updated := now\<rparr>) s"

definition silc_idlist_find_channel_by_name ::
  "u64 \<Rightarrow> which_list \<Rightarrow> byte list \<Rightarrow> silc_server \<Rightarrow> (ptr option \<times> silc_server) option" where
  "silc_idlist_find_channel_by_name now w name s =
     (case silc_idcache_find_by_name_one (il_channels (get_list w s)) name of
        None \<Rightarrow> Some (None, s)
      | Some r \<Rightarrow>
          (case entry_context s r of None \<Rightarrow> None | Some p \<Rightarrow> Some (Some p, touch_channel now p s)))"

definition silc_idlist_find_channel_by_id ::
  "u64 \<Rightarrow> which_list \<Rightarrow> silc_channel_id option \<Rightarrow> silc_server \<Rightarrow> (ptr option \<times> silc_server) option" where
  "silc_idlist_find_channel_by_id now w i s =
     (case i of None \<Rightarrow> Some (None, s)
      | Some i \<Rightarrow>
          (case silc_idcache_find_by_id_one (il_channels (get_list w s)) (ChannelID i) of
             None \<Rightarrow> Some (None, s)
           | Some r \<Rightarrow>
               (case entry_context s r of None \<Rightarrow> None | Some p \<Rightarrow> Some (Some p, touch_channel now p s))))"

definition silc_idlist_replace_channel_id ::
  "u64 \<Rightarrow> which_list \<Rightarrow> silc_channel_id option \<Rightarrow> silc_channel_id option \<Rightarrow> silc_server \<Rightarrow>
     (ptr option \<times> silc_server) option" where
  "silc_idlist_replace_channel_id now w old_id new_id s =
     (case (old_id, new_id) of
        (Some old, Some new) \<Rightarrow>
          (case silc_idcache_find_by_id_one (il_channels (get_list w s)) (ChannelID old) of
             None \<Rightarrow> Some (None, s)
           | Some r \<Rightarrow>
               (case (entry_context s r, Option.bind (heap_get (sv_cache_heap s) r) ce_name) of
                  (Some p, Some name) \<Rightarrow>
                    (case Option.bind (sv_channels s p) ch_id of
                       None \<Rightarrow> None
                     | Some own \<Rightarrow>
                         let l = get_list w s;
                             (_, h, cache) = silc_idcache_del_by_id (sv_cache_heap s) (il_channels l) (ChannelID own);
                             (_, h, cache) = silc_idcache_add h cache (Some name) (Some (ChannelID new)) (Some p) in
                         Some (Some p, touch_channel now p (update_channel p (\<lambda>c. c\<lparr>ch_id := Some new\<rparr>)
                           (put_list w (l\<lparr>il_channels := cache\<rparr>) (s\<lparr>sv_cache_heap := h\<rparr>)))))
                | _ \<Rightarrow> None))
      | _ \<Rightarrow> Some (None, s))"

definition silc_idlist_get_channels ::
  "which_list \<Rightarrow> silc_channel_id option \<Rightarrow> silc_server \<Rightarrow> ptr option list option" where
  "silc_idlist_get_channels w channel_id s =
     (let cache = il_channels (get_list w s) in
      case channel_id of
        None \<Rightarrow>
          (let list = silc_idcache_get_all cache in
           if list = [] then None else Some (map (entry_context s) list))
      | Some i \<Rightarrow> map_option (\<lambda>r. [entry_context s r]) (silc_idcache_find_by_id_one cache (ChannelID i)))"

section \<open>The lists of a new server\<close>

definition alloc_id_list :: "silc_id_list option" where
  "alloc_id_list =
     (case (silc_idcache_alloc 0 SILC_ID_CLIENT, silc_idcache_alloc 0 SILC_ID_SERVER, silc_idcache_alloc 0 SILC_ID_CHANNEL) of
        (Some clients, Some servers, Some channels) \<Rightarrow>
          Some \<lparr>il_servers = servers, il_clients = clients, il_channels = channels\<rparr>
      | _ \<Rightarrow> None)"

definition empty_statistics :: silc_server_statistics where
  "empty_statistics = \<lparr>st_my_clients = 0, st_my_channels = 0, st_my_chanclients = 0, st_my_server_ops = 0,
     st_my_router_ops = 0, st_cell_clients = 0, st_cell_channels = 0, st_cell_chanclients = 0, st_clients = 0,
     st_channels = 0, st_chanclients = 0, st_server_ops = 0, st_router_ops = 0,
     st_my_aways = 0, st_commands_sent = 0\<rparr>"

text \<open>The allocation of the server and, from its initialisation, that of its lists.\<close>

definition silc_server_alloc :: "silc_server option" where
  "silc_server_alloc =
     (case (alloc_id_list, alloc_id_list) of
        (Some local_list, Some global_list) \<Rightarrow>
          Some \<lparr>sv_id = None, sv_server_type = SILC_SERVER, sv_standalone = True, sv_server_shutdown = False, sv_router = None, sv_cmd_ident = 0,
            sv_local_list = local_list, sv_global_list = global_list, sv_cache_heap = [], sv_servers = Map.empty,
            sv_clients = Map.empty, sv_channels = Map.empty, sv_chls = Map.empty, sv_stat = empty_statistics,
            sv_trace = []\<rparr>
      | _ \<Rightarrow> None)"

end
