(* ===== verification/Server_Directory.thy ===== *)
theory Server_Directory
  imports Server_Idlist
begin

text \<open>
  What the ID lists promise.  The abstract state is a directory, a map from IDs to entries for
  each of the six caches; the operations of \<^verbatim>\<open>apps/silcd/idlist.c\<close> add, remove and rename in it.
  The invariant \<open>lists_ok\<close> ties the caches, the heap of cache entries and the stores together.
  The proofs use the contract \<open>id_cache\<close> of the cache and not its tables.
\<close>

section \<open>Views of the state\<close>

datatype entry_kind = Servers | Clients | Channels

type_synonym slot = "which_list \<times> entry_kind"

fun cache_of :: "silc_server \<Rightarrow> slot \<Rightarrow> silc_idcache" where
  "cache_of s (w, Servers) = il_servers (get_list w s)"
| "cache_of s (w, Clients) = il_clients (get_list w s)"
| "cache_of s (w, Channels) = il_channels (get_list w s)"

fun entry_ids :: "silc_server \<Rightarrow> entry_kind \<Rightarrow> ptr \<Rightarrow> silc_id option option" where
  "entry_ids s Servers p = map_option (\<lambda>e. map_option ServerID (se_id e)) (sv_servers s p)"
| "entry_ids s Clients p = map_option (\<lambda>e. map_option ClientID (cl_id e)) (sv_clients s p)"
| "entry_ids s Channels p = map_option (\<lambda>e. map_option ChannelID (ch_id e)) (sv_channels s p)"

fun kind_type :: "entry_kind \<Rightarrow> id_type" where
  "kind_type Servers = SILC_ID_SERVER"
| "kind_type Clients = SILC_ID_CLIENT"
| "kind_type Channels = SILC_ID_CHANNEL"

section \<open>The invariant\<close>

definition context_of :: "cache_heap \<Rightarrow> entry_ref \<Rightarrow> ptr option" where
  "context_of h r = Option.bind (heap_get h r) ce_context"

definition view_ok ::
  "cache_heap \<Rightarrow> (slot \<Rightarrow> silc_idcache) \<Rightarrow> (entry_kind \<Rightarrow> ptr \<Rightarrow> silc_id option option) \<Rightarrow> (slot \<Rightarrow> entry_ref set) \<Rightarrow> bool" where
  "view_ok h cs ids M \<longleftrightarrow>
     (\<forall>x. cache_inv h (M x) (cs x)) \<and> (\<forall>x. ic_id_type (cs x) = kind_type (snd x)) \<and>
     (\<forall>x y r. r \<in> M x \<and> r \<in> M y \<longrightarrow> x = y) \<and>
     (\<forall>x r e. r \<in> M x \<and> heap_get h r = Some e \<longrightarrow>
        (\<exists>p. ce_context e = Some p \<and> ids (snd x) p = Some (ce_id e))) \<and>
     (\<forall>x y r r' p. r \<in> M x \<and> r' \<in> M y \<and> snd x = snd y \<and> context_of h r = Some p \<and> context_of h r' = Some p \<longrightarrow> x = y)"

definition lists_ok :: "silc_server \<Rightarrow> bool" where
  "lists_ok s \<longleftrightarrow> (\<exists>M. view_ok (sv_cache_heap s) (cache_of s) (entry_ids s) M)"

section \<open>The directory\<close>

type_synonym directory = "slot \<Rightarrow> silc_id \<rightharpoonup> ptr"

definition dir_of :: "cache_heap \<Rightarrow> silc_idcache \<Rightarrow> silc_id \<rightharpoonup> ptr" where
  "dir_of h c i = Option.bind (silc_idcache_find_by_id_one c i) (context_of h)"

definition directory :: "silc_server \<Rightarrow> directory" where
  "directory s x = dir_of (sv_cache_heap s) (cache_of s x)"

datatype idlist_action =
    Nothing
  | Add slot "silc_id option" ptr
  | Remove slot ptr
  | Rename slot ptr silc_id

definition forget :: "ptr \<Rightarrow> (silc_id \<rightharpoonup> ptr) \<Rightarrow> silc_id \<rightharpoonup> ptr" where
  "forget p d i = (if d i = Some p then None else d i)"

fun dir_step :: "idlist_action \<Rightarrow> directory \<Rightarrow> directory" where
  "dir_step Nothing d = d"
| "dir_step (Add x io p) d = (case io of None \<Rightarrow> d | Some i \<Rightarrow> d(x := (d x)(i \<mapsto> p)))"
| "dir_step (Remove x p) d = d(x := forget p (d x))"
| "dir_step (Rename x p j) d = d(x := (forget p (d x))(j \<mapsto> p))"

section \<open>One cache\<close>

text \<open>The member \<open>r\<close> of a cache has the ID \<open>i\<close> and the context \<open>p\<close>.\<close>

definition holds_at :: "cache_heap \<Rightarrow> entry_ref set \<Rightarrow> silc_id \<Rightarrow> ptr \<Rightarrow> entry_ref \<Rightarrow> bool" where
  "holds_at h M i p r \<longleftrightarrow> r \<in> M \<and> (\<exists>e. heap_get h r = Some e \<and> ce_id e = Some i \<and> ce_context e = Some p)"

lemma dir_of_some:
  assumes "cache_inv h M c"
  shows "dir_of h c i = Some p \<longleftrightarrow> (\<exists>r. holds_at h M i p r)"
  using idcache.find_iff [OF assms, of i]
  by (auto simp: dir_of_def context_of_def bind_eq_Some_conv key_graph_def holds_at_def)

lemma holds_at_add:
  assumes "length h \<notin> M"
  shows "holds_at (h @ [Some e]) (insert (length h) M) i p r \<longleftrightarrow>
    holds_at h M i p r \<or> r = length h \<and> ce_id e = Some i \<and> ce_context e = Some p"
  using assms by (auto simp: holds_at_def dest: heap_get_less split: if_splits)

lemma holds_at_del:
  "r < length h \<Longrightarrow> holds_at (h[r := None]) (M - {r}) i p r' \<longleftrightarrow> holds_at h M i p r' \<and> r' \<noteq> r"
  by (auto simp: holds_at_def)

lemma holds_at_update:
  "r < length h \<Longrightarrow> r \<in> M \<Longrightarrow> holds_at (h[r := Some e']) M i p r' \<longleftrightarrow>
    (if r' = r then ce_id e' = Some i \<and> ce_context e' = Some p else holds_at h M i p r')"
  by (simp add: holds_at_def)

lemma holds_at_context_unique:
  assumes "cache_inv h M c" "r \<in> M" "context_of h r = Some p" "holds_at h M i p r'"
  shows "r' = r"
proof -
  have "(p, r) \<in> key_graph h M ce_context" "(p, r') \<in> key_graph h M ce_context"
    using assms by (auto simp: key_graph_def context_of_def holds_at_def bind_eq_Some_conv)
  with assms(1) show ?thesis unfolding cache_inv_def contexts_unique_def by blast
qed

lemma holds_at_context: "holds_at h M i q r \<Longrightarrow> context_of h r = Some p \<Longrightarrow> q = p"
  by (auto simp: holds_at_def context_of_def)

lemma forget_some: "forget p d i = Some q \<longleftrightarrow> d i = Some q \<and> q \<noteq> p"
  by (auto simp: forget_def)

lemma map_eqI: "(\<And>x y. f x = Some y \<longleftrightarrow> g x = Some y) \<Longrightarrow> f = g"
  by (rule ext) (metis option.exhaust)

lemma dir_of_frame:
  assumes "cache_inv h M c" "\<And>r. r \<in> M \<Longrightarrow> heap_get h' r = heap_get h r"
  shows "dir_of h' c = dir_of h c"
proof -
  have "holds_at h' M i p r = holds_at h M i p r" for i p r
    using assms(2) [of r] by (cases "r \<in> M") (simp_all add: holds_at_def)
  then show ?thesis
    using dir_of_some [OF assms(1)] dir_of_some [OF cache_inv_frame [OF assms]] by (intro map_eqI) simp
qed

lemma dir_of_add:
  assumes "cache_inv h M c" "cache_inv (h @ [Some e]) (insert (length h) M) c'" "ce_context e = Some p"
    "\<And>i. ce_id e = Some i \<Longrightarrow> silc_idcache_find_by_id_one c i = None"
  shows "dir_of (h @ [Some e]) c' = (case ce_id e of None \<Rightarrow> dir_of h c | Some i \<Rightarrow> (dir_of h c)(i \<mapsto> p))"
proof (rule map_eqI)
  fix i q
  have n: "dir_of h c i = None" if "ce_id e = Some i" using assms(4) [OF that] by (simp add: dir_of_def)
  have "dir_of (h @ [Some e]) c' i = Some q \<longleftrightarrow> dir_of h c i = Some q \<or> ce_id e = Some i \<and> q = p"
    unfolding dir_of_some [OF assms(2)] dir_of_some [OF assms(1)] holds_at_add [OF idcache.fresh [OF assms(1)]]
    using assms(3) by auto
  with n show "dir_of (h @ [Some e]) c' i = Some q \<longleftrightarrow>
    (case ce_id e of None \<Rightarrow> dir_of h c | Some i \<Rightarrow> (dir_of h c)(i \<mapsto> p)) i = Some q"
    by (auto split: option.split)
qed

lemma dir_of_del:
  assumes "cache_inv h M c" "cache_inv (h[r := None]) (M - {r}) c'" "r \<in> M" "context_of h r = Some p"
  shows "dir_of (h[r := None]) c' = forget p (dir_of h c)"
proof (rule map_eqI)
  fix i q
  have r: "r < length h" using assms(4) by (auto simp: context_of_def bind_eq_Some_conv dest: heap_get_less)
  show "dir_of (h[r := None]) c' i = Some q \<longleftrightarrow> forget p (dir_of h c) i = Some q"
    unfolding forget_some dir_of_some [OF assms(2)] dir_of_some [OF assms(1)] holds_at_del [OF r]
    using holds_at_context_unique [OF assms(1,3,4)] holds_at_context [OF _ assms(4)] by blast
qed

lemma dir_of_update:
  assumes "cache_inv h M c" "cache_inv (h[r := Some e']) M c'" "r \<in> M" "context_of h r = Some p"
    "ce_context e' = Some p" "ce_id e' = Some j" "\<And>r'. silc_idcache_find_by_id_one c j = Some r' \<Longrightarrow> r' = r"
  shows "dir_of (h[r := Some e']) c' = (forget p (dir_of h c))(j \<mapsto> p)"
proof (rule map_eqI)
  fix i q
  have r: "r < length h" using assms(4) by (auto simp: context_of_def bind_eq_Some_conv dest: heap_get_less)
  have v: "r' = r" if "holds_at h M j q r'" for r' q
    using assms(7) [of r'] idcache.find_iff [OF assms(1), of j r'] that by (auto simp: key_graph_def holds_at_def)
  have "dir_of (h[r := Some e']) c' i = Some q \<longleftrightarrow> i = j \<and> q = p \<or> (\<exists>r'. r' \<noteq> r \<and> holds_at h M i q r')"
    unfolding dir_of_some [OF assms(2)] holds_at_update [OF r assms(3)] using assms(5,6) by auto
  also have "\<dots> \<longleftrightarrow> (if i = j then q = p else dir_of h c i = Some q \<and> q \<noteq> p)"
    unfolding dir_of_some [OF assms(1)]
    using v [of q] holds_at_context_unique [OF assms(1,3,4), of i] holds_at_context [OF _ assms(4), of M i q]
    by (cases "i = j") (simp, blast, simp, metis)
  finally show "dir_of (h[r := Some e']) c' i = Some q \<longleftrightarrow> ((forget p (dir_of h c))(j \<mapsto> p)) i = Some q"
    by (auto simp: forget_some)
qed

section \<open>All caches\<close>

lemma view_okD:
  assumes "view_ok h cs ids M"
  shows "cache_inv h (M x) (cs x)" "ic_id_type (cs x) = kind_type (snd x)"
    "r \<in> M x \<Longrightarrow> r \<in> M y \<Longrightarrow> x = y"
    "r \<in> M x \<Longrightarrow> heap_get h r = Some e \<Longrightarrow> \<exists>p. ce_context e = Some p \<and> ids (snd x) p = Some (ce_id e)"
    "r \<in> M x \<Longrightarrow> r' \<in> M y \<Longrightarrow> snd x = snd y \<Longrightarrow> context_of h r = Some p \<Longrightarrow> context_of h r' = Some p \<Longrightarrow> x = y"
  using assms unfolding view_ok_def by blast+

lemma view_member:
  assumes "view_ok h cs ids M" "r \<in> M x"
  obtains e p where "heap_get h r = Some e" "ce_context e = Some p" "context_of h r = Some p"
    "ids (snd x) p = Some (ce_id e)"
proof -
  obtain e where e: "heap_get h r = Some e" using idcache.inv_member [OF view_okD(1) [OF assms(1)] assms(2)] by blast
  with view_okD(4) [OF assms e] that show thesis by (auto simp: context_of_def)
qed

lemma view_other:
  assumes "view_ok h cs ids M" "y \<noteq> x" "r \<in> M y"
  shows "r \<notin> M x"
    and "snd y = snd x \<Longrightarrow> r' \<in> M x \<Longrightarrow> context_of h r = Some p \<Longrightarrow> context_of h r' \<noteq> Some p"
  using view_okD(3) [OF assms(1,3), of x] view_okD(5) [OF assms(1,3), of r' x p] assms(2) by blast+

lemma view_context_unique:
  assumes v: "view_ok h cs ids M" and r: "r \<in> M x" "context_of h r = Some p"
    and r': "r' \<in> M y" "snd y = snd x" "r' \<noteq> r"
  shows "context_of h r' \<noteq> Some p"
proof
  assume c: "context_of h r' = Some p"
  note inv = view_okD(1) [OF v, of x]
  from c view_okD(5) [OF v r'(1) r(1)] r'(2) r(2) have "y = x" by simp
  with c r inv r'(1,3) have "(p, r) \<in> key_graph h (M x) ce_context" "(p, r') \<in> key_graph h (M x) ce_context"
    by (auto simp: context_of_def bind_eq_Some_conv key_graph_def)
  with inv r'(3) show False unfolding cache_inv_def contexts_unique_def by blast
qed

text \<open>Changing one cache, its cells of the heap and its entries keeps the others as they are.\<close>

lemma view_ok_slot:
  assumes v: "view_ok h cs ids M" and inv: "cache_inv h' N c'" and ty: "ic_id_type c' = kind_type (snd x)"
    and frame: "\<And>y r. y \<noteq> x \<Longrightarrow> r \<in> M y \<Longrightarrow> heap_get h' r = heap_get h r"
    and disj: "\<And>y r. y \<noteq> x \<Longrightarrow> r \<in> M y \<Longrightarrow> r \<notin> N"
    and own: "\<And>r e. r \<in> N \<Longrightarrow> heap_get h' r = Some e \<Longrightarrow> \<exists>p. ce_context e = Some p \<and> ids' (snd x) p = Some (ce_id e)"
    and other: "\<And>y r p. y \<noteq> x \<Longrightarrow> r \<in> M y \<Longrightarrow> context_of h r = Some p \<Longrightarrow> ids' (snd y) p = ids (snd y) p"
    and ctx: "\<And>y r r' p. y \<noteq> x \<Longrightarrow> snd y = snd x \<Longrightarrow> r \<in> M y \<Longrightarrow> r' \<in> N \<Longrightarrow> context_of h r = Some p \<Longrightarrow>
      context_of h' r' \<noteq> Some p"
  shows "view_ok h' (cs(x := c')) ids' (M(x := N))"
    and "y \<noteq> x \<Longrightarrow> dir_of h' (cs y) = dir_of h (cs y)"
proof -
  have c: "context_of h' r = context_of h r" if "y \<noteq> x" "r \<in> M y" for y r
    using frame [OF that] by (simp add: context_of_def)
  show "dir_of h' (cs y) = dir_of h (cs y)" if "y \<noteq> x" for y
    using dir_of_frame [OF view_okD(1) [OF v] frame [OF that]] by simp
  have "cache_inv h' ((M(x := N)) y) ((cs(x := c')) y)" for y
    using inv cache_inv_frame [OF view_okD(1) [OF v, of y], of h'] frame by simp
  moreover have "ic_id_type ((cs(x := c')) y) = kind_type (snd y)" for y
    using ty view_okD(2) [OF v] by simp
  moreover have "y = z" if "r \<in> (M(x := N)) y" "r \<in> (M(x := N)) z" for y z r
    using that disj view_okD(3) [OF v] by (auto split: if_splits)
  moreover have "\<exists>p. ce_context e = Some p \<and> ids' (snd y) p = Some (ce_id e)"
    if "r \<in> (M(x := N)) y" "heap_get h' r = Some e" for y r e
  proof (cases "y = x")
    case True with own that show ?thesis by simp
  next
    case False
    with that have r: "r \<in> M y" "heap_get h r = Some e" using frame [OF False] by simp_all
    from view_okD(4) [OF v r] other [OF False r(1)] r(2) show ?thesis by (auto simp: context_of_def)
  qed
  moreover have "y = z" if "r \<in> (M(x := N)) y" "r' \<in> (M(x := N)) z" "snd y = snd z"
    "context_of h' r = Some p" "context_of h' r' = Some p" for y z r r' p
  proof -
    consider "y = x" "z = x" | "y = x" "z \<noteq> x" | "y \<noteq> x" "z = x" | "y \<noteq> x" "z \<noteq> x" by blast
    then show ?thesis
    proof cases
      case 2 with that ctx [of z r' r p] c [of z r'] show ?thesis by simp
    next
      case 3 with that ctx [of y r r' p] c [of y r] show ?thesis by simp
    next
      case 4 with that view_okD(5) [OF v, of r y r' z p] c [of y r] c [of z r'] show ?thesis by simp
    qed simp
  qed
  ultimately show "view_ok h' (cs(x := c')) ids' (M(x := N))" unfolding view_ok_def by blast
qed

definition unlisted :: "cache_heap \<Rightarrow> (slot \<Rightarrow> entry_ref set) \<Rightarrow> entry_kind \<Rightarrow> ptr \<Rightarrow> bool" where
  "unlisted h M k p \<longleftrightarrow> (\<forall>w. \<forall>r \<in> M (w, k). context_of h r \<noteq> Some p)"

lemma unlisted_no_entry:
  assumes "view_ok h cs ids M" "ids k p = None" shows "unlisted h M k p"
  unfolding unlisted_def
proof (intro allI ballI notI)
  fix w r assume r: "r \<in> M (w, k)" "context_of h r = Some p"
  from view_member [OF assms(1) r(1)] r(2) assms(2) show False by (metis option.distinct(1) option.inject snd_conv)
qed

lemma idcache_id_type:
  "silc_idcache_add h c n io x = (ro, h', c') \<Longrightarrow> ic_id_type c' = ic_id_type c"
  "silc_idcache_del_by_context h c p = (b, h', c') \<Longrightarrow> ic_id_type c' = ic_id_type c"
  "silc_idcache_update h c r i' n' = (b, h', c') \<Longrightarrow> ic_id_type c' = ic_id_type c"
  by (auto simp: silc_idcache_add_def silc_idcache_del_by_context_def silc_idcache_del_def silc_idcache_update_def
      del_keys_def add_keys_def update_id_def update_name_def Let_def split: if_splits option.splits prod.splits)

text \<open>The four changes of a cache, and what each does to the directory.\<close>

abbreviation dirs :: "cache_heap \<Rightarrow> (slot \<Rightarrow> silc_idcache) \<Rightarrow> directory" where
  "dirs h cs \<equiv> \<lambda>x. dir_of h (cs x)"

lemma view_add_used:
  assumes v: "view_ok h cs ids M" and used: "silc_idcache_find_by_id_one (cs x) j \<noteq> None"
  shows "\<exists>c'. silc_idcache_add h (cs x) n (Some j) p = (None, h @ [None], c') \<and>
    view_ok (h @ [None]) (cs(x := c')) ids M \<and> dirs (h @ [None]) (cs(x := c')) = dirs h cs"
proof -
  obtain c' where c': "silc_idcache_add h (cs x) n (Some j) p = (None, h @ [None], c')" "cache_inv (h @ [None]) (M x) c'"
    using idcache.add_used [OF view_okD(1) [OF v] used, of n p] by blast
  have ctx: "context_of (h @ [None]) = context_of h" by (simp add: context_of_def fun_eq_iff)
  note s = view_ok_slot [OF v c'(2), of x ids]
  have "view_ok (h @ [None]) (cs(x := c')) ids (M(x := M x))"
  proof (rule s(1))
    show "ic_id_type c' = kind_type (snd x)" using idcache_id_type(1) [OF c'(1)] view_okD(2) [OF v] by simp
    show "\<exists>q. ce_context e = Some q \<and> ids (snd x) q = Some (ce_id e)"
      if "r \<in> M x" "heap_get (h @ [None]) r = Some e" for r e
      using view_okD(4) [OF v that(1)] that(2) by simp
    show "context_of (h @ [None]) r' \<noteq> Some q"
      if "y \<noteq> x" "snd y = snd x" "r \<in> M y" "r' \<in> M x" "context_of h r = Some q" for y r r' q
      using view_other(2) [OF v that(1,3,2,4,5)] by (simp add: ctx)
    show "r \<notin> M x" if "y \<noteq> x" "r \<in> M y" for y r by (rule view_other(1) [OF v that])
  qed simp_all
  moreover have "dir_of (h @ [None]) c' = dir_of h (cs x)"
    using dir_of_some [OF c'(2)] dir_of_some [OF view_okD(1) [OF v, of x]]
    by (intro map_eqI) (simp add: holds_at_def)
  moreover have "dir_of (h @ [None]) (cs y) = dir_of h (cs y)" for y
    by (rule dir_of_frame [OF view_okD(1) [OF v]]) simp
  ultimately show ?thesis using c'(1) by (auto simp: fun_eq_iff)
qed

lemma view_add_free:
  assumes v: "view_ok h cs ids M" and free: "\<And>j. io = Some j \<Longrightarrow> silc_idcache_find_by_id_one (cs x) j = None"
    and p: "unlisted h M (snd x) p"
  shows "\<exists>c' e. silc_idcache_add h (cs x) n io (Some p) = (Some (length h), h @ [Some e], c') \<and>
    view_ok (h @ [Some e]) (cs(x := c')) (ids(snd x := (ids (snd x))(p \<mapsto> io))) (M(x := insert (length h) (M x))) \<and>
    dirs (h @ [Some e]) (cs(x := c')) = dir_step (Add x io p) (dirs h cs)"
proof -
  let ?e = "\<lparr>ce_id = io, ce_name = n, ce_context = Some p\<rparr>"
  note inv = view_okD(1) [OF v, of x]
  have np: "(p, r) \<notin> key_graph h (M x) ce_context" for r
    using p by (cases x) (fastforce simp: unlisted_def key_graph_def context_of_def)
  obtain c' where c': "silc_idcache_add h (cs x) n io (Some p) = (Some (length h), h @ [Some ?e], c')"
    "cache_inv (h @ [Some ?e]) (insert (length h) (M x)) c'"
    using idcache.add_free [OF inv free np] by blast
  have m: "r < length h" if "r \<in> M y" for y r
    using idcache.inv_member [OF view_okD(1) [OF v] that] heap_get_less by auto
  have un: "context_of h r \<noteq> Some p" if "r \<in> M y" "snd y = snd x" for y r
    using p that by (cases y) (auto simp: unlisted_def)
  have own: "\<exists>q. ce_context e = Some q \<and> (ids(snd x := (ids (snd x))(p \<mapsto> io))) (snd x) q = Some (ce_id e)"
    if "r \<in> insert (length h) (M x)" "heap_get (h @ [Some ?e]) r = Some e" for r e
    using that m [of r x] view_okD(4) [OF v, of r x e] un [of r x] by (auto simp: context_of_def split: if_splits)
  have ctx: "context_of (h @ [Some ?e]) r = (if r < length h then context_of h r else if r = length h then Some p else None)"
    for r by (simp add: context_of_def)
  note s = view_ok_slot [OF v c'(2), of x "ids(snd x := (ids (snd x))(p \<mapsto> io))"]
  have "view_ok (h @ [Some ?e]) (cs(x := c')) (ids(snd x := (ids (snd x))(p \<mapsto> io))) (M(x := insert (length h) (M x)))"
  proof (rule s(1))
    show "context_of (h @ [Some ?e]) r' \<noteq> Some q"
      if "y \<noteq> x" "snd y = snd x" "r \<in> M y" "r' \<in> insert (length h) (M x)" "context_of h r = Some q" for y r r' q
      using that view_okD(5) [OF v, of r y r' x q] un [of r y] by (auto simp: ctx split: if_splits)
    show "(ids(snd x := (ids (snd x))(p \<mapsto> io))) (snd y) q = ids (snd y) q"
      if "y \<noteq> x" "r \<in> M y" "context_of h r = Some q" for y r q
      using un [of r y] that by auto
    show "ic_id_type c' = kind_type (snd x)" using idcache_id_type(1) [OF c'(1)] view_okD(2) [OF v] by simp
    show "heap_get (h @ [Some ?e]) r = heap_get h r" if "r \<in> M y" for y r using m [OF that] by simp
    show "r \<notin> insert (length h) (M x)" if "y \<noteq> x" "r \<in> M y" for y r
      using m [OF that(2)] view_other(1) [OF v that] by simp
  qed (rule own)
  moreover have "dir_of (h @ [Some ?e]) c' = (case io of None \<Rightarrow> dir_of h (cs x) | Some i \<Rightarrow> (dir_of h (cs x))(i \<mapsto> p))"
    using dir_of_add [OF inv c'(2)] free by simp
  moreover have "dir_of (h @ [Some ?e]) (cs y) = dir_of h (cs y)" for y
    using m by (intro dir_of_frame [OF view_okD(1) [OF v]]) auto
  ultimately show ?thesis using c'(1)
    by (intro exI [of _ c'] exI [of _ ?e]) (auto simp: fun_eq_iff split: option.splits)
qed

lemma view_del:
  assumes v: "view_ok h cs ids M" and r: "r \<in> M x" "context_of h r = Some p"
  shows "\<exists>c'. silc_idcache_del_by_context h (cs x) p = (True, h[r := None], c') \<and>
    view_ok (h[r := None]) (cs(x := c')) (ids(snd x := (ids (snd x))(p := z))) (M(x := M x - {r})) \<and>
    unlisted (h[r := None]) (M(x := M x - {r})) (snd x) p \<and>
    dirs (h[r := None]) (cs(x := c')) = dir_step (Remove x p) (dirs h cs)"
proof -
  note inv = view_okD(1) [OF v, of x]
  have l: "r < length h" using r(2) by (auto simp: context_of_def bind_eq_Some_conv dest: heap_get_less)
  have "(p, r) \<in> key_graph h (M x) ce_context" using r by (auto simp: context_of_def bind_eq_Some_conv key_graph_def)
  then obtain c' where c': "silc_idcache_del_by_context h (cs x) p = (True, h[r := None], c')"
    "cache_inv (h[r := None]) (M x - {r}) c'"
    using idcache.del_member [OF inv] by blast
  have ctx: "context_of (h[r := None]) r' = (if r' = r then None else context_of h r')" for r'
    using l by (simp add: context_of_def)
  note un = view_context_unique [OF v r]
  have other: "r' \<noteq> r" if "r' \<in> M y" "y \<noteq> x" for r' y using view_okD(3) [OF v, of r' y x] r(1) that by auto
  have "view_ok (h[r := None]) (cs(x := c')) (ids(snd x := (ids (snd x))(p := z))) (M(x := M x - {r}))"
  proof (rule view_ok_slot(1) [OF v c'(2)])
    show "\<exists>q. ce_context e = Some q \<and> (ids(snd x := (ids (snd x))(p := z))) (snd x) q = Some (ce_id e)"
      if "r' \<in> M x - {r}" "heap_get (h[r := None]) r' = Some e" for r' e
      using that view_okD(4) [OF v, of r' x e] un [of r' x] l by (auto simp: context_of_def)
    show "(ids(snd x := (ids (snd x))(p := z))) (snd y) q = ids (snd y) q"
      if "y \<noteq> x" "r' \<in> M y" "context_of h r' = Some q" for y r' q
      using un [of r' y] other [of r' y] that by auto
    show "context_of (h[r := None]) r'' \<noteq> Some q"
      if "y \<noteq> x" "snd y = snd x" "r' \<in> M y" "r'' \<in> M x - {r}" "context_of h r' = Some q" for y r' r'' q
      using that view_okD(5) [OF v, of r' y r'' x q] by (auto simp: ctx)
    show "ic_id_type c' = kind_type (snd x)" using idcache_id_type(2) [OF c'(1)] view_okD(2) [OF v] by simp
    show "heap_get (h[r := None]) r' = heap_get h r'" if "y \<noteq> x" "r' \<in> M y" for y r'
      using other [OF that(2,1)] l by simp
    show "r' \<notin> M x - {r}" if "y \<noteq> x" "r' \<in> M y" for y r' using view_other(1) [OF v that] by simp
  qed
  moreover have "unlisted (h[r := None]) (M(x := M x - {r})) (snd x) p"
    unfolding unlisted_def
  proof (intro allI ballI)
    fix w r' assume "r' \<in> (M(x := M x - {r})) (w, snd x)"
    then have "r' \<in> M (w, snd x)" "r' \<noteq> r" using other [of r' "(w, snd x)"] by (auto split: if_splits)
    with un [of r' "(w, snd x)"] show "context_of (h[r := None]) r' \<noteq> Some p" by (simp add: ctx)
  qed
  moreover have "dir_of (h[r := None]) (cs y) = dir_of h (cs y)" if "y \<noteq> x" for y
    using other [OF _ that] l by (intro dir_of_frame [OF view_okD(1) [OF v]]) auto
  ultimately show ?thesis using c'(1) dir_of_del [OF inv c'(2) r] by (auto simp: fun_eq_iff)
qed

lemma view_update:
  assumes v: "view_ok h cs ids M" and r: "r \<in> M x" "context_of h r = Some p"
    and free: "\<And>r'. silc_idcache_find_by_id_one (cs x) j = Some r' \<Longrightarrow> r' = r"
  shows "\<exists>h' c'. silc_idcache_update h (cs x) r (Some j) n = (True, h', c') \<and>
    view_ok h' (cs(x := c')) (ids(snd x := (ids (snd x))(p \<mapsto> Some j))) M \<and>
    dirs h' (cs(x := c')) = dir_step (Rename x p j) (dirs h cs)"
proof -
  note inv = view_okD(1) [OF v, of x]
  obtain e where e: "heap_get h r = Some e" "ce_context e = Some p" using r(2) by (auto simp: context_of_def bind_eq_Some_conv)
  have l: "r < length h" by (rule heap_get_less [OF e(1)])
  let ?e = "updated_entry (Some j) n e" and ?ids = "ids(snd x := (ids (snd x))(p \<mapsto> Some j))"
  have e': "ce_context ?e = Some p" "ce_id ?e = Some j" using e(2) by (simp_all add: updated_entry_def)
  obtain c' where c': "silc_idcache_update h (cs x) r (Some j) n = (True, h[r := Some ?e], c')"
    "cache_inv (h[r := Some ?e]) (M x) c'"
    using idcache.update_member [OF inv r(1) e(1), of "Some j" n] free by auto
  have ctx: "context_of (h[r := Some ?e]) = context_of h"
    using l e e' by (auto simp: context_of_def fun_eq_iff)
  note un = view_context_unique [OF v r]
  have other: "r' \<noteq> r" if "y \<noteq> x" "r' \<in> M y" for r' y using view_other(1) [OF v that] r(1) by blast
  have "view_ok (h[r := Some ?e]) (cs(x := c')) ?ids (M(x := M x))"
  proof (rule view_ok_slot(1) [OF v c'(2)])
    show "ic_id_type c' = kind_type (snd x)" using idcache_id_type(3) [OF c'(1)] view_okD(2) [OF v] by simp
    show "heap_get (h[r := Some ?e]) r' = heap_get h r'" if "y \<noteq> x" "r' \<in> M y" for y r'
      using other [OF that] l by simp
    show "\<exists>q. ce_context e1 = Some q \<and> ?ids (snd x) q = Some (ce_id e1)"
      if "r' \<in> M x" "heap_get (h[r := Some ?e]) r' = Some e1" for r' e1
      using that view_okD(4) [OF v, of r' x e1] un [of r' x] l e'
      by (cases "r' = r") (auto simp: context_of_def)
    show "?ids (snd y) q = ids (snd y) q" if "y \<noteq> x" "r' \<in> M y" "context_of h r' = Some q" for y r' q
      using un [of r' y] other [of y r'] that by auto
    show "r' \<notin> M x" if "y \<noteq> x" "r' \<in> M y" for y r' by (rule view_other(1) [OF v that])
    show "context_of (h[r := Some ?e]) r'' \<noteq> Some q"
      if "y \<noteq> x" "snd y = snd x" "r' \<in> M y" "r'' \<in> M x" "context_of h r' = Some q" for y r' r'' q
      using view_other(2) [OF v that(1,3,2,4,5)] by (simp add: ctx)
  qed
  moreover have "dir_of (h[r := Some ?e]) (cs y) = dir_of h (cs y)" if "y \<noteq> x" for y
    using other [OF that] l by (intro dir_of_frame [OF view_okD(1) [OF v]]) auto
  moreover have "dir_of (h[r := Some ?e]) c' = (forget p (dir_of h (cs x)))(j \<mapsto> p)"
    by (rule dir_of_update [OF inv c'(2) r e' free])
  ultimately show ?thesis using c'(1) by (auto simp: fun_eq_iff)
qed

section \<open>The operations\<close>

lemma get_list_upd [simp]:
  "get_list w (s\<lparr>sv_cache_heap := h\<rparr>) = get_list w s" "get_list w (s\<lparr>sv_servers := m1\<rparr>) = get_list w s"
  "get_list w (s\<lparr>sv_clients := m2\<rparr>) = get_list w s" "get_list w (s\<lparr>sv_channels := m3\<rparr>) = get_list w s"
  "get_list w (s\<lparr>sv_chls := m4\<rparr>) = get_list w s" "get_list w (s\<lparr>sv_trace := t\<rparr>) = get_list w s"
  "get_list w (s\<lparr>sv_stat := st\<rparr>) = get_list w s"
  by (simp_all add: get_list_def split: which_list.split)

lemma cache_of_lists: "(\<And>w. get_list w s' = get_list w s) \<Longrightarrow> cache_of s' = cache_of s"
proof (rule ext)
  fix x assume "\<And>w. get_list w s' = get_list w s"
  then show "cache_of s' x = cache_of s x" by (cases "(s, x)" rule: cache_of.cases) simp_all
qed

lemma cache_of_upd [simp]:
  "cache_of (s\<lparr>sv_cache_heap := h\<rparr>) = cache_of s" "cache_of (s\<lparr>sv_servers := m1\<rparr>) = cache_of s"
  "cache_of (s\<lparr>sv_clients := m2\<rparr>) = cache_of s" "cache_of (s\<lparr>sv_channels := m3\<rparr>) = cache_of s"
  "cache_of (s\<lparr>sv_chls := m4\<rparr>) = cache_of s" "cache_of (s\<lparr>sv_trace := t\<rparr>) = cache_of s"
  "cache_of (s\<lparr>sv_stat := st\<rparr>) = cache_of s"
  by (rule cache_of_lists, simp)+

lemma get_put_list [simp]: "get_list w (put_list w' l s) = (if w = w' then l else get_list w s)"
  by (cases w; cases w'; simp add: get_list_def put_list_def)

lemma cache_of_put [simp]:
  "cache_of (put_list w ((get_list w s)\<lparr>il_servers := c\<rparr>) (s\<lparr>sv_cache_heap := h\<rparr>)) = (cache_of s)((w, Servers) := c)"
  "cache_of (put_list w ((get_list w s)\<lparr>il_clients := c\<rparr>) (s\<lparr>sv_cache_heap := h\<rparr>)) = (cache_of s)((w, Clients) := c)"
  "cache_of (put_list w ((get_list w s)\<lparr>il_channels := c\<rparr>) (s\<lparr>sv_cache_heap := h\<rparr>)) = (cache_of s)((w, Channels) := c)"
proof -
  have "cache_of (put_list w ((get_list w s)\<lparr>il_servers := c\<rparr>) (s\<lparr>sv_cache_heap := h\<rparr>)) x = ((cache_of s)((w, Servers) := c)) x"
    "cache_of (put_list w ((get_list w s)\<lparr>il_clients := c\<rparr>) (s\<lparr>sv_cache_heap := h\<rparr>)) x = ((cache_of s)((w, Clients) := c)) x"
    "cache_of (put_list w ((get_list w s)\<lparr>il_channels := c\<rparr>) (s\<lparr>sv_cache_heap := h\<rparr>)) x = ((cache_of s)((w, Channels) := c)) x"
    for x by (cases "(s, x)" rule: cache_of.cases; simp)+
  then show
    "cache_of (put_list w ((get_list w s)\<lparr>il_servers := c\<rparr>) (s\<lparr>sv_cache_heap := h\<rparr>)) = (cache_of s)((w, Servers) := c)"
    "cache_of (put_list w ((get_list w s)\<lparr>il_clients := c\<rparr>) (s\<lparr>sv_cache_heap := h\<rparr>)) = (cache_of s)((w, Clients) := c)"
    "cache_of (put_list w ((get_list w s)\<lparr>il_channels := c\<rparr>) (s\<lparr>sv_cache_heap := h\<rparr>)) = (cache_of s)((w, Channels) := c)"
    by blast+
qed

lemma put_list_fields [simp]:
  "sv_cache_heap (put_list w l s) = sv_cache_heap s" "sv_servers (put_list w l s) = sv_servers s"
  "sv_clients (put_list w l s) = sv_clients s" "sv_channels (put_list w l s) = sv_channels s"
  "sv_chls (put_list w l s) = sv_chls s" "sv_server_type (put_list w l s) = sv_server_type s"
  "sv_trace (put_list w l s) = sv_trace s" "sv_stat (put_list w l s) = sv_stat s"
  by (simp_all add: put_list_def split: which_list.split)

lemma entry_ids_stores:
  "sv_servers s' = sv_servers s \<Longrightarrow> sv_clients s' = sv_clients s \<Longrightarrow> sv_channels s' = sv_channels s \<Longrightarrow>
    entry_ids s' = entry_ids s"
  by (intro ext) (metis entry_ids.simps entry_kind.exhaust)

lemma entry_ids_upd [simp]:
  "entry_ids (put_list w l s) = entry_ids s" "entry_ids (s\<lparr>sv_cache_heap := h\<rparr>) = entry_ids s"
  "entry_ids (s\<lparr>sv_chls := m4\<rparr>) = entry_ids s" "entry_ids (s\<lparr>sv_trace := t\<rparr>) = entry_ids s"
  "entry_ids (s\<lparr>sv_stat := st\<rparr>) = entry_ids s"
  by (rule entry_ids_stores; simp)+

lemma entry_ids_store_upd [simp]:
  "entry_ids (s\<lparr>sv_servers := (sv_servers s)(p := v1)\<rparr>) =
    (entry_ids s)(Servers := (entry_ids s Servers)(p := map_option (\<lambda>e. map_option ServerID (se_id e)) v1))"
  "entry_ids (s\<lparr>sv_clients := (sv_clients s)(p := v2)\<rparr>) =
    (entry_ids s)(Clients := (entry_ids s Clients)(p := map_option (\<lambda>e. map_option ClientID (cl_id e)) v2))"
  "entry_ids (s\<lparr>sv_channels := (sv_channels s)(p := v3)\<rparr>) =
    (entry_ids s)(Channels := (entry_ids s Channels)(p := map_option (\<lambda>e. map_option ChannelID (ch_id e)) v3))"
proof -
  have "entry_ids (s\<lparr>sv_servers := (sv_servers s)(p := v1)\<rparr>) k q =
    ((entry_ids s)(Servers := (entry_ids s Servers)(p := map_option (\<lambda>e. map_option ServerID (se_id e)) v1))) k q"
    "entry_ids (s\<lparr>sv_clients := (sv_clients s)(p := v2)\<rparr>) k q =
    ((entry_ids s)(Clients := (entry_ids s Clients)(p := map_option (\<lambda>e. map_option ClientID (cl_id e)) v2))) k q"
    "entry_ids (s\<lparr>sv_channels := (sv_channels s)(p := v3)\<rparr>) k q =
    ((entry_ids s)(Channels := (entry_ids s Channels)(p := map_option (\<lambda>e. map_option ChannelID (ch_id e)) v3))) k q" for k q
    by (cases k; simp)+
  then show "entry_ids (s\<lparr>sv_servers := (sv_servers s)(p := v1)\<rparr>) =
    (entry_ids s)(Servers := (entry_ids s Servers)(p := map_option (\<lambda>e. map_option ServerID (se_id e)) v1))"
  "entry_ids (s\<lparr>sv_clients := (sv_clients s)(p := v2)\<rparr>) =
    (entry_ids s)(Clients := (entry_ids s Clients)(p := map_option (\<lambda>e. map_option ClientID (cl_id e)) v2))"
  "entry_ids (s\<lparr>sv_channels := (sv_channels s)(p := v3)\<rparr>) =
    (entry_ids s)(Channels := (entry_ids s Channels)(p := map_option (\<lambda>e. map_option ChannelID (ch_id e)) v3))"
    by blast+
qed

lemma entry_ids_put_upd [simp]:
  "entry_ids (put_list w l (s\<lparr>sv_cache_heap := h\<rparr>)\<lparr>sv_servers := (sv_servers s)(p := v1)\<rparr>) =
    (entry_ids s)(Servers := (entry_ids s Servers)(p := map_option (\<lambda>e. map_option ServerID (se_id e)) v1))"
  "entry_ids (put_list w l (s\<lparr>sv_cache_heap := h\<rparr>)\<lparr>sv_clients := (sv_clients s)(p := v2)\<rparr>) =
    (entry_ids s)(Clients := (entry_ids s Clients)(p := map_option (\<lambda>e. map_option ClientID (cl_id e)) v2))"
  "entry_ids (put_list w l (s\<lparr>sv_cache_heap := h\<rparr>)\<lparr>sv_channels := (sv_channels s)(p := v3)\<rparr>) =
    (entry_ids s)(Channels := (entry_ids s Channels)(p := map_option (\<lambda>e. map_option ChannelID (ch_id e)) v3))"
  using entry_ids_store_upd [of "put_list w l (s\<lparr>sv_cache_heap := h\<rparr>)"] by simp_all

text \<open>A change that the directory and the invariant do not see.\<close>

definition same_lists :: "silc_server \<Rightarrow> silc_server \<Rightarrow> bool" where
  "same_lists s s' \<longleftrightarrow> sv_cache_heap s' = sv_cache_heap s \<and> cache_of s' = cache_of s \<and> entry_ids s' = entry_ids s"

lemma same_listsI:
  assumes "sv_cache_heap s' = sv_cache_heap s" "\<And>w. get_list w s' = get_list w s" "sv_servers s' = sv_servers s"
    "sv_clients s' = sv_clients s" "sv_channels s' = sv_channels s"
  shows "same_lists s s'"
  unfolding same_lists_def using assms entry_ids_stores cache_of_lists by blast

lemma same_lists_refl [simp, intro]: "same_lists s s"
  by (simp add: same_lists_def)

lemma same_lists_trans: "same_lists a b \<Longrightarrow> same_lists b c \<Longrightarrow> same_lists a c"
  by (simp add: same_lists_def)

lemma same_lists_ok: "same_lists s s' \<Longrightarrow> lists_ok s' = lists_ok s" "same_lists s s' \<Longrightarrow> directory s' = directory s"
  by (simp_all add: same_lists_def lists_ok_def directory_def [abs_def])

lemma same_lists_update:
  "(\<And>c. cl_id (f c) = cl_id c) \<Longrightarrow> same_lists s (update_client p f s)"
  "(\<And>c. ch_id (g c) = ch_id c) \<Longrightarrow> same_lists s (update_channel p g s)"
  "same_lists s (emit ev s)" "same_lists s (free_chl k s)"
  unfolding same_lists_def update_client_def update_channel_def emit_def free_chl_def
  by (simp_all add: option.map_comp comp_def fun_upd_idem)

text \<open>The changes of one cache, for states of the server.\<close>

definition lists_view :: "silc_server \<Rightarrow> cache_heap \<Rightarrow> (slot \<Rightarrow> silc_idcache) \<Rightarrow> (entry_kind \<Rightarrow> ptr \<Rightarrow> silc_id option option) \<Rightarrow> bool" where
  "lists_view s h cs ids \<longleftrightarrow> sv_cache_heap s = h \<and> cache_of s = cs \<and> entry_ids s = ids"

lemma directory_dirs: "directory s = dirs (sv_cache_heap s) (cache_of s)"
  by (simp add: directory_def [abs_def])

lemma lists_viewD:
  assumes "lists_view s h cs ids"
  shows "view_ok h cs ids M \<Longrightarrow> lists_ok s" "directory s = dirs h cs"
  using assms by (auto simp: lists_view_def lists_ok_def directory_def [abs_def])

lemma view_dir_none:
  assumes v: "view_ok h cs ids M"
  shows "dir_of h (cs x) j = None \<longleftrightarrow> silc_idcache_find_by_id_one (cs x) j = None"
proof -
  have "dir_of h (cs x) j \<noteq> None" if "silc_idcache_find_by_id_one (cs x) j = Some r" for r
  proof -
    have "r \<in> M x" using that idcache.find_iff [OF view_okD(1) [OF v]] by (auto simp: key_graph_def)
    then obtain e p where "context_of h r = Some p" using view_member [OF v] by metis
    with that show ?thesis by (simp add: dir_of_def)
  qed
  then show ?thesis by (cases "silc_idcache_find_by_id_one (cs x) j") (auto simp: dir_of_def)
qed

lemma directory_none:
  "lists_ok s \<Longrightarrow> directory s x j = None \<longleftrightarrow> silc_idcache_find_by_id_one (cache_of s x) j = None"
  unfolding lists_ok_def directory_def by (elim exE) (rule view_dir_none)

lemma state_add:
  assumes "lists_ok s" "entry_ids s k p = None"
    "silc_idcache_add (sv_cache_heap s) (cache_of s (w, k)) n io (Some p) = (ro, h', c')"
    "lists_view s' h' ((cache_of s)((w, k) := c'))
      (if ro = None then entry_ids s else (entry_ids s)(k := (entry_ids s k)(p \<mapsto> io)))"
  shows "lists_ok s'" "ro = None \<longleftrightarrow> (\<exists>j. io = Some j \<and> directory s (w, k) j \<noteq> None)"
    "directory s' = (if ro = None then directory s else dir_step (Add (w, k) io p) (directory s))"
proof -
  obtain M where v: "view_ok (sv_cache_heap s) (cache_of s) (entry_ids s) M" using assms(1) by (auto simp: lists_ok_def)
  note d = lists_viewD [OF assms(4)] and d0 = directory_dirs [of s]
  have "lists_ok s' \<and> (ro = None \<longleftrightarrow> (\<exists>j. io = Some j \<and> directory s (w, k) j \<noteq> None)) \<and>
    directory s' = (if ro = None then directory s else dir_step (Add (w, k) io p) (directory s))"
  proof (cases "\<exists>j. io = Some j \<and> silc_idcache_find_by_id_one (cache_of s (w, k)) j \<noteq> None")
    case True
    then obtain j where j: "io = Some j" "silc_idcache_find_by_id_one (cache_of s (w, k)) j \<noteq> None" by blast
    from view_add_used [OF v j(2), of n "Some p"] assms(3) j(1) d j directory_none [OF assms(1)] show ?thesis
      by (auto simp: d0)
  next
    case False
    then have "silc_idcache_find_by_id_one (cache_of s (w, k)) j = None" if "io = Some j" for j using that by blast
    with view_add_free [OF v, of io "(w, k)" p n] unlisted_no_entry [OF v assms(2)] assms(3) d False directory_none [OF assms(1)]
    show ?thesis by (auto simp: d0)
  qed
  then show "lists_ok s'" "ro = None \<longleftrightarrow> (\<exists>j. io = Some j \<and> directory s (w, k) j \<noteq> None)"
    "directory s' = (if ro = None then directory s else dir_step (Add (w, k) io p) (directory s))" by blast+
qed

lemma state_del:
  assumes "lists_ok s" "silc_idcache_del_by_context (sv_cache_heap s) (cache_of s (w, k)) p = (ok, h', c')"
    "lists_view s' h' ((cache_of s)((w, k) := c'))
      (if ok then (entry_ids s)(k := (entry_ids s k)(p := z)) else entry_ids s)"
  shows "lists_ok s'" "directory s' = (if ok then dir_step (Remove (w, k) p) (directory s) else directory s)"
    "directory s (w, k) j = Some p \<Longrightarrow> ok" "\<not> ok \<Longrightarrow> h' = sv_cache_heap s \<and> c' = cache_of s (w, k)"
proof -
  obtain M where v: "view_ok (sv_cache_heap s) (cache_of s) (entry_ids s) M" using assms(1) by (auto simp: lists_ok_def)
  note d = lists_viewD [OF assms(3)] and inv = view_okD(1) [OF v, of "(w, k)"]
  have "lists_ok s' \<and> directory s' = (if ok then dir_step (Remove (w, k) p) (directory s) else directory s) \<and>
    (directory s (w, k) j = Some p \<longrightarrow> ok) \<and> (\<not> ok \<longrightarrow> h' = sv_cache_heap s \<and> c' = cache_of s (w, k))"
  proof (cases "\<exists>r \<in> M (w, k). context_of (sv_cache_heap s) r = Some p")
    case True
    then obtain r where r: "r \<in> M (w, k)" "context_of (sv_cache_heap s) r = Some p" by blast
    from view_del [OF v r, of z] assms(2) d show ?thesis by (auto simp: directory_dirs [of s])
  next
    case False
    then have n: "(p, r) \<notin> key_graph (sv_cache_heap s) (M (w, k)) ce_context" for r
      by (fastforce simp: key_graph_def context_of_def)
    have res: "ok = False" "h' = sv_cache_heap s" "c' = cache_of s (w, k)"
      using idcache.del_absent [OF inv n] assms(2) by simp_all
    have "directory s (w, k) j \<noteq> Some p"
      using False dir_of_some [OF inv] by (fastforce simp: directory_def holds_at_def context_of_def)
    with res d v show ?thesis by (auto simp: directory_dirs [of s] fun_upd_idem)
  qed
  then show "lists_ok s'" "directory s' = (if ok then dir_step (Remove (w, k) p) (directory s) else directory s)"
    "directory s (w, k) j = Some p \<Longrightarrow> ok" "\<not> ok \<Longrightarrow> h' = sv_cache_heap s \<and> c' = cache_of s (w, k)" by blast+
qed

lemma state_update:
  assumes "lists_ok s" "silc_idcache_find_by_id_one (cache_of s (w, k)) old = Some r"
    "context_of (sv_cache_heap s) r = Some p"
    "directory s (w, k) new = None \<or> directory s (w, k) new = Some p"
    "silc_idcache_update (sv_cache_heap s) (cache_of s (w, k)) r (Some new) n = (ok, h', c')"
    "lists_view s' h' ((cache_of s)((w, k) := c')) ((entry_ids s)(k := (entry_ids s k)(p \<mapsto> Some new)))"
  shows "ok \<and> lists_ok s' \<and> directory s' = dir_step (Rename (w, k) p new) (directory s)"
proof -
  obtain M where v: "view_ok (sv_cache_heap s) (cache_of s) (entry_ids s) M" using assms(1) by (auto simp: lists_ok_def)
  note inv = view_okD(1) [OF v, of "(w, k)"]
  have r: "r \<in> M (w, k)" using assms(2) idcache.find_iff [OF inv] by (auto simp: key_graph_def)
  have "r' = r" if f: "silc_idcache_find_by_id_one (cache_of s (w, k)) new = Some r'" for r'
  proof -
    have r': "r' \<in> M (w, k)" using f idcache.find_iff [OF inv] by (auto simp: key_graph_def)
    have "context_of (sv_cache_heap s) r' = Some p"
      using assms(4) f directory_none [OF assms(1), of "(w, k)" new] by (auto simp: directory_def dir_of_def)
    with view_context_unique [OF v r assms(3) r'] show ?thesis by auto
  qed
  with view_update [OF v r assms(3), of new n] assms(5) lists_viewD [OF assms(6)] show ?thesis
    by (auto simp: directory_dirs [of s])
qed

text \<open>
  Server and Channel IDs are compared in full, so deleting one by its ID deletes the entry that
  has it.
\<close>

lemma del_by_id_exact:
  assumes "cache_inv h M c" "ic_id_type c \<noteq> SILC_ID_CLIENT" "holds_at h M i p r"
  shows "silc_idcache_del_by_id h c i = silc_idcache_del_by_context h c p"
proof -
  have g: "(i, r) \<in> key_graph h M ce_id" "(p, r) \<in> key_graph h M ce_context"
    using assms(3) by (auto simp: holds_at_def key_graph_def)
  have "cache_ok h M c" and u: "ids_unique h M" using assms(1) by (simp_all add: cache_inv_def)
  note t = cache_tables(1) [OF this(1)]
  have same: "silc_hash_id_compare (ic_id_type c) a b \<longleftrightarrow> a = b" for a b
    using assms(2) by (simp add: silc_hash_id_compare_def SILC_ID_COMPARE_TYPE_def)
  have "silc_hash_table_find (ic_id_table c) i \<noteq> None"
    using hk_id.table_of_find(2) [OF t, of i] g(1) same by force
  then obtain e where e: "silc_hash_table_find (ic_id_table c) i = Some e" by blast
  then have "e \<in> key_graph h M ce_id" "fst e = i" using hk_id.table_of_find(1) [OF t] same by auto
  then have "e = (i, r)" using u g(1) by (cases e) (auto simp: ids_unique_def)
  with e find_by_context_iff(1) [OF assms(1) g(2)] show ?thesis
    by (simp add: silc_idcache_del_by_id_def silc_idcache_del_by_context_def)
qed

lemma state_replace:
  assumes "lists_ok s" "k \<noteq> Clients" "silc_idcache_find_by_id_one (cache_of s (w, k)) old = Some r"
    "context_of (sv_cache_heap s) r = Some p"
    "silc_idcache_del_by_id (sv_cache_heap s) (cache_of s (w, k)) old = (b, h1, c1)"
    "silc_idcache_add h1 c1 n (Some new) (Some p) = (ro, h', c')"
    "lists_view s' h' ((cache_of s)((w, k) := c')) ((entry_ids s)(k := (entry_ids s k)(p \<mapsto> Some new)))"
  shows "lists_ok s' \<and> directory s' =
    (if directory s (w, k) new = None \<or> directory s (w, k) new = Some p
     then dir_step (Rename (w, k) p new) (directory s) else dir_step (Remove (w, k) p) (directory s))"
proof -
  obtain M where v: "view_ok (sv_cache_heap s) (cache_of s) (entry_ids s) M" using assms(1) by (auto simp: lists_ok_def)
  let ?x = "(w, k)" and ?h = "(sv_cache_heap s)[r := None]" and ?cs = "(cache_of s)((w, k) := c1)"
    and ?ids = "(entry_ids s)(k := (entry_ids s k)(p \<mapsto> Some new))" and ?M = "M((w, k) := M (w, k) - {r})"
  note inv = view_okD(1) [OF v, of ?x]
  have r: "r \<in> M ?x" using assms(3) idcache.find_iff [OF inv] by (auto simp: key_graph_def)
  have "holds_at (sv_cache_heap s) (M ?x) old p r"
    using assms(3,4) idcache.find_iff [OF inv] by (auto simp: key_graph_def holds_at_def context_of_def)
  moreover have "ic_id_type (cache_of s ?x) \<noteq> SILC_ID_CLIENT" using view_okD(2) [OF v, of ?x] assms(2) by (cases k) auto
  ultimately have "silc_idcache_del_by_context (sv_cache_heap s) (cache_of s ?x) p = (b, h1, c1)"
    using del_by_id_exact [OF inv] assms(5) by simp
  with view_del [OF v r assms(4), of "Some (Some new)"] have h1: "h1 = ?h" and v1: "view_ok ?h ?cs ?ids ?M"
    and un: "unlisted ?h ?M k p" and d1: "dirs ?h ?cs = dir_step (Remove ?x p) (directory s)"
    by (auto simp: directory_dirs)
  note d = lists_viewD [OF assms(7)]
  have new: "silc_idcache_find_by_id_one (?cs ?x) new = None \<longleftrightarrow> directory s ?x new = None \<or> directory s ?x new = Some p"
    using view_dir_none [OF v1, of ?x new] fun_cong [OF d1, of ?x] by (auto simp: forget_def)
  have idem: "?ids(k := (?ids k)(p \<mapsto> Some new)) = ?ids" by simp
  show ?thesis
  proof (cases "silc_idcache_find_by_id_one (?cs ?x) new = None")
    case True
    then obtain c2 e where e: "silc_idcache_add ?h (?cs ?x) n (Some new) (Some p) = (Some (length ?h), ?h @ [Some e], c2)"
      and v2: "view_ok (?h @ [Some e]) (?cs(?x := c2)) (?ids(k := (?ids k)(p \<mapsto> Some new))) (?M(?x := insert (length ?h) (?M ?x)))"
      and d2: "dirs (?h @ [Some e]) (?cs(?x := c2)) = dir_step (Add ?x (Some new) p) (dirs ?h ?cs)"
      using view_add_free [OF v1, of "Some new" ?x p n] un by auto
    from e assms(6) h1 have "h' = ?h @ [Some e]" "c' = c2" by simp_all
    moreover have "dir_of ?h c1 = forget p (directory s ?x)" using fun_cong [OF d1, of ?x] by simp
    ultimately show ?thesis using v2 d2 d True new idem d1 by auto
  next
    case False
    then obtain c2 where c2: "silc_idcache_add ?h (?cs ?x) n (Some new) (Some p) = (None, ?h @ [None], c2)"
      and v2: "view_ok (?h @ [None]) (?cs(?x := c2)) ?ids ?M"
      and d2: "dirs (?h @ [None]) (?cs(?x := c2)) = dirs ?h ?cs"
      using view_add_used [OF v1, of ?x new n "Some p"] by auto
    from c2 assms(6) h1 have "h' = ?h @ [None]" "c' = c2" by simp_all
    with v2 d2 d False new d1 show ?thesis by auto
  qed
qed

section \<open>Steps\<close>

text \<open>
  One call of an operation of \<^verbatim>\<open>idlist.c\<close> that returns.  New entries have new addresses.  Clients are
  only renamed to IDs that are free in their list, which the callers make sure of when they create
  the ID; the other operations have no such guard.
\<close>

inductive idlist_step :: "prep_env \<Rightarrow> idlist_action \<Rightarrow> silc_server \<Rightarrow> silc_server \<Rightarrow> bool" for env where
  add_server: "silc_idlist_add_server env p w name ty i router conn s = (ro, s') \<Longrightarrow> sv_servers s p = None \<Longrightarrow>
    idlist_step env (if ro = None then Nothing else Add (w, Servers) (map_option ServerID i) p) s s'"
| add_client: "silc_idlist_add_client env p w nick user info i router conn s = Some (ro, s') \<Longrightarrow> sv_clients s p = None \<Longrightarrow>
    idlist_step env (if ro = None then Nothing else Add (w, Clients) (map_option ClientID i) p) s s'"
| add_channel: "silc_idlist_add_channel env p now dh w name mode i router sk rk hmac s = (ro, s') \<Longrightarrow> sv_channels s p = None \<Longrightarrow>
    idlist_step env (if ro = None then Nothing else Add (w, Channels) (map_option ChannelID i) p) s s'"
| del_server: "silc_idlist_del_server w (Some p) s = (ok, s') \<Longrightarrow>
    idlist_step env (if ok then Remove (w, Servers) p else Nothing) s s'"
| del_client: "silc_idlist_del_client w (Some p) s = Some (ok, s') \<Longrightarrow>
    idlist_step env (if ok then Remove (w, Clients) p else Nothing) s s'"
| del_channel: "silc_idlist_del_channel w (Some p) s = Some (ok, s') \<Longrightarrow>
    idlist_step env (if ok then Remove (w, Channels) p else Nothing) s s'"
| replace_server: "silc_idlist_replace_server_id w (Some old) (Some new) s = Some (ro, s') \<Longrightarrow>
    idlist_step env
      (case ro of None \<Rightarrow> Nothing
       | Some p \<Rightarrow> if directory s (w, Servers) (ServerID new) \<in> {None, Some p}
           then Rename (w, Servers) p (ServerID new) else Remove (w, Servers) p) s s'"
| replace_channel: "silc_idlist_replace_channel_id now w (Some old) (Some new) s = Some (ro, s') \<Longrightarrow>
    idlist_step env
      (case ro of None \<Rightarrow> Nothing
       | Some p \<Rightarrow> if directory s (w, Channels) (ChannelID new) \<in> {None, Some p}
           then Rename (w, Channels) p (ChannelID new) else Remove (w, Channels) p) s s'"
| replace_client: "silc_idlist_replace_client_id env w (Some old) (Some new) nick s = Some (ro, s') \<Longrightarrow>
    directory s (w, Clients) (ClientID new) = None \<or>
    directory s (w, Clients) (ClientID new) = directory s (w, Clients) (ClientID old) \<Longrightarrow>
    idlist_step env (case ro of None \<Rightarrow> Nothing | Some p \<Rightarrow> Rename (w, Clients) p (ClientID new)) s s'"
| find_channel: "silc_idlist_find_channel_by_name now w name s = Some (ro, s') \<or>
    silc_idlist_find_channel_by_id now w io s = Some (ro, s') \<Longrightarrow> idlist_step env Nothing s s'"

lemma step_add_server:
  assumes "lists_ok s" "sv_servers s p = None" "silc_idlist_add_server env p w name ty i router conn s = (ro, s')"
  shows "lists_ok s' \<and> directory s' =
    dir_step (if ro = None then Nothing else Add (w, Servers) (map_option ServerID i) p) (directory s)"
proof -
  obtain n where n: "normalize (\<lambda>n. silc_identifier_check env n SILC_STRING_UTF8 256) (map_option cstr name) = Some n \<or>
      ro = None \<and> s' = s"
    using assms(3) by (auto simp: silc_idlist_add_server_def split: option.splits)
  obtain r h c where a: "silc_idcache_add (sv_cache_heap s) (cache_of s (w, Servers)) n (map_option ServerID i) (Some p) = (r, h, c)"
    by (metis prod_cases3)
  have "lists_view s' h ((cache_of s)((w, Servers) := c)) (if r = None then entry_ids s
      else (entry_ids s)(Servers := (entry_ids s Servers)(p \<mapsto> map_option ServerID i))) \<and> (r = None \<longleftrightarrow> ro = None)
    \<or> ro = None \<and> s' = s"
    using n assms(3) a
    by (auto simp: silc_idlist_add_server_def Let_def lists_view_def split: option.splits bool.splits)
  with state_add [OF assms(1) _ a, of s'] assms(1,2) show ?thesis by auto
qed

lemma step_add_client:
  assumes "lists_ok s" "sv_clients s p = None" "silc_idlist_add_client env p w nick user info i router conn s = Some (ro, s')"
  shows "lists_ok s' \<and> directory s' =
    dir_step (if ro = None then Nothing else Add (w, Clients) (map_option ClientID i) p) (directory s)"
proof -
  obtain n where n: "normalize (\<lambda>n. silc_identifier_check env n SILC_STRING_UTF8 128) (map_option cstr nick) = Some n \<or>
      ro = None \<and> s' = s"
    using assms(3) by (auto simp: silc_idlist_add_client_def split: option.splits)
  obtain r h c where a: "silc_idcache_add (sv_cache_heap s) (cache_of s (w, Clients)) n (map_option ClientID i) (Some p) = (r, h, c)"
    by (metis prod_cases3)
  have "lists_view s' h ((cache_of s)((w, Clients) := c)) (if r = None then entry_ids s
      else (entry_ids s)(Clients := (entry_ids s Clients)(p \<mapsto> map_option ClientID i))) \<and> (r = None \<longleftrightarrow> ro = None)
    \<or> ro = None \<and> s' = s"
    using n assms(3) a
    by (auto simp: silc_idlist_add_client_def Let_def lists_view_def split: option.splits bool.splits)
  with state_add [OF assms(1) _ a, of s'] assms(1,2) show ?thesis by auto
qed

lemma step_add_channel:
  assumes "lists_ok s" "sv_channels s p = None" "silc_idlist_add_channel env p now dh w name mode i router sk rk hmac s = (ro, s')"
  shows "lists_ok s' \<and> directory s' =
    dir_step (if ro = None then Nothing else Add (w, Channels) (map_option ChannelID i) p) (directory s)"
proof -
  obtain n where n: "normalize (\<lambda>n. silc_channel_name_check env n SILC_STRING_UTF8 256) (map_option cstr name) = Some n \<or>
      ro = None \<and> s' = s"
    using assms(3) by (auto simp: silc_idlist_add_channel_def split: option.splits)
  obtain r h c where a: "silc_idcache_add (sv_cache_heap s) (cache_of s (w, Channels)) n (map_option ChannelID i) (Some p) = (r, h, c)"
    by (metis prod_cases3)
  have "lists_view s' h ((cache_of s)((w, Channels) := c)) (if r = None then entry_ids s
      else (entry_ids s)(Channels := (entry_ids s Channels)(p \<mapsto> map_option ChannelID i))) \<and> (r = None \<longleftrightarrow> ro = None)
    \<or> ro = None \<and> s' = s"
    using n assms(3) a
    by (auto simp: silc_idlist_add_channel_def Let_def lists_view_def split: option.splits bool.splits)
  with state_add [OF assms(1) _ a, of s'] assms(1,2) show ?thesis by auto
qed

lemma step_del_server:
  assumes "lists_ok s" "silc_idlist_del_server w (Some p) s = (ok, s')"
  shows "lists_ok s' \<and> directory s' = dir_step (if ok then Remove (w, Servers) p else Nothing) (directory s)"
proof -
  obtain b h c where d: "silc_idcache_del_by_context (sv_cache_heap s) (cache_of s (w, Servers)) p = (b, h, c)"
    by (metis prod_cases3)
  have "lists_view s' h ((cache_of s)((w, Servers) := c))
      (if b then (entry_ids s)(Servers := (entry_ids s Servers)(p := None)) else entry_ids s)" "ok = b"
    using assms(2) d by (auto simp: silc_idlist_del_server_def Let_def lists_view_def split: if_splits)
  with state_del [OF assms(1) d, of s' None] show ?thesis by auto
qed

lemma step_del_client:
  assumes "lists_ok s" "silc_idlist_del_client w (Some p) s = Some (ok, s')"
  shows "lists_ok s' \<and> directory s' = dir_step (if ok then Remove (w, Clients) p else Nothing) (directory s)"
proof -
  obtain b h c where d: "silc_idcache_del_by_context (sv_cache_heap s) (cache_of s (w, Clients)) p = (b, h, c)"
    by (metis prod_cases3)
  have "lists_view s' h ((cache_of s)((w, Clients) := c))
      (if b then (entry_ids s)(Clients := (entry_ids s Clients)(p := None)) else entry_ids s)" "ok = b"
    using assms(2) d
    by (auto simp: silc_idlist_del_client_def silc_idlist_client_destructor_def Let_def lists_view_def
        split: if_splits option.splits)
  with state_del [OF assms(1) d, of s' None] show ?thesis by auto
qed

lemma del_channel_users_same: "del_channel_users ks s = Some s' \<Longrightarrow> same_lists s s' \<and> sv_channels s' = sv_channels s"
proof (induction ks arbitrary: s)
  case (Cons k ks)
  then obtain s1 where s1: "silc_idlist_del_channel_foreach k s = Some s1" "del_channel_users ks s1 = Some s'"
    by (auto simp: bind_eq_Some_conv)
  have "same_lists s s1" using s1(1)
    by (auto simp: silc_idlist_del_channel_foreach_def split: option.splits if_splits
        intro: same_lists_trans [OF same_lists_update(1) same_lists_update(4)])
  moreover have "sv_channels s1 = sv_channels s" using s1(1)
    by (auto simp: silc_idlist_del_channel_foreach_def update_client_def free_chl_def split: option.splits if_splits)
  ultimately show ?case using Cons.IH [OF s1(2)] same_lists_trans by auto
qed simp

lemma step_del_channel:
  assumes "lists_ok s" "silc_idlist_del_channel w (Some p) s = Some (ok, s')"
  shows "lists_ok s' \<and> directory s' = dir_step (if ok then Remove (w, Channels) p else Nothing) (directory s)"
proof -
  obtain b h c where d: "silc_idcache_del_by_context (sv_cache_heap s) (cache_of s (w, Channels)) p = (b, h, c)"
    by (metis prod_cases3)
  let ?s = "put_list w ((get_list w s)\<lparr>il_channels := c\<rparr>) (s\<lparr>sv_cache_heap := h\<rparr>)"
  have "lists_view s' h ((cache_of s)((w, Channels) := c))
      (if b then (entry_ids s)(Channels := (entry_ids s Channels)(p := None)) else entry_ids s) \<and> ok = b"
  proof (cases b)
    case False
    with assms(2) d show ?thesis by (auto simp: silc_idlist_del_channel_def Let_def lists_view_def)
  next
    case True
    with assms(2) d obtain ks s1 where s1: "del_channel_users ks ?s = Some s1"
      "s' = s1\<lparr>sv_channels := (sv_channels s1)(p := None)\<rparr>" "ok"
      by (auto simp: silc_idlist_del_channel_def Let_def split: option.splits)
    with del_channel_users_same [OF s1(1)] entry_ids_store_upd(3) [of s1 p None] True show ?thesis
      by (simp add: same_lists_def lists_view_def)
  qed
  with state_del [OF assms(1) d, of s' None] show ?thesis by auto
qed

lemma entry_context_of: "entry_context s r = context_of (sv_cache_heap s) r"
  by (simp add: entry_context_def context_of_def)

text \<open>What a found cache entry says about the entry it belongs to.\<close>

lemma found_entry:
  assumes "lists_ok s" "silc_idcache_find_by_id_one (cache_of s (w, k)) i = Some r"
    "context_of (sv_cache_heap s) r = Some p"
  shows "directory s (w, k) i = Some p" "entry_ids s k p = Some (Some i)"
proof -
  obtain M where v: "view_ok (sv_cache_heap s) (cache_of s) (entry_ids s) M" using assms(1) by (auto simp: lists_ok_def)
  show "directory s (w, k) i = Some p" using assms by (simp add: directory_def dir_of_def)
  have "(i, r) \<in> key_graph (sv_cache_heap s) (M (w, k)) ce_id"
    using assms(2) idcache.find_iff [OF view_okD(1) [OF v]] by simp
  then obtain e where e: "r \<in> M (w, k)" "heap_get (sv_cache_heap s) r = Some e" "ce_id e = Some i"
    by (auto simp: key_graph_def)
  with view_okD(4) [OF v e(1,2)] assms(3) show "entry_ids s k p = Some (Some i)" by (auto simp: context_of_def)
qed

lemma step_replace_server:
  assumes "lists_ok s" "silc_idlist_replace_server_id w (Some old) (Some new) s = Some (ro, s')"
  shows "lists_ok s' \<and> directory s' = dir_step
    (case ro of None \<Rightarrow> Nothing
     | Some p \<Rightarrow> if directory s (w, Servers) (ServerID new) \<in> {None, Some p}
         then Rename (w, Servers) p (ServerID new) else Remove (w, Servers) p) (directory s)"
proof (cases "silc_idcache_find_by_id_one (cache_of s (w, Servers)) (ServerID old)")
  case None
  with assms show ?thesis by (simp add: silc_idlist_replace_server_id_def)
next
  case (Some r)
  with assms(2) obtain p n own where p: "context_of (sv_cache_heap s) r = Some p"
    "Option.bind (heap_get (sv_cache_heap s) r) ce_name = Some n" "Option.bind (sv_servers s p) se_id = Some own" "ro = Some p"
    by (auto simp: silc_idlist_replace_server_id_def entry_context_of Let_def split: option.splits prod.splits)
  from found_entry [OF assms(1) Some p(1)] p(3) have own: "own = old"
    by (auto simp: bind_eq_Some_conv)
  obtain b h1 c1 where d: "silc_idcache_del_by_id (sv_cache_heap s) (cache_of s (w, Servers)) (ServerID old) = (b, h1, c1)"
    by (metis prod_cases3)
  obtain r' h' c' where a: "silc_idcache_add h1 c1 (Some n) (Some (ServerID new)) (Some p) = (r', h', c')"
    by (metis prod_cases3)
  have "lists_view s' h' ((cache_of s)((w, Servers) := c'))
      ((entry_ids s)(Servers := (entry_ids s Servers)(p \<mapsto> Some (ServerID new))))"
    using assms(2) Some p own d a
    by (auto simp: silc_idlist_replace_server_id_def entry_context_of Let_def lists_view_def bind_eq_Some_conv
        update_server_def)
  from state_replace [OF assms(1) _ Some p(1) d a this] p(4) show ?thesis by simp
qed

lemma step_replace_channel:
  assumes "lists_ok s" "silc_idlist_replace_channel_id now w (Some old) (Some new) s = Some (ro, s')"
  shows "lists_ok s' \<and> directory s' = dir_step
    (case ro of None \<Rightarrow> Nothing
     | Some p \<Rightarrow> if directory s (w, Channels) (ChannelID new) \<in> {None, Some p}
         then Rename (w, Channels) p (ChannelID new) else Remove (w, Channels) p) (directory s)"
proof (cases "silc_idcache_find_by_id_one (cache_of s (w, Channels)) (ChannelID old)")
  case None
  with assms show ?thesis by (simp add: silc_idlist_replace_channel_id_def)
next
  case (Some r)
  with assms(2) obtain p n own where p: "context_of (sv_cache_heap s) r = Some p"
    "Option.bind (heap_get (sv_cache_heap s) r) ce_name = Some n" "Option.bind (sv_channels s p) ch_id = Some own" "ro = Some p"
    by (auto simp: silc_idlist_replace_channel_id_def entry_context_of Let_def split: option.splits prod.splits)
  from found_entry [OF assms(1) Some p(1)] p(3) have own: "own = old"
    by (auto simp: bind_eq_Some_conv)
  obtain b h1 c1 where d: "silc_idcache_del_by_id (sv_cache_heap s) (cache_of s (w, Channels)) (ChannelID old) = (b, h1, c1)"
    by (metis prod_cases3)
  obtain r' h' c' where a: "silc_idcache_add h1 c1 (Some n) (Some (ChannelID new)) (Some p) = (r', h', c')"
    by (metis prod_cases3)
  have "lists_view s' h' ((cache_of s)((w, Channels) := c'))
      ((entry_ids s)(Channels := (entry_ids s Channels)(p \<mapsto> Some (ChannelID new))))"
    using assms(2) Some p own d a
    by (auto simp: silc_idlist_replace_channel_id_def entry_context_of Let_def lists_view_def bind_eq_Some_conv
        update_channel_def touch_channel_def)
  from state_replace [OF assms(1) _ Some p(1) d a this] p(4) show ?thesis by simp
qed

lemma step_replace_client:
  assumes "lists_ok s" "silc_idlist_replace_client_id env w (Some old) (Some new) nick s = Some (ro, s')"
    "directory s (w, Clients) (ClientID new) = None \<or>
      directory s (w, Clients) (ClientID new) = directory s (w, Clients) (ClientID old)"
  shows "lists_ok s' \<and> directory s' =
    dir_step (case ro of None \<Rightarrow> Nothing | Some p \<Rightarrow> Rename (w, Clients) p (ClientID new)) (directory s)"
proof (cases "normalize (\<lambda>n. silc_identifier_check env n SILC_STRING_UTF8 128) (map_option cstr nick) = None \<or>
    silc_idcache_find_by_id_one (cache_of s (w, Clients)) (ClientID old) = None")
  case True
  with assms(1,2) show ?thesis by (auto simp: silc_idlist_replace_client_id_def split: option.splits)
next
  case False
  then obtain n r where n: "normalize (\<lambda>n. silc_identifier_check env n SILC_STRING_UTF8 128) (map_option cstr nick) = Some n"
    and r: "silc_idcache_find_by_id_one (cache_of s (w, Clients)) (ClientID old) = Some r" by auto
  from assms(2) n r obtain p where p: "context_of (sv_cache_heap s) r = Some p"
    by (auto simp: silc_idlist_replace_client_id_def entry_context_of split: option.splits)
  note f = found_entry [OF assms(1) r p]
  obtain ok h' c' where u: "silc_idcache_update (sv_cache_heap s) (cache_of s (w, Clients)) r (Some (ClientID new)) n = (ok, h', c')"
    by (metis prod_cases3)
  let ?f = "\<lambda>e. e\<lparr>cl_id := Some new, cl_nickname := map_option cstr nick\<rparr>"
  let ?s = "update_client p ?f (put_list w ((get_list w s)\<lparr>il_clients := c'\<rparr>) (s\<lparr>sv_cache_heap := h'\<rparr>))"
  have v: "lists_view ?s h' ((cache_of s)((w, Clients) := c'))
      ((entry_ids s)(Clients := (entry_ids s Clients)(p \<mapsto> Some (ClientID new))))"
    using f(2) by (auto simp: lists_view_def update_client_def)
  have su: "ok \<and> lists_ok ?s \<and> directory ?s = dir_step (Rename (w, Clients) p (ClientID new)) (directory s)"
    using assms(3) f(1) by (intro state_update [OF assms(1) r p _ u v]) auto
  let ?ev = "Ev_Check_Watchers p nick SILC_NOTIFY_TYPE_NICK_CHANGE"
  have t: "ro = Some p" "s' = (if sv_server_type s = SILC_ROUTER
      then emit ?ev (update_client p ?f (put_list w ((get_list w s)\<lparr>il_clients := c'\<rparr>) ((emit ?ev s)\<lparr>sv_cache_heap := h'\<rparr>)))
      else ?s)"
    using su assms(2) n r p u
    by (cases "sv_server_type s = SILC_ROUTER";
        force simp: silc_idlist_replace_client_id_def entry_context_of Let_def emit_def update_client_def)+
  have "same_lists ?s s'"
    unfolding t(2) by (rule same_listsI) (simp_all add: emit_def update_client_def)
  with su t(1) same_lists_ok [of ?s s'] show ?thesis by auto
qed

lemma step_find_channel:
  assumes "silc_idlist_find_channel_by_name now w name s = Some (ro, s') \<or>
    silc_idlist_find_channel_by_id now w io s = Some (ro, s')"
  shows "same_lists s s'"
  using assms
  by (auto simp: silc_idlist_find_channel_by_name_def silc_idlist_find_channel_by_id_def touch_channel_def
      split: option.splits intro: same_lists_update(2))

lemma idlist_step_sim:
  assumes "idlist_step env a s s'" "lists_ok s"
  shows "lists_ok s' \<and> directory s' = dir_step a (directory s)"
  using assms
proof (cases rule: idlist_step.cases)
  case (find_channel now w name ro io)
  from step_find_channel [OF find_channel(2)] show ?thesis
    using assms(2) find_channel(1) same_lists_ok [of s s'] by auto
qed (use assms(2) in \<open>auto dest: step_add_server step_add_client step_add_channel step_del_server step_del_client
      step_del_channel step_replace_server step_replace_channel step_replace_client\<close>)

inductive idlist_reachable :: "prep_env \<Rightarrow> silc_server \<Rightarrow> bool" for env where
  start: "silc_server_alloc = Some s \<Longrightarrow> idlist_reachable env s"
| step: "idlist_reachable env s \<Longrightarrow> idlist_step env a s s' \<Longrightarrow> idlist_reachable env s'"

lemma alloc_lists:
  "\<exists>s. silc_server_alloc = Some s \<and> sv_cache_heap s = [] \<and> sv_servers s = Map.empty \<and> sv_clients s = Map.empty \<and>
    sv_channels s = Map.empty \<and> lists_ok s \<and> directory s = (\<lambda>_. Map.empty)"
proof -
  have e: "cache_inv [] {} c \<and> ic_id_type c = t" if "silc_idcache_alloc 0 t = Some c" for c t
    using that idcache_alloc_ok [of 0 t "[]"] by (auto simp: cache_inv_def ids_unique_def contexts_unique_def key_graph_def)
  obtain c1 c2 c3 where c: "silc_idcache_alloc 0 SILC_ID_CLIENT = Some c1" "silc_idcache_alloc 0 SILC_ID_SERVER = Some c2"
    "silc_idcache_alloc 0 SILC_ID_CHANNEL = Some c3"
    by (metis idcache_alloc_ok)
  then obtain s where s: "silc_server_alloc = Some s" "sv_cache_heap s = []" "sv_servers s = Map.empty"
    "sv_clients s = Map.empty" "sv_channels s = Map.empty"
    "get_list w s = \<lparr>il_servers = c2, il_clients = c1, il_channels = c3\<rparr>" for w
    by (auto simp: silc_server_alloc_def alloc_id_list_def get_list_def split: which_list.split)
  have i: "cache_inv [] {} (cache_of s x) \<and> ic_id_type (cache_of s x) = kind_type (snd x)" for x
    using e [OF c(1)] e [OF c(2)] e [OF c(3)] by (cases "(s, x)" rule: cache_of.cases) (simp_all add: s)
  then have "view_ok [] (cache_of s) (entry_ids s) (\<lambda>_. {})" unfolding view_ok_def by blast
  moreover have "directory s = (\<lambda>_. Map.empty)"
    using dir_of_some [OF conjunct1 [OF i]] by (intro ext map_eqI) (auto simp: directory_def s(2) holds_at_def)
  moreover have "lists_ok s" unfolding lists_ok_def s(2) using calculation(1) by blast
  ultimately show ?thesis using s by blast
qed

lemma idlist_reachable_ok: "idlist_reachable env s \<Longrightarrow> lists_ok s"
proof (induction rule: idlist_reachable.induct)
  case (start s) then show ?case using alloc_lists by (metis option.inject)
next
  case (step s a s') then show ?case using idlist_step_sim by blast
qed

text \<open>A new server can be given an entry of its own, as it does when it starts.\<close>

lemma new_server_step:
  "\<exists>s s'. silc_server_alloc = Some s \<and> directory s = (\<lambda>_. Map.empty) \<and>
    idlist_step env (Add (Local_List, Servers) (Some (ServerID i)) 7) s s'"
proof -
  obtain s where s: "silc_server_alloc = Some s" "sv_servers s = Map.empty" "lists_ok s" "directory s = (\<lambda>_. Map.empty)"
    using alloc_lists by blast
  obtain ro s' where a: "silc_idlist_add_server env 7 Local_List None SILC_SERVER (Some i) None None s = (ro, s')"
    by (cases "silc_idlist_add_server env 7 Local_List None SILC_SERVER (Some i) None None s") auto
  obtain r h c where "silc_idcache_add (sv_cache_heap s) (cache_of s (Local_List, Servers)) None (Some (ServerID i)) (Some 7) = (r, h, c)"
    by (metis prod_cases3)
  moreover from this have "r \<noteq> None"
    using directory_none [OF s(3), of "(Local_List, Servers)" "ServerID i"] s(4)
    by (auto simp: silc_idcache_add_def Let_def)
  ultimately have "ro = Some 7" using a by (auto simp: silc_idlist_add_server_def normalize_def Let_def)
  with idlist_step.add_server [OF a] s have "idlist_step env (Add (Local_List, Servers) (Some (ServerID i)) 7) s s'" by simp
  with s show ?thesis by blast
qed



lemma find_directory:
  assumes "lists_ok s"
  shows "Option.bind (silc_idcache_find_by_id_one (cache_of s x) i) (entry_context s) = directory s x i"
  by (simp add: directory_def dir_of_def entry_context_of [abs_def])

lemma directory_entry:
  assumes "lists_ok s" "directory s (w, k) i = Some p" shows "entry_ids s k p = Some (Some i)"
  using assms found_entry(2) [OF assms(1)] by (auto simp: directory_def dir_of_def bind_eq_Some_conv)

text \<open>
  Property C14. Looking up an ID gives the entry that the directory has for it, that entry exists and
  has exactly this ID, and when a registered entry is asked for, others are not returned.\<close>

theorem idlist_find_spec:
  assumes "idlist_reachable env s"
  shows "(silc_idlist_find_client_by_id w (Some i) reg s = Some p \<longleftrightarrow>
      directory s (w, Clients) (ClientID i) = Some p \<and>
      (\<exists>c. sv_clients s p = Some c \<and> cl_id c = Some i \<and> (reg \<longrightarrow> is_registered (cl_data c)))) \<and>
    (silc_idlist_find_server_by_id w (Some j) reg s = Some p \<longleftrightarrow>
      directory s (w, Servers) (ServerID j) = Some p \<and>
      (\<exists>e. sv_servers s p = Some e \<and> se_id e = Some j \<and> (reg \<longrightarrow> is_registered (se_data e)))) \<and>
    (silc_idlist_find_channel_by_id now w (Some k) s = Some (Some p, s') \<longleftrightarrow>
      directory s (w, Channels) (ChannelID k) = Some p \<and>
      (\<exists>c. sv_channels s p = Some c \<and> ch_id c = Some k) \<and> s' = touch_channel now p s)"
proof -
  have ok: "lists_ok s" by (rule idlist_reachable_ok [OF assms])
  note d = directory_entry [OF ok] and f = directory_def dir_of_def entry_context_of registered_ok_def
  have c: "silc_idlist_find_client_by_id w (Some i) reg s = Some p \<longleftrightarrow>
      directory s (w, Clients) (ClientID i) = Some p \<and>
      (\<exists>c. sv_clients s p = Some c \<and> cl_id c = Some i \<and> (reg \<longrightarrow> is_registered (cl_data c)))"
    using d [of w Clients "ClientID i" p]
    by (auto simp: silc_idlist_find_client_by_id_def f Let_def split: option.splits)
  have s: "silc_idlist_find_server_by_id w (Some j) reg s = Some p \<longleftrightarrow>
      directory s (w, Servers) (ServerID j) = Some p \<and>
      (\<exists>e. sv_servers s p = Some e \<and> se_id e = Some j \<and> (reg \<longrightarrow> is_registered (se_data e)))"
    using d [of w Servers "ServerID j" p]
    by (auto simp: silc_idlist_find_server_by_id_def f Let_def split: option.splits)
  have h: "silc_idlist_find_channel_by_id now w (Some k) s = Some (Some p, s') \<longleftrightarrow>
      directory s (w, Channels) (ChannelID k) = Some p \<and>
      (\<exists>c. sv_channels s p = Some c \<and> ch_id c = Some k) \<and> s' = touch_channel now p s"
    using d [of w Channels "ChannelID k" p]
    by (auto simp: silc_idlist_find_channel_by_id_def f split: option.splits)
  from c s h show ?thesis by blast
qed

theorem idlist_find_spec_witness:
  "\<exists>env s i. idlist_reachable env s \<and> silc_idlist_find_server_by_id Local_List (Some i) False s = Some 7"
proof -
  fix env :: prep_env and i :: silc_server_id
  obtain s s' where s: "silc_server_alloc = Some s" "directory s = (\<lambda>_. Map.empty)"
    "idlist_step env (Add (Local_List, Servers) (Some (ServerID i)) 7) s s'"
    using new_server_step by blast
  have r: "idlist_reachable env s'" using idlist_reachable.step [OF idlist_reachable.start [OF s(1)] s(3)] .
  have d: "directory s' (Local_List, Servers) (ServerID i) = Some 7"
    using idlist_step_sim [OF s(3)] idlist_reachable_ok [OF idlist_reachable.start [OF s(1)]] s(2) by simp
  have "silc_idlist_find_server_by_id Local_List (Some i) False s' = Some 7"
    using directory_entry [OF idlist_reachable_ok [OF r] d] d
      idlist_find_spec [OF r, where w = Local_List and j = i and reg = False and p = 7] by auto
  with r show ?thesis by blast
qed

end
