(* ===== verification/Server_Id.thy ===== *)
theory Server_Id
  imports Server_Directory
begin

text \<open>
  Creating the IDs of the server, \<^verbatim>\<open>apps/silcd/serverid.c\<close>, and the checks of textual addresses that
  it uses from \<^verbatim>\<open>lib/silcutil/silcnet.c\<close> and \<^verbatim>\<open>unix/silcunixnet.c\<close>.  The conversions of the system
  (\<open>inet_aton\<close>, \<open>getaddrinfo\<close>), the random numbers and the hash function are parameters.
\<close>

section \<open>Addresses\<close>

definition isxdigit :: "byte \<Rightarrow> bool" where
  "isxdigit c \<longleftrightarrow> isdigit c \<or> 0x41 \<le> c \<and> c \<le> 0x46 \<or> 0x61 \<le> c \<and> c \<le> 0x66"

fun ip4_loop :: "byte list \<Rightarrow> nat \<Rightarrow> bool" where
  "ip4_loop [] dots \<longleftrightarrow> dots = 3"
| "ip4_loop (c # cs) dots \<longleftrightarrow>
     (if c \<noteq> 0x2e \<and> \<not> isdigit c then False else ip4_loop cs (if c = 0x2e then Suc dots else dots))"

definition silc_net_is_ip4 :: "byte list \<Rightarrow> bool" where
  "silc_net_is_ip4 addr = ip4_loop (cstr addr) 0"

definition silc_net_is_ip6 :: "byte list \<Rightarrow> bool" where
  "silc_net_is_ip6 addr \<longleftrightarrow> list_all (\<lambda>c. c = 0x3a \<or> isxdigit c) (cstr addr)"

definition silc_net_is_ip :: "byte list \<Rightarrow> bool" where
  "silc_net_is_ip addr \<longleftrightarrow> silc_net_is_ip4 addr \<or> silc_net_is_ip6 addr"

record net_env =
  inet_aton :: "byte list \<Rightarrow> byte list option"        \<comment> \<open>four bytes\<close>
  getaddrinfo6 :: "byte list \<Rightarrow> byte list option"     \<comment> \<open>sixteen bytes\<close>

text \<open>The bytes that are written, \<open>None\<close> for FALSE.\<close>

definition silc_net_addr2bin :: "net_env \<Rightarrow> byte list \<Rightarrow> nat \<Rightarrow> byte list option" where
  "silc_net_addr2bin net addr bin_len =
     (if silc_net_is_ip4 addr then (if bin_len < 4 then None else inet_aton net addr)
      else if bin_len < 16 then None else getaddrinfo6 net addr)"

definition put_front :: "byte list \<Rightarrow> byte list \<Rightarrow> byte list" where
  "put_front new old = new @ drop (length new) old"

section \<open>Server IDs\<close>

definition silc_id_create_server_id :: "net_env \<Rightarrow> byte list \<Rightarrow> u16 \<Rightarrow> silc_server_id option" where
  "silc_id_create_server_id net ip port =
     (case silc_net_addr2bin net ip 16 of
        None \<Rightarrow> None
      | Some bin \<Rightarrow>
          Some \<lparr>sid_ip = \<lparr>ip_data = put_front bin (replicate 16 0),
                  ip_data_len = (if silc_net_is_ip4 ip then 4 else 16)\<rparr>,
                sid_port = SILC_SWAB_16 port, sid_rnd = 0xff\<rparr>)"

text \<open>The address of the remote end of a connection is an argument.\<close>

definition silc_id_is_valid_server_id :: "net_env \<Rightarrow> silc_server_id \<Rightarrow> byte list \<Rightarrow> bool" where
  "silc_id_is_valid_server_id net server_id remote_ip =
     (case silc_net_addr2bin net remote_ip 16 of
        None \<Rightarrow> False
      | Some ip \<Rightarrow>
          if silc_net_is_ip4 remote_ip then take 4 (ip_data (sid_ip server_id)) = take 4 ip
          else take 16 (ip_data (sid_ip server_id)) = take 16 ip)"

section \<open>Client IDs\<close>

definition copy_ip :: "silc_id_ip \<Rightarrow> silc_id_ip" where
  "copy_ip ip = \<lparr>ip_data = put_front (take (unat (ip_data_len ip)) (ip_data ip)) (replicate 16 0),
     ip_data_len = ip_data_len ip\<rparr>"

text \<open>The loop that looks for a free ID; \<open>None\<close> is FALSE.\<close>

definition client_id_free :: "silc_server \<Rightarrow> silc_client_id \<Rightarrow> bool" where
  "client_id_free s i \<longleftrightarrow>
     silc_idlist_find_client_by_id Local_List (Some i) False s = None \<and>
     silc_idlist_find_client_by_id Global_List (Some i) False s = None"

lemma word_up:
  fixes r :: "'a::len word"
  assumes "r + 1 \<noteq> 0"
  shows "unat (r + 1) = Suc (unat r)"
  using assms by (simp add: unatSuc add.commute)

lemma word_below: "unat r < 2 ^ LENGTH('a)" for r :: "'a::len word"
  by (rule unsigned_less)

function client_id_loop :: "silc_server \<Rightarrow> silc_client_id \<Rightarrow> bool \<Rightarrow> silc_client_id option" where
  "client_id_loop s i finding =
     (if client_id_free s i then Some i
      else
        let i = i\<lparr>cid_rnd := cid_rnd i + 1\<rparr> in
        if finding \<and> cid_rnd i = 0 then None
        else if \<not> finding then client_id_loop s (i\<lparr>cid_rnd := 0\<rparr>) True
        else client_id_loop s i finding)"
  by pat_completeness auto

termination
proof (relation "measure (\<lambda>(s, i, finding). if finding then 256 - unat (cid_rnd i) else 257)")
  fix s i finding x
  assume "x = i\<lparr>cid_rnd := cid_rnd i + 1\<rparr>" "\<not> (finding \<and> cid_rnd x = 0)" "\<not> \<not> finding"
  then show "((s, x, finding), s, i, finding) \<in> measure (\<lambda>(s, i, finding). if finding then 256 - unat (cid_rnd i) else 257)"
    using word_below [of "cid_rnd i"] word_up [of "cid_rnd i"] by simp
qed auto

definition silc_id_create_client_id ::
  "(byte list \<Rightarrow> byte list) \<Rightarrow> u8 \<Rightarrow> silc_server \<Rightarrow> silc_server_id \<Rightarrow> byte list \<Rightarrow> silc_client_id option" where
  "silc_id_create_client_id md5 rnd s server_id nickname =
     client_id_loop s \<lparr>cid_ip = copy_ip (sid_ip server_id), cid_rnd = rnd,
       cid_hash = take CLIENTID_HASH_LEN (md5 nickname)\<rparr> False"

section \<open>Channel IDs\<close>

text \<open>
  The loop starts with \<open>finding\<close> already true.  Looking a channel up notes the time in it, so the
  state is passed along; the outer option is a cache entry without a channel.
\<close>

function channel_id_loop ::
  "u64 \<Rightarrow> silc_server \<Rightarrow> silc_channel_id \<Rightarrow> bool \<Rightarrow> (silc_channel_id option \<times> silc_server) option" where
  "channel_id_loop now s i finding =
     (case silc_idlist_find_channel_by_id now Local_List (Some i) s of
        None \<Rightarrow> None
      | Some (None, s) \<Rightarrow> Some (Some i, s)
      | Some (Some _, s) \<Rightarrow>
          let i = i\<lparr>chid_rnd := chid_rnd i + 1\<rparr> in
          if finding \<and> chid_rnd i = 0 then Some (None, s)
          else if \<not> finding then channel_id_loop now s (i\<lparr>chid_rnd := 0\<rparr>) True
          else channel_id_loop now s i finding)"
  by pat_completeness auto

termination
proof (relation "measure (\<lambda>(now, s, i, finding). if finding then 65536 - unat (chid_rnd i) else 65537)")
  fix now s i finding a s' x xa y ya
  assume "ya = i\<lparr>chid_rnd := chid_rnd i + 1\<rparr>" "\<not> (finding \<and> chid_rnd ya = 0)" "\<not> \<not> finding"
  then show "((now, y, ya, finding), now, s, i, finding) \<in>
    measure (\<lambda>(now, s, i, finding). if finding then 65536 - unat (chid_rnd i) else 65537)"
    using word_below [of "chid_rnd i"] word_up [of "chid_rnd i"] by simp
qed auto

definition silc_id_create_channel_id ::
  "u64 \<Rightarrow> u16 \<Rightarrow> silc_server \<Rightarrow> silc_server_id \<Rightarrow> (silc_channel_id option \<times> silc_server) option" where
  "silc_id_create_channel_id now rnd s router_id =
     channel_id_loop now s \<lparr>chid_ip = copy_ip (sid_ip router_id), chid_port = sid_port router_id, chid_rnd = rnd\<rparr> True"

declare client_id_loop.simps [simp del] channel_id_loop.simps [simp del]

section \<open>Freshness\<close>

lemma word_ge_cases:
  fixes r x :: "'a::len word"
  assumes "r \<le> x" shows "x = r \<or> (r + 1 \<noteq> 0 \<and> r + 1 \<le> x)"
proof (cases "x = r")
  case False
  with assms have lt: "r < x" by simp
  from lt have "r + 1 \<noteq> 0" by (metis eq_neg_iff_add_eq_0 word_not_simps(3))
  with inc_le [OF lt] show ?thesis by blast
qed simp

lemma word_ge_iff:
  fixes r x :: "'a::len word"
  assumes "r + 1 \<noteq> 0" shows "r \<le> x \<longleftrightarrow> x = r \<or> r + 1 \<le> x"
  using word_ge_cases [of r x] word_up [OF assms] by (auto simp: word_le_nat_alt)

lemma client_id_loop_found:
  assumes "client_id_loop s i finding = Some j"
  shows "client_id_free s j \<and> (\<exists>r. j = i\<lparr>cid_rnd := r\<rparr>)"
  using assms
proof (induction s i finding rule: client_id_loop.induct)
  case (1 s i finding)
  show ?case
  proof (cases "client_id_free s i")
    case True
    with "1.prems" have "j = i" by (simp add: client_id_loop.simps)
    with True show ?thesis by (auto intro!: exI [of _ "cid_rnd i"])
  next
    case False
    with 1 show ?thesis
      by (subst (asm) (3) client_id_loop.simps) (auto simp: Let_def split: if_splits)
  qed
qed

lemma client_id_loop_none:
  assumes "client_id_loop s i True = None" "cid_rnd i \<le> r"
  shows "\<not> client_id_free s (i\<lparr>cid_rnd := r\<rparr>)"
  using assms
proof (induction s i "True" rule: client_id_loop.induct)
  case (1 s i)
  have used: "\<not> client_id_free s i"
    and next_used: "cid_rnd i + 1 \<noteq> 0 \<Longrightarrow> client_id_loop s (i\<lparr>cid_rnd := cid_rnd i + 1\<rparr>) True = None"
    using "1.prems"(1) by (subst (asm) client_id_loop.simps; auto simp: Let_def split: if_splits)+
  from word_ge_cases [OF "1.prems"(2)] show ?case
  proof
    assume "r = cid_rnd i" with used show ?thesis by simp
  next
    assume "cid_rnd i + 1 \<noteq> 0 \<and> cid_rnd i + 1 \<le> r"
    with "1.hyps" [OF used refl] next_used show ?thesis by simp
  qed
qed

lemma client_id_loop_exhausted:
  assumes "client_id_loop s i False = None"
  shows "\<not> client_id_free s (i\<lparr>cid_rnd := r\<rparr>)"
proof -
  have "client_id_loop s (i\<lparr>cid_rnd := 0\<rparr>) True = None"
    using assms by (subst (asm) client_id_loop.simps) (auto simp: Let_def split: if_splits)
  from client_id_loop_none [OF this, of r] show ?thesis by simp
qed

lemma registered_ok_any [simp]: "registered_ok False d"
  by (simp add: registered_ok_def split: option.split)

lemma find_client_directory:
  "silc_idlist_find_client_by_id w (Some i) False s = directory s (w, Clients) (ClientID i)"
  by (simp add: silc_idlist_find_client_by_id_def directory_def dir_of_def entry_context_of Let_def
      split: option.split)

lemma client_id_free_directory:
  assumes "lists_ok s"
  shows "client_id_free s i \<longleftrightarrow> (\<forall>w. directory s (w, Clients) (ClientID i) = None)"
  unfolding client_id_free_def find_client_directory by (metis which_list.exhaust)

text \<open>
  Property C15. Creating a Client ID always ends.  A created ID is in neither list, has the address of
  the server and the hash of the nickname; when FALSE is returned, all 256 IDs of the nickname on
  this server are in use.
\<close>

theorem create_client_id_spec:
  assumes "idlist_reachable env s"
  shows "case silc_id_create_client_id md rnd s server_id nickname of
      Some i \<Rightarrow> (\<forall>w. directory s (w, Clients) (ClientID i) = None) \<and>
        cid_ip i = copy_ip (sid_ip server_id) \<and> cid_hash i = take CLIENTID_HASH_LEN (md nickname)
    | None \<Rightarrow> \<forall>r. \<exists>w. directory s (w, Clients) (ClientID \<lparr>cid_ip = copy_ip (sid_ip server_id), cid_rnd = r,
        cid_hash = take CLIENTID_HASH_LEN (md nickname)\<rparr>) \<noteq> None"
proof -
  note free = client_id_free_directory [OF idlist_reachable_ok [OF assms]]
  let ?i = "\<lparr>cid_ip = copy_ip (sid_ip server_id), cid_rnd = rnd, cid_hash = take CLIENTID_HASH_LEN (md nickname)\<rparr>"
  show ?thesis
  proof (cases "client_id_loop s ?i False")
    case None
    with client_id_loop_exhausted [OF None] free show ?thesis by (simp add: silc_id_create_client_id_def)
  next
    case (Some i)
    with client_id_loop_found [OF Some] free show ?thesis by (auto simp: silc_id_create_client_id_def)
  qed
qed

theorem create_client_id_spec_witness:
  "\<exists>env s i. idlist_reachable env s \<and>
    silc_id_create_client_id (\<lambda>_. replicate 16 7) 3 s
      \<lparr>sid_ip = \<lparr>ip_data = replicate 16 0, ip_data_len = 4\<rparr>, sid_port = 0, sid_rnd = 0\<rparr> [97] = Some i \<and>
    cid_hash i = replicate 11 7"
proof -
  let ?sid = "\<lparr>sid_ip = \<lparr>ip_data = replicate 16 0, ip_data_len = 4\<rparr>, sid_port = 0, sid_rnd = 0\<rparr>"
  obtain s where s: "silc_server_alloc = Some s" "directory s = (\<lambda>_. Map.empty)" using alloc_lists by blast
  fix env :: prep_env
  have r: "idlist_reachable env s" by (rule idlist_reachable.start [OF s(1)])
  have "\<exists>i. silc_id_create_client_id (\<lambda>_. replicate 16 7) 3 s ?sid [97] = Some i \<and> cid_hash i = replicate 11 7"
    using create_client_id_spec [OF r, where md = "\<lambda>_. replicate 16 7" and rnd = 3 and server_id = ?sid and nickname = "[97]"] s(2)
    by (auto simp: CLIENTID_HASH_LEN_def split: option.splits)
  with r show ?thesis by blast
qed

text \<open>Looking channels up changes only the times of their use.\<close>

lemma find_channel_directory:
  assumes "lists_ok s"
  shows "\<exists>s'. silc_idlist_find_channel_by_id now w (Some i) s = Some (directory s (w, Channels) (ChannelID i), s') \<and> same_lists s s'"
proof (cases "silc_idcache_find_by_id_one (il_channels (get_list w s)) (ChannelID i)")
  case None
  then show ?thesis by (simp add: silc_idlist_find_channel_by_id_def directory_def dir_of_def)
next
  case (Some r)
  with directory_none [OF assms, of "(w, Channels)" "ChannelID i"] obtain p where "context_of (sv_cache_heap s) r = Some p"
    by (auto simp: directory_def dir_of_def)
  with Some show ?thesis
    by (auto simp: silc_idlist_find_channel_by_id_def directory_def dir_of_def entry_context_of touch_channel_def
        intro: same_lists_update(2))
qed

lemma channel_id_loop_spec:
  assumes "lists_ok s"
  shows "\<exists>io s'. channel_id_loop now s i True = Some (io, s') \<and> same_lists s s' \<and>
    (case io of
       Some j \<Rightarrow> directory s (Local_List, Channels) (ChannelID j) = None \<and> (\<exists>r \<ge> chid_rnd i. j = i\<lparr>chid_rnd := r\<rparr>)
     | None \<Rightarrow> \<forall>r \<ge> chid_rnd i. directory s (Local_List, Channels) (ChannelID (i\<lparr>chid_rnd := r\<rparr>)) \<noteq> None)"
  using assms
proof (induction now s i "True" rule: channel_id_loop.induct)
  case (1 now s i)
  obtain s1 where f: "silc_idlist_find_channel_by_id now Local_List (Some i) s =
      Some (directory s (Local_List, Channels) (ChannelID i), s1)" and same: "same_lists s s1"
    using find_channel_directory [OF "1.prems"] by blast
  note d = same_lists_ok [OF same]
  show ?case
  proof (cases "directory s (Local_List, Channels) (ChannelID i)")
    case None
    with f same show ?thesis
      by (subst channel_id_loop.simps) (auto intro!: exI [of _ "chid_rnd i"])
  next
    case (Some p)
    let ?j = "i\<lparr>chid_rnd := chid_rnd i + 1\<rparr>"
    show ?thesis
    proof (cases "chid_rnd i + 1 = 0")
      case True
      then have "directory s (Local_List, Channels) (ChannelID (i\<lparr>chid_rnd := r\<rparr>)) = Some p" if "chid_rnd i \<le> r" for r
        using word_ge_cases [OF that] Some by simp
      with True Some f same show ?thesis
        by (subst channel_id_loop.simps) auto
    next
      case False
      have l: "channel_id_loop now s i True = channel_id_loop now s1 ?j True"
        using False Some f by (subst channel_id_loop.simps) simp
      have up: "chid_rnd i \<le> r \<longleftrightarrow> r = chid_rnd i \<or> chid_rnd i + 1 \<le> r" for r
        by (rule word_ge_iff [OF False])
      obtain io s' where ih: "channel_id_loop now s1 ?j True = Some (io, s')" "same_lists s1 s'"
        "case io of
           Some k \<Rightarrow> directory s1 (Local_List, Channels) (ChannelID k) = None \<and> (\<exists>r \<ge> chid_rnd ?j. k = ?j\<lparr>chid_rnd := r\<rparr>)
         | None \<Rightarrow> \<forall>r \<ge> chid_rnd ?j. directory s1 (Local_List, Channels) (ChannelID (?j\<lparr>chid_rnd := r\<rparr>)) \<noteq> None"
        using "1.hyps" [OF f _ Some refl] False d "1.prems" by auto
      from ih(3) have "case io of
          Some j \<Rightarrow> directory s (Local_List, Channels) (ChannelID j) = None \<and> (\<exists>r \<ge> chid_rnd i. j = i\<lparr>chid_rnd := r\<rparr>)
        | None \<Rightarrow> \<forall>r \<ge> chid_rnd i. directory s (Local_List, Channels) (ChannelID (i\<lparr>chid_rnd := r\<rparr>)) \<noteq> None"
        using Some by (auto simp: d(2) up split: option.splits)
      with l ih(1) same_lists_trans [OF same ih(2)] show ?thesis by auto
    qed
  qed
qed

text \<open>
  Property C16. Creating a Channel ID always ends, follows no null pointer and changes no list.  A
  created ID is not in the local list; when FALSE is returned, all IDs from the random number that
  was drawn up to the largest are in use.
\<close>

theorem create_channel_id_spec:
  assumes "idlist_reachable env s"
  shows "\<exists>io s'. silc_id_create_channel_id now rnd s router_id = Some (io, s') \<and> directory s' = directory s \<and>
    (case io of
       Some j \<Rightarrow> directory s (Local_List, Channels) (ChannelID j) = None \<and>
         chid_ip j = copy_ip (sid_ip router_id) \<and> chid_port j = sid_port router_id
     | None \<Rightarrow> \<forall>r. rnd \<le> r \<longrightarrow> directory s (Local_List, Channels)
         (ChannelID \<lparr>chid_ip = copy_ip (sid_ip router_id), chid_port = sid_port router_id, chid_rnd = r\<rparr>) \<noteq> None)"
proof -
  let ?i = "\<lparr>chid_ip = copy_ip (sid_ip router_id), chid_port = sid_port router_id, chid_rnd = rnd\<rparr>"
  obtain io s' where l: "silc_id_create_channel_id now rnd s router_id = Some (io, s')" "directory s' = directory s"
    "case io of
       Some j \<Rightarrow> directory s (Local_List, Channels) (ChannelID j) = None \<and> (\<exists>r \<ge> chid_rnd ?i. j = ?i\<lparr>chid_rnd := r\<rparr>)
     | None \<Rightarrow> \<forall>r \<ge> chid_rnd ?i. directory s (Local_List, Channels) (ChannelID (?i\<lparr>chid_rnd := r\<rparr>)) \<noteq> None"
    using channel_id_loop_spec [OF idlist_reachable_ok [OF assms], of now ?i] same_lists_ok(2)
    unfolding silc_id_create_channel_id_def by blast
  then show ?thesis by (cases io) auto
qed

theorem create_channel_id_spec_witness:
  "\<exists>env s j s'. idlist_reachable env s \<and> silc_id_create_channel_id 0 9 s
    \<lparr>sid_ip = \<lparr>ip_data = replicate 16 0, ip_data_len = 4\<rparr>, sid_port = 706, sid_rnd = 0\<rparr> = Some (Some j, s') \<and>
    chid_port j = 706"
proof -
  let ?sid = "\<lparr>sid_ip = \<lparr>ip_data = replicate 16 0, ip_data_len = 4\<rparr>, sid_port = 706, sid_rnd = 0\<rparr>"
  obtain s where s: "silc_server_alloc = Some s" "directory s = (\<lambda>_. Map.empty)" using alloc_lists by blast
  fix env :: prep_env
  have r: "idlist_reachable env s" by (rule idlist_reachable.start [OF s(1)])
  obtain io s' where c: "silc_id_create_channel_id 0 9 s ?sid = Some (io, s')"
    "case io of None \<Rightarrow> False | Some j \<Rightarrow> chid_port j = 706"
    using create_channel_id_spec [OF r, where now = 0 and rnd = 9 and router_id = ?sid] s(2)
    by (auto split: option.splits)
  then obtain j where "io = Some j" "chid_port j = 706" by (cases io) auto
  with r c(1) show ?thesis by blast
qed

text \<open>
  Registering a client: with an ID that \<open>silc_id_create_client_id\<close> made and names that
  pass the checks, the client is added to either list and is then found by this ID there and only
  there.
\<close>

lemma new_client_found:
  assumes "idlist_reachable env s" "silc_id_create_client_id md rnd s server_id nickc = Some i"
    "normalize (\<lambda>n. silc_identifier_check env n SILC_STRING_UTF8 128) (map_option cstr nickname) = Some nc"
    "username = None \<or> username_ok env (the username) = Some True" "sv_clients s p = None"
  shows "\<exists>s'. silc_idlist_add_client env p w nickname username userinfo (Some i) router conn s = Some (Some p, s') \<and>
    silc_idlist_find_client_by_id w (Some i) False s' = Some p \<and>
    (\<forall>w'. w' \<noteq> w \<longrightarrow> silc_idlist_find_client_by_id w' (Some i) False s' = None)"
proof -
  note ok = idlist_reachable_ok [OF assms(1)]
  have free: "client_id_free s i"
    using client_id_loop_found assms(2) by (auto simp: silc_id_create_client_id_def)
  then have none: "directory s (w', Clients) (ClientID i) = None" for w'
    using client_id_free_directory [OF ok] by blast
  then have "silc_idcache_find_by_id_one (cache_of s (w, Clients)) (ClientID i) = None"
    using directory_none [OF ok] by blast
  then obtain r h c where "silc_idcache_add (sv_cache_heap s) (cache_of s (w, Clients)) nc (Some (ClientID i)) (Some p) = (Some r, h, c)"
    by (simp add: silc_idcache_add_def Let_def)
  then obtain s' where a: "silc_idlist_add_client env p w nickname username userinfo (Some i) router conn s = Some (Some p, s')"
    using assms(3,4) by (cases username) (auto simp: silc_idlist_add_client_def Let_def)
  have "lists_ok s' \<and> directory s' = dir_step (Add (w, Clients) (Some (ClientID i)) p) (directory s)"
    using step_add_client [OF ok assms(5) a] by simp
  then have "directory s' (w', Clients) (ClientID i) = (if w' = w then Some p else None)" for w'
    using none by simp
  with a show ?thesis
    by (auto simp: find_client_directory)
qed

end
