(* ===== verification/Server_Inviteban.thy ===== *)
theory Server_Inviteban
  imports Server_Id Silc_Argument
begin

text \<open>
  The invite and ban lists of a channel, from \<^verbatim>\<open>apps/silcd/server_util.c\<close>.  The key of an entry is
  its type, 1 for a pattern, 2 for a public key and 3 for a Client ID, and its context the bytes of
  its buffer.  Matching patterns (regular expressions), decoding and encoding public keys are
  parameters.
\<close>

record inviteban_env =
  ie_string_match :: "byte list \<Rightarrow> byte list \<Rightarrow> bool"
  ie_public_key_decode :: "byte list \<Rightarrow> ptr option"
  ie_public_key_encode :: "ptr \<Rightarrow> byte list option"

type_synonym inviteban_list = "(ptr, byte list) silc_hash_table"

section \<open>Comparing\<close>

text \<open>\<open>memcmp\<close>, which stops at the first difference; \<open>None\<close> is a read past the end of a buffer.\<close>

fun memcmp_zero :: "nat \<Rightarrow> byte list \<Rightarrow> byte list \<Rightarrow> bool option" where
  "memcmp_zero 0 a b = Some True"
| "memcmp_zero (Suc n) (x # a) (y # b) = (if x \<noteq> y then Some False else memcmp_zero n a b)"
| "memcmp_zero (Suc n) a b = None"

definition entry_matches :: "inviteban_env \<Rightarrow> ptr \<Rightarrow> byte list \<Rightarrow> byte list \<Rightarrow> bool option" where
  "entry_matches env type tmp entry =
     (if type = 1 then Some (ie_string_match env (cstr entry) (cstr tmp))
      else memcmp_zero (length tmp) entry tmp)"

text \<open>The traversal that looks for an entry of a type.\<close>

fun find_entry :: "inviteban_env \<Rightarrow> ptr \<Rightarrow> byte list \<Rightarrow> (ptr \<times> byte list) list \<Rightarrow> byte list option option" where
  "find_entry env type tmp [] = Some None"
| "find_entry env type tmp ((t, entry) # es) =
     (if t \<noteq> type then find_entry env type tmp es
      else case entry_matches env type tmp entry of
          None \<Rightarrow> None
        | Some True \<Rightarrow> Some (Some entry)
        | Some False \<Rightarrow> find_entry env type tmp es)"

datatype inviteban_check = Check_String "byte list" | Check_Key ptr | Check_Client silc_client_id

definition silc_server_inviteban_match ::
  "inviteban_env \<Rightarrow> inviteban_list \<Rightarrow> inviteban_check option \<Rightarrow> bool" where
  "silc_server_inviteban_match env list check =
     (case check of
        None \<Rightarrow> False
      | Some (Check_String s) \<Rightarrow>
          list_ex (\<lambda>(t, entry). t = 1 \<and> ie_string_match env (cstr entry) (cstr s)) (silc_hash_table_foreach list)
      | Some (Check_Key k) \<Rightarrow>
          (case ie_public_key_encode env k of
             None \<Rightarrow> False
           | Some d \<Rightarrow> list_ex (\<lambda>(t, entry). t = 2 \<and> length entry = length d \<and> entry = d) (silc_hash_table_foreach list))
      | Some (Check_Client i) \<Rightarrow>
          (case silc_id_payload_encode (ClientID i) of
             None \<Rightarrow> False
           | Some idp \<Rightarrow> list_ex (\<lambda>(t, entry). t = 3 \<and> length entry = length (silc_buffer_data idp) \<and>
               entry = silc_buffer_data idp) (silc_hash_table_foreach list)))"

section \<open>Adding and deleting\<close>

text \<open>Whether an argument is looked at.\<close>

definition argument_usable :: "inviteban_env \<Rightarrow> ptr \<Rightarrow> byte list \<Rightarrow> bool" where
  "argument_usable env type tmp =
     (if type = 1 then silc_utf8_valid tmp \<and> 0x2c \<notin> set (cstr tmp)
      else if type = 2 then ie_public_key_decode env tmp \<noteq> None
      else type = 3)"

text \<open>The bytes that are stored; a pattern is terminated.\<close>

definition stored_bytes :: "ptr \<Rightarrow> byte list \<Rightarrow> byte list" where
  "stored_bytes type tmp =
     (if type = 1 then (if last tmp = 0x2c then butlast tmp @ [0] else tmp) @ [0] else tmp)"

definition inviteban_add :: "inviteban_env \<Rightarrow> ptr \<Rightarrow> byte list \<Rightarrow> inviteban_list \<Rightarrow> inviteban_list option" where
  "inviteban_add env type tmp list =
     (if \<not> argument_usable env type tmp \<or> type = 1 \<and> tmp = [] then Some list
      else case find_entry env type tmp (silc_hash_table_foreach list) of
          None \<Rightarrow> None
        | Some (Some _) \<Rightarrow> Some list
        | Some None \<Rightarrow> Some (silc_hash_table_add list type (stored_bytes type tmp)))"

text \<open>The table does not resize while it is traversed.\<close>

definition inviteban_del :: "inviteban_env \<Rightarrow> ptr \<Rightarrow> byte list \<Rightarrow> inviteban_list \<Rightarrow> inviteban_list option" where
  "inviteban_del env type tmp list =
     (if \<not> argument_usable env type tmp then Some list
      else
        let (htl, list) = silc_hash_table_list list in
        case find_entry env type tmp (silc_hash_table_foreach list) of
          None \<Rightarrow> None
        | Some None \<Rightarrow> Some (silc_hash_table_list_reset htl list)
        | Some (Some entry) \<Rightarrow>
            Some (silc_hash_table_list_reset htl (snd (silc_hash_table_del_by_context list type entry))))"

text \<open>The arguments in order, up to the first without data.\<close>

fun inviteban_args ::
  "(ptr \<Rightarrow> byte list \<Rightarrow> 'l \<Rightarrow> 'l option) \<Rightarrow> arg_entry list \<Rightarrow> 'l \<Rightarrow> 'l option" where
  "inviteban_args act [] list = Some list"
| "inviteban_args act ((arg, len, type) # args) list =
     (case arg of
        None \<Rightarrow> Some list
      | Some tmp \<Rightarrow> Option.bind (act (ucast type) tmp list) (inviteban_args act args))"

text \<open>
  Without a list, nothing is deleted and adding follows a null pointer.  Reading the first of no arguments is a
  read beyond the array.
\<close>

definition silc_server_inviteban_process ::
  "inviteban_env \<Rightarrow> inviteban_list option \<Rightarrow> u8 \<Rightarrow> silc_argument_payload \<Rightarrow> inviteban_list option option" where
  "silc_server_inviteban_process env list action args =
     (let entries = take (unat (ap_argc args)) (ap_args args) in
      if action = 0x00 \<or> action = 0x03 then
        (if ap_args args = [] then None
         else case list of
             None \<Rightarrow> map_option (\<lambda>_. None) (inviteban_args (\<lambda>type tmp _.
               if \<not> argument_usable env type tmp \<or> type = 1 \<and> tmp = [] then Some () else None) entries ())
           | Some l \<Rightarrow> map_option Some (inviteban_args (inviteban_add env) entries l))
      else if action = 0x01 \<and> list \<noteq> None then
        (if ap_args args = [] then None
         else map_option Some (inviteban_args (inviteban_del env) entries (the list)))
      else Some list)"

section \<open>Client IDs on the lists\<close>

text \<open>Encodings of IDs are not prefixes of each other, so comparing them by prefix is exact.\<close>

lemma memcmp_zero_same: "memcmp_zero (length a) a a = Some True"
  by (induction a) auto

lemma memcmp_zero_differ:
  "(\<And>r. a \<noteq> b @ r) \<Longrightarrow> (\<And>r. b \<noteq> a @ r) \<Longrightarrow> memcmp_zero (length b) a b = Some False"
proof (induction b arbitrary: a)
  case (Cons y b)
  from Cons.prems(2) obtain x a' where a: "a = x # a'" by (cases a) auto
  with Cons show ?case by auto
qed auto

definition client_bytes :: "silc_client_id \<Rightarrow> byte list" where
  "client_bytes i = id_payload_bytes (the (silc_id_id2str (ClientID i) 32)) SILC_ID_CLIENT"

lemma client_payload:
  assumes "id_wf (ClientID i)"
  shows "silc_id_payload_encode (ClientID i) = Some (silc_buffer_set (client_bytes i))"
    "length (client_bytes i @ r) < 2 ^ 32 - 1 \<Longrightarrow> silc_id_payload_parse_id (client_bytes i @ r) = Some (ClientID i)"
proof -
  obtain s where s: "silc_id_id2str (ClientID i) 32 = Some s" using id2str_eq [OF assms] by blast
  show "silc_id_payload_encode (ClientID i) = Some (silc_buffer_set (client_bytes i))"
    using payload_encode_eq [OF assms s] s by (simp add: client_bytes_def)
  show "silc_id_payload_parse_id (client_bytes i @ r) = Some (ClientID i)" if "length (client_bytes i @ r) < 2 ^ 32 - 1"
    using parse_id_bytes [OF assms s, of r] s that by (simp add: client_bytes_def)
qed

lemma client_bytes_length:
  assumes "id_wf (ClientID i)" shows "length (client_bytes i) \<le> 32"
proof -
  obtain s where s: "silc_id_id2str (ClientID i) 32 = Some s" using id2str_eq [OF assms] by blast
  have "length s \<le> 28" using id2str_length [OF assms s] get_len_bounds [OF assms] by simp
  with s show ?thesis by (simp add: client_bytes_def id_payload_bytes_def)
qed

lemma client_bytes_prefix:
  assumes "id_wf (ClientID i)" "id_wf (ClientID j)" "client_bytes i @ r = client_bytes j"
  shows "i = j"
proof -
  have "length (client_bytes i @ r) < 2 ^ 32 - 1" using client_bytes_length [OF assms(2)] assms(3) by simp
  then show ?thesis
    using client_payload(2) [OF assms(1), of r] client_payload(2) [OF assms(2), of "[]"] client_bytes_length [OF assms(2)]
      assms(3) by simp
qed

lemma memcmp_client:
  assumes "id_wf (ClientID i)" "id_wf (ClientID j)"
  shows "memcmp_zero (length (client_bytes j)) (client_bytes i) (client_bytes j) = Some (i = j)"
proof (cases "i = j")
  case False
  then have "memcmp_zero (length (client_bytes j)) (client_bytes i) (client_bytes j) = Some False"
    using client_bytes_prefix [OF assms] client_bytes_prefix [OF assms(2,1)] by (intro memcmp_zero_differ) metis+
  with False show ?thesis by simp
qed (simp add: memcmp_zero_same)

text \<open>A list whose entries of type 3 are Client IDs, none of them twice.\<close>

definition inviteban_ok :: "inviteban_list \<Rightarrow> bool" where
  "inviteban_ok list \<longleftrightarrow> ht_for silc_hash_ptr (=) list \<and> distinct (silc_hash_table_foreach list) \<and>
     (\<forall>e. (3, e) \<in> set (silc_hash_table_foreach list) \<longrightarrow> (\<exists>i. id_wf (ClientID i) \<and> e = client_bytes i))"

lemma find_entry_client:
  assumes "id_wf (ClientID i)" "\<And>e. (3, e) \<in> set es \<Longrightarrow> \<exists>i. id_wf (ClientID i) \<and> e = client_bytes i"
  shows "find_entry env 3 (client_bytes i) es = Some (if (3, client_bytes i) \<in> set es then Some (client_bytes i) else None)"
  using assms(2)
proof (induction es)
  case (Cons x es)
  obtain t e where x: "x = (t, e)" by (cases x)
  show ?case
  proof (cases "t = 3")
    case True
    with Cons.prems [of e] x obtain j where j: "id_wf (ClientID j)" "e = client_bytes j" by auto
    have "(client_bytes j = client_bytes i) = (j = i)" using client_bytes_prefix [OF j(1) assms(1), of "[]"] by auto
    with j True x Cons show ?thesis by (auto simp: entry_matches_def memcmp_client [OF j(1) assms(1)])
  next
    case False
    with x Cons show ?thesis by auto
  qed
qed simp

lemma match_client:
  assumes "id_wf (ClientID i)"
  shows "silc_server_inviteban_match env list (Some (Check_Client i)) \<longleftrightarrow>
    (3, client_bytes i) \<in> set (silc_hash_table_foreach list)"
  using client_payload(1) [OF assms] by (auto simp: silc_server_inviteban_match_def list_ex_iff)

lemma inviteban_ok_mset:
  assumes "ht_for silc_hash_ptr (=) list'" "mset (silc_hash_table_foreach list') = mset es" "distinct es"
    "\<And>e. (3, e) \<in> set es \<Longrightarrow> \<exists>i. id_wf (ClientID i) \<and> e = client_bytes i"
  shows "inviteban_ok list'" "set (silc_hash_table_foreach list') = set es"
  using assms mset_eq_setD [OF assms(2)] mset_eq_imp_distinct_iff [OF assms(2)] by (auto simp: inviteban_ok_def)

lemma add_client_entry:
  assumes ok: "inviteban_ok list" and i: "id_wf (ClientID i)"
  shows "\<exists>l. inviteban_add env 3 (client_bytes i) list = Some l \<and> inviteban_ok l \<and>
    set (silc_hash_table_foreach l) = insert (3, client_bytes i) (set (silc_hash_table_foreach list))"
proof -
  have ht: "ht_for silc_hash_ptr (=) list" and d: "distinct (silc_hash_table_foreach list)"
    and ids: "\<And>e. (3, e) \<in> set (silc_hash_table_foreach list) \<Longrightarrow> \<exists>i. id_wf (ClientID i) \<and> e = client_bytes i"
    using ok by (auto simp: inviteban_ok_def)
  have f: "find_entry env 3 (client_bytes i) (silc_hash_table_foreach list) =
      Some (if (3, client_bytes i) \<in> set (silc_hash_table_foreach list) then Some (client_bytes i) else None)"
    using find_entry_client [OF i] ids by blast
  show ?thesis
  proof (cases "(3, client_bytes i) \<in> set (silc_hash_table_foreach list)")
    case True
    with f ok show ?thesis by (auto simp: inviteban_add_def argument_usable_def)
  next
    case False
    let ?l = "silc_hash_table_add list 3 (client_bytes i)"
    have "distinct (silc_hash_table_foreach list @ [(3, client_bytes i)])" using d False by simp
    note m = inviteban_ok_mset [OF hk_ptr.for_add [OF ht] hk_ptr.foreach_add [OF ht] this]
    from m ids i have "inviteban_ok ?l" "set (silc_hash_table_foreach ?l) = insert (3, client_bytes i) (set (silc_hash_table_foreach list))"
      by auto
    with False f show ?thesis by (auto simp: inviteban_add_def argument_usable_def stored_bytes_def)
  qed
qed

lemma del_client_entry:
  assumes ok: "inviteban_ok list" and i: "id_wf (ClientID i)"
  shows "\<exists>l. inviteban_del env 3 (client_bytes i) list = Some l \<and> inviteban_ok l \<and>
    set (silc_hash_table_foreach l) = set (silc_hash_table_foreach list) - {(3, client_bytes i)}"
proof -
  let ?list = "list\<lparr>ht_auto_rehash := False\<rparr>" and ?e = "(3 :: ptr, client_bytes i)"
  have same: "silc_hash_table_foreach (l\<lparr>ht_auto_rehash := a\<rparr>) = silc_hash_table_foreach l" for l :: inviteban_list and a
    by (simp add: silc_hash_table_foreach_def)
  have ht: "ht_for silc_hash_ptr (=) ?list" and d: "distinct (silc_hash_table_foreach list)"
    and ids: "\<And>e. (3, e) \<in> set (silc_hash_table_foreach list) \<Longrightarrow> \<exists>i. id_wf (ClientID i) \<and> e = client_bytes i"
    using ok by (auto simp: inviteban_ok_def)
  have f: "find_entry env 3 (client_bytes i) (silc_hash_table_foreach list) =
      Some (if (3, client_bytes i) \<in> set (silc_hash_table_foreach list) then Some (client_bytes i) else None)"
    using find_entry_client [OF i] ids by blast
  show ?thesis
  proof (cases "?e \<in> set (silc_hash_table_foreach list)")
    case False
    with f ok same show ?thesis
      by (auto simp: inviteban_del_def argument_usable_def silc_hash_table_list_def silc_hash_table_list_reset_def inviteban_ok_def)
  next
    case True
    let ?l = "snd (silc_hash_table_del_by_context ?list 3 (client_bytes i))"
    let ?P = "\<lambda>e. fst e = (3 :: ptr) \<and> snd e = client_bytes i"
    have P: "?P = (\<lambda>e. e = ?e)" by (auto simp: fun_eq_iff prod_eq_iff)
    have fd: "set (del_first (\<lambda>e. e = x) xs) = set xs - {x} \<and> distinct (del_first (\<lambda>e. e = x) xs)" if "distinct xs"
      for x and xs :: "(ptr \<times> byte list) list"
      using that by (induction xs) auto
    have "mset (silc_hash_table_foreach ?l) = mset (del_first (\<lambda>e. e = ?e) (silc_hash_table_foreach list))"
      using hk_ptr.foreach_del_context [OF ht, of 3 "client_bytes i"] unfolding P same .
    note m = inviteban_ok_mset [OF hk_ptr.del_context_stored(2) [OF ht] this conjunct2 [OF fd [OF d]]]
    have "inviteban_ok ?l" "set (silc_hash_table_foreach ?l) = set (silc_hash_table_foreach list) - {?e}"
      using m fd [OF d, of ?e] ids by auto
    with True f same show ?thesis
      by (auto simp: inviteban_del_def argument_usable_def silc_hash_table_list_def silc_hash_table_list_reset_def inviteban_ok_def)
  qed
qed

lemma del_first_sub: "set (del_first P xs) \<subseteq> set xs \<and> (distinct xs \<longrightarrow> distinct (del_first P xs))"
  by (induction xs) auto

lemma inviteban_del_ok:
  assumes ok: "inviteban_ok list" and d: "inviteban_del env type tmp list = Some l" shows "inviteban_ok l"
proof -
  let ?list = "list\<lparr>ht_auto_rehash := False\<rparr>"
  have same: "silc_hash_table_foreach (l\<lparr>ht_auto_rehash := a\<rparr>) = silc_hash_table_foreach l" for l :: inviteban_list and a
    by (simp add: silc_hash_table_foreach_def)
  have ht: "ht_for silc_hash_ptr (=) ?list" using ok by (auto simp: inviteban_ok_def)
  have re: "inviteban_ok (k\<lparr>ht_auto_rehash := a\<rparr>)" if "inviteban_ok k" for k a using that same by (auto simp: inviteban_ok_def)
  have "inviteban_ok (snd (silc_hash_table_del_by_context ?list type entry))" for entry
  proof -
    let ?P = "\<lambda>e. fst e = type \<and> snd e = entry"
    have m: "mset (silc_hash_table_foreach (snd (silc_hash_table_del_by_context ?list type entry))) =
        mset (del_first ?P (silc_hash_table_foreach list))"
      using hk_ptr.foreach_del_context [OF ht, of type entry] unfolding same .
    show ?thesis
      by (rule inviteban_ok_mset(1) [OF hk_ptr.del_context_stored(2) [OF ht] m])
        (use ok del_first_sub [of ?P "silc_hash_table_foreach list"] in \<open>auto simp: inviteban_ok_def\<close>)
  qed
  with d ok re show ?thesis
    by (auto simp: inviteban_del_def silc_hash_table_list_def silc_hash_table_list_reset_def split: option.splits if_splits)
qed

lemma inviteban_del_args_ok:
  "inviteban_args (inviteban_del env) args list = Some l \<Longrightarrow> inviteban_ok list \<Longrightarrow> inviteban_ok l"
proof (induction args arbitrary: list)
  case (Cons a args)
  obtain arg len type where a: "a = (arg, len, type)" by (cases a)
  with Cons inviteban_del_ok show ?case by (auto simp: bind_eq_Some_conv split: option.splits)
qed simp

lemma inviteban_process_del_ok:
  assumes "silc_server_inviteban_process env (Some list) 1 args = Some (Some l)" "inviteban_ok list" shows "inviteban_ok l"
  using assms inviteban_del_args_ok by (auto simp: silc_server_inviteban_process_def Let_def split: if_splits)

text \<open>
  Property C17. Inviting or banning a client by its Client ID: after adding, the list matches the
  client; after deleting again it does not; and neither changes whether another client, a public key
  or a name matches.  Both calls return, without reading past the end of an entry.
\<close>

theorem inviteban_client_spec:
  assumes "inviteban_ok list" "id_wf (ClientID i)"
    "args = \<lparr>ap_argc = 1, ap_args = [(Some (client_bytes i), len, 3)], ap_pos = 0\<rparr>"
  shows "\<exists>l1 l2. silc_server_inviteban_process env (Some list) 0 args = Some (Some l1) \<and>
    silc_server_inviteban_match env l1 (Some (Check_Client i)) \<and>
    silc_server_inviteban_process env (Some l1) 1 args = Some (Some l2) \<and> inviteban_ok l2 \<and>
    \<not> silc_server_inviteban_match env l2 (Some (Check_Client i)) \<and>
    (\<forall>c. (\<nexists>j. c = Check_Client j \<and> (j = i \<or> \<not> id_wf (ClientID j))) \<longrightarrow>
      silc_server_inviteban_match env l1 (Some c) = silc_server_inviteban_match env list (Some c) \<and>
      silc_server_inviteban_match env l2 (Some c) = silc_server_inviteban_match env list (Some c))"
proof -
  let ?e = "(3 :: ptr, client_bytes i)"
  obtain l1 where l1: "inviteban_add env 3 (client_bytes i) list = Some l1" "inviteban_ok l1"
    "set (silc_hash_table_foreach l1) = insert ?e (set (silc_hash_table_foreach list))"
    using add_client_entry [OF assms(1,2)] by blast
  obtain l2 where l2: "inviteban_del env 3 (client_bytes i) l1 = Some l2" "inviteban_ok l2"
    "set (silc_hash_table_foreach l2) = set (silc_hash_table_foreach l1) - {?e}"
    using del_client_entry [OF l1(2) assms(2)] by blast
  have "silc_server_inviteban_process env (Some list) 0 args = Some (Some l1)"
    "silc_server_inviteban_process env (Some l1) 1 args = Some (Some l2)"
    using l1(1) l2(1) assms(3) by (simp_all add: silc_server_inviteban_process_def)
  moreover have "silc_server_inviteban_match env l1 (Some c) = silc_server_inviteban_match env list (Some c) \<and>
      silc_server_inviteban_match env l2 (Some c) = silc_server_inviteban_match env list (Some c)"
    if "\<nexists>j. c = Check_Client j \<and> (j = i \<or> \<not> id_wf (ClientID j))" for c
  proof (cases c)
    case (Check_Client j)
    with that have j: "id_wf (ClientID j)" "j \<noteq> i" by auto
    then have "client_bytes j \<noteq> client_bytes i" using client_bytes_prefix [OF j(1) assms(2), of "[]"] by auto
    with Check_Client match_client [OF j(1)] l1(3) l2(3) show ?thesis by auto
  qed (auto simp: silc_server_inviteban_match_def list_ex_iff l1(3) l2(3) split: option.split)
  ultimately show ?thesis using l2(2,3) l1(3) match_client [OF assms(2)] by blast
qed

theorem inviteban_client_spec_witness:
  "\<exists>env list i args l1. silc_server_inviteban_process env (Some list) 0 args = Some (Some l1) \<and>
    silc_server_inviteban_match env l1 (Some (Check_Client i))"
proof -
  let ?i = "\<lparr>cid_ip = \<lparr>ip_data = replicate 16 0, ip_data_len = 4\<rparr>, cid_rnd = 1, cid_hash = replicate 11 0\<rparr>"
  obtain list :: inviteban_list where l: "silc_hash_table_alloc 0 silc_hash_ptr None True True = Some list"
    using alloc_succeeds by (metis not_None_eq)
  have "silc_hash_table_foreach list = []"
    using alloc_ok [OF l] by (simp add: ht_wf_def silc_hash_table_foreach_def)
  then have "inviteban_ok list" using alloc_ok [OF l] by (simp add: inviteban_ok_def ht_for_def ht_cmp_def)
  moreover have "id_wf (ClientID ?i)" by (simp add: ip_wf_def CLIENTID_HASH_LEN_def)
  ultimately show ?thesis using inviteban_client_spec [of list ?i _ 20, OF _ _ refl] by blast
qed

text \<open>
  Entries are compared only as far as the new one is long: with a longer entry on the list, the ID
  is taken to be there already and is not added.
\<close>

lemma longer_entry_blocks:
  assumes "(3, client_bytes i @ r) \<in> set (silc_hash_table_foreach list)" "r \<noteq> []"
    "\<And>e. (3, e) \<in> set (silc_hash_table_foreach list) \<Longrightarrow> e = client_bytes i @ r"
  shows "inviteban_add env 3 (client_bytes i) list = Some list"
    "id_wf (ClientID i) \<Longrightarrow> \<not> silc_server_inviteban_match env list (Some (Check_Client i))"
proof -
  have m: "memcmp_zero (length b) (b @ r) b = Some True" for b by (induction b) auto
  have "find_entry env 3 (client_bytes i) es = Some (Some (client_bytes i @ r))"
    if "(3, client_bytes i @ r) \<in> set es" "\<And>e. (3, e) \<in> set es \<Longrightarrow> e = client_bytes i @ r" for es
    using that
  proof (induction es)
    case (Cons x es)
    obtain t e where x: "x = (t, e)" by (cases x)
    show ?case
    proof (cases "t = 3")
      case True
      with Cons.prems(2) [of e] x m [of "client_bytes i"] show ?thesis by (simp add: entry_matches_def)
    next
      case False
      have "find_entry env 3 (client_bytes i) es = Some (Some (client_bytes i @ r))"
      proof (rule Cons.IH)
        show "(3, client_bytes i @ r) \<in> set es" using Cons.prems(1) False x by simp
        show "e = client_bytes i @ r" if "(3, e) \<in> set es" for e using Cons.prems(2) [of e] that by simp
      qed
      with False x show ?thesis by simp
    qed
  qed simp
  from this [OF assms(1,3)] show "inviteban_add env 3 (client_bytes i) list = Some list"
    by (simp add: inviteban_add_def argument_usable_def)
  show "\<not> silc_server_inviteban_match env list (Some (Check_Client i))" if "id_wf (ClientID i)"
    unfolding match_client [OF that] using assms(2) assms(3) [of "client_bytes i"] by (metis append_self_conv)
qed

end
