(* ===== verification/Server_Rights.thy ===== *)
theory Server_Rights
  imports Server_Data
begin

text \<open>
  Modes of channels and users, \<^verbatim>\<open>lib/silccore/silcmode.h\<close>, and the checks of who may change them,
  from \<^verbatim>\<open>apps/silcd/server_util.c\<close>.
\<close>

section \<open>Modes\<close>

definition SILC_CHANNEL_MODE_PRIVKEY :: u32 where "SILC_CHANNEL_MODE_PRIVKEY = 0x0004"
definition SILC_CHANNEL_MODE_INVITE :: u32 where "SILC_CHANNEL_MODE_INVITE = 0x0008"
definition SILC_CHANNEL_MODE_ULIMIT :: u32 where "SILC_CHANNEL_MODE_ULIMIT = 0x0020"
definition SILC_CHANNEL_MODE_PASSPHRASE :: u32 where "SILC_CHANNEL_MODE_PASSPHRASE = 0x0040"
definition SILC_CHANNEL_MODE_CIPHER :: u32 where "SILC_CHANNEL_MODE_CIPHER = 0x0080"
definition SILC_CHANNEL_MODE_FOUNDER_AUTH :: u32 where "SILC_CHANNEL_MODE_FOUNDER_AUTH = 0x0200"
definition SILC_CHANNEL_MODE_SILENCE_USERS :: u32 where "SILC_CHANNEL_MODE_SILENCE_USERS = 0x0400"
definition SILC_CHANNEL_MODE_SILENCE_OPERS :: u32 where "SILC_CHANNEL_MODE_SILENCE_OPERS = 0x0800"
definition SILC_CHANNEL_MODE_CHANNEL_AUTH :: u32 where "SILC_CHANNEL_MODE_CHANNEL_AUTH = 0x1000"

definition SILC_CHANNEL_UMODE_CHANFO :: u32 where "SILC_CHANNEL_UMODE_CHANFO = 0x0001"
definition SILC_CHANNEL_UMODE_CHANOP :: u32 where "SILC_CHANNEL_UMODE_CHANOP = 0x0002"

definition SILC_UMODE_SERVER_OPERATOR :: u32 where "SILC_UMODE_SERVER_OPERATOR = 0x0001"
definition SILC_UMODE_ROUTER_OPERATOR :: u32 where "SILC_UMODE_ROUTER_OPERATOR = 0x0002"

text \<open>A C condition \<open>mode & flag\<close>.\<close>

definition has_mode :: "u32 \<Rightarrow> u32 \<Rightarrow> bool" where
  "has_mode mode flag \<longleftrightarrow> mode AND flag \<noteq> 0"

lemmas channel_mode_defs = SILC_CHANNEL_MODE_PRIVKEY_def SILC_CHANNEL_MODE_PASSPHRASE_def
  SILC_CHANNEL_MODE_CIPHER_def SILC_CHANNEL_MODE_FOUNDER_AUTH_def SILC_CHANNEL_MODE_SILENCE_USERS_def
  SILC_CHANNEL_MODE_SILENCE_OPERS_def SILC_CHANNEL_MODE_CHANNEL_AUTH_def SILC_CHANNEL_UMODE_CHANFO_def
  SILC_CHANNEL_UMODE_CHANOP_def SILC_UMODE_SERVER_OPERATOR_def SILC_UMODE_ROUTER_OPERATOR_def

section \<open>Channel modes\<close>

text \<open>The check of one mode that takes founder rights to change.\<close>

definition founder_mode_ok :: "bool \<Rightarrow> bool \<Rightarrow> u32 \<Rightarrow> u32 \<Rightarrow> u32 \<Rightarrow> bool" where
  "founder_mode_ok is_op is_fo channel_mode mode flag \<longleftrightarrow>
     (if has_mode mode flag then \<not> (\<not> has_mode channel_mode flag \<and> is_op \<and> \<not> is_fo)
      else \<not> (has_mode channel_mode flag \<and> is_op \<and> \<not> is_fo))"

definition silc_server_check_cmode_rights :: "u32 \<Rightarrow> u32 \<Rightarrow> u32 \<Rightarrow> bool" where
  "silc_server_check_cmode_rights channel_mode client_mode mode =
     (let is_op = has_mode client_mode SILC_CHANNEL_UMODE_CHANOP;
          is_fo = has_mode client_mode SILC_CHANNEL_UMODE_CHANFO in
      if \<not> is_op \<and> \<not> is_fo then False
      else if is_op \<and> is_fo then True
      else
        let is_op = (if is_fo then True else is_op) in
        if has_mode mode SILC_CHANNEL_MODE_PRIVKEY \<and> is_op \<and> \<not> is_fo then False
        else if \<not> has_mode mode SILC_CHANNEL_MODE_PRIVKEY \<and> has_mode channel_mode SILC_CHANNEL_MODE_PRIVKEY \<and>
                is_op \<and> \<not> is_fo then False
        else
          list_all (founder_mode_ok is_op is_fo channel_mode mode)
            [SILC_CHANNEL_MODE_PASSPHRASE, SILC_CHANNEL_MODE_CIPHER, SILC_CHANNEL_MODE_FOUNDER_AUTH,
             SILC_CHANNEL_MODE_SILENCE_USERS, SILC_CHANNEL_MODE_SILENCE_OPERS, SILC_CHANNEL_MODE_CHANNEL_AUTH])"

text \<open>The modes that only a founder changes.\<close>

definition FOUNDER_MODES :: u32 where
  "FOUNDER_MODES = SILC_CHANNEL_MODE_PASSPHRASE OR SILC_CHANNEL_MODE_CIPHER OR SILC_CHANNEL_MODE_FOUNDER_AUTH OR
     SILC_CHANNEL_MODE_SILENCE_USERS OR SILC_CHANNEL_MODE_SILENCE_OPERS OR SILC_CHANNEL_MODE_CHANNEL_AUTH"

lemma flag_bits:
  "SILC_CHANNEL_MODE_PRIVKEY = 2 ^ 2" "SILC_CHANNEL_MODE_PASSPHRASE = 2 ^ 6" "SILC_CHANNEL_MODE_CIPHER = 2 ^ 7"
  "SILC_CHANNEL_MODE_FOUNDER_AUTH = 2 ^ 9" "SILC_CHANNEL_MODE_SILENCE_USERS = 2 ^ 10"
  "SILC_CHANNEL_MODE_SILENCE_OPERS = 2 ^ 11" "SILC_CHANNEL_MODE_CHANNEL_AUTH = 2 ^ 12"
  "SILC_CHANNEL_UMODE_CHANFO = 2 ^ 0" "SILC_CHANNEL_UMODE_CHANOP = 2 ^ 1"
  "SILC_UMODE_SERVER_OPERATOR = 2 ^ 0" "SILC_UMODE_ROUTER_OPERATOR = 2 ^ 1"
  by (simp_all add: channel_mode_defs)

lemma has_mode_bits:
  "has_mode m SILC_CHANNEL_MODE_PRIVKEY \<longleftrightarrow> bit m 2" "has_mode m SILC_CHANNEL_MODE_PASSPHRASE \<longleftrightarrow> bit m 6"
  "has_mode m SILC_CHANNEL_MODE_CIPHER \<longleftrightarrow> bit m 7" "has_mode m SILC_CHANNEL_MODE_FOUNDER_AUTH \<longleftrightarrow> bit m 9"
  "has_mode m SILC_CHANNEL_MODE_SILENCE_USERS \<longleftrightarrow> bit m 10" "has_mode m SILC_CHANNEL_MODE_SILENCE_OPERS \<longleftrightarrow> bit m 11"
  "has_mode m SILC_CHANNEL_MODE_CHANNEL_AUTH \<longleftrightarrow> bit m 12"
  "has_mode m SILC_CHANNEL_UMODE_CHANFO \<longleftrightarrow> bit m 0" "has_mode m SILC_CHANNEL_UMODE_CHANOP \<longleftrightarrow> bit m 1"
  "has_mode m SILC_UMODE_SERVER_OPERATOR \<longleftrightarrow> bit m 0" "has_mode m SILC_UMODE_ROUTER_OPERATOR \<longleftrightarrow> bit m 1"
  unfolding has_mode_def flag_bits and_exp_eq_0_iff_not_bit by blast+

lemma word32_eq_iff: "x = y \<longleftrightarrow> (\<forall>n < 32. bit x n = bit y n)" for x y :: u32
  by (simp add: bit_eq_iff possible_bit_word)

lemma founder_modes_bits: "n < 32 \<Longrightarrow> bit FOUNDER_MODES n \<longleftrightarrow> n = 6 \<or> n = 7 \<or> n = 9 \<or> n = 10 \<or> n = 11 \<or> n = 12"
  unfolding FOUNDER_MODES_def flag_bits bit_or_iff bit_exp_iff possible_bit_word by (simp only: len_num0 len_num1 len_bit0 len_bit1) auto

lemma founder_modes_same:
  "mode AND FOUNDER_MODES = mode' AND FOUNDER_MODES \<longleftrightarrow>
    bit mode 6 = bit mode' 6 \<and> bit mode 7 = bit mode' 7 \<and> bit mode 9 = bit mode' 9 \<and> bit mode 10 = bit mode' 10 \<and>
    bit mode 11 = bit mode' 11 \<and> bit mode 12 = bit mode' 12"
proof -
  have "mode AND FOUNDER_MODES = mode' AND FOUNDER_MODES \<longleftrightarrow>
      (\<forall>n < 32. n = 6 \<or> n = 7 \<or> n = 9 \<or> n = 10 \<or> n = 11 \<or> n = 12 \<longrightarrow> bit mode n = bit mode' n)"
    unfolding word32_eq_iff bit_and_iff by (intro arg_cong [where f = All] ext) (auto simp only: founder_modes_bits)
  also have "\<dots> \<longleftrightarrow> bit mode 6 = bit mode' 6 \<and> bit mode 7 = bit mode' 7 \<and> bit mode 9 = bit mode' 9 \<and>
      bit mode 10 = bit mode' 10 \<and> bit mode 11 = bit mode' 11 \<and> bit mode 12 = bit mode' 12"
    by (simp add: imp_disjL all_conj_distrib imp_conjR)
  finally show ?thesis .
qed

text \<open>
  Who may change the modes of a channel: a founder may change everything; an operator
  may change a mode only if the requested mode agrees with the present one on passphrase, cipher,
  founder authentication, both silence modes and channel authentication, and neither has the
  private key mode; nobody else may change anything.
\<close>

lemma cmode_rights_iff:
  "silc_server_check_cmode_rights channel_mode client_mode mode \<longleftrightarrow>
    has_mode client_mode SILC_CHANNEL_UMODE_CHANFO \<or>
    has_mode client_mode SILC_CHANNEL_UMODE_CHANOP \<and>
    mode AND FOUNDER_MODES = channel_mode AND FOUNDER_MODES \<and>
    \<not> has_mode mode SILC_CHANNEL_MODE_PRIVKEY \<and> \<not> has_mode channel_mode SILC_CHANNEL_MODE_PRIVKEY"
  unfolding founder_modes_same
  by (auto simp: silc_server_check_cmode_rights_def founder_mode_ok_def Let_def has_mode_bits)

section \<open>User modes\<close>

text \<open>Counting operators, for the counters named by the given updates.\<close>

definition SILC_UMODE_STATS_UPDATE ::
  "((u32 \<Rightarrow> u32) \<Rightarrow> silc_server_statistics \<Rightarrow> silc_server_statistics) \<Rightarrow>
   ((u32 \<Rightarrow> u32) \<Rightarrow> silc_server_statistics \<Rightarrow> silc_server_statistics) \<Rightarrow>
   u32 \<Rightarrow> silc_client_entry \<Rightarrow> u32 \<Rightarrow> silc_server \<Rightarrow> silc_server" where
  "SILC_UMODE_STATS_UPDATE my all flag client mode s =
     (let adjust = (\<lambda>f. s\<lparr>sv_stat := (if sv_server_type s = SILC_ROUTER then all f else (\<lambda>x. x))
            ((if SILC_IS_LOCAL (cl_data client) then my f else (\<lambda>x. x)) (sv_stat s))\<rparr>) in
      if has_mode (cl_mode client) flag
      then (if \<not> has_mode mode flag then adjust (\<lambda>n. n - 1) else s)
      else (if has_mode mode flag then adjust (\<lambda>n. n + 1) else s))"

definition silc_server_check_umode_rights :: "silc_client_entry \<Rightarrow> u32 \<Rightarrow> silc_server \<Rightarrow> bool \<times> silc_server" where
  "silc_server_check_umode_rights client mode s =
     (let server_op = (\<not> has_mode mode SILC_UMODE_SERVER_OPERATOR \<and> has_mode (cl_mode client) SILC_UMODE_SERVER_OPERATOR);
          router_op = (\<not> has_mode mode SILC_UMODE_ROUTER_OPERATOR \<and> has_mode (cl_mode client) SILC_UMODE_ROUTER_OPERATOR) in
      if has_mode mode SILC_UMODE_SERVER_OPERATOR \<and> \<not> has_mode (cl_mode client) SILC_UMODE_SERVER_OPERATOR
      then (False, s)
      else if has_mode mode SILC_UMODE_ROUTER_OPERATOR \<and> \<not> has_mode (cl_mode client) SILC_UMODE_ROUTER_OPERATOR
      then (False, s)
      else
        let s = (if server_op
                 then SILC_UMODE_STATS_UPDATE st_my_server_ops_update st_server_ops_update SILC_UMODE_SERVER_OPERATOR client mode s
                 else s);
            s = (if router_op
                 then SILC_UMODE_STATS_UPDATE st_my_router_ops_update st_router_ops_update SILC_UMODE_ROUTER_OPERATOR client mode s
                 else s) in
        (True, s))"

text \<open>One if the operator mode \<open>flag\<close> is given up.\<close>

definition dropped :: "u32 \<Rightarrow> u32 \<Rightarrow> u32 \<Rightarrow> u32" where
  "dropped old new flag = (if has_mode old flag \<and> \<not> has_mode new flag then 1 else 0)"

text \<open>
  Changing one's own mode never makes a client an operator: a mode with an operator bit
  that the client does not have is refused and changes nothing.  When the mode is accepted, the
  operator counters go down by exactly the operator modes that are given up, the counters of this
  server for local clients and those of the network on a router, and no other counter changes.
\<close>

lemma umode_rights_spec:
  "silc_server_check_umode_rights client mode s =
    (if mode AND NOT (cl_mode client) AND (SILC_UMODE_SERVER_OPERATOR OR SILC_UMODE_ROUTER_OPERATOR) \<noteq> 0
     then (False, s)
     else (True, let local = (if SILC_IS_LOCAL (cl_data client) then 1 else 0);
                     router = (if sv_server_type s = SILC_ROUTER then 1 else 0);
                     srv = dropped (cl_mode client) mode SILC_UMODE_SERVER_OPERATOR;
                     rtr = dropped (cl_mode client) mode SILC_UMODE_ROUTER_OPERATOR in
       s\<lparr>sv_stat := (sv_stat s)
         \<lparr>st_my_server_ops := st_my_server_ops (sv_stat s) - local * srv,
          st_my_router_ops := st_my_router_ops (sv_stat s) - local * rtr,
          st_server_ops := st_server_ops (sv_stat s) - router * srv,
          st_router_ops := st_router_ops (sv_stat s) - router * rtr\<rparr>\<rparr>))"
proof -
  let ?ops = "SILC_UMODE_SERVER_OPERATOR OR SILC_UMODE_ROUTER_OPERATOR"
  have bits: "bit ?ops n \<longleftrightarrow> n = 0 \<or> n = 1" if "n < 32" for n
    using that unfolding flag_bits bit_or_iff bit_exp_iff possible_bit_word by (simp only: len_num0 len_num1 len_bit0 len_bit1) auto
  have "mode AND NOT (cl_mode client) AND ?ops = 0 \<longleftrightarrow> (\<forall>n < 32. \<not> (bit mode n \<and> \<not> bit (cl_mode client) n \<and> (n = 0 \<or> n = 1)))"
    unfolding word32_eq_iff by (simp add: bit_and_iff bit_not_iff bits)
  then have gain: "mode AND NOT (cl_mode client) AND ?ops \<noteq> 0 \<longleftrightarrow>
      bit mode 0 \<and> \<not> bit (cl_mode client) 0 \<or> bit mode 1 \<and> \<not> bit (cl_mode client) 1"
    by (simp only: simp_thms not_all not_imp not_not) (fastforce intro: exI [of _ 0] exI [of _ 1])
  show ?thesis
    unfolding gain
    by (cases "bit mode 0"; cases "bit mode 1"; cases "bit (cl_mode client) 0"; cases "bit (cl_mode client) 1")
      (simp_all add: silc_server_check_umode_rights_def SILC_UMODE_STATS_UPDATE_def Let_def has_mode_bits dropped_def)
qed

end
