(* ===== verification/Server_Channels.thy ===== *)
theory Server_Channels
  imports Server_Inviteban Server_Rights
begin

text \<open>
  Clients on channels, from \<^verbatim>\<open>apps/silcd/server_util.c\<close> and \<^verbatim>\<open>apps/silcd/server.c\<close>: who is on a
  channel, leaving one channel or all, deleting channels and making new channel keys.  A loop over
  a table removes at most the entry it has just got and the table does not resize meanwhile, so it
  visits the entries that the table had at its start.  Operations give \<open>None\<close> where the code would
  follow a null or freed pointer, or fail an assertion.
\<close>

section \<open>Users of a channel\<close>

abbreviation SILC_NOTIFY_TYPE_LEAVE :: u16 where "SILC_NOTIFY_TYPE_LEAVE \<equiv> 3"
abbreviation SILC_NOTIFY_TYPE_SIGNOFF :: u16 where "SILC_NOTIFY_TYPE_SIGNOFF \<equiv> 4"

definition chl_client :: "silc_server \<Rightarrow> ptr \<Rightarrow> silc_client_entry option" where
  "chl_client s k = Option.bind (sv_chls s k) (\<lambda>chl. sv_clients s (cce_client chl))"

fun any_user :: "(silc_client_entry \<Rightarrow> bool) \<Rightarrow> silc_server \<Rightarrow> ptr list \<Rightarrow> bool option" where
  "any_user P s [] = Some False"
| "any_user P s (k # ks) =
     (case chl_client s k of None \<Rightarrow> None | Some c \<Rightarrow> if P c then Some True else any_user P s ks)"

definition users :: "silc_channel_entry \<Rightarrow> ptr list" where
  "users channel = map snd (silc_hash_table_foreach (ch_user_list channel))"

definition silc_server_channel_has_global :: "ptr \<Rightarrow> silc_server \<Rightarrow> bool option" where
  "silc_server_channel_has_global p s =
     Option.bind (sv_channels s p) (\<lambda>channel. any_user (\<lambda>c. cl_router c \<noteq> None) s (users channel))"

definition silc_server_channel_has_local :: "ptr \<Rightarrow> silc_server \<Rightarrow> bool option" where
  "silc_server_channel_has_local p s =
     Option.bind (sv_channels s p) (\<lambda>channel. any_user (\<lambda>c. SILC_IS_LOCAL (cl_data c)) s (users channel))"

definition silc_server_client_on_channel :: "ptr option \<Rightarrow> ptr option \<Rightarrow> silc_server \<Rightarrow> ptr option" where
  "silc_server_client_on_channel client channel s =
     (case (client, channel) of
        (Some c, Some p) \<Rightarrow>
          Option.bind (sv_clients s c) (\<lambda>e. map_option snd (silc_hash_table_find (cl_channels e) p))
      | _ \<Rightarrow> None)"

text \<open>A new membership, on both sides.\<close>

definition add_member :: "ptr \<Rightarrow> u32 \<Rightarrow> ptr \<Rightarrow> ptr \<Rightarrow> silc_server \<Rightarrow> silc_server" where
  "add_member k umode c p s =
     update_channel p (\<lambda>e. e\<lparr>ch_user_count := ch_user_count e + 1\<rparr>)
       (update_client c (\<lambda>e. e\<lparr>cl_channels := silc_hash_table_add (cl_channels e) p k\<rparr>)
         (update_channel p (\<lambda>e. e\<lparr>ch_user_list := silc_hash_table_add (ch_user_list e) c k\<rparr>)
           (s\<lparr>sv_chls := (sv_chls s)(k \<mapsto> \<lparr>cce_client = c, cce_mode = umode, cce_channel = p\<rparr>)\<rparr>)))"

section \<open>Statistics\<close>

definition update_stat :: "(silc_server_statistics \<Rightarrow> silc_server_statistics) \<Rightarrow> silc_server \<Rightarrow> silc_server" where
  "update_stat f s = s\<lparr>sv_stat := f (sv_stat s)\<rparr>"

definition count_leave :: "silc_client_entry \<Rightarrow> silc_server \<Rightarrow> silc_server" where
  "count_leave client s =
     (let s = (if SILC_IS_LOCAL (cl_data client) then update_stat (st_my_chanclients_update (\<lambda>n. n - 1)) s else s) in
      if sv_server_type s = SILC_ROUTER
      then update_stat (st_chanclients_update (\<lambda>n. n - 1) \<circ> st_cell_chanclients_update (\<lambda>n. n - 1)) s else s)"

section \<open>Deleting a channel\<close>

text \<open>Removing the client from the tables on both sides; the membership itself is freed later.\<close>

definition unlink :: "ptr \<Rightarrow> ptr \<Rightarrow> silc_server \<Rightarrow> silc_server" where
  "unlink client channel s =
     update_channel channel (\<lambda>e. e\<lparr>ch_user_list := snd (silc_hash_table_del (ch_user_list e) client),
                                   ch_user_count := ch_user_count e - 1\<rparr>)
       (update_client client (\<lambda>e. e\<lparr>cl_channels := snd (silc_hash_table_del (cl_channels e) channel)\<rparr>) s)"

fun drop_users :: "ptr \<Rightarrow> ptr list \<Rightarrow> silc_server \<Rightarrow> silc_server option" where
  "drop_users p [] s = Some s"
| "drop_users p (k # ks) s =
     (case (sv_chls s k, chl_client s k) of
        (Some chl, Some client) \<Rightarrow>
          drop_users p ks (free_chl k (count_leave client (unlink (cce_client chl) p s)))
      | _ \<Rightarrow> None)"

text \<open>The traversal of a table forbids its resizing and allows it again afterwards.\<close>

definition freeze_users :: "ptr \<Rightarrow> silc_server \<Rightarrow> silc_server" where
  "freeze_users p = update_channel p (\<lambda>e. e\<lparr>ch_user_list := snd (silc_hash_table_list (ch_user_list e))\<rparr>)"

definition thaw_users :: "silc_channel_entry \<Rightarrow> ptr \<Rightarrow> silc_server \<Rightarrow> silc_server" where
  "thaw_users old p = update_channel p (\<lambda>e. e\<lparr>ch_user_list :=
     silc_hash_table_list_reset (fst (silc_hash_table_list (ch_user_list old))) (ch_user_list e)\<rparr>)"

definition silc_server_channel_delete :: "ptr \<Rightarrow> silc_server \<Rightarrow> (bool \<times> silc_server) option" where
  "silc_server_channel_delete p s =
     (case sv_channels s p of
        None \<Rightarrow> None
      | Some channel \<Rightarrow>
          if \<not> has_mode (ch_mode channel) SILC_CHANNEL_MODE_FOUNDER_AUTH then
            let s = (if sv_server_type s = SILC_ROUTER
                     then update_stat (st_chanclients_update (\<lambda>n. n - ch_user_count channel)) s else s);
                s = update_channel p (\<lambda>e. e\<lparr>ch_disabled := True\<rparr>) s;
                s = emit (Ev_Task_Del (ch_rekey channel)) s in
            (case silc_idlist_del_channel Local_List (Some p) s of
               None \<Rightarrow> None
             | Some (True, s) \<Rightarrow>
                 let s = update_stat (st_my_channels_update (\<lambda>n. n - 1)) s in
                 Some (False, if sv_server_type s = SILC_ROUTER
                   then update_stat (st_cell_channels_update (\<lambda>n. n - 1) \<circ> st_channels_update (\<lambda>n. n - 1)) s else s)
             | Some (False, s) \<Rightarrow>
                 (case silc_idlist_del_channel Global_List (Some p) s of
                    None \<Rightarrow> None
                  | Some (ok, s) \<Rightarrow>
                      Some (False, if ok \<and> sv_server_type s = SILC_ROUTER
                        then update_stat (st_channels_update (\<lambda>n. n - 1)) s else s)))
          else
            let s = update_channel p (\<lambda>e. e\<lparr>ch_disabled := True\<rparr>) s in
            map_option (\<lambda>s. (True, thaw_users channel p s)) (drop_users p (users channel) (freeze_users p s)))"

section \<open>Channel keys\<close>

text \<open>
  Ciphers, HMACs and random numbers are a parameter; \<open>cr_key_len\<close> is in bits.  The array for the
  new key has 32 bytes.
\<close>

record crypto_env =
  cr_cipher_alloc :: "ptr option"
  cr_hmac_alloc :: "ptr option"
  cr_key_len :: "ptr \<Rightarrow> nat"
  cr_random :: "nat \<Rightarrow> byte list"
  cr_rekey :: ptr

definition silc_server_create_channel_key :: "crypto_env \<Rightarrow> ptr \<Rightarrow> nat \<Rightarrow> silc_server \<Rightarrow> (bool \<times> silc_server) option" where
  "silc_server_create_channel_key cr p key_len s =
     (case sv_channels s p of
        None \<Rightarrow> None
      | Some channel \<Rightarrow>
          if has_mode (ch_mode channel) SILC_CHANNEL_MODE_PRIVKEY then Some (True, s)
          else
            case (case ch_send_key channel of Some k \<Rightarrow> Some k | None \<Rightarrow> cr_cipher_alloc cr) of
              None \<Rightarrow> Some (False, update_channel p (\<lambda>e. e\<lparr>ch_send_key := None\<rparr>) s)
            | Some send_key \<Rightarrow>
                (case (case ch_receive_key channel of Some k \<Rightarrow> Some k | None \<Rightarrow> cr_cipher_alloc cr) of
                   None \<Rightarrow> Some (False, update_channel p (\<lambda>e. e\<lparr>ch_send_key := None, ch_receive_key := None\<rparr>) s)
                 | Some receive_key \<Rightarrow>
                     let len = (if key_len \<noteq> 0 then key_len
                           else case ch_key channel of Some k \<Rightarrow> if k = [] then cr_key_len cr send_key div 8 else length k
                                | None \<Rightarrow> cr_key_len cr send_key div 8) in
                     if 32 < len then None
                     else
                       let key = take len (cr_random cr len);
                           s = update_channel p (\<lambda>e. e\<lparr>ch_send_key := Some send_key, ch_receive_key := Some receive_key,
                                 ch_key := Some key\<rparr>) s in
                       (case (case ch_hmac channel of Some h \<Rightarrow> Some h | None \<Rightarrow> cr_hmac_alloc cr) of
                          None \<Rightarrow> Some (False, update_channel p (\<lambda>e. e\<lparr>ch_send_key := None, ch_receive_key := None\<rparr>) s)
                        | Some hmac \<Rightarrow>
                            let s = update_channel p (\<lambda>e. e\<lparr>ch_hmac := Some hmac\<rparr>) s in
                            Some (True,
                              if sv_server_type s = SILC_ROUTER then
                                emit (Ev_Rekey_Timeout p) (update_channel p (\<lambda>e. e\<lparr>ch_rekey :=
                                  (case ch_rekey e of Some r \<Rightarrow> Some r | None \<Rightarrow> Some (cr_rekey cr))\<rparr>) s)
                              else s))))"

section \<open>Leaving a channel\<close>

text \<open>
  The steps that all ways of leaving share: the tables, the mark of a channel without global users
  on the given kinds of server, the membership and the counters.
\<close>

definition leave_channel :: "(u8 \<Rightarrow> bool) \<Rightarrow> ptr \<Rightarrow> ptr \<Rightarrow> ptr \<Rightarrow> silc_client_entry \<Rightarrow> silc_server \<Rightarrow> silc_server option" where
  "leave_channel kind k p c client s =
     (let s = unlink c p s in
      case sv_channels s p of
        None \<Rightarrow> None
      | Some channel \<Rightarrow>
          (case (if kind (sv_server_type s) \<and> ch_global_users channel \<and> cl_router client \<noteq> None
                 then silc_server_channel_has_global p s else Some True) of
             None \<Rightarrow> None
           | Some global \<Rightarrow>
               let s = (if global then s else update_channel p (\<lambda>e. e\<lparr>ch_global_users := False\<rparr>) s) in
               Some (count_leave client (free_chl k s))))"

definition notify_channel :: "bool \<Rightarrow> ptr \<Rightarrow> u16 \<Rightarrow> byte list list \<Rightarrow> silc_server \<Rightarrow> silc_server" where
  "notify_channel notify p type args s = (if notify then emit (Ev_Notify_To_Channel p type args) s else s)"

definition silc_server_remove_from_one_channel :: "ptr \<Rightarrow> ptr \<Rightarrow> bool \<Rightarrow> silc_server \<Rightarrow> (bool \<times> silc_server) option" where
  "silc_server_remove_from_one_channel p c notify s =
     (case (sv_channels s p, sv_clients s c) of
        (Some channel, Some client) \<Rightarrow>
          (case silc_hash_table_find (cl_channels client) p of
             None \<Rightarrow> Some (True, s)
           | Some (_, k) \<Rightarrow>
               if sv_server_type s \<noteq> SILC_SERVER \<and> silc_hash_table_count (ch_user_list channel) < 2
               then map_option (\<lambda>(_, s). (False, s)) (silc_server_channel_delete p s)
               else
                 case leave_channel (\<lambda>t. t = SILC_SERVER) k p c client s of
                   None \<Rightarrow> None
                 | Some s \<Rightarrow>
                     (case cl_id client of
                        None \<Rightarrow> None
                      | Some i \<Rightarrow>
                          let clidp = silc_id_payload_encode (ClientID i);
                              notify = (notify \<and> clidp \<noteq> None);
                              args = [silc_buffer_data (the clidp)] in
                          (case (if sv_server_type s = SILC_SERVER then silc_server_channel_has_local p s else Some True) of
                             None \<Rightarrow> None
                           | Some False \<Rightarrow>
                               (case sv_channels s p of
                                  None \<Rightarrow> None
                                | Some channel \<Rightarrow>
                                    let s = notify_channel (notify \<and> ch_global_users channel) p SILC_NOTIFY_TYPE_LEAVE args s;
                                        s = emit (Ev_Task_Del (ch_rekey channel)) s in
                                    map_option (\<lambda>(_, s). (False, s)) (silc_server_channel_delete p s))
                           | Some True \<Rightarrow>
                               Some (True, notify_channel notify p SILC_NOTIFY_TYPE_LEAVE args s))))
      | _ \<Rightarrow> None)"

section \<open>Leaving all channels\<close>

text \<open>A killed client is taken off the invite list.\<close>

definition drop_invite :: "inviteban_env \<Rightarrow> (nat \<Rightarrow> byte) \<Rightarrow> ptr \<Rightarrow> byte list \<Rightarrow> silc_server \<Rightarrow> silc_server option" where
  "drop_invite ib junk p clidp s =
     (case sv_channels s p of
        None \<Rightarrow> None
      | Some channel \<Rightarrow>
          (case ch_invite_list channel of
             None \<Rightarrow> Some s
           | Some list \<Rightarrow>
               if silc_hash_table_count list = 0 then Some s
               else
                 case silc_argument_payload_encode_one junk None (Some clidp) (of_nat (length clidp)) 3 of
                   None \<Rightarrow> None
                 | Some ab \<Rightarrow>
                     (case silc_argument_payload_parse (silc_buffer_data ab) 1 of
                        None \<Rightarrow> None
                      | Some iargs \<Rightarrow>
                          map_option (\<lambda>l. update_channel p (\<lambda>e. e\<lparr>ch_invite_list := l\<rparr>) s)
                            (silc_server_inviteban_process ib (Some list) 1 iargs))))"

record leave_env =
  le_crypto :: crypto_env
  le_inviteban :: inviteban_env
  le_junk :: "nat \<Rightarrow> byte"
  le_signoff :: "byte list option"
  le_keygen :: bool
  le_killed :: bool

text \<open>New keys for a channel that a client has left.\<close>

definition rekey_channel :: "leave_env \<Rightarrow> ptr \<Rightarrow> ptr option \<Rightarrow> silc_server \<Rightarrow> silc_server option" where
  "rekey_channel env p connection s =
     (case sv_channels s p of
        None \<Rightarrow> None
      | Some channel \<Rightarrow>
          if sv_server_shutdown s then Some s
          else if le_keygen env \<and> \<not> has_mode (ch_mode channel) SILC_CHANNEL_MODE_PRIVKEY then
            (case silc_server_create_channel_key (le_crypto env) p 0 s of
               None \<Rightarrow> None
             | Some (False, s) \<Rightarrow> Some s
             | Some (True, s) \<Rightarrow>
                 Some (emit (Ev_Send_Channel_Key connection p
                   (if sv_server_type s = SILC_ROUTER then False else \<not> sv_standalone s)) s))
          else Some s)"

definition remove_from_channel_step ::
  "leave_env \<Rightarrow> ptr \<Rightarrow> silc_client_entry \<Rightarrow> byte list option \<Rightarrow> ptr \<Rightarrow> silc_server \<Rightarrow> silc_server option" where
  "remove_from_channel_step env c client clidp k s =
     (case sv_chls s k of
        None \<Rightarrow> None
      | Some chl \<Rightarrow>
          let p = cce_channel chl; notify = (clidp \<noteq> None);
              args = the clidp # (case le_signoff env of None \<Rightarrow> [] | Some m \<Rightarrow> [m]) in
          (case sv_channels s p of
             None \<Rightarrow> None
           | Some channel \<Rightarrow>
               if sv_server_type s \<noteq> SILC_SERVER \<and> silc_hash_table_count (ch_user_list channel) < 2
               then map_option snd (silc_server_channel_delete p s)
               else
                 Option.bind (leave_channel (\<lambda>t. t = SILC_SERVER) k p c client s) (\<lambda>s.
                   case (if sv_server_type s = SILC_SERVER then silc_server_channel_has_local p s else Some True) of
                     None \<Rightarrow> None
                   | Some False \<Rightarrow>
                       (case sv_channels s p of
                          None \<Rightarrow> None
                        | Some channel \<Rightarrow>
                            let s = notify_channel (notify \<and> ch_global_users channel) p SILC_NOTIFY_TYPE_SIGNOFF args s;
                                s = emit (Ev_Task_Del (ch_rekey channel)) s in
                            map_option snd (silc_server_channel_delete p s))
                   | Some True \<Rightarrow>
                       let s = notify_channel notify p SILC_NOTIFY_TYPE_SIGNOFF args s in
                       Option.bind
                         (if le_killed env \<and> clidp \<noteq> None
                          then drop_invite (le_inviteban env) (le_junk env) p (the clidp) s else Some s)
                         (rekey_channel env p (cl_connection client)))))"

fun remove_from_channels_loop ::
  "leave_env \<Rightarrow> ptr \<Rightarrow> silc_client_entry \<Rightarrow> byte list option \<Rightarrow> ptr list \<Rightarrow> silc_server \<Rightarrow> silc_server option" where
  "remove_from_channels_loop env c client clidp [] s = Some s"
| "remove_from_channels_loop env c client clidp (k # ks) s =
     Option.bind (remove_from_channel_step env c client clidp k s) (remove_from_channels_loop env c client clidp ks)"

definition freeze_channels :: "ptr \<Rightarrow> silc_server \<Rightarrow> silc_server" where
  "freeze_channels c = update_client c (\<lambda>e. e\<lparr>cl_channels := snd (silc_hash_table_list (cl_channels e))\<rparr>)"

definition thaw_channels :: "silc_client_entry \<Rightarrow> ptr \<Rightarrow> silc_server \<Rightarrow> silc_server" where
  "thaw_channels old c = update_client c (\<lambda>e. e\<lparr>cl_channels :=
     silc_hash_table_list_reset (fst (silc_hash_table_list (cl_channels old))) (cl_channels e)\<rparr>)"

definition joined :: "silc_client_entry \<Rightarrow> ptr list" where
  "joined client = map snd (silc_hash_table_foreach (cl_channels client))"

definition silc_server_remove_from_channels :: "leave_env \<Rightarrow> ptr option \<Rightarrow> bool \<Rightarrow> silc_server \<Rightarrow> silc_server option" where
  "silc_server_remove_from_channels env entry notify s =
     (case entry of
        None \<Rightarrow> Some s
      | Some c \<Rightarrow>
          (case sv_clients s c of
             None \<Rightarrow> None
           | Some client \<Rightarrow>
               let clidp = (if notify then Option.bind (cl_id client) (\<lambda>i. silc_id_payload_encode (ClientID i)) else None) in
               map_option (thaw_channels client c)
                 (remove_from_channels_loop env c client (map_option silc_buffer_data clidp) (joined client)
                   (freeze_channels c s))))"

end
