(* ===== verification/Server_Members.thy ===== *)
theory Server_Members
  imports Server_Channels
begin

text \<open>
  The membership invariant: the user list of every channel and the channel list of every client are
  two views of the same set of memberships.  Leaving channels and deleting them keep it, return
  without following a freed pointer, and end exactly the memberships they should.
\<close>

section \<open>The invariant\<close>

definition client_rows :: "(ptr \<rightharpoonup> silc_channel_client_entry) \<Rightarrow> ptr \<Rightarrow> (ptr \<times> ptr) set" where
  "client_rows m c = {(cce_channel x, k) | x k. m k = Some x \<and> cce_client x = c}"

definition channel_rows :: "(ptr \<rightharpoonup> silc_channel_client_entry) \<Rightarrow> ptr \<Rightarrow> (ptr \<times> ptr) set" where
  "channel_rows m p = {(cce_client x, k) | x k. m k = Some x \<and> cce_channel x = p}"

definition memberships_unique :: "(ptr \<rightharpoonup> silc_channel_client_entry) \<Rightarrow> bool" where
  "memberships_unique m \<longleftrightarrow> (\<forall>k k' x x'. m k = Some x \<and> m k' = Some x' \<and>
     cce_client x = cce_client x' \<and> cce_channel x = cce_channel x' \<longrightarrow> k = k')"

text \<open>Tables up to the flag that forbids resizing.\<close>

definition client_table :: "silc_server \<Rightarrow> ptr \<Rightarrow> (ptr, ptr) silc_hash_table option" where
  "client_table s c = map_option (\<lambda>e. (cl_channels e)\<lparr>ht_auto_rehash := True\<rparr>) (sv_clients s c)"

definition channel_table :: "silc_server \<Rightarrow> ptr \<Rightarrow> ((ptr, ptr) silc_hash_table \<times> u32) option" where
  "channel_table s p = map_option (\<lambda>e. ((ch_user_list e)\<lparr>ht_auto_rehash := True\<rparr>, ch_user_count e)) (sv_channels s p)"

definition members_inv :: "ptr set \<Rightarrow> silc_server \<Rightarrow> bool" where
  "members_inv X s \<longleftrightarrow> memberships_unique (sv_chls s) \<and>
     (\<forall>k x. sv_chls s k = Some x \<longrightarrow> client_table s (cce_client x) \<noteq> None \<and> channel_table s (cce_channel x) \<noteq> None) \<and>
     (\<forall>c t. client_table s c = Some t \<longrightarrow> table_of silc_hash_ptr (=) (client_rows (sv_chls s) c) t) \<and>
     (\<forall>p t n. p \<notin> X \<and> channel_table s p = Some (t, n) \<longrightarrow>
        table_of silc_hash_ptr (=) (channel_rows (sv_chls s) p) t \<and> n = of_nat (card (channel_rows (sv_chls s) p)))"

lemma members_inv_cong:
  "sv_chls s' = sv_chls s \<Longrightarrow> client_table s' = client_table s \<Longrightarrow> channel_table s' = channel_table s \<Longrightarrow>
    members_inv X s' = members_inv X s"
  by (simp add: members_inv_def)

lemma client_tableI: "sv_clients s c = Some e \<Longrightarrow> client_table s c = Some ((cl_channels e)\<lparr>ht_auto_rehash := True\<rparr>)"
  by (simp add: client_table_def)

lemma client_table_none: "client_table s c = None \<longleftrightarrow> sv_clients s c = None"
  by (simp add: client_table_def)

lemma channel_table_none: "channel_table s p = None \<longleftrightarrow> sv_channels s p = None"
  by (simp add: channel_table_def)

lemma members_client:
  assumes "members_inv X s" "sv_clients s c = Some e"
  shows "table_of silc_hash_ptr (=) (client_rows (sv_chls s) c) (cl_channels e)"
  using assms by (force simp: members_inv_def client_table_def)

lemma members_channel:
  assumes "members_inv X s" "sv_channels s p = Some e" "p \<notin> X"
  shows "table_of silc_hash_ptr (=) (channel_rows (sv_chls s) p) (ch_user_list e)"
    "ch_user_count e = of_nat (card (channel_rows (sv_chls s) p))"
  using assms by (force simp: members_inv_def channel_table_def)+

lemma members_entries:
  assumes "members_inv X s" "sv_chls s k = Some x"
  obtains c p where "sv_clients s (cce_client x) = Some c" "sv_channels s (cce_channel x) = Some p"
  using assms by (force simp: members_inv_def client_table_none channel_table_none)

lemma members_inv_upd:
  assumes "members_inv X s" "sv_chls s' = sv_chls s" "client_table s' = client_table s" "channel_table s' = channel_table s"
  shows "members_inv X s'"
  using assms members_inv_cong by blast

section \<open>Ending one membership\<close>

lemma rows_iff:
  "(q, k) \<in> client_rows m c \<longleftrightarrow> (\<exists>x. m k = Some x \<and> cce_client x = c \<and> cce_channel x = q)"
  "(q, k) \<in> channel_rows m p \<longleftrightarrow> (\<exists>x. m k = Some x \<and> cce_channel x = p \<and> cce_client x = q)"
  by (auto simp: client_rows_def channel_rows_def)

lemma rows_remove:
  assumes "m k = Some x"
  shows "client_rows (m(k := None)) c = client_rows m c - {(cce_channel x, k)}"
    "channel_rows (m(k := None)) p = channel_rows m p - {(cce_client x, k)}"
  using assms by (intro set_eqI; clarsimp simp: rows_iff; auto)+

lemma rows_functional:
  assumes "memberships_unique m"
  shows "e \<in> client_rows m c \<Longrightarrow> e' \<in> client_rows m c \<Longrightarrow> fst e = q \<Longrightarrow> fst e' = q \<Longrightarrow> e = e'"
    "e \<in> channel_rows m c \<Longrightarrow> e' \<in> channel_rows m c \<Longrightarrow> fst e = q \<Longrightarrow> fst e' = q \<Longrightarrow> e = e'"
proof -
  have "k = k'" if r: "(q, k) \<in> client_rows m c" "(q, k') \<in> client_rows m c" for k k'
  proof -
    obtain x x' where "m k = Some x" "m k' = Some x'" "cce_client x = cce_client x'" "cce_channel x = cce_channel x'"
      using r by (auto simp: rows_iff)
    with assms show ?thesis unfolding memberships_unique_def by blast
  qed
  then show "e \<in> client_rows m c \<Longrightarrow> e' \<in> client_rows m c \<Longrightarrow> fst e = q \<Longrightarrow> fst e' = q \<Longrightarrow> e = e'"
    by (cases e; cases e') auto
  have "k = k'" if r: "(q, k) \<in> channel_rows m c" "(q, k') \<in> channel_rows m c" for k k'
  proof -
    obtain x x' where "m k = Some x" "m k' = Some x'" "cce_client x = cce_client x'" "cce_channel x = cce_channel x'"
      using r by (auto simp: rows_iff)
    with assms show ?thesis unfolding memberships_unique_def by blast
  qed
  then show "e \<in> channel_rows m c \<Longrightarrow> e' \<in> channel_rows m c \<Longrightarrow> fst e = q \<Longrightarrow> fst e' = q \<Longrightarrow> e = e'"
    by (cases e; cases e') auto
qed

lemma rows_unique:
  assumes "memberships_unique m" "m k = Some x"
  shows "client_rows m (cce_client x) - {e. fst e = cce_channel x} = client_rows m (cce_client x) - {(cce_channel x, k)}"
    "channel_rows m (cce_channel x) - {e. fst e = cce_client x} = channel_rows m (cce_channel x) - {(cce_client x, k)}"
proof -
  have "(cce_channel x, k) \<in> client_rows m (cce_client x)" "(cce_client x, k) \<in> channel_rows m (cce_channel x)"
    using assms(2) by (simp_all add: rows_iff)
  then show "client_rows m (cce_client x) - {e. fst e = cce_channel x} = client_rows m (cce_client x) - {(cce_channel x, k)}"
    "channel_rows m (cce_channel x) - {e. fst e = cce_client x} = channel_rows m (cce_channel x) - {(cce_client x, k)}"
    using rows_functional [OF assms(1)] by fastforce+
qed

lemma table_card: "table_of hash cmp S t \<Longrightarrow> finite S"
  by (auto simp: table_of_def)

lemma table_del:
  assumes "table_of silc_hash_ptr (=) S t" "\<And>e e'. e \<in> S \<Longrightarrow> e' \<in> S \<Longrightarrow> fst e = q \<Longrightarrow> fst e' = q \<Longrightarrow> e = e'"
  shows "table_of silc_hash_ptr (=) (S - {e. fst e = q}) (snd (silc_hash_table_del t q))"
  using hk_ptr.table_of_del_key [OF assms(1), of q] assms(2) by blast

text \<open>Removing a membership from its client's table and from the store.\<close>

lemma client_side:
  assumes "members_inv X s" "sv_chls s k = Some x" "sv_clients s (cce_client x) = Some e"
  shows "members_inv (insert (cce_channel x) X)
    (free_chl k (update_client (cce_client x) (\<lambda>e. e\<lparr>cl_channels := snd (silc_hash_table_del (cl_channels e) (cce_channel x))\<rparr>) s))"
    (is "members_inv _ ?s")
proof -
  let ?m = "(sv_chls s)(k := None)" and ?c = "cce_client x" and ?p = "cce_channel x"
  have u: "memberships_unique (sv_chls s)" using assms(1) by (simp add: members_inv_def)
  have m: "sv_chls ?s = ?m" by (simp add: free_chl_def update_client_def)
  have ch: "channel_table ?s = channel_table s" by (simp add: channel_table_def free_chl_def update_client_def fun_eq_iff)
  have cl: "client_table ?s c' = (if c' = ?c then Some ((snd (silc_hash_table_del (cl_channels e) ?p))\<lparr>ht_auto_rehash := True\<rparr>)
      else client_table s c')" for c'
    using assms(3) by (simp add: client_table_def free_chl_def update_client_def)
  have "memberships_unique ?m" using u unfolding memberships_unique_def by (metis fun_upd_apply option.distinct(1))
  moreover have "table_of silc_hash_ptr (=) (client_rows ?m c') t" if "client_table ?s c' = Some t" for c' t
  proof (cases "c' = ?c")
    case True
    note t = table_del [OF members_client [OF assms(1,3)], of ?p, OF rows_functional(1) [OF u]]
    from t True that show ?thesis
      unfolding rows_remove(1) [where m = "sv_chls s", OF assms(2)] rows_unique(1) [where m = "sv_chls s", OF u assms(2)] by (auto simp: cl)
  next
    case False
    then have "client_rows ?m c' = client_rows (sv_chls s) c'"
      unfolding rows_remove(1) [where m = "sv_chls s", OF assms(2)] using assms(2) by (simp add: rows_iff)
    with False that assms(1) show ?thesis by (auto simp: cl members_inv_def)
  qed
  moreover have "channel_rows ?m q = channel_rows (sv_chls s) q" if "q \<noteq> ?p" for q
    unfolding rows_remove(2) [where m = "sv_chls s", OF assms(2)] using assms(2) that by (simp add: rows_iff)
  moreover have "client_table ?s (cce_client y) \<noteq> None \<and> channel_table s (cce_channel y) \<noteq> None" if "?m j = Some y" for j y
    using assms(1,3) that by (auto simp: members_inv_def cl split: if_splits)
  ultimately show ?thesis using assms(1) unfolding members_inv_def m ch by auto
qed

lemma unlink_free:
  assumes "members_inv X s" "sv_chls s k = Some x" "sv_channels s (cce_channel x) = Some e" "cce_channel x \<notin> X"
  shows "members_inv X (free_chl k (unlink (cce_client x) (cce_channel x) s))" (is "members_inv X ?s")
proof -
  let ?m = "(sv_chls s)(k := None)" and ?c = "cce_client x" and ?p = "cce_channel x"
  have u: "memberships_unique (sv_chls s)" using assms(1) by (simp add: members_inv_def)
  obtain ec where ec: "sv_clients s ?c = Some ec" using members_entries [OF assms(1,2)] by metis
  let ?s1 = "free_chl k (update_client ?c (\<lambda>e. e\<lparr>cl_channels := snd (silc_hash_table_del (cl_channels e) ?p)\<rparr>) s)"
  note i1 = client_side [OF assms(1,2) ec]
  have i1e: "client_table ?s1 (cce_client y) \<noteq> None \<and> channel_table ?s1 (cce_channel y) \<noteq> None" if "((sv_chls s)(k := None)) j = Some y" for j y
    using i1 that unfolding members_inv_def by (simp add: free_chl_def update_client_def)
  have f: "sv_chls ?s = sv_chls ?s1" "client_table ?s = client_table ?s1" "sv_chls ?s1 = ?m"
    by (simp_all add: unlink_def free_chl_def update_client_def update_channel_def client_table_def fun_eq_iff)
  have ch: "channel_table ?s q = (if q = ?p then Some ((snd (silc_hash_table_del (ch_user_list e) ?c))\<lparr>ht_auto_rehash := True\<rparr>,
      ch_user_count e - 1) else channel_table ?s1 q)" for q
    using assms(3) by (simp add: channel_table_def unlink_def free_chl_def update_client_def update_channel_def)
  have rows: "(?c, k) \<in> channel_rows (sv_chls s) ?p" using assms(2) by (auto simp: channel_rows_def)
  note t = members_channel [OF assms(1,3,4)]
  have "card (channel_rows (sv_chls s) ?p) = Suc (card (channel_rows ?m ?p))"
    unfolding rows_remove(2) [where m = "sv_chls s", OF assms(2)] using rows table_card [OF t(1)] by (metis card.remove)
  then have cnt: "ch_user_count e - 1 = of_nat (card (channel_rows ?m ?p))" using t(2) by simp
  have tab: "table_of silc_hash_ptr (=) (channel_rows ?m ?p) (snd (silc_hash_table_del (ch_user_list e) ?c))"
    using table_del [OF t(1), of ?c, OF rows_functional(2) [OF u]]
    unfolding rows_remove(2) [where m = "sv_chls s", OF assms(2)] rows_unique(2) [where m = "sv_chls s", OF u assms(2)] .
  have "\<forall>q t n. q \<notin> X \<and> channel_table ?s q = Some (t, n) \<longrightarrow>
      table_of silc_hash_ptr (=) (channel_rows ?m q) t \<and> n = of_nat (card (channel_rows ?m q))"
    using i1 tab cnt unfolding ch members_inv_def f(3) by auto
  moreover have "client_table ?s1 (cce_client y) \<noteq> None \<and> channel_table ?s (cce_channel y) \<noteq> None" if "?m j = Some y" for j y
    using i1e [OF that] by (simp add: ch)
  ultimately show ?thesis using i1 unfolding members_inv_def f by simp
qed

section \<open>A new membership\<close>

lemma rows_add:
  assumes "m k = None"
  shows "client_rows (m(k \<mapsto> x)) c = (if cce_client x = c then insert (cce_channel x, k) (client_rows m c) else client_rows m c)"
    "channel_rows (m(k \<mapsto> x)) p = (if cce_channel x = p then insert (cce_client x, k) (channel_rows m p) else channel_rows m p)"
  using assms by (intro set_eqI; clarsimp simp: rows_iff; auto)+

lemma rows_fresh: "m k = None \<Longrightarrow> k \<notin> snd ` client_rows m c" "m k = None \<Longrightarrow> k \<notin> snd ` channel_rows m p"
  by (auto simp: client_rows_def channel_rows_def)

lemma table_add:
  assumes "table_of silc_hash_ptr (=) S t" "k \<notin> snd ` S"
  shows "table_of silc_hash_ptr (=) (insert (q, k) S) ((silc_hash_table_add t q k)\<lparr>ht_auto_rehash := True\<rparr>)"
  using hk_ptr.table_of_add [OF assms, of q] hk_ptr.table_of_auto by blast

lemma add_member_inv:
  assumes "members_inv {} s" "sv_clients s c = Some ec" "sv_channels s p = Some ep" "sv_chls s k = None"
    "\<And>j x. sv_chls s j = Some x \<Longrightarrow> cce_client x = c \<Longrightarrow> cce_channel x \<noteq> p"
  shows "members_inv {} (add_member k umode c p s)" (is "members_inv {} ?s")
proof -
  let ?x = "\<lparr>cce_client = c, cce_mode = umode, cce_channel = p\<rparr>"
  let ?m = "(sv_chls s)(k \<mapsto> ?x)"
  have m: "sv_chls ?s = ?m" by (simp add: add_member_def update_client_def update_channel_def)
  have cl: "client_table ?s d = (if d = c then Some ((silc_hash_table_add (cl_channels ec) p k)\<lparr>ht_auto_rehash := True\<rparr>) else client_table s d)" for d
    using assms(2) by (simp add: client_table_def add_member_def update_client_def update_channel_def)
  have ch: "channel_table ?s q = (if q = p then Some ((silc_hash_table_add (ch_user_list ep) c k)\<lparr>ht_auto_rehash := True\<rparr>,
      ch_user_count ep + 1) else channel_table s q)" for q
    using assms(3) by (simp add: channel_table_def add_member_def update_client_def update_channel_def)
  have u: "memberships_unique (sv_chls s)" using assms(1) by (simp add: members_inv_def)
  have "k1 = k2" if y: "?m k1 = Some y1" "?m k2 = Some y2" "cce_client y1 = cce_client y2" "cce_channel y1 = cce_channel y2" for k1 k2 y1 y2
  proof (cases "k1 = k \<or> k2 = k")
    case True
    with y assms(5) [of k1 y1] assms(5) [of k2 y2] show ?thesis by (auto split: if_splits)
  next
    case False
    with y have "sv_chls s k1 = Some y1" "sv_chls s k2 = Some y2" by simp_all
    with u y(3,4) show ?thesis unfolding memberships_unique_def by blast
  qed
  then have "memberships_unique ?m" unfolding memberships_unique_def by blast
  moreover have "client_table ?s (cce_client y) \<noteq> None \<and> channel_table ?s (cce_channel y) \<noteq> None" if "?m j = Some y" for j y
    using assms(1) that by (auto simp: members_inv_def cl ch split: if_splits)
  moreover have "table_of silc_hash_ptr (=) (client_rows ?m d) t" if "client_table ?s d = Some t" for d t
  proof (cases "d = c")
    case True
    with that table_add [OF members_client [OF assms(1,2)] rows_fresh(1) [where m = "sv_chls s", OF assms(4)], of p] show ?thesis
      by (simp add: cl rows_add [where m = "sv_chls s", OF assms(4)])
  next
    case False
    with that assms(1) show ?thesis by (auto simp: cl rows_add [where m = "sv_chls s", OF assms(4)] members_inv_def)
  qed
  moreover have "table_of silc_hash_ptr (=) (channel_rows ?m q) t \<and> n = of_nat (card (channel_rows ?m q))"
    if "channel_table ?s q = Some (t, n)" for q t n
  proof (cases "q = p")
    case True
    note r = members_channel [OF assms(1,3), simplified]
    have "(c, k) \<notin> channel_rows (sv_chls s) p" using rows_fresh(2) [where m = "sv_chls s", OF assms(4), of p] by force
    then have "card (insert (c, k) (channel_rows (sv_chls s) p)) = Suc (card (channel_rows (sv_chls s) p))"
      using table_card [OF r(1)] by simp
    with True that r table_add [OF r(1) rows_fresh(2) [where m = "sv_chls s", OF assms(4)], of c] show ?thesis
      by (auto simp: ch rows_add [where m = "sv_chls s", OF assms(4)])
  next
    case False
    with that assms(1) show ?thesis by (auto simp: ch rows_add [where m = "sv_chls s", OF assms(4)] members_inv_def)
  qed
  ultimately show ?thesis unfolding members_inv_def m by blast
qed

section \<open>The invariant of lists and members\<close>

definition listed :: "silc_server \<Rightarrow> ptr \<Rightarrow> bool" where
  "listed s p \<longleftrightarrow> (\<exists>w j. directory s (w, Channels) j = Some p)"

definition server_inv :: "silc_server \<Rightarrow> bool" where
  "server_inv s \<longleftrightarrow> lists_ok s \<and> members_inv {} s \<and> (\<forall>p. sv_channels s p \<noteq> None \<longrightarrow> listed s p)"

text \<open>Changes that neither the lists nor the memberships see.\<close>

definition client_local :: "silc_server \<Rightarrow> ptr \<Rightarrow> bool option" where
  "client_local s c = map_option (\<lambda>e. SILC_IS_LOCAL (cl_data e)) (sv_clients s c)"

definition quiet :: "silc_server \<Rightarrow> silc_server \<Rightarrow> bool" where
  "quiet s s' \<longleftrightarrow> same_lists s s' \<and> sv_chls s' = sv_chls s \<and> client_table s' = client_table s \<and>
     channel_table s' = channel_table s \<and> client_local s' = client_local s \<and> sv_server_type s' = sv_server_type s"

lemma quiet_refl [simp, intro]: "quiet s s"
  by (simp add: quiet_def)

lemma quiet_trans: "quiet a b \<Longrightarrow> quiet b c \<Longrightarrow> quiet a c"
  unfolding quiet_def using same_lists_trans by metis

lemma quiet_entries:
  assumes "quiet s s'"
  shows "sv_clients s' c = None \<longleftrightarrow> sv_clients s c = None" "sv_channels s' p = None \<longleftrightarrow> sv_channels s p = None"
    "client_local s' = client_local s" "dom (sv_channels s') = dom (sv_channels s)"
  using assms client_table_none channel_table_none unfolding quiet_def dom_def by metis+

lemma quiet_inv:
  assumes "quiet s s'"
  shows "server_inv s' = server_inv s" "listed s' p = listed s p" "directory s' = directory s"
proof -
  have l: "same_lists s s'" using assms by (simp add: quiet_def)
  show d: "directory s' = directory s" by (rule same_lists_ok(2) [OF l])
  then show lp: "listed s' p = listed s p" for p by (simp add: listed_def)
  show "server_inv s' = server_inv s"
    unfolding server_inv_def same_lists_ok(1) [OF l] lp quiet_entries(2) [OF assms]
    using members_inv_cong [of s' s] assms by (simp add: quiet_def)
qed

lemma quiet_stat [simp, intro]: "quiet s (update_stat f s)"
  unfolding quiet_def
  by (intro conjI same_listsI) (simp_all add: update_stat_def client_local_def client_table_def channel_table_def fun_eq_iff)

lemma quiet_emit [simp, intro]: "quiet s (emit ev s)"
  unfolding quiet_def
  by (intro conjI same_lists_update(3)) (simp_all add: emit_def client_local_def client_table_def channel_table_def fun_eq_iff)

lemma quiet_count_leave [simp, intro]: "quiet s (count_leave e s)"
  unfolding count_leave_def Let_def by (auto intro: quiet_trans [OF quiet_stat quiet_stat])

lemma quiet_notify [simp, intro]: "quiet s (notify_channel b p ty args s)"
  by (simp add: notify_channel_def)

lemma quiet_update_channel:
  assumes "\<And>e. ch_id (f e) = ch_id e" "\<And>e. (ch_user_list (f e))\<lparr>ht_auto_rehash := True\<rparr> = (ch_user_list e)\<lparr>ht_auto_rehash := True\<rparr>"
    "\<And>e. ch_user_count (f e) = ch_user_count e"
  shows "quiet s (update_channel p f s)"
proof -
  have "channel_table (update_channel p f s) = channel_table s"
    using assms(2,3) by (auto simp: channel_table_def update_channel_def fun_eq_iff option.map_comp comp_def)
  then show ?thesis
    unfolding quiet_def using same_lists_update(2) [OF assms(1)]
    by (simp add: client_table_def client_local_def update_channel_def fun_eq_iff)
qed

lemma quiet_update_client:
  assumes "\<And>e. cl_id (f e) = cl_id e" "\<And>e. (cl_channels (f e))\<lparr>ht_auto_rehash := True\<rparr> = (cl_channels e)\<lparr>ht_auto_rehash := True\<rparr>"
    "\<And>e. SILC_IS_LOCAL (cl_data (f e)) = SILC_IS_LOCAL (cl_data e)"
  shows "quiet s (update_client p f s)"
proof -
  have "client_table (update_client p f s) = client_table s"
    using assms(2) by (auto simp: client_table_def update_client_def fun_eq_iff option.map_comp comp_def)
  moreover have "client_local (update_client p f s) = client_local s"
    using assms(3) by (auto simp: client_local_def update_client_def fun_eq_iff option.map_comp comp_def)
  ultimately show ?thesis
    unfolding quiet_def using same_lists_update(1) [OF assms(1)]
    by (simp add: channel_table_def update_client_def fun_eq_iff)
qed

lemma quiet_freeze [simp, intro]:
  "quiet s (freeze_users p s)" "quiet s (thaw_users old p s)" "quiet s (freeze_channels c s)" "quiet s (thaw_channels oldc c s)"
  unfolding freeze_users_def thaw_users_def freeze_channels_def thaw_channels_def
  by (rule quiet_update_channel quiet_update_client; simp add: silc_hash_table_list_def silc_hash_table_list_reset_def)+

section \<open>Users and joined channels\<close>

lemma snd_rows:
  "snd ` client_rows m c = {k. \<exists>x. m k = Some x \<and> cce_client x = c}"
  "snd ` channel_rows m p = {k. \<exists>x. m k = Some x \<and> cce_channel x = p}"
  by (force simp: client_rows_def channel_rows_def)+

lemma users_rows:
  assumes "members_inv X s" "sv_channels s p = Some e" "p \<notin> X"
  shows "set (users e) = {k. \<exists>x. sv_chls s k = Some x \<and> cce_channel x = p}" "distinct (users e)"
  using members_channel(1) [OF assms] snd_rows(2) [of "sv_chls s" p] by (simp_all add: users_def table_of_def)

lemma joined_rows:
  assumes "members_inv X s" "sv_clients s c = Some e"
  shows "set (joined e) = {k. \<exists>x. sv_chls s k = Some x \<and> cce_client x = c}" "distinct (joined e)"
  using members_client [OF assms] snd_rows(1) [of "sv_chls s" c] by (simp_all add: joined_def table_of_def)

text \<open>What the two tables say about a membership.\<close>

lemma find_membership:
  assumes "members_inv X s" "sv_clients s c = Some client"
  shows "map_option snd (silc_hash_table_find (cl_channels client) p) = Some k \<longleftrightarrow>
      (\<exists>x. sv_chls s k = Some x \<and> cce_client x = c \<and> cce_channel x = p)"
    "sv_channels s p = Some channel \<Longrightarrow> p \<notin> X \<Longrightarrow>
      map_option snd (silc_hash_table_find (ch_user_list channel) c) = Some k \<longleftrightarrow>
      (\<exists>x. sv_chls s k = Some x \<and> cce_client x = c \<and> cce_channel x = p)"
proof -
  have u: "memberships_unique (sv_chls s)" using assms(1) by (simp add: members_inv_def)
  have f: "map_option snd (silc_hash_table_find t q) = Some k \<longleftrightarrow> (q, k) \<in> S"
    if "table_of silc_hash_ptr (=) S t" "\<And>e e'. e \<in> S \<Longrightarrow> e' \<in> S \<Longrightarrow> fst e = q \<Longrightarrow> fst e' = q \<Longrightarrow> e = e'" for t q S
  proof (cases "silc_hash_table_find t q")
    case None
    then show ?thesis using hk_ptr.table_of_find(2) [OF that(1), of q] by auto
  next
    case (Some e)
    then have "e \<in> S" "fst e = q" using hk_ptr.table_of_find(1) [OF that(1) Some] by auto
    with Some that(2) [of e "(q, k)"] show ?thesis by (cases e) auto
  qed
  show "map_option snd (silc_hash_table_find (cl_channels client) p) = Some k \<longleftrightarrow>
      (\<exists>x. sv_chls s k = Some x \<and> cce_client x = c \<and> cce_channel x = p)"
    using f [OF members_client [OF assms] rows_functional(1) [OF u]] by (simp add: rows_iff)
  show "map_option snd (silc_hash_table_find (ch_user_list channel) c) = Some k \<longleftrightarrow>
      (\<exists>x. sv_chls s k = Some x \<and> cce_client x = c \<and> cce_channel x = p)" if "sv_channels s p = Some channel" "p \<notin> X"
    using f [OF members_channel(1) [OF assms(1) that] rows_functional(2) [OF u]] by (auto simp: rows_iff)
qed

lemma any_user_total: "(\<And>k. k \<in> set ks \<Longrightarrow> chl_client s k \<noteq> None) \<Longrightarrow> any_user P s ks \<noteq> None"
  by (induction ks) (auto split: option.split)

lemma has_any_total:
  assumes "members_inv X s" "sv_channels s p = Some e" "p \<notin> X"
  shows "\<exists>b. silc_server_channel_has_local p s = Some b" "\<exists>b. silc_server_channel_has_global p s = Some b"
proof -
  have "chl_client s k \<noteq> None" if k: "k \<in> set (users e)" for k
  proof -
    obtain x where "sv_chls s k = Some x" using users_rows(1) [OF assms] k by blast
    with members_entries [OF assms(1) this] show ?thesis by (auto simp: chl_client_def)
  qed
  then have "\<exists>b. any_user P s (users e) = Some b" for P using any_user_total by blast
  then show "\<exists>b. silc_server_channel_has_local p s = Some b" "\<exists>b. silc_server_channel_has_global p s = Some b"
    using assms(2) by (simp_all add: silc_server_channel_has_local_def silc_server_channel_has_global_def)
qed

section \<open>Ending memberships\<close>

text \<open>The memberships \<open>K\<close> end and nothing else happens to clients and memberships.\<close>

definition ended :: "ptr set \<Rightarrow> silc_server \<Rightarrow> silc_server \<Rightarrow> bool" where
  "ended K s s' \<longleftrightarrow> server_inv s' \<and> sv_chls s' = (sv_chls s) |` (- K) \<and> client_local s' = client_local s \<and>
     sv_server_type s' = sv_server_type s"

lemma ended_quiet: "server_inv s \<Longrightarrow> quiet s s' \<Longrightarrow> ended {} s s'"
  using quiet_inv(1) [of s s'] quiet_entries(3) [of s s'] by (simp add: ended_def quiet_def restrict_map_def)

lemma ended_trans: "ended K s s' \<Longrightarrow> ended L s' s'' \<Longrightarrow> ended (K \<union> L) s s''"
  by (auto simp: ended_def restrict_map_def fun_eq_iff)

lemma ended_then_quiet: "ended K s s' \<Longrightarrow> quiet s' s'' \<Longrightarrow> ended K s s''"
  using ended_trans [of K s s' "{}" s''] ended_quiet [of s' s''] by (simp add: ended_def)

lemma quiet_then_ended: "quiet s s' \<Longrightarrow> server_inv s \<Longrightarrow> ended K s' s'' \<Longrightarrow> ended K s s''"
  using ended_trans [of "{}" s s' K s''] ended_quiet [of s s'] by simp

lemma ended_inv: "ended K s s' \<Longrightarrow> server_inv s'"
  by (simp add: ended_def)

lemma ended_unlink:
  assumes "server_inv s" "sv_chls s k = Some x"
  shows "ended {k} s (free_chl k (unlink (cce_client x) (cce_channel x) s))" (is "ended _ s ?s")
proof -
  have m: "members_inv {} s" using assms(1) by (simp add: server_inv_def)
  obtain ch where ch: "sv_channels s (cce_channel x) = Some ch" using members_entries [OF m assms(2)] by metis
  have "members_inv {} ?s" using unlink_free [OF m assms(2) ch] by simp
  moreover have l: "same_lists s ?s"
    unfolding unlink_def by (rule same_lists_trans [OF same_lists_trans [OF same_lists_update(1) same_lists_update(2)] same_lists_update(4)]) simp_all
  moreover have "sv_channels ?s q = None \<longleftrightarrow> sv_channels s q = None" for q
    by (simp add: free_chl_def unlink_def update_client_def update_channel_def)
  ultimately have "server_inv ?s"
    using assms(1) same_lists_ok [OF l] by (simp add: server_inv_def listed_def)
  moreover have "client_local ?s = client_local s"
    by (auto simp: free_chl_def unlink_def update_client_def update_channel_def client_local_def fun_eq_iff option.map_comp comp_def)
  moreover have "sv_chls ?s = (sv_chls s) |` (- {k})" "sv_server_type ?s = sv_server_type s"
    by (auto simp: free_chl_def unlink_def update_client_def update_channel_def restrict_map_def)
  ultimately show ?thesis by (simp add: ended_def)
qed

text \<open>Changes that commute with freeing a membership.\<close>

lemma quiet_free:
  assumes "quiet s s'" "same_lists s s'" shows "quiet (free_chl k s) (free_chl k s')"
proof -
  have "same_lists (free_chl k s) s'" using assms(2) same_lists_update(4) [of s k] by (simp add: same_lists_def)
  then have "same_lists (free_chl k s) (free_chl k s')" using same_lists_update(4) same_lists_trans by blast
  moreover have "client_table (free_chl k t) = client_table t" "channel_table (free_chl k t) = channel_table t"
    "client_local (free_chl k t) = client_local t" for t
    by (simp_all add: free_chl_def client_local_def client_table_def channel_table_def fun_eq_iff)
  moreover have "sv_chls (free_chl k t) = (sv_chls t)(k := None)" "sv_server_type (free_chl k t) = sv_server_type t" for t
    by (simp_all add: free_chl_def)
  ultimately show ?thesis using assms(1) by (simp add: quiet_def)
qed

lemma drop_users_ok:
  assumes "server_inv s" "distinct ks" "\<And>k. k \<in> set ks \<Longrightarrow> \<exists>x. sv_chls s k = Some x \<and> cce_channel x = p"
  shows "\<exists>s'. drop_users p ks s = Some s' \<and> ended (set ks) s s' \<and> (\<forall>q. (sv_channels s' q = None) = (sv_channels s q = None))"
  using assms
proof (induction ks arbitrary: s)
  case Nil
  then show ?case using ended_quiet by auto
next
  case (Cons k ks)
  obtain x where x: "sv_chls s k = Some x" "cce_channel x = p" using Cons.prems(3) [of k] by auto
  have "members_inv {} s" using Cons.prems(1) by (simp add: server_inv_def)
  then obtain e where e: "sv_clients s (cce_client x) = Some e" using members_entries [OF _ x(1)] by metis
  let ?u = "unlink (cce_client x) p s"
  let ?s1 = "free_chl k (count_leave e ?u)"
  have q: "quiet (free_chl k ?u) ?s1"
    by (rule quiet_free) (use quiet_count_leave [of ?u e] in \<open>auto simp: quiet_def\<close>)
  have e1: "ended {k} s ?s1"
    using ended_then_quiet [OF ended_unlink [OF Cons.prems(1) x(1)]] q x(2) by simp
  have ch1: "sv_channels ?s1 z = None \<longleftrightarrow> sv_channels s z = None" for z
    using quiet_entries(2) [OF q] by (simp add: free_chl_def unlink_def update_client_def update_channel_def)
  have "\<exists>y. sv_chls ?s1 j = Some y \<and> cce_channel y = p" if "j \<in> set ks" for j
    using Cons.prems(2,3) that e1 by (auto simp: ended_def restrict_map_def)
  with Cons.IH [OF ended_inv [OF e1]] Cons.prems(2) obtain s' where
    s': "drop_users p ks ?s1 = Some s'" "ended (set ks) ?s1 s'" "\<And>z. (sv_channels s' z = None) = (sv_channels ?s1 z = None)" by auto
  have "drop_users p (k # ks) s = Some s'" using x e s'(1) by (simp add: chl_client_def)
  with ended_trans [OF e1 s'(2)] s'(3) ch1 show ?case by auto
qed

lemma leave_channel_ok:
  assumes "server_inv s" "sv_chls s k = Some x"
  shows "\<exists>s'. leave_channel kind k (cce_channel x) (cce_client x) client s = Some s' \<and> ended {k} s s' \<and>
    (\<forall>q. (sv_channels s' q = None) = (sv_channels s q = None))"
proof -
  let ?p = "cce_channel x" and ?u = "unlink (cce_client x) (cce_channel x) s"
  have m: "members_inv {} s" using assms(1) by (simp add: server_inv_def)
  obtain ch where ch: "sv_channels s ?p = Some ch" using members_entries [OF m assms(2)] by metis
  then obtain ch' where ch': "sv_channels ?u ?p = Some ch'" by (simp add: unlink_def update_client_def update_channel_def)
  have e: "ended {k} s (free_chl k ?u)" by (rule ended_unlink [OF assms])
  then have mu: "members_inv {} (free_chl k ?u)" by (simp add: ended_def server_inv_def)
  have fu: "sv_channels (free_chl k ?u) = sv_channels ?u" "sv_clients (free_chl k ?u) = sv_clients ?u"
    "sv_chls (free_chl k ?u) j = Some y \<Longrightarrow> sv_chls ?u j = Some y" for j y
    by (simp_all add: free_chl_def split: if_splits)
  have "chl_client ?u j \<noteq> None" if j: "j \<in> set (users ch')" for j
  proof -
    have "sv_channels (free_chl k ?u) ?p = Some ch'" using ch' fu(1) by simp
    then obtain y where y: "sv_chls (free_chl k ?u) j = Some y" using users_rows(1) [OF mu] j by blast
    from members_entries [OF mu y] fu(2) fu(3) [OF y] show ?thesis by (auto simp: chl_client_def)
  qed
  then obtain g where g: "silc_server_channel_has_global ?p ?u = Some g"
    using any_user_total [of "users ch'" ?u] ch' by (auto simp: silc_server_channel_has_global_def)
  define glob where "glob = (if kind (sv_server_type ?u) \<and> ch_global_users ch' \<and> cl_router client \<noteq> None then g else True)"
  let ?v = "if glob then ?u else update_channel ?p (\<lambda>e. e\<lparr>ch_global_users := False\<rparr>) ?u"
  have q: "quiet ?u ?v" by (simp add: quiet_update_channel)
  have "leave_channel kind k ?p (cce_client x) client s = Some (count_leave client (free_chl k ?v))"
    using ch' g by (auto simp: leave_channel_def glob_def Let_def)
  moreover have qq: "quiet (free_chl k ?u) (count_leave client (free_chl k ?v))"
    by (rule quiet_trans [OF quiet_free quiet_count_leave]) (use q in \<open>simp_all add: quiet_def\<close>)
  moreover have "sv_channels (count_leave client (free_chl k ?v)) z = None \<longleftrightarrow> sv_channels s z = None" for z
    using quiet_entries(2) [OF qq, of z] unfolding fu(1) by (simp add: unlink_def update_client_def update_channel_def)
  ultimately show ?thesis using ended_then_quiet [OF e] by blast
qed

section \<open>Deleting a channel\<close>

lemma del_channel_users_ok:
  assumes "members_inv {p} s" "distinct ks" "\<And>k. k \<in> set ks \<Longrightarrow> \<exists>x. sv_chls s k = Some x \<and> cce_channel x = p"
  shows "\<exists>s'. del_channel_users ks s = Some s' \<and> members_inv {p} s' \<and> sv_chls s' = (sv_chls s) |` (- set ks) \<and>
    client_local s' = client_local s \<and> sv_channels s' = sv_channels s \<and> sv_server_type s' = sv_server_type s"
  using assms
proof (induction ks arbitrary: s)
  case Nil
  then show ?case by (simp add: restrict_map_def)
next
  case (Cons k ks)
  obtain x where x: "sv_chls s k = Some x" "cce_channel x = p" using Cons.prems(3) [of k] by auto
  obtain e where e: "sv_clients s (cce_client x) = Some e" using members_entries [OF Cons.prems(1) x(1)] by metis
  let ?s1 = "free_chl k (update_client (cce_client x) (\<lambda>e. e\<lparr>cl_channels := snd (silc_hash_table_del (cl_channels e) p)\<rparr>) s)"
  have i1: "members_inv {p} ?s1" using client_side [OF Cons.prems(1) x(1) e] x(2) by simp
  have f: "sv_chls ?s1 = (sv_chls s)(k := None)" "sv_channels ?s1 = sv_channels s" "sv_server_type ?s1 = sv_server_type s"
    "client_local ?s1 = client_local s"
    by (auto simp: free_chl_def update_client_def client_local_def fun_eq_iff option.map_comp comp_def)
  have "\<exists>y. sv_chls ?s1 j = Some y \<and> cce_channel y = p" if "j \<in> set ks" for j
    using Cons.prems(2,3) that by (auto simp: f)
  with Cons.IH [OF i1] Cons.prems(2) obtain s' where s': "del_channel_users ks ?s1 = Some s'" "members_inv {p} s'"
    "sv_chls s' = sv_chls ?s1 |` (- set ks)" "client_local s' = client_local ?s1" "sv_channels s' = sv_channels ?s1"
    "sv_server_type s' = sv_server_type ?s1" by auto
  have "del_channel_users (k # ks) s = Some s'" using x e s'(1) by (simp add: silc_idlist_del_channel_foreach_def)
  moreover have "sv_chls s' = (sv_chls s) |` (- set (k # ks))"
    unfolding s'(3) f by (auto simp: restrict_map_def fun_eq_iff)
  ultimately show ?case using s' f by auto
qed

text \<open>The memberships of a channel.\<close>

definition members_of :: "silc_server \<Rightarrow> ptr \<Rightarrow> ptr set" where
  "members_of s p = {k. \<exists>x. sv_chls s k = Some x \<and> cce_channel x = p}"

lemma members_without_channel:
  assumes "members_inv {p} s" "members_of s p = {}"
  shows "members_inv {} (s\<lparr>sv_channels := (sv_channels s)(p := None)\<rparr>)" (is "members_inv {} ?s")
proof -
  have t: "client_table ?s = client_table s" "sv_chls ?s = sv_chls s"
    "channel_table ?s q = (if q = p then None else channel_table s q)" for q
    by (simp_all add: client_table_def channel_table_def fun_eq_iff)
  have "cce_channel x \<noteq> p" if "sv_chls s k = Some x" for k x using assms(2) that by (auto simp: members_of_def)
  with assms(1) show ?thesis unfolding members_inv_def t by simp
qed

lemma del_channel_ok:
  assumes "server_inv s" "sv_channels s p = Some e"
  shows "\<exists>ok s'. silc_idlist_del_channel w (Some p) s = Some (ok, s') \<and>
    (if ok then ended (members_of s p) s s' \<and> dom (sv_channels s') = dom (sv_channels s) - {p}
     else quiet s s' \<and> (\<forall>j. directory s (w, Channels) j \<noteq> Some p))"
proof -
  have m: "members_inv {} s" and l: "lists_ok s" using assms(1) by (simp_all add: server_inv_def)
  obtain b h c where d: "silc_idcache_del_by_context (sv_cache_heap s) (cache_of s (w, Channels)) p = (b, h, c)"
    by (metis prod_cases3)
  let ?s = "put_list w ((get_list w s)\<lparr>il_channels := c\<rparr>) (s\<lparr>sv_cache_heap := h\<rparr>)"
  have fs: "sv_chls ?s = sv_chls s" "sv_channels ?s = sv_channels s" "sv_clients ?s = sv_clients s"
    "client_table ?s = client_table s" "channel_table ?s = channel_table s" "sv_server_type ?s = sv_server_type s"
    "client_local ?s = client_local s"
    by (simp_all add: client_table_def channel_table_def client_local_def fun_eq_iff)
  show ?thesis
  proof (cases b)
    case False
    have nf: "directory s (w, Channels) j \<noteq> Some p" for j
      using state_del(3) [OF l d, of ?s None j] False by (auto simp: lists_view_def)
    have "silc_idlist_del_channel w (Some p) s = Some (False, ?s)"
      using d False by (simp add: silc_idlist_del_channel_def)
    moreover have "h = sv_cache_heap s" "c = cache_of s (w, Channels)"
      using state_del(4) [OF l d, of ?s None] False by (auto simp: lists_view_def)
    then have "same_lists s ?s" by (intro same_listsI) simp_all
    then have "quiet s ?s" using fs by (simp add: quiet_def)
    ultimately show ?thesis using nf by auto
  next
    case True
    have "members_inv {} ?s" by (rule members_inv_upd [OF m]) (simp_all add: fs)
    then have mp: "members_inv {p} ?s" unfolding members_inv_def by blast
    note u = users_rows [OF \<open>members_inv {} ?s\<close>, of p e]
    have set: "set (users e) = members_of s p" "distinct (users e)"
      using u assms(2) by (simp_all add: members_of_def fs)
    obtain s1 where s1: "del_channel_users (users e) ?s = Some s1" "members_inv {p} s1"
      "sv_chls s1 = (sv_chls ?s) |` (- set (users e))" "client_local s1 = client_local ?s"
      "sv_channels s1 = sv_channels ?s" "sv_server_type s1 = sv_server_type ?s"
      using del_channel_users_ok [OF mp set(2)] set(1) by (auto simp: members_of_def fs)
    let ?s' = "s1\<lparr>sv_channels := (sv_channels s1)(p := None)\<rparr>"
    have r: "silc_idlist_del_channel w (Some p) s = Some (True, ?s')"
      using d True assms(2) s1(1) by (simp add: silc_idlist_del_channel_def users_def)
    have st: "lists_ok ?s'" "directory ?s' = dir_step (Remove (w, Channels) p) (directory s)"
      using step_del_channel [OF l r] by auto
    have "members_of s1 p = {}" using s1(3) set(1) by (auto simp: members_of_def fs restrict_map_def)
    then have "members_inv {} ?s'" by (rule members_without_channel [OF s1(2)])
    moreover have "listed ?s' q" if "sv_channels ?s' q \<noteq> None" for q
    proof -
      have q: "q \<noteq> p" "sv_channels s q \<noteq> None" using that by (auto simp: s1(5) fs split: if_splits)
      then obtain w' j where "directory s (w', Channels) j = Some q"
        using assms(1) unfolding server_inv_def listed_def by blast
      with q(1) st(2) show ?thesis by (auto simp: listed_def forget_def intro!: exI [of _ w'] exI [of _ j])
    qed
    ultimately have "server_inv ?s'" using st(1) by (simp add: server_inv_def)
    moreover have "client_local ?s' = client_local s1" by (simp add: client_local_def fun_eq_iff)
    ultimately have "ended (members_of s p) s ?s'" using s1 set by (simp add: ended_def fs)
    with r s1(5) show ?thesis by (auto simp: fs)
  qed
qed

lemma channel_delete_ok:
  assumes "server_inv s" "sv_channels s p = Some e"
  shows "\<exists>b s'. silc_server_channel_delete p s = Some (b, s') \<and> ended (members_of s p) s s' \<and>
    b = has_mode (ch_mode e) SILC_CHANNEL_MODE_FOUNDER_AUTH \<and>
    dom (sv_channels s') = (if b then dom (sv_channels s) else dom (sv_channels s) - {p})"
proof (cases "has_mode (ch_mode e) SILC_CHANNEL_MODE_FOUNDER_AUTH")
  case True
  let ?s0 = "update_channel p (\<lambda>e. e\<lparr>ch_disabled := True\<rparr>) s"
  let ?s1 = "freeze_users p ?s0"
  have q0: "quiet s ?s0" by (rule quiet_update_channel) simp_all
  then have q: "quiet s ?s1" using quiet_trans quiet_freeze(1) by blast
  then have i1: "server_inv ?s1" using quiet_inv(1) assms(1) by blast
  have m: "members_inv {} s" using assms(1) by (simp add: server_inv_def)
  have u: "set (users e) = members_of s p" "distinct (users e)"
    using users_rows [OF m assms(2)] by (simp_all add: members_of_def)
  have "\<exists>x. sv_chls ?s1 k = Some x \<and> cce_channel x = p" if "k \<in> set (users e)" for k
    using that u(1) q by (auto simp: members_of_def quiet_def)
  from drop_users_ok [OF i1 u(2) this] obtain s2 where s2: "drop_users p (users e) ?s1 = Some s2" "ended (members_of s p) ?s1 s2"
    "\<And>z. (sv_channels s2 z = None) = (sv_channels ?s1 z = None)" using u(1) by auto
  have "silc_server_channel_delete p s = Some (True, thaw_users e p s2)"
    using True assms(2) s2(1) by (simp add: silc_server_channel_delete_def Let_def)
  moreover have "ended (members_of s p) s (thaw_users e p s2)"
    using ended_then_quiet [OF quiet_then_ended [OF q assms(1) s2(2)] quiet_freeze(2)] .
  moreover have "dom (sv_channels (thaw_users e p s2)) = dom (sv_channels s)"
    using quiet_entries(4) [OF quiet_freeze(2) [of s2 e p]] s2(3) quiet_entries(2) [OF q] by (auto simp: dom_def)
  ultimately show ?thesis using True by auto
next
  case False
  let ?s0 = "if sv_server_type s = SILC_ROUTER then update_stat (st_chanclients_update (\<lambda>n. n - ch_user_count e)) s else s"
  let ?s1 = "emit (Ev_Task_Del (ch_rekey e)) (update_channel p (\<lambda>e. e\<lparr>ch_disabled := True\<rparr>) ?s0)"
  have "quiet s ?s0" by simp
  moreover have "quiet ?s0 (update_channel p (\<lambda>e. e\<lparr>ch_disabled := True\<rparr>) ?s0)" by (rule quiet_update_channel) simp_all
  ultimately have q: "quiet s ?s1" using quiet_trans quiet_emit by blast
  then have i1: "server_inv ?s1" using quiet_inv(1) assms(1) by blast
  obtain e1 where e1: "sv_channels ?s1 p = Some e1" using quiet_entries(2) [OF q, of p] assms(2) by auto
  have mem: "members_of ?s1 p = members_of s p" using q by (simp add: members_of_def quiet_def)
  obtain ok s2 where s2: "silc_idlist_del_channel Local_List (Some p) ?s1 = Some (ok, s2)"
    "if ok then ended (members_of ?s1 p) ?s1 s2 \<and> dom (sv_channels s2) = dom (sv_channels ?s1) - {p}
     else quiet ?s1 s2 \<and> (\<forall>j. directory ?s1 (Local_List, Channels) j \<noteq> Some p)"
    using del_channel_ok [OF i1 e1] by blast
  have fin: ?thesis if r: "silc_server_channel_delete p s = Some (False, s')" "quiet s3 s'"
    "ended (members_of s p) t s3" "dom (sv_channels s3) = dom (sv_channels t) - {p}" "quiet s t" for s' s3 t
  proof -
    have "ended (members_of s p) s s'" using ended_then_quiet [OF quiet_then_ended [OF r(5) assms(1) r(3)] r(2)] .
    moreover have "dom (sv_channels s') = dom (sv_channels s) - {p}"
      using r(4) quiet_entries(4) [OF r(2)] quiet_entries(4) [OF r(5)] by simp
    ultimately show ?thesis using r(1) False by auto
  qed
  show ?thesis
  proof (cases ok)
    case True
    let ?s3 = "update_stat (st_my_channels_update (\<lambda>n. n - 1)) s2"
    let ?s4 = "if sv_server_type ?s3 = SILC_ROUTER
      then update_stat (st_cell_channels_update (\<lambda>n. n - 1) \<circ> st_channels_update (\<lambda>n. n - 1)) ?s3 else ?s3"
    have "silc_server_channel_delete p s = Some (False, ?s4)"
      using False assms(2) s2(1) True by (simp add: silc_server_channel_delete_def Let_def)
    moreover have "quiet s2 ?s4" using quiet_trans [OF quiet_stat quiet_stat] by simp
    moreover have "ended (members_of s p) ?s1 s2" "dom (sv_channels s2) = dom (sv_channels ?s1) - {p}"
      using s2(2) True mem by auto
    ultimately show ?thesis using q by (rule fin)
  next
    case nf: False
    then have q2: "quiet ?s1 s2" and nd: "\<And>j. directory ?s1 (Local_List, Channels) j \<noteq> Some p" using s2(2) by auto
    have qs: "quiet s s2" by (rule quiet_trans [OF q q2])
    have i2: "server_inv s2" using quiet_inv(1) [OF q2] i1 by simp
    obtain e2 where e2: "sv_channels s2 p = Some e2" using quiet_entries(2) [OF qs, of p] assms(2) by auto
    have "listed s2 p" using i2 e2 by (simp add: server_inv_def)
    then obtain w j where wj: "directory s2 (w, Channels) j = Some p" by (auto simp: listed_def)
    with nd quiet_inv(3) [OF q2] have w: "w = Global_List" by (cases w) auto
    obtain ok3 s3 where s3: "silc_idlist_del_channel Global_List (Some p) s2 = Some (ok3, s3)"
      "if ok3 then ended (members_of s2 p) s2 s3 \<and> dom (sv_channels s3) = dom (sv_channels s2) - {p}
       else quiet s2 s3 \<and> (\<forall>j. directory s2 (Global_List, Channels) j \<noteq> Some p)"
      using del_channel_ok [OF i2 e2] by blast
    with wj w have ok3: ok3 by (metis (full_types))
    let ?s4 = "if ok3 \<and> sv_server_type s3 = SILC_ROUTER then update_stat (st_channels_update (\<lambda>n. n - 1)) s3 else s3"
    have r: "silc_server_channel_delete p s = Some (False, ?s4)"
      using False assms(2) s2(1) nf s3(1) by (simp add: silc_server_channel_delete_def Let_def)
    have "members_of s2 p = members_of s p" using qs by (simp add: members_of_def quiet_def)
    then have en: "ended (members_of s p) s2 s3" "dom (sv_channels s3) = dom (sv_channels s2) - {p}"
      using s3(2) ok3 by auto
    have "quiet s3 ?s4" by simp
    then show ?thesis by (rule fin [OF r _ en qs])
  qed
qed

section \<open>The operations of the ID lists\<close>

lemma empty_members_table: "table_of silc_hash_ptr (=) {} (empty_members\<lparr>ht_auto_rehash := True\<rparr>)"
proof -
  obtain t :: "(ptr, ptr) silc_hash_table" where t: "silc_hash_table_alloc 3 silc_hash_ptr None False True = Some t"
    using alloc_succeeds by (metis not_None_eq)
  have "silc_hash_table_foreach t = []" using alloc_ok [OF t] by (simp add: ht_wf_def silc_hash_table_foreach_def)
  then have "table_of silc_hash_ptr (=) {} t" using alloc_ok [OF t] by (simp add: table_of_def ht_for_def ht_cmp_def)
  then show ?thesis using t hk_ptr.table_of_auto by (simp add: empty_members_def)
qed

lemma alloc_server_inv: assumes "silc_server_alloc = Some s" shows "server_inv s"
proof -
  have "sv_chls s = Map.empty" using assms by (auto simp: silc_server_alloc_def split: option.splits)
  moreover have "lists_ok s" "sv_clients s = Map.empty" "sv_channels s = Map.empty"
    using alloc_lists assms by (metis option.inject)+
  ultimately show ?thesis
    by (simp add: server_inv_def members_inv_def memberships_unique_def client_table_def channel_table_def)
qed

text \<open>A new entry is on no channel, or has no users.\<close>

lemma members_inv_new_client:
  assumes "members_inv {} s" "sv_clients s p = None" "sv_chls s' = sv_chls s" "channel_table s' = channel_table s"
    "client_table s' = (client_table s)(p \<mapsto> empty_members\<lparr>ht_auto_rehash := True\<rparr>)"
  shows "members_inv {} s'"
proof -
  have "cce_client x \<noteq> p" if "sv_chls s k = Some x" for k x
    using members_entries [OF assms(1) that] assms(2) by force
  then have "client_rows (sv_chls s) p = {}" by (auto simp: client_rows_def)
  with assms(1) empty_members_table show ?thesis unfolding members_inv_def assms(3-5) by auto
qed

lemma members_inv_new_channel:
  assumes "members_inv {} s" "sv_channels s p = None" "sv_chls s' = sv_chls s" "client_table s' = client_table s"
    "channel_table s' = (channel_table s)(p \<mapsto> (empty_members\<lparr>ht_auto_rehash := True\<rparr>, 0))"
  shows "members_inv {} s'"
proof -
  have "cce_channel x \<noteq> p" if "sv_chls s k = Some x" for k x
    using members_entries [OF assms(1) that] assms(2) by force
  then have "channel_rows (sv_chls s) p = {}" by (auto simp: channel_rows_def)
  with assms(1) empty_members_table show ?thesis unfolding members_inv_def assms(3-5) by auto
qed

lemma add_client_inv:
  assumes "server_inv s" "sv_clients s p = None" "silc_idlist_add_client env p w nick user info i router conn s = Some (ro, s')"
  shows "server_inv s'"
proof -
  have l: "lists_ok s" and m: "members_inv {} s" using assms(1) by (simp_all add: server_inv_def)
  note st = step_add_client [OF l assms(2,3)]
  have f: "sv_chls s' = sv_chls s" "sv_channels s' = sv_channels s" "channel_table s' = channel_table s"
    "client_table s' = client_table s \<or> client_table s' = (client_table s)(p \<mapsto> empty_members\<lparr>ht_auto_rehash := True\<rparr>)"
    using assms(3) by (auto simp: silc_idlist_add_client_def Let_def client_table_def channel_table_def fun_eq_iff
        split: option.splits bool.splits prod.splits)
  have "members_inv {} s'"
    using f(4) members_inv_cong [OF f(1) _ f(3)] members_inv_new_client [OF m assms(2) f(1,3)] m by blast
  moreover have "directory s' (w', Channels) = directory s (w', Channels)" for w'
    using st by (cases ro) (auto simp: fun_eq_iff split: option.splits)
  then have "listed s' q = listed s q" for q by (simp add: listed_def)
  ultimately show ?thesis using st f(2) assms(1) by (simp add: server_inv_def)
qed

lemma add_channel_inv:
  assumes "server_inv s" "sv_channels s p = None"
    "silc_idlist_add_channel env p now dh w name mode (Some i) router sk rk hmac s = (ro, s')"
  shows "server_inv s'"
proof -
  have l: "lists_ok s" and m: "members_inv {} s" using assms(1) by (simp_all add: server_inv_def)
  note st = step_add_channel [OF l assms(2,3)]
  have f: "sv_chls s' = sv_chls s" "client_table s' = client_table s"
    "ro = None \<and> sv_channels s' = sv_channels s \<or> (\<exists>e. sv_channels s' = (sv_channels s)(p \<mapsto> e) \<and> ro = Some p \<and>
      ch_user_list e = empty_members \<and> ch_user_count e = 0 \<and> directory s (w, Channels) (ChannelID i) = None)"
    using assms(3) directory_none [OF l, of "(w, Channels)" "ChannelID i"]
    by (auto simp: silc_idlist_add_channel_def silc_idcache_add_def Let_def client_table_def fun_eq_iff
        split: option.splits prod.splits if_splits)
  from f(3) show ?thesis
  proof (elim disjE exE conjE)
    assume c: "ro = None" "sv_channels s' = sv_channels s"
    then have "channel_table s' = channel_table s" by (simp add: channel_table_def fun_eq_iff)
    then show ?thesis using m members_inv_cong [OF f(1,2)] st assms(1) c by (simp add: server_inv_def listed_def)
  next
    fix e assume c: "sv_channels s' = (sv_channels s)(p \<mapsto> e)" "ro = Some p" "ch_user_list e = empty_members" "ch_user_count e = 0"
      "directory s (w, Channels) (ChannelID i) = None"
    have "channel_table s' = (channel_table s)(p \<mapsto> (empty_members\<lparr>ht_auto_rehash := True\<rparr>, 0))"
      using c by (simp add: channel_table_def fun_eq_iff)
    then have "members_inv {} s'" using members_inv_new_channel [OF m assms(2) f(1,2)] by simp
    moreover have "directory s' (w', Channels) j = Some q" if "directory s (w', Channels) j = Some q" for w' j q
      using st c(2,5) that by auto
    then have "listed s' q" if "listed s q" for q using that unfolding listed_def by blast
    moreover have "listed s' p" using st c(2) unfolding listed_def by (auto intro!: exI [of _ w] exI [of _ "ChannelID i"])
    ultimately show ?thesis using st assms(1) c(1) by (simp add: server_inv_def)
  qed
qed

lemma del_client_inv:
  assumes "server_inv s" "silc_idlist_del_client w (Some p) s = Some (ok, s')"
  shows "server_inv s'"
proof -
  have l: "lists_ok s" and m: "members_inv {} s" using assms(1) by (simp_all add: server_inv_def)
  note st = step_del_client [OF l assms(2)]
  have f: "sv_chls s' = sv_chls s" "sv_channels s' = sv_channels s" "channel_table s' = channel_table s"
    "sv_clients s' = sv_clients s \<or>
     sv_clients s' = (sv_clients s)(p := None) \<and> (\<exists>e. sv_clients s p = Some e \<and> silc_hash_table_count (cl_channels e) = 0)"
    using assms(2) by (auto simp: silc_idlist_del_client_def silc_idlist_client_destructor_def Let_def channel_table_def fun_eq_iff
        split: option.splits prod.splits if_splits)
  from f(4) have "members_inv {} s'"
  proof (elim disjE conjE exE)
    assume "sv_clients s' = sv_clients s"
    then have "client_table s' = client_table s" by (simp add: client_table_def fun_eq_iff)
    then show ?thesis using members_inv_cong [OF f(1) _ f(3)] m by simp
  next
    fix e assume e: "sv_clients s' = (sv_clients s)(p := None)" "sv_clients s p = Some e" "silc_hash_table_count (cl_channels e) = 0"
    have "client_rows (sv_chls s) p = {}" using hk_ptr.table_of_count [OF members_client [OF m e(2)]] e(3) by simp
    then have n: "cce_client x \<noteq> p" if "sv_chls s k = Some x" for k x using that by (force simp: client_rows_def)
    have t: "client_table s' = (client_table s)(p := None)" using e(1) by (simp add: client_table_def fun_eq_iff)
    show ?thesis using m n unfolding members_inv_def f(1,3) t by auto
  qed
  moreover have "directory s' (w', Channels) = directory s (w', Channels)" for w' using st by (auto simp: fun_eq_iff)
  then have "listed s' q = listed s q" for q by (simp add: listed_def)
  ultimately show ?thesis using st f(2) assms(1) by (simp add: server_inv_def)
qed

lemma add_member_server_inv:
  assumes "server_inv s" "sv_clients s c = Some ec" "sv_channels s p = Some ep" "sv_chls s k = None"
    "\<And>j x. sv_chls s j = Some x \<Longrightarrow> cce_client x = c \<Longrightarrow> cce_channel x \<noteq> p"
  shows "server_inv (add_member k umode c p s)" (is "server_inv ?s")
proof -
  have "members_inv {} ?s" using add_member_inv assms unfolding server_inv_def by blast
  moreover have "same_lists s (s\<lparr>sv_chls := m\<rparr>)" for m by (rule same_listsI) simp_all
  then have l: "same_lists s ?s" unfolding add_member_def
    by (rule same_lists_trans [OF same_lists_trans [OF same_lists_trans [OF _ same_lists_update(2)] same_lists_update(1)] same_lists_update(2)]) simp_all
  moreover have "(sv_channels ?s q = None) = (sv_channels s q = None)" for q
    by (simp add: add_member_def update_client_def update_channel_def)
  ultimately show ?thesis
    using assms(1) same_lists_ok [OF l] by (simp add: server_inv_def listed_def)
qed

text \<open>A state with a client on a channel.\<close>

lemma idcache_add_free:
  assumes "silc_idcache_find_by_id_one c i = None"
  obtains r h' c' where "silc_idcache_add h c n (Some i) (Some p) = (Some r, h', c')"
  using assms that by (auto simp: silc_idcache_add_def Let_def)

lemma server_inv_update_client:
  assumes "\<And>e. cl_id (f e) = cl_id e" "\<And>e. cl_channels (f e) = cl_channels e" "server_inv s"
  shows "server_inv (update_client c f s)"
proof -
  let ?s = "update_client c f s"
  have l: "same_lists s ?s" using same_lists_update(1) [OF assms(1)] .
  have "client_table ?s = client_table s" "channel_table ?s = channel_table s" "sv_chls ?s = sv_chls s" "sv_channels ?s = sv_channels s"
    using assms(2) by (auto simp: client_table_def channel_table_def update_client_def fun_eq_iff option.map_comp comp_def)
  then show ?thesis
    using assms(3) members_inv_cong [of ?s s] same_lists_ok [OF l] by (simp add: server_inv_def listed_def)
qed

lemma one_client_state:
  "\<exists>s\<^sub>0 s client. silc_server_alloc = Some s\<^sub>0 \<and> sv_server_type s\<^sub>0 = SILC_SERVER \<and> sv_clients s\<^sub>0 = Map.empty \<and>
    silc_idlist_add_client env 5 Local_List None None None (Some i) None None s\<^sub>0 = Some (Some 5, s) \<and> server_inv s \<and>
    sv_clients s = [5 \<mapsto> client] \<and> cl_id client = Some i \<and> sv_channels s = Map.empty \<and> sv_chls s = Map.empty \<and>
    sv_server_type s = SILC_SERVER \<and> directory s = (\<lambda>_. Map.empty)((Local_List, Clients) := [ClientID i \<mapsto> 5])"
proof -
  obtain s\<^sub>0 where s0: "silc_server_alloc = Some s\<^sub>0" "lists_ok s\<^sub>0" "directory s\<^sub>0 = (\<lambda>_. Map.empty)" "sv_clients s\<^sub>0 = Map.empty"
    "sv_channels s\<^sub>0 = Map.empty" using alloc_lists by blast
  then have e0: "sv_chls s\<^sub>0 = Map.empty" "sv_server_type s\<^sub>0 = SILC_SERVER" "server_inv s\<^sub>0"
    using alloc_server_inv by (auto simp: silc_server_alloc_def split: option.splits)
  obtain r h c where "silc_idcache_add (sv_cache_heap s\<^sub>0) (cache_of s\<^sub>0 (Local_List, Clients)) None (Some (ClientID i)) (Some 5) = (Some r, h, c)"
    using idcache_add_free directory_none [OF s0(2), of "(Local_List, Clients)" "ClientID i"] s0(3) by metis
  then obtain s client where s: "silc_idlist_add_client env 5 Local_List None None None (Some i) None None s\<^sub>0 = Some (Some 5, s)"
    "sv_clients s = [5 \<mapsto> client]" "cl_id client = Some i" "sv_channels s = Map.empty" "sv_chls s = Map.empty" "sv_server_type s = SILC_SERVER"
    using s0(4,5) e0 by (simp add: silc_idlist_add_client_def normalize_def Let_def)
  have "server_inv s" using add_client_inv [OF e0(3) _ s(1)] s0(4) by simp
  moreover have "directory s = (\<lambda>_. Map.empty)((Local_List, Clients) := [ClientID i \<mapsto> 5])"
    using step_add_client [OF s0(2) _ s(1)] s0(3,4) by simp
  ultimately show ?thesis using s0(1,4) e0(2) s by blast
qed

lemma one_channel_state:
  "\<exists>s client channel. server_inv s \<and> sv_server_type s = SILC_SERVER \<and> sv_clients s = [5 \<mapsto> client] \<and> sv_channels s = [6 \<mapsto> channel] \<and>
    sv_chls s = Map.empty \<and> cl_id client = Some i \<and> ch_id channel = Some j \<and> ch_key channel = None \<and> ch_invite_list channel = None \<and>
    ch_ban_list channel = None \<and> ch_mode channel = mode \<and> ch_send_key channel = sk \<and> ch_hmac channel = Some hm \<and>
    directory s = (\<lambda>_. Map.empty)((Local_List, Clients) := [ClientID i \<mapsto> 5], (Local_List, Channels) := [ChannelID j \<mapsto> 6])"
proof -
  fix env :: prep_env
  obtain s1 client where s1: "server_inv s1" "sv_clients s1 = [5 \<mapsto> client]" "cl_id client = Some i" "sv_channels s1 = Map.empty"
    "sv_chls s1 = Map.empty" "sv_server_type s1 = SILC_SERVER" "directory s1 = (\<lambda>_. Map.empty)((Local_List, Clients) := [ClientID i \<mapsto> 5])"
    using one_client_state [of env i] by blast
  then have l1: "lists_ok s1" by (simp add: server_inv_def)
  obtain r h c where "silc_idcache_add (sv_cache_heap s1) (cache_of s1 (Local_List, Channels)) None (Some (ChannelID j)) (Some 6) = (Some r, h, c)"
    using idcache_add_free directory_none [OF l1, of "(Local_List, Channels)" "ChannelID j"] s1(7)
    by (metis fun_upd_other prod.inject entry_kind.distinct)
  then obtain s2 channel where s2: "silc_idlist_add_channel env 6 0 (Some 1) Local_List None mode (Some j) None sk None (Some hm) s1 = (Some 6, s2)"
    "sv_clients s2 = [5 \<mapsto> client]" "sv_channels s2 = [6 \<mapsto> channel]" "sv_chls s2 = Map.empty" "sv_server_type s2 = SILC_SERVER"
    "ch_key channel = None" "ch_invite_list channel = None" "ch_mode channel = mode" "ch_id channel = Some j" "ch_ban_list channel = None"
    "ch_send_key channel = sk" "ch_hmac channel = Some hm"
    using s1 by (simp add: silc_idlist_add_channel_def normalize_def Let_def)
  have i2: "server_inv s2" using add_channel_inv [OF s1(1) _ s2(1)] s1(4) by simp
  have "directory s2 = (\<lambda>_. Map.empty)((Local_List, Clients) := [ClientID i \<mapsto> 5], (Local_List, Channels) := [ChannelID j \<mapsto> 6])"
    using step_add_channel [OF l1 _ s2(1)] s1(4,7) by simp
  with i2 s2 s1(3) show ?thesis by (intro exI [of _ s2] exI [of _ client] exI [of _ channel]) auto
qed

lemma one_member_state:
  "\<exists>s client channel. server_inv s \<and> sv_server_type s = SILC_SERVER \<and> sv_clients s = [5 \<mapsto> client] \<and> sv_channels s = [6 \<mapsto> channel] \<and>
    sv_chls s = [9 \<mapsto> \<lparr>cce_client = 5, cce_mode = umode, cce_channel = 6\<rparr>] \<and> cl_id client = Some i \<and>
    ch_key channel = None \<and> ch_invite_list channel = None \<and> ch_mode channel = mode"
proof -
  obtain s client channel where s: "server_inv s" "sv_server_type s = SILC_SERVER" "sv_clients s = [5 \<mapsto> client]"
    "sv_channels s = [6 \<mapsto> channel]" "sv_chls s = Map.empty" "cl_id client = Some i" "ch_key channel = None"
    "ch_invite_list channel = None" "ch_mode channel = mode"
    using one_channel_state [of i undefined mode None 1] by blast
  have "server_inv (add_member 9 umode 5 6 s)" using add_member_server_inv [OF s(1), of 5 client 6 channel 9] s(3-5) by simp
  with s show ?thesis
    by (intro exI [of _ "add_member 9 umode 5 6 s"]) (auto simp: add_member_def update_client_def update_channel_def fun_eq_iff)
qed

end
