(* ===== verification/Server_Leave.thy ===== *)
theory Server_Leave
  imports Server_Members
begin

text \<open>
  Leaving channels: that \<^verbatim>\<open>silc_server_remove_from_channels\<close> and its relatives return, keep the
  invariant of lists and members, and end the memberships they should and no others.
\<close>

section \<open>Keys and invite lists of channels\<close>

text \<open>Keys fit the array in which a new one is made; invite lists are well-formed.\<close>

definition channel_ok :: "silc_channel_entry \<Rightarrow> bool" where
  "channel_ok e \<longleftrightarrow> (\<forall>k. ch_key e = Some k \<longrightarrow> length k \<le> 32) \<and> (\<forall>l. ch_invite_list e = Some l \<longrightarrow> inviteban_ok l)"

definition channels_ok :: "silc_server \<Rightarrow> bool" where
  "channels_ok s \<longleftrightarrow> (\<forall>p e. sv_channels s p = Some e \<longrightarrow> channel_ok e)"

lemma channels_ok_same:
  "channels_ok (update_client c g s) = channels_ok s" "channels_ok (update_stat h s) = channels_ok s"
  "channels_ok (emit ev s) = channels_ok s" "channels_ok (free_chl k s) = channels_ok s"
  "channels_ok (count_leave e s) = channels_ok s" "channels_ok (notify_channel b p ty args s) = channels_ok s"
  "channels_ok (put_list w l (s\<lparr>sv_cache_heap := hp\<rparr>)) = channels_ok s"
  by (simp_all add: channels_ok_def update_client_def update_stat_def emit_def free_chl_def count_leave_def notify_channel_def Let_def)

lemma channels_ok_update:
  "channels_ok s \<Longrightarrow> (\<And>e. channel_ok e \<Longrightarrow> channel_ok (f e)) \<Longrightarrow> channels_ok (update_channel p f s)"
  by (auto simp: channels_ok_def update_channel_def)

lemma channels_ok_remove: "channels_ok s \<Longrightarrow> channels_ok (s\<lparr>sv_channels := (sv_channels s)(p := None)\<rparr>)"
  by (simp add: channels_ok_def)

lemma channels_ok_tables:
  "channels_ok s \<Longrightarrow> channels_ok (unlink c p s)" "channels_ok s \<Longrightarrow> channels_ok (freeze_users p s)"
  "channels_ok s \<Longrightarrow> channels_ok (thaw_users old p s)"
  "channels_ok s \<Longrightarrow> channels_ok (update_channel p (\<lambda>e. e\<lparr>ch_disabled := b\<rparr>) s)"
  "channels_ok s \<Longrightarrow> channels_ok (update_channel p (\<lambda>e. e\<lparr>ch_global_users := b\<rparr>) s)"
  unfolding unlink_def freeze_users_def thaw_users_def
  by (rule channels_ok_update; simp add: channels_ok_same channel_ok_def)+

lemma drop_users_channels: "drop_users p ks s = Some s' \<Longrightarrow> channels_ok s \<Longrightarrow> channels_ok s'"
  by (induction p ks s rule: drop_users.induct)
    (auto simp: channels_ok_same channels_ok_tables(1) split: option.splits)

lemma leave_channel_channels: "leave_channel kind k p c client s = Some s' \<Longrightarrow> channels_ok s \<Longrightarrow> channels_ok s'"
  by (auto simp: leave_channel_def Let_def channels_ok_same channels_ok_tables split: option.splits if_splits)

lemma del_channel_users_channels: "del_channel_users ks s = Some s' \<Longrightarrow> channels_ok s \<Longrightarrow> channels_ok s'"
proof (induction ks arbitrary: s)
  case (Cons k ks)
  then show ?case
    by (auto simp: silc_idlist_del_channel_foreach_def channels_ok_same split: option.splits if_splits)
qed simp

lemma del_channel_channels:
  assumes "silc_idlist_del_channel w p s = Some (b, s')" "channels_ok s"
  shows "channels_ok s'"
  using assms
  by (auto simp: silc_idlist_del_channel_def Let_def channels_ok_same split: option.splits prod.splits if_splits
      intro!: channels_ok_remove dest!: del_channel_users_channels)

lemma channel_delete_channels:
  assumes "silc_server_channel_delete p s = Some (b, s')" "channels_ok s"
  shows "channels_ok s'"
  using assms
  by (auto simp: silc_server_channel_delete_def Let_def channels_ok_same channels_ok_tables
      split: option.splits if_splits bool.splits dest!: del_channel_channels drop_users_channels)

section \<open>New keys\<close>

definition crypto_ok :: "crypto_env \<Rightarrow> bool" where
  "crypto_ok cr \<longleftrightarrow> (\<forall>c. cr_key_len cr c div 8 \<le> 32)"

text \<open>Making a key changes nothing but the keys of the channel.\<close>

definition key_frame :: "ptr \<Rightarrow> silc_channel_entry \<Rightarrow> bool \<Rightarrow> silc_server \<Rightarrow> silc_server \<Rightarrow> bool" where
  "key_frame p e b s s' \<longleftrightarrow> sv_clients s' = sv_clients s \<and> sv_chls s' = sv_chls s \<and> sv_servers s' = sv_servers s \<and>
     (\<forall>q. q \<noteq> p \<longrightarrow> sv_channels s' q = sv_channels s q) \<and>
     (\<exists>e'. sv_channels s' p = Some e' \<and> ch_id e' = ch_id e \<and> ch_mode e' = ch_mode e \<and>
       ch_user_list e' = ch_user_list e \<and>
       (if has_mode (ch_mode e) SILC_CHANNEL_MODE_PRIVKEY then e' = e
        else b \<longrightarrow> ch_send_key e' \<noteq> None \<and> ch_hmac e' \<noteq> None))"

lemmas key_frame_defs = key_frame_def update_channel_def emit_def

lemma create_channel_key_ok:
  assumes "crypto_ok cr" "channels_ok s" "sv_channels s p = Some e" "len \<le> 32"
  shows "\<exists>b s'. silc_server_create_channel_key cr p len s = Some (b, s') \<and> quiet s s' \<and> channels_ok s' \<and> key_frame p e b s s'"
proof -
  have k: "length k \<le> 32" if "ch_key e = Some k" for k using assms(2,3) that by (auto simp: channels_ok_def channel_ok_def)
  have q: "quiet t (update_channel p (\<lambda>e. e\<lparr>ch_send_key := a, ch_receive_key := b\<rparr>) t)"
    "quiet t (update_channel p (\<lambda>e. e\<lparr>ch_send_key := a\<rparr>) t)"
    "quiet t (update_channel p (\<lambda>e. e\<lparr>ch_send_key := a, ch_receive_key := b, ch_key := y\<rparr>) t)"
    "quiet t (update_channel p (\<lambda>e. e\<lparr>ch_hmac := a\<rparr>) t)" "quiet t (update_channel p (\<lambda>e. e\<lparr>ch_rekey := g e\<rparr>) t)" for a b y g t
    by (rule quiet_update_channel; simp)+
  have c: "channels_ok t \<Longrightarrow> channels_ok (update_channel p (\<lambda>e. e\<lparr>ch_send_key := a, ch_receive_key := b\<rparr>) t)"
    "channels_ok t \<Longrightarrow> channels_ok (update_channel p (\<lambda>e. e\<lparr>ch_send_key := a\<rparr>) t)"
    "channels_ok t \<Longrightarrow> length y \<le> 32 \<Longrightarrow>
      channels_ok (update_channel p (\<lambda>e. e\<lparr>ch_send_key := a, ch_receive_key := b, ch_key := Some y\<rparr>) t)"
    "channels_ok t \<Longrightarrow> channels_ok (update_channel p (\<lambda>e. e\<lparr>ch_hmac := a\<rparr>) t)"
    "channels_ok t \<Longrightarrow> channels_ok (update_channel p (\<lambda>e. e\<lparr>ch_rekey := g e\<rparr>) t)" for a b y g t
    by (rule channels_ok_update; simp add: channel_ok_def)+
  define sk where "sk = (case ch_send_key e of Some k \<Rightarrow> Some k | None \<Rightarrow> cr_cipher_alloc cr)"
  define rk where "rk = (case ch_receive_key e of Some k \<Rightarrow> Some k | None \<Rightarrow> cr_cipher_alloc cr)"
  define hm where "hm = (case ch_hmac e of Some h \<Rightarrow> Some h | None \<Rightarrow> cr_hmac_alloc cr)"
  define n where "n a = (if len \<noteq> 0 then len
      else case ch_key e of Some k \<Rightarrow> if k = [] then cr_key_len cr a div 8 else length k | None \<Rightarrow> cr_key_len cr a div 8)" for a
  have n: "n a \<le> 32" for a using assms(1,4) k by (auto simp: n_def crypto_ok_def split: option.split)
  note eq = silc_server_create_channel_key_def [of cr p len s, unfolded assms(3) option.case,
      folded sk_def rk_def hm_def n_def]
  let ?key = "\<lambda>a. take (n a) (cr_random cr (n a))"
  let ?s1 = "\<lambda>a b. update_channel p (\<lambda>e. e\<lparr>ch_send_key := Some a, ch_receive_key := Some b, ch_key := Some (?key a)\<rparr>) s"
  have s1: "quiet s (?s1 a b)" "channels_ok (?s1 a b)" for a b
    using q(3) c(3) [OF assms(2)] n [of a] by auto
  consider "has_mode (ch_mode e) SILC_CHANNEL_MODE_PRIVKEY" | "\<not> has_mode (ch_mode e) SILC_CHANNEL_MODE_PRIVKEY" "sk = None"
    | a where "\<not> has_mode (ch_mode e) SILC_CHANNEL_MODE_PRIVKEY" "sk = Some a" "rk = None"
    | a b where "\<not> has_mode (ch_mode e) SILC_CHANNEL_MODE_PRIVKEY" "sk = Some a" "rk = Some b" "hm = None"
    | a b h where "\<not> has_mode (ch_mode e) SILC_CHANNEL_MODE_PRIVKEY" "sk = Some a" "rk = Some b" "hm = Some h"
    by (metis option.exhaust)
  then show ?thesis
  proof cases
    case 1
    moreover from this assms(3) have "key_frame p e True s s" by (simp add: key_frame_def)
    ultimately show ?thesis using assms(2) by (auto simp: eq)
  next
    case 2
    moreover from this assms(3) have "key_frame p e False s (update_channel p (\<lambda>e. e\<lparr>ch_send_key := None\<rparr>) s)"
      by (simp add: key_frame_defs)
    ultimately show ?thesis using assms(2) q(2) c(2) by (auto simp: eq)
  next
    case 3
    moreover from this assms(3) have
      "key_frame p e False s (update_channel p (\<lambda>e. e\<lparr>ch_send_key := None, ch_receive_key := None\<rparr>) s)"
      by (simp add: key_frame_defs)
    ultimately show ?thesis using assms(2) q(1) c(1) by (auto simp: eq)
  next
    case (4 a b)
    moreover from this assms(3) have
      "key_frame p e False s (update_channel p (\<lambda>e. e\<lparr>ch_send_key := None, ch_receive_key := None\<rparr>) (?s1 a b))"
      by (simp add: key_frame_defs)
    ultimately show ?thesis using n [of a] quiet_trans [OF s1(1) q(1)] c(1) [OF s1(2)] by (auto simp: eq Let_def)
  next
    case (5 a b h)
    let ?s2 = "update_channel p (\<lambda>e. e\<lparr>ch_hmac := Some h\<rparr>) (?s1 a b)"
    let ?s3 = "update_channel p (\<lambda>e. e\<lparr>ch_rekey := (case ch_rekey e of Some r \<Rightarrow> Some r | None \<Rightarrow> Some (cr_rekey cr))\<rparr>) ?s2"
    let ?s4 = "if sv_server_type ?s2 = SILC_ROUTER then emit (Ev_Rekey_Timeout p) ?s3 else ?s2"
    have s2: "quiet s ?s2" "channels_ok ?s2" using quiet_trans [OF s1(1) q(4)] c(4) [OF s1(2)] by blast+
    have "silc_server_create_channel_key cr p len s = Some (True, ?s4)"
      using 5 n [of a] by (simp add: eq Let_def)
    moreover have "quiet s (emit (Ev_Rekey_Timeout p) ?s3)" using quiet_trans [OF quiet_trans [OF s2(1) q(5)] quiet_emit] .
    moreover have "channels_ok ?s3" by (rule c(5) [OF s2(2)])
    moreover have "key_frame p e True s ?s4" using 5 assms(3) by (simp add: key_frame_defs)
    ultimately show ?thesis using s2 by (intro exI [of _ True] exI [of _ ?s4]) (simp add: channels_ok_same)
  qed
qed

lemma rekey_channel_ok:
  assumes "crypto_ok (le_crypto env)" "channels_ok s" "sv_channels s p \<noteq> None"
  shows "\<exists>s'. rekey_channel env p conn s = Some s' \<and> quiet s s' \<and> channels_ok s'"
proof -
  obtain e where e: "sv_channels s p = Some e" using assms(3) by blast
  obtain b s1 where s1: "silc_server_create_channel_key (le_crypto env) p 0 s = Some (b, s1)" "quiet s s1" "channels_ok s1"
    using create_channel_key_ok [OF assms(1,2) e, of 0] by auto
  have "quiet s (emit ev s1)" for ev by (rule quiet_trans [OF s1(2) quiet_emit])
  with e s1 assms(2) show ?thesis by (cases b) (simp_all add: rekey_channel_def channels_ok_same)
qed

lemma drop_invite_ok:
  assumes "channels_ok s" "sv_channels s p \<noteq> None" "id_wf (ClientID i)"
  shows "\<exists>s'. drop_invite ib junk p (client_bytes i) s = Some s' \<and> quiet s s' \<and> channels_ok s'"
proof -
  obtain e where e: "sv_channels s p = Some e" using assms(2) by blast
  show ?thesis
  proof (cases "ch_invite_list e")
    case None
    with e assms(1) show ?thesis by (simp add: drop_invite_def)
  next
    case (Some l)
    let ?b = "client_bytes i" and ?n = "of_nat (length (client_bytes i)) :: u32"
    have len: "length ?b \<le> 32" "?b \<noteq> []"
      using client_bytes_length [OF assms(3)] by (simp_all add: client_bytes_def id_payload_bytes_def SILC_PUT16_MSB_def)
    then have "unat ?n = length ?b" by (simp add: unsigned_of_nat take_bit_nat_eq_self)
    with len(2) have n: "unat ?n = length ?b" "?n \<noteq> 0" by (auto simp del: unat_eq_zero simp flip: unat_eq_0)
    then have ok: "entry_ok (Some ?b, ?n, 3)" using len by simp
    have enc: "silc_argument_payload_encode_one junk None (Some ?b) ?n 3 = Some (silc_buffer_set (arg_bytes (Some ?b, ?n, 3)))"
      using encode_one_eq [OF ok, of "[]" None] n len by (simp add: SILC_MAX_ALLOC_def del: arg_bytes.simps)
    have lb: "length (arg_bytes (Some ?b, ?n, 3)) < 2 ^ 32 - 1" using length_arg_bytes [OF ok] n len by simp
    have pa: "silc_argument_payload_parse (silc_buffer_data (silc_buffer_set (arg_bytes (Some ?b, ?n, 3)))) 1 =
        Some \<lparr>ap_argc = 1, ap_args = [(Some ?b, ?n, 3)], ap_pos = 0\<rparr>"
      using argument_parse_iff [OF lb, of 1] ok by (simp add: SILC_MAX_ALLOC_def del: arg_bytes.simps entry_ok.simps)
    have il: "inviteban_ok l" using assms(1) e Some by (auto simp: channels_ok_def channel_ok_def)
    obtain l2 where l2: "inviteban_del ib 3 ?b l = Some l2" "inviteban_ok l2"
      using del_client_entry [OF il assms(3)] by blast
    let ?s = "update_channel p (\<lambda>e. e\<lparr>ch_invite_list := Some l2\<rparr>) s"
    have "quiet s ?s" by (rule quiet_update_channel) simp_all
    moreover have "channels_ok ?s" by (rule channels_ok_update [OF assms(1)]) (use l2(2) in \<open>simp add: channel_ok_def\<close>)
    moreover have "drop_invite ib junk p ?b s = Some (if silc_hash_table_count l = 0 then s else ?s)"
      using e Some enc pa l2(1) by (simp add: drop_invite_def silc_server_inviteban_process_def Let_def)
    ultimately show ?thesis using assms(1) by simp
  qed
qed

section \<open>One channel\<close>

definition local_client :: "silc_server \<Rightarrow> ptr \<Rightarrow> bool" where
  "local_client s c \<longleftrightarrow> client_local s c = Some True"

lemma any_user_False: "any_user P s ks = Some False \<Longrightarrow> k \<in> set ks \<Longrightarrow> \<exists>c. chl_client s k = Some c \<and> \<not> P c"
  by (induction ks) (auto split: option.splits if_splits)

lemma no_local_users:
  assumes "members_inv {} s" "silc_server_channel_has_local p s = Some False" "sv_chls s k = Some x" "cce_channel x = p"
  shows "\<not> local_client s (cce_client x)"
proof -
  obtain e where e: "sv_channels s p = Some e" using assms(2) by (auto simp: silc_server_channel_has_local_def bind_eq_Some_conv)
  have "k \<in> set (users e)" using users_rows(1) [OF assms(1) e] assms(3,4) by auto
  with any_user_False [of "\<lambda>c. SILC_IS_LOCAL (cl_data c)" s "users e" k] e assms(2,3) show ?thesis
    by (auto simp: silc_server_channel_has_local_def chl_client_def local_client_def client_local_def)
qed

lemma count_members:
  assumes "members_inv {} s" "sv_channels s p = Some e"
  shows "silc_hash_table_count (ch_user_list e) = card (members_of s p)" "finite (members_of s p)"
proof -
  note t = members_channel(1) [OF assms, simplified]
  have "silc_hash_table_count (ch_user_list e) = length (users e)"
    using t by (simp add: table_of_def ht_for_def ht_wf_def silc_hash_table_count_def silc_hash_table_foreach_def users_def)
  then show "silc_hash_table_count (ch_user_list e) = card (members_of s p)" "finite (members_of s p)"
    using users_rows [OF assms] distinct_card [of "users e"] by (simp_all add: members_of_def flip: members_of_def)
qed

text \<open>
  The memberships that end with \<open>k\<close>: a server, but no router, also forgets those of clients
  elsewhere on a channel that has no more local users.
\<close>

definition leaves :: "ptr \<Rightarrow> ptr set \<Rightarrow> silc_server \<Rightarrow> bool" where
  "leaves c K s \<longleftrightarrow> (\<forall>k \<in> K. \<exists>x. sv_chls s k = Some x \<and> (cce_client x = c \<or>
     sv_server_type s = SILC_SERVER \<and> \<not> local_client s (cce_client x)))"

lemma leaves_quiet: "client_local s' = client_local s \<Longrightarrow> sv_chls s' = sv_chls s \<Longrightarrow> sv_server_type s' = sv_server_type s \<Longrightarrow>
    leaves c K s' = leaves c K s"
  by (simp add: leaves_def local_client_def)

lemma leaves_ended: "ended L s s' \<Longrightarrow> leaves c K s' \<Longrightarrow> leaves c K s"
  unfolding leaves_def local_client_def ended_def restrict_map_def by (metis option.distinct(1))

lemma leaves_Un: "leaves c K s \<Longrightarrow> leaves c L s \<Longrightarrow> leaves c (K \<union> L) s"
  by (auto simp: leaves_def)

text \<open>The last user of a channel leaves and the channel goes.\<close>

lemma last_leaves:
  assumes "server_inv s" "sv_channels s p = Some e" "sv_chls s k = Some x" "cce_channel x = p"
    "silc_hash_table_count (ch_user_list e) < 2"
  shows "members_of s p = {k}"
proof -
  have m: "members_inv {} s" using assms(1) by (simp add: server_inv_def)
  have "k \<in> members_of s p" using assms(3,4) by (simp add: members_of_def)
  moreover have "card (members_of s p) \<le> 1" "finite (members_of s p)" using count_members [OF m assms(2)] assms(5) by auto
  ultimately show ?thesis using card_le_Suc0_iff_eq [of "members_of s p"] by auto
qed

text \<open>Deleting the channel that the client has just left.\<close>

lemma forget_channel:
  assumes "server_inv s" "sv_chls s k = Some x" "cce_client x = c" "cce_channel x = p"
    "leave_channel kind k p c client s = Some s1" "sv_server_type s1 = SILC_SERVER"
    "silc_server_channel_has_local p s1 = Some False" "quiet s1 s2" "channels_ok s2"
  shows "\<exists>K b s'. silc_server_channel_delete p s2 = Some (b, s') \<and> ended (insert k K) s s' \<and> channels_ok s' \<and>
    leaves c K s \<and> K \<subseteq> members_of s p"
proof -
  have e1: "ended {k} s s1" using leave_channel_ok [OF assms(1,2), of kind client] assms(3-5) by auto
  then have i1: "server_inv s1" by (rule ended_inv)
  then have i2: "server_inv s2" using quiet_inv(1) [OF assms(8)] by simp
  obtain e1' where "sv_channels s1 p = Some e1'"
    using assms(7) by (auto simp: silc_server_channel_has_local_def bind_eq_Some_conv)
  then obtain e2 where "sv_channels s2 p = Some e2" using quiet_entries(2) [OF assms(8), of p] by auto
  from channel_delete_ok [OF i2 this] obtain b s' where
    d: "silc_server_channel_delete p s2 = Some (b, s')" "ended (members_of s2 p) s2 s'" by blast
  have m: "members_of s2 p = members_of s1 p" using assms(8) by (simp add: members_of_def quiet_def)
  have "ended (members_of s1 p) s1 s'" using quiet_then_ended [OF assms(8) i1] d(2) m by simp
  then have "ended (insert k (members_of s1 p)) s s'" using ended_trans [OF e1] by fastforce
  moreover have "leaves c (members_of s1 p) s1"
    using no_local_users [OF _ assms(7)] i1 assms(6) by (auto simp: leaves_def members_of_def server_inv_def)
  then have "leaves c (members_of s1 p) s" by (rule leaves_ended [OF e1])
  moreover have "members_of s1 p \<subseteq> members_of s p"
    using e1 by (auto simp: ended_def members_of_def restrict_map_def split: if_splits)
  ultimately show ?thesis using d(1) channel_delete_channels [OF d(1) assms(9)] by blast
qed

lemma one_channel:
  assumes "server_inv s" "channels_ok s" "sv_chls s k = Some x" "cce_client x = c" "cce_channel x = p"
    "sv_channels s p = Some e" "sv_server_type s \<noteq> SILC_SERVER" "silc_hash_table_count (ch_user_list e) < 2"
  shows "\<exists>b s'. silc_server_channel_delete p s = Some (b, s') \<and> ended {k} s s' \<and> channels_ok s'"
  using channel_delete_ok [OF assms(1,6)] last_leaves [OF assms(1,6,3,5,8)] channel_delete_channels [OF _ assms(2)] by auto

lemma remove_step_ok:
  assumes "server_inv s" "channels_ok s" "crypto_ok (le_crypto env)" "sv_chls s k = Some x" "cce_client x = c"
    "clidp = None \<or> (\<exists>i. id_wf (ClientID i) \<and> clidp = Some (client_bytes i))"
  shows "\<exists>K s'. remove_from_channel_step env c client clidp k s = Some s' \<and> ended (insert k K) s s' \<and> channels_ok s' \<and>
    leaves c K s \<and> K \<subseteq> members_of s (cce_channel x)"
proof -
  let ?p = "cce_channel x"
  have m: "members_inv {} s" using assms(1) by (simp add: server_inv_def)
  obtain e where e: "sv_channels s ?p = Some e" using members_entries [OF m assms(4)] by metis
  show ?thesis
  proof (cases "sv_server_type s \<noteq> SILC_SERVER \<and> silc_hash_table_count (ch_user_list e) < 2")
    case True
    with one_channel [OF assms(1,2,4,5) refl e] obtain b s' where
      "silc_server_channel_delete ?p s = Some (b, s')" "ended {k} s s'" "channels_ok s'" by auto
    with True assms(4) e show ?thesis
      by (intro exI [of _ "{}"] exI [of _ s']) (simp add: remove_from_channel_step_def Let_def leaves_def)
  next
    case False
    then have big: "(sv_server_type s \<noteq> SILC_SERVER \<and> silc_hash_table_count (ch_user_list e) < 2) = False" by blast
    obtain s1 where s1: "leave_channel (\<lambda>t. t = SILC_SERVER) k ?p c client s = Some s1" "ended {k} s s1"
      "sv_channels s1 ?p \<noteq> None"
      using leave_channel_ok [OF assms(1,4), of "\<lambda>t. t = SILC_SERVER" client] assms(5) e by (metis option.distinct(1))
    have c1: "channels_ok s1" by (rule leave_channel_channels [OF s1(1) assms(2)])
    have i1: "members_inv {} s1" using ended_inv [OF s1(2)] by (simp add: server_inv_def)
    obtain e1 where e1: "sv_channels s1 ?p = Some e1" using s1(3) by blast
    obtain loc where loc: "silc_server_channel_has_local ?p s1 = Some loc" using has_any_total(1) [OF i1 e1] by auto
    let ?args = "the clidp # (case le_signoff env of None \<Rightarrow> [] | Some m \<Rightarrow> [m])"
    show ?thesis
    proof (cases "sv_server_type s1 = SILC_SERVER \<and> \<not> loc")
      case gone: True
      let ?s2 = "emit (Ev_Task_Del (ch_rekey e1))
        (notify_channel (clidp \<noteq> None \<and> ch_global_users e1) ?p SILC_NOTIFY_TYPE_SIGNOFF ?args s1)"
      have q2: "quiet s1 ?s2" using quiet_trans [OF quiet_notify quiet_emit] .
      have c2: "channels_ok ?s2" using c1 by (simp add: channels_ok_same)
      have "silc_server_channel_has_local ?p s1 = Some False" using gone loc by simp
      note f = forget_channel [OF assms(1,4,5) refl s1(1) conjunct1 [OF gone] this q2 c2]
      then obtain K b s' where r: "silc_server_channel_delete ?p ?s2 = Some (b, s')" and
        K: "ended (insert k K) s s'" "channels_ok s'" "leaves c K s" "K \<subseteq> members_of s ?p" by blast
      have "remove_from_channel_step env c client clidp k s = Some s'"
        using assms(4) e s1(1) gone loc e1 r by (simp add: remove_from_channel_step_def Let_def big)
      with K show ?thesis by blast
    next
      case stay: False
      let ?s2 = "notify_channel (clidp \<noteq> None) ?p SILC_NOTIFY_TYPE_SIGNOFF ?args s1"
      have c2: "channels_ok ?s2" using c1 by (simp add: channels_ok_same)
      have n2: "sv_channels ?s2 ?p \<noteq> None" using s1(3) by (simp add: notify_channel_def emit_def)
      have drop_step: "\<exists>s3. (if le_killed env \<and> clidp \<noteq> None
          then drop_invite (le_inviteban env) (le_junk env) ?p (the clidp) ?s2 else Some ?s2) = Some s3 \<and> quiet ?s2 s3 \<and> channels_ok s3"
      proof (cases "le_killed env \<and> clidp \<noteq> None")
        case True
        with assms(6) obtain i where "id_wf (ClientID i)" "the clidp = client_bytes i" by auto
        with drop_invite_ok [OF c2 n2, of i "le_inviteban env" "le_junk env"] True show ?thesis by simp
      qed (use c2 in auto)
      then obtain s3 where s3: "(if le_killed env \<and> clidp \<noteq> None
          then drop_invite (le_inviteban env) (le_junk env) ?p (the clidp) ?s2 else Some ?s2) = Some s3" "quiet ?s2 s3" "channels_ok s3"
        using that drop_step by blast
      have n3: "sv_channels s3 ?p \<noteq> None" using quiet_entries(2) [OF s3(2), of ?p] n2 by simp
      obtain s4 where s4: "rekey_channel env ?p (cl_connection client) s3 = Some s4" "quiet s3 s4" "channels_ok s4"
        using rekey_channel_ok [OF assms(3) s3(3) n3] by blast
      have "quiet s1 s4" using quiet_trans [OF quiet_trans [OF quiet_notify s3(2)] s4(2)] .
      then have "ended {k} s s4" by (rule ended_then_quiet [OF s1(2)])
      moreover have "remove_from_channel_step env c client clidp k s = Some s4"
        using assms(4) e False s1(1) stay loc s3(1) s4(1) by (auto simp: remove_from_channel_step_def Let_def)
      ultimately show ?thesis using s4(3) by (intro exI [of _ "{}"] exI [of _ s4]) (simp add: leaves_def)
    qed
  qed
qed

section \<open>All channels\<close>

lemma remove_loop_ok:
  assumes "server_inv s" "channels_ok s" "crypto_ok (le_crypto env)"
    "clidp = None \<or> (\<exists>i. id_wf (ClientID i) \<and> clidp = Some (client_bytes i))"
    "distinct ks" "\<And>k. k \<in> set ks \<Longrightarrow> \<exists>x. sv_chls s k = Some x \<and> cce_client x = c"
  shows "\<exists>K s'. remove_from_channels_loop env c client clidp ks s = Some s' \<and> ended K s s' \<and> channels_ok s' \<and>
    set ks \<subseteq> K \<and> leaves c K s"
  using assms(1,2,5,6)
proof (induction ks arbitrary: s)
  case Nil
  then show ?case using ended_quiet [of s s] by (auto simp: leaves_def)
next
  case (Cons k ks)
  obtain x where x: "sv_chls s k = Some x" "cce_client x = c" using Cons.prems(4) [of k] by auto
  obtain K s1 where s1: "remove_from_channel_step env c client clidp k s = Some s1" "ended (insert k K) s s1" "channels_ok s1"
    "leaves c K s" "K \<subseteq> members_of s (cce_channel x)"
    using remove_step_ok [OF Cons.prems(1,2) assms(3) x assms(4)] by blast
  have u: "memberships_unique (sv_chls s)" using Cons.prems(1) by (simp add: server_inv_def members_inv_def)
  have "\<exists>y. sv_chls s1 j = Some y \<and> cce_client y = c" if j: "j \<in> set ks" for j
  proof -
    obtain y where y: "sv_chls s j = Some y" "cce_client y = c" using Cons.prems(4) [of j] j by auto
    moreover have "j \<noteq> k" using j Cons.prems(3) by auto
    ultimately have "cce_channel y \<noteq> cce_channel x" using u x unfolding memberships_unique_def by metis
    then have "j \<notin> insert k K" using s1(5) y \<open>j \<noteq> k\<close> by (auto simp: members_of_def)
    with y s1(2) show ?thesis by (simp add: ended_def restrict_map_def)
  qed
  from Cons.IH [OF ended_inv [OF s1(2)] s1(3) _ this] Cons.prems(3) obtain L s' where
    L: "remove_from_channels_loop env c client clidp ks s1 = Some s'" "ended L s1 s'" "channels_ok s'" "set ks \<subseteq> L" "leaves c L s1"
    by auto
  have "leaves c (insert k K \<union> L) s"
    using leaves_Un [OF _ leaves_ended [OF s1(2) L(5)]] s1(4) x by (simp add: leaves_def)
  moreover have "ended (insert k K \<union> L) s s'" by (rule ended_trans [OF s1(2) L(2)])
  ultimately show ?case using s1(1) L(1,3,4) by fastforce
qed

lemma no_memberships:
  assumes "members_inv {} s" "sv_clients s c = Some e" "\<And>k x. sv_chls s k = Some x \<Longrightarrow> cce_client x \<noteq> c"
  shows "silc_hash_table_count (cl_channels e) = 0" "sv_channels s p = Some ch \<Longrightarrow> silc_hash_table_find (ch_user_list ch) c = None"
proof -
  have "client_rows (sv_chls s) c = {}" using assms(3) by (auto simp: client_rows_def)
  then show "silc_hash_table_count (cl_channels e) = 0"
    using hk_ptr.table_of_count [OF members_client [OF assms(1,2)]] by simp
  show "silc_hash_table_find (ch_user_list ch) c = None" if ch: "sv_channels s p = Some ch"
  proof (cases "silc_hash_table_find (ch_user_list ch) c")
    case (Some f)
    then obtain x where "sv_chls s (snd f) = Some x" "cce_client x = c"
      using find_membership(2) [OF assms(1,2) ch, of "snd f"] by auto
    with assms(3) show ?thesis by blast
  qed simp
qed

lemma remove_all_ok:
  assumes "server_inv s" "channels_ok s" "crypto_ok (le_crypto env)" "sv_clients s c = Some client"
    "\<And>i. cl_id client = Some i \<Longrightarrow> id_wf (ClientID i)"
  shows "\<exists>K s'. silc_server_remove_from_channels env (Some c) notify s = Some s' \<and> ended K s s' \<and> channels_ok s' \<and>
    {k. \<exists>x. sv_chls s k = Some x \<and> cce_client x = c} \<subseteq> K \<and> leaves c K s"
proof -
  define clidp where "clidp = map_option silc_buffer_data
    (if notify then Option.bind (cl_id client) (\<lambda>i. silc_id_payload_encode (ClientID i)) else None)"
  have cp: "clidp = None \<or> (\<exists>i. id_wf (ClientID i) \<and> clidp = Some (client_bytes i))"
    using client_payload(1) assms(5) client_bytes_length by (cases "cl_id client") (force simp: clidp_def)+
  let ?s1 = "freeze_channels c s"
  have q1: "quiet s ?s1" by simp
  then have i1: "server_inv ?s1" "channels_ok ?s1"
    using quiet_inv(1) [OF q1] assms(1,2) by (simp_all add: freeze_channels_def channels_ok_same)
  have m: "members_inv {} s" using assms(1) by (simp add: server_inv_def)
  have j: "set (joined client) = {k. \<exists>x. sv_chls s k = Some x \<and> cce_client x = c}" "distinct (joined client)"
    using joined_rows [OF m assms(4)] by simp_all
  have ch1: "sv_chls ?s1 = sv_chls s" using q1 by (simp add: quiet_def)
  obtain K s2 where K: "remove_from_channels_loop env c client clidp (joined client) ?s1 = Some s2" "ended K ?s1 s2" "channels_ok s2"
    "set (joined client) \<subseteq> K" "leaves c K ?s1"
    using remove_loop_ok [OF i1 assms(3) cp j(2), of c client] j(1) ch1 by auto
  let ?s3 = "thaw_channels client c s2"
  have "ended K s ?s3" using ended_then_quiet [OF quiet_then_ended [OF q1 assms(1) K(2)] quiet_freeze(4)] .
  moreover have "silc_server_remove_from_channels env (Some c) notify s = Some ?s3"
    using assms(4) K(1) by (simp add: silc_server_remove_from_channels_def clidp_def Let_def)
  moreover have "channels_ok ?s3" using K(3) by (simp add: thaw_channels_def channels_ok_same)
  moreover have "leaves c K s" using K(5) leaves_quiet [of ?s1 s] q1 by (simp add: quiet_def)
  ultimately show ?thesis using K(4) j(1) by blast
qed

text \<open>
  Property C8. When a client leaves the network, \<^verbatim>\<open>silc_server_remove_from_channels\<close> returns and keeps
  the invariant of lists and members; then the client is on no channel, neither by its own list (which
  the destructor of the client asserts) nor by that of any channel; and everybody else stays on
  their channels, except that a normal server forgets the channels that have no local users left.
\<close>

theorem remove_from_channels_spec:
  assumes "server_inv s" "channels_ok s" "crypto_ok (le_crypto env)" "sv_clients s c = Some client"
    "\<And>i. cl_id client = Some i \<Longrightarrow> id_wf (ClientID i)"
  shows "\<exists>s' client'. silc_server_remove_from_channels env (Some c) notify s = Some s' \<and> server_inv s' \<and> channels_ok s' \<and>
    sv_clients s' c = Some client' \<and> silc_hash_table_count (cl_channels client') = 0 \<and>
    (\<forall>p channel. sv_channels s' p = Some channel \<longrightarrow> silc_hash_table_find (ch_user_list channel) c = None) \<and>
    (\<forall>k x. sv_chls s k = Some x \<and> cce_client x \<noteq> c \<and> (sv_server_type s \<noteq> SILC_SERVER \<or> local_client s (cce_client x)) \<longrightarrow>
       sv_chls s' k = Some x)"
proof -
  obtain K s' where r: "silc_server_remove_from_channels env (Some c) notify s = Some s'" and e: "ended K s s'" and ok: "channels_ok s'"
    and K: "{k. \<exists>x. sv_chls s k = Some x \<and> cce_client x = c} \<subseteq> K" "leaves c K s"
    using remove_all_ok [OF assms(1-4), of notify] assms(5) by blast
  have i: "server_inv s'" "members_inv {} s'" using ended_inv [OF e] by (simp_all add: server_inv_def)
  have "client_local s' c \<noteq> None" using e assms(4) by (simp add: ended_def client_local_def)
  then obtain client' where cl: "sv_clients s' c = Some client'" by (auto simp: client_local_def)
  have none: "cce_client x \<noteq> c" if "sv_chls s' k = Some x" for k x
    using that e K(1) by (auto simp: ended_def restrict_map_def split: if_splits)
  have n: "silc_hash_table_count (cl_channels client') = 0"
    "\<And>p ch. sv_channels s' p = Some ch \<Longrightarrow> silc_hash_table_find (ch_user_list ch) c = None"
    using no_memberships [OF i(2) cl] none by blast+
  have "sv_chls s' k = Some x" if "sv_chls s k = Some x" "cce_client x \<noteq> c"
      "sv_server_type s \<noteq> SILC_SERVER \<or> local_client s (cce_client x)" for k x
    using that e K(2) by (fastforce simp: leaves_def ended_def restrict_map_def)
  with r i(1) ok cl n show ?thesis by blast
qed

theorem remove_from_channels_spec_witness:
  "\<exists>env s s' client'. silc_server_remove_from_channels env (Some 5) True s = Some s' \<and> sv_chls s 9 \<noteq> None \<and>
    sv_clients s' 5 = Some client' \<and> silc_hash_table_count (cl_channels client') = 0"
proof -
  let ?i = "\<lparr>cid_ip = \<lparr>ip_data = replicate 16 0, ip_data_len = 4\<rparr>, cid_rnd = 1, cid_hash = replicate 11 0\<rparr>"
  fix env :: leave_env
  let ?env = "env\<lparr>le_crypto := (le_crypto env)\<lparr>cr_key_len := \<lambda>_. 256\<rparr>\<rparr>"
  obtain s client channel where s: "server_inv s" "sv_clients s = [5 \<mapsto> client]" "sv_channels s = [6 \<mapsto> channel]"
    "sv_chls s = [9 \<mapsto> \<lparr>cce_client = 5, cce_mode = 0, cce_channel = 6\<rparr>]" "cl_id client = Some ?i"
    "ch_key channel = None" "ch_invite_list channel = None"
    using one_member_state [of 0 ?i 0] by blast
  have "channels_ok s" using s(3,6,7) by (simp add: channels_ok_def channel_ok_def)
  moreover have "crypto_ok (le_crypto ?env)" by (simp add: crypto_ok_def)
  moreover have "id_wf (ClientID ?i)" by (simp add: ip_wf_def CLIENTID_HASH_LEN_def)
  ultimately obtain s' client' where "silc_server_remove_from_channels ?env (Some 5) True s = Some s'"
    "sv_clients s' 5 = Some client'" "silc_hash_table_count (cl_channels client') = 0"
    using remove_from_channels_spec [of s ?env 5 client True] s(1,2,5) by auto
  with s(4) show ?thesis by fastforce
qed

section \<open>Who is on a channel\<close>

text \<open>
  Property C11. \<^verbatim>\<open>silc_server_client_on_channel\<close> looks only at the client's list of channels; as its comment
  says, that is enough: it finds the same membership as the channel's user list, and this membership
  is the one of this client on this channel.
\<close>

theorem client_on_channel_spec:
  assumes "server_inv s" "sv_clients s c = Some client" "sv_channels s p = Some channel"
  shows "silc_server_client_on_channel (Some c) (Some p) s = map_option snd (silc_hash_table_find (ch_user_list channel) c) \<and>
    (silc_server_client_on_channel (Some c) (Some p) s = Some k \<longleftrightarrow>
      (\<exists>x. sv_chls s k = Some x \<and> cce_client x = c \<and> cce_channel x = p))"
proof -
  have m: "members_inv {} s" using assms(1) by (simp add: server_inv_def)
  have f: "silc_server_client_on_channel (Some c) (Some p) s = map_option snd (silc_hash_table_find (cl_channels client) p)"
    using assms(2) by (simp add: silc_server_client_on_channel_def)
  have iff: "map_option snd (silc_hash_table_find (cl_channels client) p) = Some j \<longleftrightarrow>
      map_option snd (silc_hash_table_find (ch_user_list channel) c) = Some j" for j
    using find_membership(1) [OF m assms(2)] find_membership(2) [OF m assms(2,3)] by simp
  then have "map_option snd (silc_hash_table_find (cl_channels client) p) = map_option snd (silc_hash_table_find (ch_user_list channel) c)"
    by (metis option.exhaust)
  with f find_membership(1) [OF m assms(2), of p k] show ?thesis by simp
qed

theorem client_on_channel_spec_witness:
  "\<exists>s channel. silc_server_client_on_channel (Some 5) (Some 6) s = Some 9 \<and> sv_channels s 6 = Some channel \<and>
    map_option snd (silc_hash_table_find (ch_user_list channel) 5) = Some 9"
proof -
  obtain s client channel where s: "server_inv s" "sv_clients s = [5 \<mapsto> client]" "sv_channels s = [6 \<mapsto> channel]"
    "sv_chls s = [9 \<mapsto> \<lparr>cce_client = 5, cce_mode = 0, cce_channel = 6\<rparr>]"
    using one_member_state [of 0 undefined 0] by blast
  then have p: "sv_clients s 5 = Some client" "sv_channels s 6 = Some channel" by simp_all
  note h = client_on_channel_spec [OF s(1) p, of 9]
  have "silc_server_client_on_channel (Some 5) (Some 6) s = Some 9" using conjunct2 [OF h] s(4) by simp
  with conjunct1 [OF h] p(2) show ?thesis by metis
qed

section \<open>One client off one channel\<close>

lemma not_on_channel:
  assumes "server_inv s" "sv_clients s c \<noteq> None" "\<And>j x. sv_chls s j = Some x \<Longrightarrow> cce_client x = c \<Longrightarrow> cce_channel x \<noteq> p"
  shows "silc_server_client_on_channel (Some c) (Some p) s = None"
proof -
  have m: "members_inv {} s" using assms(1) by (simp add: server_inv_def)
  obtain e where e: "sv_clients s c = Some e" using assms(2) by blast
  have "map_option snd (silc_hash_table_find (cl_channels e) p) \<noteq> Some j" for j
    using find_membership(1) [OF m e, of p j] assms(3) by blast
  then have "map_option snd (silc_hash_table_find (cl_channels e) p) = None" by (metis option.exhaust)
  then show ?thesis using e by (simp add: silc_server_client_on_channel_def)
qed

text \<open>What it means that memberships ended with the one of \<open>c\<close> on \<open>p\<close>.\<close>

lemma one_ended:
  assumes "server_inv s" "sv_chls s k = Some x" "cce_client x = c" "cce_channel x = p"
    "ended (insert k K) s s'" "leaves c K s" "K \<subseteq> members_of s p" "b \<longrightarrow> K = {}"
  shows "server_inv s'" "silc_server_client_on_channel (Some c) (Some p) s' = None"
    "sv_chls s j = Some y \<Longrightarrow> \<not> (cce_client y = c \<and> cce_channel y = p) \<Longrightarrow>
      b \<or> sv_server_type s \<noteq> SILC_SERVER \<or> local_client s (cce_client y) \<Longrightarrow> sv_chls s' j = Some y"
proof -
  have m: "members_inv {} s" using assms(1) by (simp add: server_inv_def)
  then have u: "memberships_unique (sv_chls s)" by (simp add: members_inv_def)
  have e: "sv_chls s' = (sv_chls s) |` (- insert k K)" using assms(5) by (simp add: ended_def)
  have "j = k" if "sv_chls s j = Some y" "cce_client y = c" "cce_channel y = p" for j y
    using that assms(2-4) u unfolding memberships_unique_def by blast
  then have n: "cce_channel y \<noteq> p" if "sv_chls s' j = Some y" "cce_client y = c" for j y
    using that by (auto simp: e restrict_map_def split: if_splits)
  obtain ec where "sv_clients s c = Some ec" using members_entries [OF m assms(2)] assms(3) by metis
  then have "client_local s' c \<noteq> None" using assms(5) by (simp add: ended_def client_local_def)
  then have "sv_clients s' c \<noteq> None" by (auto simp: client_local_def)
  then show "silc_server_client_on_channel (Some c) (Some p) s' = None" using not_on_channel [OF ended_inv [OF assms(5)]] n by blast
  show "server_inv s'" by (rule ended_inv [OF assms(5)])
  show "sv_chls s' j = Some y" if "sv_chls s j = Some y" "\<not> (cce_client y = c \<and> cce_channel y = p)"
      "b \<or> sv_server_type s \<noteq> SILC_SERVER \<or> local_client s (cce_client y)"
  proof -
    have "j \<noteq> k" using that(1,2) assms(2-4) by auto
    moreover have "j \<notin> K" using that assms(6-8) by (fastforce simp: leaves_def members_of_def)
    ultimately show ?thesis using that(1) by (simp add: e restrict_map_def)
  qed
qed

lemma remove_one_ok:
  assumes "server_inv s" "channels_ok s" "sv_channels s p = Some channel" "sv_clients s c = Some client" "cl_id client = Some i"
    "silc_hash_table_find (cl_channels client) p = Some (q, k)"
  shows "\<exists>K b s'. silc_server_remove_from_one_channel p c notify s = Some (b, s') \<and> ended (insert k K) s s' \<and> channels_ok s' \<and>
    leaves c K s \<and> K \<subseteq> members_of s p \<and> (b \<longrightarrow> K = {} \<and> sv_channels s' p \<noteq> None)"
proof -
  have m: "members_inv {} s" using assms(1) by (simp add: server_inv_def)
  obtain x where x: "sv_chls s k = Some x" "cce_client x = c" "cce_channel x = p"
    using find_membership(1) [OF m assms(4), of p k] assms(6) by auto
  show ?thesis
  proof (cases "sv_server_type s \<noteq> SILC_SERVER \<and> silc_hash_table_count (ch_user_list channel) < 2")
    case True
    with one_channel [OF assms(1,2) x assms(3)] obtain b s' where
      "silc_server_channel_delete p s = Some (b, s')" "ended {k} s s'" "channels_ok s'" by auto
    with True assms(3,4,6) show ?thesis
      by (intro exI [of _ "{}"] exI [of _ False] exI [of _ s']) (simp add: silc_server_remove_from_one_channel_def leaves_def)
  next
    case False
    then have big: "(sv_server_type s \<noteq> SILC_SERVER \<and> silc_hash_table_count (ch_user_list channel) < 2) = False" by blast
    obtain s1 where s1: "leave_channel (\<lambda>t. t = SILC_SERVER) k p c client s = Some s1" "ended {k} s s1" "sv_channels s1 p \<noteq> None"
      using leave_channel_ok [OF assms(1) x(1), of "\<lambda>t. t = SILC_SERVER" client] x(2,3) assms(3) by (metis option.distinct(1))
    have c1: "channels_ok s1" by (rule leave_channel_channels [OF s1(1) assms(2)])
    have i1: "members_inv {} s1" using ended_inv [OF s1(2)] by (simp add: server_inv_def)
    obtain e1 where e1: "sv_channels s1 p = Some e1" using s1(3) by blast
    obtain loc where loc: "silc_server_channel_has_local p s1 = Some loc" using has_any_total(1) [OF i1 e1] by auto
    let ?clidp = "silc_id_payload_encode (ClientID i)"
    let ?note = "notify_channel (notify \<and> ?clidp \<noteq> None \<and> ch_global_users e1) p SILC_NOTIFY_TYPE_LEAVE [silc_buffer_data (the ?clidp)] s1"
    show ?thesis
    proof (cases "sv_server_type s1 = SILC_SERVER \<and> \<not> loc")
      case gone: True
      let ?s2 = "emit (Ev_Task_Del (ch_rekey e1)) ?note"
      have q2: "quiet s1 ?s2" using quiet_trans [OF quiet_notify quiet_emit] .
      have c2: "channels_ok ?s2" using c1 by (simp add: channels_ok_same)
      have nl: "silc_server_channel_has_local p s1 = Some False" using gone loc by simp
      obtain K b s' where r: "silc_server_channel_delete p ?s2 = Some (b, s')" and
        K: "ended (insert k K) s s'" "channels_ok s'" "leaves c K s" "K \<subseteq> members_of s p"
        using forget_channel [OF assms(1) x s1(1) conjunct1 [OF gone] nl q2 c2] by blast
      have "silc_server_remove_from_one_channel p c notify s = Some (False, s')"
        using assms(3-6) s1(1) gone nl e1 r by (simp add: silc_server_remove_from_one_channel_def Let_def big conj_assoc)
      with K show ?thesis by blast
    next
      case stay: False
      let ?s2 = "notify_channel (notify \<and> ?clidp \<noteq> None) p SILC_NOTIFY_TYPE_LEAVE [silc_buffer_data (the ?clidp)] s1"
      have "ended {k} s ?s2" using ended_then_quiet [OF s1(2) quiet_notify] .
      moreover have "silc_server_remove_from_one_channel p c notify s = Some (True, ?s2)"
        using assms(3-6) s1(1) stay loc by (auto simp: silc_server_remove_from_one_channel_def Let_def big)
      moreover have "channels_ok ?s2" using c1 by (simp add: channels_ok_same)
      moreover have "sv_channels ?s2 p \<noteq> None" using s1(3) by (simp add: notify_channel_def emit_def)
      ultimately show ?thesis by (intro exI [of _ "{}"] exI [of _ True] exI [of _ ?s2]) (simp add: leaves_def)
    qed
  qed
qed

text \<open>
  Property C12. \<^verbatim>\<open>silc_server_remove_from_one_channel\<close> returns and keeps the invariant; the client is not on the
  channel any more and no other local client lost a membership; what is left of the channel's users stays
  when TRUE is returned, and on a router nobody else lost a membership at all.
\<close>

theorem remove_from_one_channel_spec:
  assumes "server_inv s" "channels_ok s" "sv_channels s p = Some channel" "sv_clients s c = Some client"
    "cl_id client = Some i"
  shows "\<exists>b s'. silc_server_remove_from_one_channel p c notify s = Some (b, s') \<and> server_inv s' \<and> channels_ok s' \<and>
    silc_server_client_on_channel (Some c) (Some p) s' = None \<and> (b \<longrightarrow> sv_channels s' p \<noteq> None) \<and>
    (\<forall>k x. sv_chls s k = Some x \<and> \<not> (cce_client x = c \<and> cce_channel x = p) \<and>
       (b \<or> sv_server_type s \<noteq> SILC_SERVER \<or> local_client s (cce_client x)) \<longrightarrow> sv_chls s' k = Some x)"
proof (cases "silc_hash_table_find (cl_channels client) p")
  case None
  have m: "members_inv {} s" using assms(1) by (simp add: server_inv_def)
  from None assms(4) have "silc_server_client_on_channel (Some c) (Some p) s = None" by (simp add: silc_server_client_on_channel_def)
  with None assms show ?thesis by (auto simp: silc_server_remove_from_one_channel_def)
next
  case (Some f)
  obtain q k where f: "f = (q, k)" by (cases f)
  have m: "members_inv {} s" using assms(1) by (simp add: server_inv_def)
  obtain x where x: "sv_chls s k = Some x" "cce_client x = c" "cce_channel x = p"
    using find_membership(1) [OF m assms(4), of p k] Some f by auto
  obtain K b s' where K: "silc_server_remove_from_one_channel p c notify s = Some (b, s')" "ended (insert k K) s s'" "channels_ok s'"
    "leaves c K s" "K \<subseteq> members_of s p" "b \<longrightarrow> K = {}" "b \<longrightarrow> sv_channels s' p \<noteq> None"
    using remove_one_ok [OF assms(1-5) Some [unfolded f], of notify] by blast
  note o = one_ended [OF assms(1) x K(2,4,5,6)]
  show ?thesis by (intro exI [of _ b] exI [of _ s'] conjI allI impI) (use K(1,3,7) o in blast)+
qed

theorem remove_from_one_channel_spec_witness:
  "\<exists>s b s'. silc_server_remove_from_one_channel 6 5 True s = Some (b, s') \<and>
    silc_server_client_on_channel (Some 5) (Some 6) s' = None \<and> sv_chls s 9 \<noteq> None"
proof -
  fix i
  obtain s client channel where s: "server_inv s" "sv_clients s = [5 \<mapsto> client]" "sv_channels s = [6 \<mapsto> channel]"
    "sv_chls s = [9 \<mapsto> \<lparr>cce_client = 5, cce_mode = 0, cce_channel = 6\<rparr>]" "cl_id client = Some i"
    "ch_key channel = None" "ch_invite_list channel = None"
    using one_member_state [of 0 i 0] by blast
  have "channels_ok s" using s(3,6,7) by (simp add: channels_ok_def channel_ok_def)
  then obtain b s' where "silc_server_remove_from_one_channel 6 5 True s = Some (b, s')"
    "silc_server_client_on_channel (Some 5) (Some 6) s' = None"
    using remove_from_one_channel_spec [of s 6 channel 5 client i True] s(1-3,5) by auto
  with s(4) show ?thesis by fastforce
qed

end
