(* ===== verification/Silc_Auth.thy ===== *)
theory Silc_Auth
  imports Silc_Id Silc_Utf8
begin

text \<open>
  Authentication Payloads and Key Agreement Payloads, \<^verbatim>\<open>lib/silccore/silcauth.c\<close>, and Public Key
  Payloads, \<^verbatim>\<open>lib/silccore/silcpubkey.c\<close>.  Public keys are addresses; what the PKCS library does with
  them is a parameter.
\<close>

section \<open>Public Key Payload\<close>

text \<open>The library: the type of a key, its encoding and decoding, comparison, signatures, and the digest that keys are found by.\<close>

record pkcs_env =
  pk_type :: "u64 \<Rightarrow> u16"
  pk_encode :: "u64 \<Rightarrow> byte list option"
  pk_alloc :: "u16 \<Rightarrow> byte list \<Rightarrow> u64 option"
  pk_compare :: "u64 \<Rightarrow> u64 \<Rightarrow> bool"
  pk_sign :: "u64 \<Rightarrow> byte list \<Rightarrow> byte list option"
  pk_verify :: "u64 \<Rightarrow> byte list \<Rightarrow> byte list \<Rightarrow> bool"    \<comment> \<open>key, signature, data\<close>
  pk_sha1 :: "byte list \<Rightarrow> byte list"

abbreviation SILC_PKCS_SILC :: u16 where "SILC_PKCS_SILC \<equiv> 1"
abbreviation SILC_PKCS_SPKI :: u16 where "SILC_PKCS_SPKI \<equiv> 5"

definition silc_public_key_payload_encode :: "pkcs_env \<Rightarrow> u64 option \<Rightarrow> silc_buffer option" where
  "silc_public_key_payload_encode env key =
     (case key of None \<Rightarrow> None
      | Some key \<Rightarrow>
          (case pk_encode env key of None \<Rightarrow> None
           | Some pk \<Rightarrow>
               map_option (\<lambda>buffer. bufformat buffer
                   [SILC_PARAM_UI16_SHORT (of_nat (length pk)), SILC_PARAM_UI16_SHORT (pk_type env key),
                    SILC_PARAM_DATA (Some pk) (of_nat (length pk))])
                 (silc_buffer_alloc_size ((4 + length pk) mod 2 ^ 32))))"

definition silc_public_key_payload_decode :: "pkcs_env \<Rightarrow> byte list \<Rightarrow> u64 option" where
  "silc_public_key_payload_decode env data =
     (case unformat (silc_buffer_set data) [U_ADVANCE, U_UI16_SHORT, U_UI16_SHORT] of
        Some (ret, [VU16 pk_len, VU16 ptype], buf) \<Rightarrow>
          if ret < 0 \<or> unat pk_len > length data - 4 then None
          else if ptype < SILC_PKCS_SILC \<or> ptype > SILC_PKCS_SPKI then None
          else
            (case unformat buf [U_DATA (ucast pk_len)] of
               Some (ret, [VData pk], buf) \<Rightarrow>
                 if ret < 0 then None else pk_alloc env ptype (case pk of None \<Rightarrow> [] | Some pk \<Rightarrow> pk)
             | _ \<Rightarrow> None)
      | _ \<Rightarrow> None)"

section \<open>Authentication Payload\<close>

abbreviation SILC_AUTH_NONE :: u16 where "SILC_AUTH_NONE \<equiv> 0"
abbreviation SILC_AUTH_PASSWORD :: u16 where "SILC_AUTH_PASSWORD \<equiv> 1"
abbreviation SILC_AUTH_PUBLIC_KEY :: u16 where "SILC_AUTH_PUBLIC_KEY \<equiv> 2"

record silc_auth_payload =
  au_len :: u16
  au_auth_method :: u16
  au_random_len :: u16
  au_random_data :: "byte list option"
  au_auth_len :: u16
  au_auth_data :: "byte list option"

definition silc_auth_payload_parse :: "byte list \<Rightarrow> silc_auth_payload option" where
  "silc_auth_payload_parse data =
     (case unformat (silc_buffer_set data) [U_UI16_SHORT, U_UI16_SHORT, U_UI16_NSTRING_ALLOC, U_UI16_NSTRING_ALLOC] of
        Some (ret, [VU16 len, VU16 method, VNString random random_len, VNString auth auth_len], buffer) \<Rightarrow>
          if ret = -1 then None
          else if unat len \<noteq> silc_buffer_len buffer \<or> random_len + auth_len > silc_buffer_len buffer - 8 then None
          else if auth_len < 1 then None
          else if method = SILC_AUTH_PASSWORD \<and> random_len \<noteq> 0 then None
          else if method = SILC_AUTH_PUBLIC_KEY \<and> random_len < 128 then None
          else Some \<lparr>au_len = len, au_auth_method = method, au_random_len = of_nat random_len, au_random_data = random,
                     au_auth_len = of_nat auth_len, au_auth_data = auth\<rparr>
      | _ \<Rightarrow> None)"

text \<open>A passphrase that is not UTF-8 is encoded first; the length of the encoding is cut to 16 bits.\<close>

definition silc_auth_payload_encode :: "u16 \<Rightarrow> byte list option \<Rightarrow> u16 \<Rightarrow> byte list \<Rightarrow> u16 \<Rightarrow> silc_buffer option" where
  "silc_auth_payload_encode method random_data random_len auth_data auth_len =
     (let auth = take (unat auth_len) auth_data in
      case (if method = SILC_AUTH_PASSWORD \<and> \<not> silc_utf8_valid auth then
              let autf8_len = silc_utf8_encoded_len (\<lambda>_ _. None) (\<lambda>_. None) auth SILC_STRING_ASCII in
              if autf8_len = 0 then None
              else
                (case silc_utf8_encode (\<lambda>_ _. None) (\<lambda>_. None) auth SILC_STRING_ASCII (Some autf8_len) of
                   (n, autf8) \<Rightarrow> Some (autf8, of_nat n))
            else Some (auth_data, auth_len)) of
        None \<Rightarrow> None
      | Some (auth_data, auth_len :: u16) \<Rightarrow>
          let len = 2 + 2 + 2 + unat random_len + 2 + unat auth_len in
          map_option (\<lambda>buffer. bufformat buffer
              [SILC_PARAM_UI16_SHORT (of_nat len), SILC_PARAM_UI16_SHORT method, SILC_PARAM_UI16_SHORT random_len,
               SILC_PARAM_DATA random_data (ucast random_len), SILC_PARAM_UI16_SHORT auth_len,
               SILC_PARAM_DATA (Some auth_data) (ucast auth_len)])
            (silc_buffer_alloc_size len))"

section \<open>Authentication\<close>

definition silc_auth_public_key_encode_data :: "pkcs_env \<Rightarrow> u64 \<Rightarrow> byte list \<Rightarrow> silc_id \<Rightarrow> byte list option" where
  "silc_auth_public_key_encode_data env key randomdata i =
     (case pk_encode env key of None \<Rightarrow> None
      | Some pk \<Rightarrow>
          (case silc_id_id2str i 32 of None \<Rightarrow> None
           | Some id_data \<Rightarrow>
               map_option (\<lambda>buf. silc_buffer_data (bufformat buf
                   [SILC_PARAM_DATA (Some randomdata) (of_nat (length randomdata)),
                    SILC_PARAM_DATA (Some id_data) (of_nat (length id_data)), SILC_PARAM_DATA (Some pk) (of_nat (length pk))]))
                 (silc_buffer_alloc_size ((length randomdata + length id_data + length pk) mod 2 ^ 32))))"

definition silc_auth_public_key_auth_generate_wpub ::
  "pkcs_env \<Rightarrow> u64 \<Rightarrow> u64 \<Rightarrow> byte list \<Rightarrow> silc_id \<Rightarrow> silc_buffer option" where
  "silc_auth_public_key_auth_generate_wpub env key private_key pubdata i =
     (case silc_auth_public_key_encode_data env key pubdata i of None \<Rightarrow> None
      | Some tmp \<Rightarrow>
          (case pk_sign env private_key tmp of None \<Rightarrow> None
           | Some auth_data \<Rightarrow>
               if length auth_data > 2048 then None
               else silc_auth_payload_encode SILC_AUTH_PUBLIC_KEY (Some pubdata) (of_nat (length pubdata))
                 auth_data (of_nat (length auth_data))))"

text \<open>The random data are those that the generator gives for 256 bytes.\<close>

definition silc_auth_public_key_auth_generate ::
  "pkcs_env \<Rightarrow> u64 \<Rightarrow> u64 \<Rightarrow> byte list option \<Rightarrow> silc_id \<Rightarrow> silc_buffer option" where
  "silc_auth_public_key_auth_generate env key private_key rng i =
     (case rng of None \<Rightarrow> None
      | Some randomdata \<Rightarrow> silc_auth_public_key_auth_generate_wpub env key private_key (take 256 randomdata) i)"

definition au_bytes :: "byte list option \<Rightarrow> u16 \<Rightarrow> byte list" where
  "au_bytes d n = (case d of None \<Rightarrow> [] | Some d \<Rightarrow> take (unat n) d)"

definition silc_auth_public_key_auth_verify :: "pkcs_env \<Rightarrow> silc_auth_payload \<Rightarrow> u64 \<Rightarrow> silc_id \<Rightarrow> bool" where
  "silc_auth_public_key_auth_verify env payload key i =
     (case silc_auth_public_key_encode_data env key (au_bytes (au_random_data payload) (au_random_len payload)) i of
        None \<Rightarrow> False
      | Some tmp \<Rightarrow> pk_verify env key (au_bytes (au_auth_data payload) (au_auth_len payload)) tmp)"

definition silc_auth_public_key_auth_verify_data :: "pkcs_env \<Rightarrow> byte list \<Rightarrow> u64 \<Rightarrow> silc_id \<Rightarrow> bool" where
  "silc_auth_public_key_auth_verify_data env payload key i =
     (case silc_auth_payload_parse payload of None \<Rightarrow> False
      | Some auth_payload \<Rightarrow> silc_auth_public_key_auth_verify env auth_payload key i)"

text \<open>
  What to verify with: a passphrase and its length, or a public key.  \<open>None\<close> is a use of one as
  the other, or a read beyond the passphrase.
\<close>

datatype auth_secret = Passphrase "byte list option" u32 | Key u64

definition silc_auth_verify :: "pkcs_env \<Rightarrow> silc_auth_payload option \<Rightarrow> u16 \<Rightarrow> auth_secret \<Rightarrow> silc_id \<Rightarrow> bool option" where
  "silc_auth_verify env payload auth_method auth_data i =
     (case payload of None \<Rightarrow> Some False
      | Some payload \<Rightarrow>
          if auth_method \<noteq> au_auth_method payload then Some False
          else if auth_method = SILC_AUTH_NONE then Some True
          else if auth_method = SILC_AUTH_PASSWORD then
            (case auth_data of
               Passphrase None auth_data_len \<Rightarrow> Some False
             | Passphrase (Some pass) auth_data_len \<Rightarrow>
                 if au_auth_len payload = 0 \<or> ucast (au_auth_len payload) \<noteq> auth_data_len then Some False
                 else if unat auth_data_len > length pass then None
                 else Some (au_bytes (au_auth_data payload) (au_auth_len payload) = take (unat auth_data_len) pass)
             | Key _ \<Rightarrow> None)
          else if auth_method = SILC_AUTH_PUBLIC_KEY then
            (case auth_data of Key key \<Rightarrow> Some (silc_auth_public_key_auth_verify env payload key i) | _ \<Rightarrow> None)
          else Some False)"

definition silc_auth_verify_data :: "pkcs_env \<Rightarrow> byte list \<Rightarrow> u16 \<Rightarrow> auth_secret \<Rightarrow> silc_id \<Rightarrow> bool option" where
  "silc_auth_verify_data env payload auth_method auth_data i =
     (case silc_auth_payload_parse payload of None \<Rightarrow> Some False
      | Some auth_payload \<Rightarrow>
          if au_auth_len auth_payload = 0 then Some False
          else silc_auth_verify env (Some auth_payload) auth_method auth_data i)"

section \<open>Key Agreement Payload\<close>

record silc_key_agreement_payload =
  ka_hostname_len :: u16
  ka_hostname :: "byte list option"
  ka_protocol :: u16
  ka_port :: u16

definition silc_key_agreement_payload_parse :: "byte list \<Rightarrow> silc_key_agreement_payload option" where
  "silc_key_agreement_payload_parse payload =
     (case unformat (silc_buffer_set payload) [U_UI16_NSTRING_ALLOC, U_UI16_SHORT, U_UI16_SHORT] of
        Some (ret, [VNString hostname hostname_len, VU16 protocol, VU16 port], buffer) \<Rightarrow>
          if ret = -1 \<or> hostname_len > silc_buffer_len buffer - 6 then None
          else Some \<lparr>ka_hostname_len = of_nat hostname_len, ka_hostname = hostname, ka_protocol = protocol, ka_port = port\<rparr>
      | _ \<Rightarrow> None)"

definition silc_key_agreement_payload_encode :: "byte list option \<Rightarrow> u16 \<Rightarrow> u16 \<Rightarrow> silc_buffer option" where
  "silc_key_agreement_payload_encode hostname protocol port =
     (let len = (case hostname of None \<Rightarrow> 0 | Some h \<Rightarrow> strlen h) in
      map_option (\<lambda>buffer. bufformat buffer
          [SILC_PARAM_UI16_SHORT (of_nat len), SILC_PARAM_DATA hostname (of_nat len), SILC_PARAM_UI16_SHORT protocol,
           SILC_PARAM_UI16_SHORT port])
        (silc_buffer_alloc_size ((2 + len + 4) mod 2 ^ 32)))"

section \<open>The wire format of Authentication Payloads\<close>

text \<open>
  A payload with method \<open>m\<close>, random data \<open>r\<close>, authentication data \<open>a\<close> and further bytes \<open>z\<close>, which the parser
  takes when the length counts them and which nothing reads.
\<close>

definition auth_bytes :: "u16 \<Rightarrow> byte list \<Rightarrow> byte list \<Rightarrow> byte list \<Rightarrow> byte list" where
  "auth_bytes m r a z =
     SILC_PUT16_MSB (of_nat (8 + length r + length a + length z)) @ SILC_PUT16_MSB m @ nstr16 r @ nstr16 a @ z"

definition auth_of :: "u16 \<Rightarrow> byte list \<Rightarrow> byte list \<Rightarrow> byte list \<Rightarrow> silc_auth_payload" where
  "auth_of m r a z = \<lparr>au_len = of_nat (8 + length r + length a + length z), au_auth_method = m, au_random_len = of_nat (length r),
     au_random_data = ptr_of r, au_auth_len = of_nat (length a), au_auth_data = ptr_of a\<rparr>"

definition auth_ok :: "u16 \<Rightarrow> byte list \<Rightarrow> byte list \<Rightarrow> byte list \<Rightarrow> bool" where
  "auth_ok m r a z \<longleftrightarrow> a \<noteq> [] \<and> 8 + length r + length a + length z < 65536 \<and> (m = SILC_AUTH_PASSWORD \<longrightarrow> r = []) \<and>
     (m = SILC_AUTH_PUBLIC_KEY \<longrightarrow> 128 \<le> length r)"

lemma auth_bytes_length [simp]: "length (auth_bytes m r a z) = 8 + length r + length a + length z"
  by (simp add: auth_bytes_def)

lemma bparse_auth:
  assumes "length r < 65536" "length a < 65536"
  shows "bparse [U_UI16_SHORT, U_UI16_SHORT, U_UI16_NSTRING_ALLOC, U_UI16_NSTRING_ALLOC]
      (SILC_PUT16_MSB l @ SILC_PUT16_MSB m @ nstr16 r @ nstr16 a @ z) =
    Some ([VU16 l, VU16 m, VNString (ptr_of r) (length r), VNString (ptr_of a) (length a)], length r + length a + 8)"
  using assms by (simp add: bparse1_u16 bparse1_nstr16 del: bparse1.simps)

lemma bparse_authD:
  assumes "bparse [U_UI16_SHORT, U_UI16_SHORT, U_UI16_NSTRING_ALLOC, U_UI16_NSTRING_ALLOC] d = Some x"
  obtains l m r a z where "d = SILC_PUT16_MSB l @ SILC_PUT16_MSB m @ nstr16 r @ nstr16 a @ z"
    "length r < 65536" "length a < 65536"
proof -
  obtain x1 v1 n1 where p1: "bparse1 U_UI16_SHORT d = Some (v1, n1)"
    "bparse [U_UI16_SHORT, U_UI16_NSTRING_ALLOC, U_UI16_NSTRING_ALLOC] (drop n1 d) = Some x1" by (rule bparse_ConsD [OF assms])
  from bparse1_u16D [OF p1(1)] obtain l d1 where d: "d = SILC_PUT16_MSB l @ d1" .
  then have "n1 = 2" using p1(1) by (simp add: bparse1_u16 del: bparse1.simps)
  with p1(2) d have "bparse [U_UI16_SHORT, U_UI16_NSTRING_ALLOC, U_UI16_NSTRING_ALLOC] d1 = Some x1" by (simp del: bparse.simps)
  then obtain x2 v2 n2 where p2: "bparse1 U_UI16_SHORT d1 = Some (v2, n2)"
    "bparse [U_UI16_NSTRING_ALLOC, U_UI16_NSTRING_ALLOC] (drop n2 d1) = Some x2" by (rule bparse_ConsD)
  from bparse1_u16D [OF p2(1)] obtain m d2 where d1: "d1 = SILC_PUT16_MSB m @ d2" .
  then have "n2 = 2" using p2(1) by (simp add: bparse1_u16 del: bparse1.simps)
  with p2(2) d1 have "bparse [U_UI16_NSTRING_ALLOC, U_UI16_NSTRING_ALLOC] d2 = Some x2" by (simp del: bparse.simps)
  then obtain x3 v3 n3 where p3: "bparse1 U_UI16_NSTRING_ALLOC d2 = Some (v3, n3)"
    "bparse [U_UI16_NSTRING_ALLOC] (drop n3 d2) = Some x3" by (rule bparse_ConsD)
  from bparse1_nstr16D [OF p3(1)] obtain r d3 where d2: "d2 = nstr16 r @ d3" "length r < 65536" .
  then have "n3 = 2 + length r" using p3(1) by (simp add: bparse1_nstr16 del: bparse1.simps)
  with p3(2) d2 have "bparse [U_UI16_NSTRING_ALLOC] d3 = Some x3" by (simp del: bparse.simps)
  then obtain x4 where "bparse1 U_UI16_NSTRING_ALLOC d3 = Some x4" by (rule bparse_ConsD)
  from bparse1_nstr16D [OF this] obtain a z where "d3 = nstr16 a @ z" "length a < 65536" .
  with d d1 d2 show ?thesis by (intro that [of l m r a z]) simp_all
qed

lemma auth_parse_bytes:
  assumes "length b < 2 ^ 32 - 1"
  shows "silc_auth_payload_parse b = Some p \<longleftrightarrow> (\<exists>m r a z. auth_ok m r a z \<and> b = auth_bytes m r a z \<and> p = auth_of m r a z)"
    (is "?L \<longleftrightarrow> ?R")
proof
  assume ?L
  let ?ps = "[U_UI16_SHORT, U_UI16_SHORT, U_UI16_NSTRING_ALLOC, U_UI16_NSTRING_ALLOC]"
  from \<open>?L\<close> obtain x where "bparse ?ps b = Some x"
    using assms by (auto simp: silc_auth_payload_parse_def unformat_set simp del: bparse.simps split: option.splits)
  then obtain l m r a z where b: "b = SILC_PUT16_MSB l @ SILC_PUT16_MSB m @ nstr16 r @ nstr16 a @ z"
    "length r < 65536" "length a < 65536" by (rule bparse_authD)
  have len: "length b = 8 + length r + length a + length z" by (simp add: b)
  have l: "unat l = 8 + length r + length a + length z"
    using \<open>?L\<close> assms bparse_auth [OF b(2,3), of l m z]
    by (simp add: silc_auth_payload_parse_def unformat_set b(1) del: bparse.simps split: if_splits)
  then have l': "l = of_nat (8 + length r + length a + length z)" by (metis of_nat_unat ucast_id)
  have "8 + length r + length a + length z < 65536" using unsigned_less [of l, where 'a = nat] l by simp
  moreover have "a \<noteq> []" "m = SILC_AUTH_PASSWORD \<Longrightarrow> r = []" "m = SILC_AUTH_PUBLIC_KEY \<Longrightarrow> 128 \<le> length r"
    using \<open>?L\<close> assms bparse_auth [OF b(2,3), of l m z]
    by (auto simp: silc_auth_payload_parse_def unformat_set b(1) simp del: bparse.simps split: if_splits)
  ultimately have ok: "auth_ok m r a z" by (simp add: auth_ok_def)
  moreover have "p = auth_of m r a z"
    using \<open>?L\<close> assms bparse_auth [OF b(2,3), of l m z] l l'
    by (simp add: silc_auth_payload_parse_def unformat_set b(1) auth_of_def del: bparse.simps split: if_splits)
  moreover have "b = auth_bytes m r a z" using b(1) l' by (simp add: auth_bytes_def)
  ultimately show ?R by blast
next
  assume ?R
  then obtain m r a z where *: "auth_ok m r a z" "b = auth_bytes m r a z" "p = auth_of m r a z" by blast
  then have n: "8 + length r + length a + length z < 65536" by (simp add: auth_ok_def)
  then have l: "length r < 65536" "length a < 65536" by simp_all
  have u: "unat (of_nat k :: u16) = k" if "k < 65536" for k using that by (simp add: unat_of_nat)
  note l = l u [OF n]
  show ?L
    using * assms l bparse_auth [OF l(1,2), of "of_nat (8 + length r + length a + length z)" m z]
    by (auto simp: silc_auth_payload_parse_def unformat_set auth_bytes_def auth_ok_def auth_of_def Suc_le_eq simp del: bparse.simps)
qed

lemma auth_encode_bytes:
  assumes "auth_ok m r a []" "m = SILC_AUTH_PASSWORD \<Longrightarrow> silc_utf8_valid a"
  shows "silc_auth_payload_encode m (Some r) (of_nat (length r)) a (of_nat (length a)) = Some (silc_buffer_set (auth_bytes m r a []))"
proof -
  have l: "length r < 65536" "length a < 65536" "8 + length r + length a < 65536" using assms(1) by (auto simp: auth_ok_def)
  have u: "unat (of_nat (length r) :: u16) = length r" "unat (of_nat (length a) :: u16) = length a"
    "unat (of_nat (length r) :: u32) = length r" "unat (of_nat (length a) :: u32) = length a"
    using l by (simp_all add: unat_of_nat)
  let ?n = "2 + 2 + 2 + length r + 2 + length a"
  let ?ps = "[SILC_PARAM_UI16_SHORT (of_nat ?n), SILC_PARAM_UI16_SHORT m, SILC_PARAM_UI16_SHORT (of_nat (length r)),
    SILC_PARAM_DATA (Some r) (ucast (of_nat (length r) :: u16)), SILC_PARAM_UI16_SHORT (of_nat (length a)),
    SILC_PARAM_DATA (Some a) (ucast (of_nat (length a) :: u16))]"
  have b: "\<forall>p \<in> set ?ps. fmt_plain p" "concat (map fmt_bytes ?ps) = auth_bytes m r a []"
    using u by (simp_all add: nstr16_def auth_bytes_def)
  have sz: "?n < SILC_MAX_ALLOC" using l by (simp add: SILC_MAX_ALLOC_def)
  have "bufformat \<lparr>bmem = replicate ?n 0, bdata = 0, btail = ?n\<rparr> ?ps = silc_buffer_set (auth_bytes m r a [])"
    using bufformat_fresh [OF b(1) _ sz] unfolding b(2) by simp
  then show ?thesis
    using assms(2) u alloc_size_ok [OF sz] unfolding silc_auth_payload_encode_def by (auto simp: Let_def)
qed

section \<open>What is accepted\<close>

lemma auth_of_data:
  assumes "auth_ok m r a z"
  shows "au_bytes (au_random_data (auth_of m r a z)) (au_random_len (auth_of m r a z)) = r"
    "au_bytes (au_auth_data (auth_of m r a z)) (au_auth_len (auth_of m r a z)) = a"
    "au_auth_method (auth_of m r a z) = m" "unat (au_auth_len (auth_of m r a z)) = length a"
  using assms by (auto simp: auth_ok_def auth_of_def au_bytes_def ptr_of_def unat_of_nat)

lemma encode_data_bytes:
  assumes "id_wf i" "pk_encode env key = Some pk" "length r < 65536" "length pk < 65536" "silc_id_id2str i 32 = Some d"
  shows "silc_auth_public_key_encode_data env key r i = Some (r @ d @ pk)"
proof -
  have "length d \<le> 28" using id2str_length [OF assms(1,5)] get_len_bounds [OF assms(1)] by auto
  then have u: "unat (of_nat (length r) :: u32) = length r" "unat (of_nat (length d) :: u32) = length d"
      "unat (of_nat (length pk) :: u32) = length pk" and n: "length r + length d + length pk < SILC_MAX_ALLOC"
    using assms(3,4) by (simp_all add: unat_of_nat SILC_MAX_ALLOC_def)
  let ?n = "length r + length d + length pk"
  let ?ps = "[SILC_PARAM_DATA (Some r) (of_nat (length r)), SILC_PARAM_DATA (Some d) (of_nat (length d)),
    SILC_PARAM_DATA (Some pk) (of_nat (length pk))]"
  have b: "\<forall>p \<in> set ?ps. fmt_plain p" "concat (map fmt_bytes ?ps) = r @ d @ pk" using u by simp_all
  have "bufformat \<lparr>bmem = replicate ?n 0, bdata = 0, btail = ?n\<rparr> ?ps = silc_buffer_set (r @ d @ pk)"
    using bufformat_fresh [OF b(1) _ n] unfolding b(2) by simp
  moreover have "?n mod 2 ^ 32 = ?n" using n by (simp add: SILC_MAX_ALLOC_def)
  moreover have "length (r @ d @ pk) < 2 ^ 32 - 1" using n by (simp add: SILC_MAX_ALLOC_def)
  ultimately show ?thesis
    using assms(2,5) alloc_size_ok [OF n] by (simp add: silc_auth_public_key_encode_data_def)
qed

lemma auth_parse_of: "auth_ok m r a z \<Longrightarrow> silc_auth_payload_parse (auth_bytes m r a z) = Some (auth_of m r a z)"
  using auth_parse_bytes [of "auth_bytes m r a z"] by (auto simp: auth_ok_def)

lemma auth_bytes_inj:
  assumes "auth_ok m r a z" "auth_ok m' r' a' z'" "auth_bytes m r a z = auth_bytes m' r' a' z'"
  shows "m = m'" "r = r'" "a = a'" "z = z'"
proof -
  have eq: "auth_of m r a z = auth_of m' r' a' z'" using auth_parse_of assms by (metis option.inject)
  then show "m = m'" "r = r'" "a = a'" using auth_of_data [OF assms(1)] auth_of_data [OF assms(2)] by metis+
  then show "z = z'" using assms(3) arg_cong [OF assms(3), of length] by (simp add: auth_bytes_def)
qed

lemma verify_parsed:
  assumes "length b < 2 ^ 32 - 1"
    and that: "\<And>r a z. auth_ok m r a z \<Longrightarrow> silc_auth_verify env (Some (auth_of m r a z)) m secret i = Some (P r a)"
  shows "silc_auth_verify_data env b m secret i = Some (\<exists>r a z. auth_ok m r a z \<and> b = auth_bytes m r a z \<and> P r a)"
proof (cases "silc_auth_payload_parse b")
  case None
  then show ?thesis using auth_parse_of by (auto simp: silc_auth_verify_data_def)
next
  case (Some p)
  then obtain n r a z where p: "auth_ok n r a z" "b = auth_bytes n r a z" "p = auth_of n r a z"
    using auth_parse_bytes [OF assms(1)] by blast
  have "unat (au_auth_len p) \<noteq> 0" using p auth_of_data(4) [OF p(1)] by (auto simp: auth_ok_def)
  then have v: "silc_auth_verify_data env b m secret i = silc_auth_verify env (Some p) m secret i"
    using Some by (auto simp: silc_auth_verify_data_def)
  show ?thesis
  proof (cases "n = m")
    case True
    have "(\<exists>r' a' z'. auth_ok m r' a' z' \<and> b = auth_bytes m r' a' z' \<and> P r' a') = P r a"
    proof
      assume "\<exists>r' a' z'. auth_ok m r' a' z' \<and> b = auth_bytes m r' a' z' \<and> P r' a'"
      then obtain r' a' z' where "auth_ok m r' a' z'" "auth_bytes n r a z = auth_bytes m r' a' z'" "P r' a'" unfolding p(2) by auto
      then show "P r a" using auth_bytes_inj(2,3) [OF p(1)] by blast
    qed (use True p in blast)
    then show ?thesis using v that [of r a z] True p(1,3) by simp
  next
    case False
    moreover have "silc_auth_verify env (Some p) m secret i = Some False"
      using False auth_of_data(3) [OF p(1)] p(3) by (simp add: silc_auth_verify_def)
    ultimately show ?thesis using v p(2) auth_bytes_inj(1) [OF p(1)] by auto
  qed
qed

text \<open>
  Property C30. What authenticates.  A passphrase is accepted exactly for a payload that carries this passphrase,
  and a public key exactly for one that carries at least 128 bytes of random data and a signature of these,
  the ID and the key itself.  The call never compares beyond the passphrase.
\<close>

theorem auth_verify_iff:
  assumes "length b < 2 ^ 32 - 1" "id_wf i" "silc_id_id2str i 32 = Some d" "pk_encode env key = Some pk" "length pk < 65536"
    "length pass < 65536"
  shows "silc_auth_verify_data env b SILC_AUTH_PASSWORD (Passphrase (Some pass) (of_nat (length pass))) i =
      Some (\<exists>z. pass \<noteq> [] \<and> length pass + length z < 65528 \<and> b = auth_bytes SILC_AUTH_PASSWORD [] pass z) \<and>
    silc_auth_verify_data env b SILC_AUTH_PUBLIC_KEY (Key key) i =
      Some (\<exists>r a z. auth_ok SILC_AUTH_PUBLIC_KEY r a z \<and> b = auth_bytes SILC_AUTH_PUBLIC_KEY r a z \<and> pk_verify env key a (r @ d @ pk))"
proof
  have "silc_auth_verify env (Some (auth_of 1 r a z)) SILC_AUTH_PASSWORD (Passphrase (Some pass) (of_nat (length pass))) i = Some (a = pass)"
    if ok: "auth_ok SILC_AUTH_PASSWORD r a z" for r a z
  proof -
    note d = auth_of_data [OF ok]
    have n: "(ucast (au_auth_len (auth_of 1 r a z)) = (of_nat (length pass) :: u32)) = (length a = length pass)"
      using d(4) assms(6) ok by (auto simp: auth_ok_def auth_of_def unat_of_nat word_unat_eq_iff)
    have "au_auth_len (auth_of 1 r a z) \<noteq> 0" using d(4) ok by (auto simp: auth_ok_def)
    with d(2,3) n assms(6) show ?thesis by (auto simp: silc_auth_verify_def unat_of_nat)
  qed
  note v = verify_parsed [OF assms(1) this]
  have "(\<exists>r a z. auth_ok SILC_AUTH_PASSWORD r a z \<and> b = auth_bytes SILC_AUTH_PASSWORD r a z \<and> a = pass) \<longleftrightarrow>
      (\<exists>z. pass \<noteq> [] \<and> length pass + length z < 65528 \<and> b = auth_bytes SILC_AUTH_PASSWORD [] pass z)"
    (is "?A \<longleftrightarrow> ?B")
  proof
    assume ?B
    then show ?A by - (rule exI [of _ "[]"], rule exI [of _ pass], auto simp: auth_ok_def)
  qed (auto simp: auth_ok_def)
  with v show "silc_auth_verify_data env b SILC_AUTH_PASSWORD (Passphrase (Some pass) (of_nat (length pass))) i =
      Some (\<exists>z. pass \<noteq> [] \<and> length pass + length z < 65528 \<and> b = auth_bytes SILC_AUTH_PASSWORD [] pass z)"
    by simp
  have "silc_auth_verify env (Some (auth_of 2 r a z)) SILC_AUTH_PUBLIC_KEY (Key key) i = Some (pk_verify env key a (r @ d @ pk))"
    if ok: "auth_ok SILC_AUTH_PUBLIC_KEY r a z" for r a z
    using auth_of_data [OF ok] encode_data_bytes [OF assms(2,4) _ assms(5,3), of r] ok
    by (auto simp: silc_auth_verify_def silc_auth_public_key_auth_verify_def auth_ok_def)
  from verify_parsed [OF assms(1) this]
  show "silc_auth_verify_data env b SILC_AUTH_PUBLIC_KEY (Key key) i =
      Some (\<exists>r a z. auth_ok SILC_AUTH_PUBLIC_KEY r a z \<and> b = auth_bytes SILC_AUTH_PUBLIC_KEY r a z \<and> pk_verify env key a (r @ d @ pk))"
    by blast
qed

theorem auth_verify_iff_witness:
  "\<exists>env d. silc_id_id2str (ServerID \<lparr>sid_ip = \<lparr>ip_data = replicate 16 0, ip_data_len = 4\<rparr>, sid_port = 1, sid_rnd = 2\<rparr>) 32 = Some d \<and>
    silc_auth_verify_data env [0, 10, 0, 1, 0, 0, 0, 2, 112, 113] SILC_AUTH_PASSWORD (Passphrase (Some [112, 113]) 2)
      (ServerID \<lparr>sid_ip = \<lparr>ip_data = replicate 16 0, ip_data_len = 4\<rparr>, sid_port = 1, sid_rnd = 2\<rparr>) = Some True"
proof -
  let ?i = "ServerID \<lparr>sid_ip = \<lparr>ip_data = replicate 16 0, ip_data_len = 4\<rparr>, sid_port = 1, sid_rnd = 2\<rparr>"
  let ?env = "\<lparr>pk_type = \<lambda>_. 1, pk_encode = \<lambda>_. Some [7], pk_alloc = \<lambda>_ _. None, pk_compare = (=), pk_sign = \<lambda>_ _. None,
    pk_verify = \<lambda>_ _ _. False, pk_sha1 = \<lambda>_. []\<rparr>"
  have wf: "id_wf ?i" by (simp add: ip_wf_def)
  then obtain d where d: "silc_id_id2str ?i 32 = Some d" using id2str_eq by blast
  have b: "[0, 10, 0, 1, 0, 0, 0, 2, 112, 113] = auth_bytes SILC_AUTH_PASSWORD [] [112, 113] []" by code_simp
  have "silc_auth_verify_data ?env [0, 10, 0, 1, 0, 0, 0, 2, 112, 113] SILC_AUTH_PASSWORD (Passphrase (Some [112, 113]) 2) ?i = Some True"
    using auth_verify_iff [of "[0, 10, 0, 1, 0, 0, 0, 2, 112, 113]" ?i d ?env 0 "[7]" "[112, 113]"] wf d
    unfolding b by (simp add: exI [of _ "[]"])
  with d show ?thesis by blast
qed

text \<open>
  Property C31. An Authentication Payload that a client makes with its key pair for its ID is accepted for this key and ID,
  when the library verifies the signatures it makes and they fit the array they are made in.
\<close>

theorem auth_generated_verifies:
  assumes sig: "\<And>data s. pk_sign env private data = Some s \<Longrightarrow> s \<noteq> [] \<and> length s \<le> 2048 \<and> pk_verify env key s data"
    and "id_wf i" "pk_encode env key = Some pk" "length pk < 65536" "128 \<le> length r" "length r \<le> 256"
    and "silc_id_id2str i 32 = Some d" "pk_sign env private (r @ d @ pk) = Some s"
  shows "\<exists>buf. silc_auth_public_key_auth_generate_wpub env key private r i = Some buf \<and>
    silc_auth_verify_data env (silc_buffer_data buf) SILC_AUTH_PUBLIC_KEY (Key key) i = Some True"
proof -
  have s: "s \<noteq> []" "length s \<le> 2048" "pk_verify env key s (r @ d @ pk)" using sig [OF assms(8)] by simp_all
  have ok: "auth_ok SILC_AUTH_PUBLIC_KEY r s []" using assms(5,6) s(1,2) by (simp add: auth_ok_def)
  have e: "silc_auth_public_key_encode_data env key r i = Some (r @ d @ pk)"
    using encode_data_bytes [OF assms(2,3) _ assms(4,7)] assms(6) by simp
  have "silc_auth_public_key_auth_generate_wpub env key private r i = Some (silc_buffer_set (auth_bytes SILC_AUTH_PUBLIC_KEY r s []))"
    using auth_encode_bytes [OF ok] e assms(8) s(2) by (simp add: silc_auth_public_key_auth_generate_wpub_def)
  moreover have "silc_auth_verify_data env (auth_bytes SILC_AUTH_PUBLIC_KEY r s []) SILC_AUTH_PUBLIC_KEY (Key key) i = Some True"
    using auth_parse_of [OF ok] auth_of_data [OF ok] e s
    by (auto simp: silc_auth_verify_data_def silc_auth_verify_def silc_auth_public_key_auth_verify_def)
  ultimately show ?thesis using ok by (auto simp: auth_ok_def)
qed

theorem auth_generated_verifies_witness:
  "\<exists>env buf i. silc_auth_public_key_auth_generate_wpub env 3 4 (replicate 128 9) i = Some buf \<and>
    silc_auth_verify_data env (silc_buffer_data buf) SILC_AUTH_PUBLIC_KEY (Key 3) i = Some True"
proof -
  let ?i = "ServerID \<lparr>sid_ip = \<lparr>ip_data = replicate 16 0, ip_data_len = 4\<rparr>, sid_port = 1, sid_rnd = 2\<rparr>"
  let ?env = "\<lparr>pk_type = \<lambda>_. 1, pk_encode = \<lambda>_. Some [7], pk_alloc = \<lambda>_ _. None, pk_compare = (=),
    pk_sign = \<lambda>_ d. Some [of_nat (length d), 1], pk_verify = \<lambda>_ s d. s = [of_nat (length d), 1], pk_sha1 = \<lambda>_. []\<rparr>"
  have wf: "id_wf ?i" by (simp add: ip_wf_def)
  then obtain d where d: "silc_id_id2str ?i 32 = Some d" using id2str_eq by blast
  show ?thesis
    using auth_generated_verifies [of ?env 4 3 ?i "[7]" "replicate 128 9" d "[of_nat (length (replicate 128 (9 :: byte) @ d @ [7])), 1]"] wf d
    by auto
qed

section \<open>Public Key Payloads and Key Agreement Payloads\<close>

definition key_payload_bytes :: "u16 \<Rightarrow> byte list \<Rightarrow> byte list" where
  "key_payload_bytes ptype pk = SILC_PUT16_MSB (of_nat (length pk)) @ SILC_PUT16_MSB ptype @ pk"

lemma length_key_payload_bytes [simp]: "length (key_payload_bytes ptype pk) = 4 + length pk"
  by (simp add: key_payload_bytes_def)

lemma decode_key_bytes:
  assumes "length pk < 65536" "length z < 65536"
  shows "silc_public_key_payload_decode env (key_payload_bytes ptype pk @ z) =
    (if ptype < SILC_PKCS_SILC \<or> ptype > SILC_PKCS_SPKI then None else pk_alloc env ptype pk)"
proof -
  let ?d = "key_payload_bytes ptype pk @ z" and ?n = "of_nat (length pk) :: u16"
  have len: "length ?d = 4 + length pk + length z" by (simp add: key_payload_bytes_def)
  have wf: "buffer_wf (silc_buffer_set ?d)" using assms by (intro set_wf) (simp add: len)
  have n: "unat ?n = length pk" "unat (ucast ?n :: u32) = length pk" using assms(1) by (simp_all add: unat_of_nat)
  have "bparse [U_UI16_SHORT, U_UI16_SHORT] ?d = Some ([VU16 ?n, VU16 ptype], 4)"
    by (simp add: key_payload_bytes_def bparse1_u16 del: bparse1.simps)
  then have u1: "unformat (silc_buffer_set ?d) [U_ADVANCE, U_UI16_SHORT, U_UI16_SHORT] =
      Some (0, [VU16 ?n, VU16 ptype], buf_pull (silc_buffer_set ?d) 4)"
    using unformat_advance [OF wf, of "[U_UI16_SHORT, U_UI16_SHORT]" "\<lambda>_. 0"] assms by (simp add: len del: bparse.simps)
  let ?b = "buf_pull (silc_buffer_set ?d) 4"
  have b: "buffer_wf ?b" "silc_buffer_data ?b = pk @ z"
    using wf assms by (simp_all add: key_payload_bytes_def)
  have "bparse [U_DATA (ucast ?n)] (pk @ z) = Some ([VData (ptr_of pk)], length pk)"
    using n assms(1) by (simp add: pfixed_def ptr_of_def)
  then have u2: "unformat ?b [U_DATA (ucast ?n)] = Some (int (length pk), [VData (ptr_of pk)], ?b)"
    using unformat_fwd [OF b(1), of "[U_DATA (ucast ?n)]" "\<lambda>_. 0"] b(2) by (simp del: bparse.simps)
  show ?thesis using u1 u2 n len by (auto simp: silc_public_key_payload_decode_def ptr_of_def)
qed

lemma encode_key_bytes:
  assumes "pk_encode env key = Some pk" "length pk < 65536"
  shows "silc_public_key_payload_encode env (Some key) = Some (silc_buffer_set (key_payload_bytes (pk_type env key) pk))"
proof -
  let ?n = "4 + length pk"
  let ?ps = "[SILC_PARAM_UI16_SHORT (of_nat (length pk)), SILC_PARAM_UI16_SHORT (pk_type env key), SILC_PARAM_DATA (Some pk) (of_nat (length pk))]"
  have u: "unat (of_nat (length pk) :: u32) = length pk" using assms(2) by (simp add: unat_of_nat)
  have b: "\<forall>p \<in> set ?ps. fmt_plain p" "concat (map fmt_bytes ?ps) = key_payload_bytes (pk_type env key) pk"
    using u by (simp_all add: key_payload_bytes_def)
  have sz: "?n < SILC_MAX_ALLOC" "?n mod 2 ^ 32 = ?n" using assms(2) by (simp_all add: SILC_MAX_ALLOC_def)
  have "bufformat \<lparr>bmem = replicate ?n 0, bdata = 0, btail = ?n\<rparr> ?ps = silc_buffer_set (key_payload_bytes (pk_type env key) pk)"
    using bufformat_fresh [OF b(1) _ sz(1)] unfolding b(2) by simp
  then show ?thesis using assms(1) alloc_size_ok [OF sz(1)] sz(2) unfolding silc_public_key_payload_encode_def by simp
qed

lemma key_payload_roundtrip:
  assumes "pk_encode env key = Some pk" "length pk < 65536" "SILC_PKCS_SILC \<le> pk_type env key" "pk_type env key \<le> SILC_PKCS_SPKI"
  obtains buf where "silc_public_key_payload_encode env (Some key) = Some buf"
    "silc_public_key_payload_decode env (silc_buffer_data buf) = pk_alloc env (pk_type env key) pk"
proof -
  have "\<not> (pk_type env key < SILC_PKCS_SILC \<or> pk_type env key > SILC_PKCS_SPKI)" using assms(3,4) by (simp only: not_less de_Morgan_disj simp_thms)
  with that encode_key_bytes [OF assms(1,2)] decode_key_bytes [OF assms(2), of "[]" env "pk_type env key"] assms(2) show ?thesis by simp
qed

lemma key_agreement_roundtrip:
  assumes "0 \<notin> set h" "length h < 65536" "length z < 65536"
  shows "\<exists>buf. silc_key_agreement_payload_encode (Some (h @ [0])) protocol port = Some buf \<and>
    silc_key_agreement_payload_parse (silc_buffer_data buf @ z) =
      Some \<lparr>ka_hostname_len = of_nat (length h), ka_hostname = ptr_of h, ka_protocol = protocol, ka_port = port\<rparr>"
proof -
  let ?n = "2 + length h + 4" and ?d = "nstr16 h @ SILC_PUT16_MSB protocol @ SILC_PUT16_MSB port"
  have sl: "strlen (h @ [0]) = length h" using assms(1) unfolding strlen_def by (induction h) auto
  let ?ps = "[SILC_PARAM_UI16_SHORT (of_nat (length h)), SILC_PARAM_DATA (Some (h @ [0])) (of_nat (length h)), SILC_PARAM_UI16_SHORT protocol,
    SILC_PARAM_UI16_SHORT port]"
  have u: "unat (of_nat (length h) :: u32) = length h" using assms(2) by (simp add: unat_of_nat)
  have b: "\<forall>p \<in> set ?ps. fmt_plain p" "concat (map fmt_bytes ?ps) = ?d" using u by (simp_all add: nstr16_def)
  have sz: "?n < SILC_MAX_ALLOC" "?n mod 2 ^ 32 = ?n" using assms(2) by (simp_all add: SILC_MAX_ALLOC_def)
  have "bufformat \<lparr>bmem = replicate ?n 0, bdata = 0, btail = ?n\<rparr> ?ps = silc_buffer_set ?d"
    using bufformat_fresh [OF b(1) _ sz(1)] unfolding b(2) by simp
  then have e: "silc_key_agreement_payload_encode (Some (h @ [0])) protocol port = Some (silc_buffer_set ?d)"
    using alloc_size_ok [OF sz(1)] sz(2) sl unfolding silc_key_agreement_payload_encode_def by simp
  have "bparse [U_UI16_NSTRING_ALLOC, U_UI16_SHORT, U_UI16_SHORT] (?d @ z) =
      Some ([VNString (ptr_of h) (length h), VU16 protocol, VU16 port], length h + 6)"
    using assms(2) by (simp add: bparse1_nstr16 bparse1_u16 del: bparse1.simps)
  with e assms show ?thesis by (simp add: silc_key_agreement_payload_parse_def unformat_set del: bparse.simps)
qed

end
