(* ===== verification/Server_Chpk.thy ===== *)
theory Server_Chpk
  imports Server_Idlist Server_Rights Silc_Auth Silc_Command
begin

text \<open>
  The public keys of a channel and authentication with them, from \<^verbatim>\<open>apps/silcd/server_util.c\<close>.  The
  list is a hash table from the digest of a key to the key.
\<close>

section \<open>Definitions\<close>

abbreviation SILC_STATUS_ERR_NOT_ENOUGH_PARAMS :: u8 where "SILC_STATUS_ERR_NOT_ENOUGH_PARAMS \<equiv> 29"
abbreviation SILC_STATUS_ERR_RESOURCE_LIMIT :: u8 where "SILC_STATUS_ERR_RESOURCE_LIMIT \<equiv> 48"
abbreviation SILC_STATUS_ERR_UNSUPPORTED_PUBLIC_KEY :: u8 where "SILC_STATUS_ERR_UNSUPPORTED_PUBLIC_KEY \<equiv> 55"
abbreviation SILC_STATUS_ERR_OPERATION_ALLOWED :: u8 where "SILC_STATUS_ERR_OPERATION_ALLOWED \<equiv> 56"

abbreviation SILC_NOTIFY_TYPE_CMODE_CHANGE :: u16 where "SILC_NOTIFY_TYPE_CMODE_CHANGE \<equiv> 7"

type_synonym chpk_table = "(byte list, ptr) silc_hash_table"

definition new_chpk_table :: "chpk_table option" where
  "new_chpk_table = silc_hash_table_alloc 0 (silc_hash_data 20) (Some (silc_hash_data_compare 20)) True True"

text \<open>One key: the status and the table; \<open>None\<close> when there is no memory for a table.\<close>

definition silc_server_process_channel_pk ::
  "pkcs_env \<Rightarrow> u32 \<Rightarrow> byte list \<Rightarrow> chpk_table option \<Rightarrow> (u8 \<times> chpk_table option) option" where
  "silc_server_process_channel_pk env type pk pubkeys =
     (if pk = [] then Some (SILC_STATUS_ERR_NOT_ENOUGH_PARAMS, pubkeys)
      else case silc_public_key_payload_decode env pk of
        None \<Rightarrow> Some (SILC_STATUS_ERR_UNSUPPORTED_PUBLIC_KEY, pubkeys)
      | Some chpk \<Rightarrow>
          map_option (\<lambda>table.
            let pkhash = pk_sha1 env (drop 4 pk) in
            if type = 0x00 then
              (if silc_hash_table_count table > 64 then (SILC_STATUS_ERR_RESOURCE_LIMIT, Some table)
               else if silc_hash_table_find table pkhash = None
               then (SILC_STATUS_OK, Some (silc_hash_table_add table (take 20 pkhash) chpk))
               else (SILC_STATUS_OK, Some table))
            else if type = 0x01 then (SILC_STATUS_OK, Some (snd (silc_hash_table_del table pkhash)))
            else (SILC_STATUS_ERR_NOT_ENOUGH_PARAMS, Some table))
            (case pubkeys of None \<Rightarrow> new_chpk_table | Some table \<Rightarrow> Some table))"

text \<open>The loop over the arguments, from the present one on.\<close>

function chpk_loop ::
  "pkcs_env \<Rightarrow> silc_argument_payload \<Rightarrow> byte list option \<Rightarrow> u32 \<Rightarrow> u32 \<Rightarrow> chpk_table option \<Rightarrow> (u8 \<times> chpk_table option) option" where
  "chpk_loop env args chpk type chpklen pubkeys =
     (case chpk of None \<Rightarrow> Some (SILC_STATUS_OK, pubkeys)
      | Some d \<Rightarrow>
          (case silc_server_process_channel_pk env (if type = 0x03 then 0x00 else type) (take (unat chpklen) d) pubkeys of
             None \<Rightarrow> None
           | Some (ret, pubkeys) \<Rightarrow>
               if ret \<noteq> SILC_STATUS_OK then Some (ret, pubkeys)
               else
                 (case silc_argument_get_next_arg args of
                    ((chpk', type', chpklen'), args') \<Rightarrow> chpk_loop env args' chpk' type' chpklen' pubkeys)))"
  by pat_completeness auto
termination
proof (relation "measure (\<lambda>(env, args, chpk, type, chpklen, pubkeys).
    (if chpk = None then 0 else 1) + (unat (ap_argc args) - ap_pos args))", goal_cases)
  case 1
  then show ?case by simp
next
  case (2 env args chpk type chpklen pubkeys d x ret pubkeys' y args' chpk' z type' chpklen')
  then show ?case
    by (cases "ap_pos args < unat (ap_argc args)")
      (auto simp: silc_argument_get_next_arg_def split: prod.splits if_splits)
qed

declare chpk_loop.simps [simp del]

text \<open>The notification that the old list is gone; an argument that is not sent is empty.\<close>

definition or_empty :: "byte list option \<Rightarrow> byte list" where
  "or_empty d = (case d of None \<Rightarrow> [] | Some d \<Rightarrow> d)"

definition notify_list_removed :: "ptr \<Rightarrow> silc_channel_entry \<Rightarrow> silc_server \<Rightarrow> silc_server option" where
  "notify_list_removed p channel s =
     map_option (\<lambda>sidp.
       emit (Ev_Notify_To_Channel p SILC_NOTIFY_TYPE_CMODE_CHANGE
         ([silc_buffer_data sidp, SILC_PUT32_MSB (ch_mode channel AND NOT SILC_CHANNEL_MODE_CHANNEL_AUTH)] @
          map (\<lambda>d. or_empty (map_option cstr d)) [ch_cipher channel, ch_hmac_name channel, ch_passphrase channel] @ [[], []] @
          [if has_mode (ch_mode channel) SILC_CHANNEL_MODE_ULIMIT then SILC_PUT32_MSB (ch_user_limit channel) else []])) s)
       (Option.bind (sv_id s) (\<lambda>i. silc_id_payload_encode (ServerID i)))"

definition silc_server_set_channel_pk_list ::
  "pkcs_env \<Rightarrow> ptr option \<Rightarrow> ptr \<Rightarrow> byte list option \<Rightarrow> silc_server \<Rightarrow> (u8 \<times> silc_server) option" where
  "silc_server_set_channel_pk_list env sender p pklist s =
     (case (sv_channels s p, pklist) of
        (None, _) \<Rightarrow> None
      | (Some channel, None) \<Rightarrow> Some (SILC_STATUS_ERR_NOT_ENOUGH_PARAMS, s)
      | (Some channel, Some pklist) \<Rightarrow>
          if length pklist < 2 then Some (SILC_STATUS_ERR_NOT_ENOUGH_PARAMS, s)
          else
            case silc_argument_payload_parse (drop 2 pklist) (ucast (ucast (SILC_GET16_MSB pklist) :: u16)) of
              None \<Rightarrow> Some (SILC_STATUS_ERR_NOT_ENOUGH_PARAMS, s)
            | Some args \<Rightarrow>
                (case silc_argument_get_first_arg args of
                   None \<Rightarrow> None
                 | Some ((chpk, type, chpklen), args) \<Rightarrow>
                     let announced = (chpk \<noteq> None \<and> type = 0x03 \<and> ch_channel_pubkeys channel \<noteq> None) in
                     if announced \<and> sv_server_type s = SILC_ROUTER \<and> sender \<noteq> SILC_PRIMARY_ROUTE s
                     then Some (SILC_STATUS_ERR_OPERATION_ALLOWED, s)
                     else
                       Option.bind
                         (if announced \<and> sv_server_type s \<noteq> SILC_ROUTER then
                            map_option (Pair None) (notify_list_removed p channel
                              (update_channel p (\<lambda>e. e\<lparr>ch_channel_pubkeys := None\<rparr>) s))
                          else Some (ch_channel_pubkeys channel, s)) (\<lambda>(pubkeys, s).
                         map_option (\<lambda>(ret, pubkeys). (ret, update_channel p (\<lambda>e. e\<lparr>ch_channel_pubkeys := pubkeys\<rparr>) s))
                           (chpk_loop env args chpk type chpklen pubkeys))))"

definition put_keys :: "pkcs_env \<Rightarrow> (nat \<Rightarrow> byte) \<Rightarrow> u32 \<Rightarrow> ptr list \<Rightarrow> silc_buffer option \<Rightarrow> silc_buffer option" where
  "put_keys env junk type keys list =
     foldl (\<lambda>list pk.
       case silc_public_key_payload_encode env (Some pk) of None \<Rightarrow> list
       | Some pkp \<Rightarrow> silc_argument_payload_encode_one junk list (Some (silc_buffer_data pkp)) (of_nat (silc_buffer_len pkp)) type)
       list keys"

definition silc_server_get_channel_pk_list ::
  "pkcs_env \<Rightarrow> (nat \<Rightarrow> byte) \<Rightarrow> silc_channel_entry \<Rightarrow> bool \<Rightarrow> bool \<Rightarrow> silc_buffer option" where
  "silc_server_get_channel_pk_list env junk channel announce del =
     (case ch_channel_pubkeys channel of None \<Rightarrow> None
      | Some table \<Rightarrow>
          if silc_hash_table_count table = 0 then None
          else
            put_keys env junk (if announce then 0x03 else if del then 0x01 else 0x00) (map snd (silc_hash_table_foreach table))
              (map_option (\<lambda>list. bufformat list [SILC_PARAM_UI16_SHORT (of_nat (silc_hash_table_count table))])
                (silc_buffer_alloc_size 2)))"

text \<open>
  The hash of the key is the start of the random data.  The client whose ID is passed has one: that of a
  registered client.
\<close>

definition silc_server_verify_channel_auth ::
  "pkcs_env \<Rightarrow> silc_channel_entry \<Rightarrow> silc_client_id option \<Rightarrow> byte list option \<Rightarrow> bool" where
  "silc_server_verify_channel_auth env channel client_id auth \<longleftrightarrow>
     (case (auth, ch_channel_pubkeys channel, client_id) of
        (Some auth, Some table, Some i) \<Rightarrow>
          auth \<noteq> [] \<and>
          (case silc_auth_payload_parse auth of None \<Rightarrow> False
           | Some ap \<Rightarrow>
               let pkhash = au_bytes (au_random_data ap) (au_random_len ap) in
               \<not> au_random_len ap < 128 \<and>
               (case silc_hash_table_find table pkhash of None \<Rightarrow> False
                | Some (_, chpk) \<Rightarrow> silc_auth_verify env (Some ap) SILC_AUTH_PUBLIC_KEY (Key chpk) (ClientID i) = Some True))
      | _ \<Rightarrow> False)"

text \<open>A client proves its hold of a key; one that has no ID yet cannot.\<close>

definition client_key_auth :: "pkcs_env \<Rightarrow> byte list \<Rightarrow> ptr \<Rightarrow> silc_client_id option \<Rightarrow> bool" where
  "client_key_auth env auth key client_id \<longleftrightarrow>
     (case client_id of None \<Rightarrow> False
      | Some i \<Rightarrow> silc_auth_verify_data env auth SILC_AUTH_PUBLIC_KEY (Key key) (ClientID i) = Some True)"

section \<open>Lists of keys as maps\<close>

interpretation hk_digest: hash_keys "silc_hash_data 20" "silc_hash_data_compare 20"
proof unfold_locales
  show "silc_hash_data 20 d = silc_hash_data 20 e" if "silc_hash_data_compare 20 d e" for d e
  proof (cases "20 \<le> length d \<and> 20 \<le> length e")
    case True
    with that show ?thesis by (intro hash_data_take) (simp_all add: silc_hash_data_compare_def)
  next
    case False
    have t: "take 20 d = take 20 e" using that by (simp add: silc_hash_data_compare_def)
    then have "min (length d) 20 = min (length e) 20" by (metis length_take)
    with False have "length d < 20" "length e < 20" by auto
    with t show ?thesis by simp
  qed
qed (auto simp: silc_hash_data_compare_def)

abbreviation digest_table :: "chpk_table \<Rightarrow> bool" where
  "digest_table \<equiv> ht_for (silc_hash_data 20) (silc_hash_data_compare 20)"

definition holds :: "(byte list \<rightharpoonup> ptr) \<Rightarrow> chpk_table \<Rightarrow> bool" where
  "holds m t \<longleftrightarrow> digest_table t \<and> distinct (map fst (silc_hash_table_foreach t)) \<and>
     (\<forall>e \<in> set (silc_hash_table_foreach t). length (fst e) = 20) \<and> map_of (silc_hash_table_foreach t) = m"

definition chpk_rep :: "chpk_table option \<Rightarrow> (byte list \<rightharpoonup> ptr) \<Rightarrow> bool" where
  "chpk_rep pubkeys m \<longleftrightarrow> (case pubkeys of None \<Rightarrow> m = Map.empty | Some t \<Rightarrow> holds m t)"

lemma map_of_filter: "map_of xs x = (case filter (\<lambda>e. fst e = x) xs of [] \<Rightarrow> None | e # _ \<Rightarrow> Some (snd e))"
  by (induction xs) auto

lemma del_first_filter: "distinct (map fst xs) \<Longrightarrow> del_first (\<lambda>e. fst e = x) xs = filter (\<lambda>e. fst e \<noteq> x) xs"
  by (induction xs) (auto intro!: filter_True [symmetric] simp: image_iff)

lemma map_of_filter_other: "map_of (filter (\<lambda>e. fst e \<noteq> x) xs) = (map_of xs)(x := None)"
  by (induction xs) auto

lemma digest_stored:
  assumes "holds m t" "20 \<le> length d"
  shows "ht_stored t d = filter (\<lambda>e. fst e = take 20 d) (silc_hash_table_foreach t)"
proof -
  have t: "digest_table t" "\<And>e. e \<in> set (silc_hash_table_foreach t) \<Longrightarrow> length (fst e) = 20" using assms(1) by (auto simp: holds_def)
  have "ht_stored t d = filter (\<lambda>e. silc_hash_data_compare 20 (fst e) d)
      (filter (\<lambda>e. silc_hash_data 20 (fst e) = silc_hash_data 20 d) (silc_hash_table_foreach t))"
    using hk_digest.stored_eq [OF t(1), of d] hk_digest.foreach_class_filter [OF t(1), of "silc_hash_data 20 d"] by simp
  also have "\<dots> = filter (\<lambda>e. fst e = take 20 d) (silc_hash_table_foreach t)"
    unfolding filter_filter
  proof (rule filter_cong [OF refl])
    fix e assume "e \<in> set (silc_hash_table_foreach t)"
    then have "silc_hash_data_compare 20 (fst e) d \<longleftrightarrow> fst e = take 20 d" using t(2) by (simp add: silc_hash_data_compare_def)
    then show "(silc_hash_data 20 (fst e) = silc_hash_data 20 d \<and> silc_hash_data_compare 20 (fst e) d) \<longleftrightarrow> fst e = take 20 d"
      using hk_digest.cmp_hash [of "fst e" d] by blast
  qed
  finally show ?thesis .
qed

lemma digest_find:
  assumes "holds m t" "20 \<le> length d"
  shows "map_option snd (silc_hash_table_find t d) = m (take 20 d)"
proof -
  have "map_of (silc_hash_table_foreach t) (take 20 d) = m (take 20 d)" "digest_table t" using assms(1) by (auto simp: holds_def)
  with digest_stored [OF assms] show ?thesis
    by (cases "filter (\<lambda>e. fst e = take 20 d) (silc_hash_table_foreach t)")
      (auto simp: hk_digest.find_stored map_of_filter [of "silc_hash_table_foreach t"])
qed

lemma digest_count: "holds m t \<Longrightarrow> silc_hash_table_count t = card (dom m)"
  using distinct_card [of "map fst (silc_hash_table_foreach t)"]
  by (auto simp: holds_def dom_map_of_conv_image_fst ht_for_def ht_wf_def silc_hash_table_count_def silc_hash_table_foreach_def)

lemma holds_cong:
  assumes "mset (silc_hash_table_foreach t) = mset xs" "digest_table t" "distinct (map fst xs)" "\<forall>e \<in> set xs. length (fst e) = 20"
  shows "holds (map_of xs) t"
proof -
  have "set (silc_hash_table_foreach t) = set xs" using mset_eq_setD [OF assms(1)] .
  moreover have "distinct (map fst (silc_hash_table_foreach t))"
    using assms(1,3) mset_eq_imp_distinct_iff [of "map fst (silc_hash_table_foreach t)" "map fst xs"] by simp
  ultimately show ?thesis using assms(2-4) map_of_inject_set by (auto simp: holds_def)
qed

lemma digest_add:
  assumes "holds m t" "length d = 20" "m d = None"
  shows "holds (m(d \<mapsto> key)) (silc_hash_table_add t d key)"
proof -
  let ?xs = "silc_hash_table_foreach t"
  have t: "digest_table t" "distinct (map fst ?xs)" "\<forall>e \<in> set ?xs. length (fst e) = 20" "map_of ?xs = m"
    using assms(1) by (auto simp: holds_def)
  have "d \<notin> fst ` set ?xs" using t(4) assms(3) by (metis map_of_eq_None_iff)
  moreover have "mset (silc_hash_table_foreach (silc_hash_table_add t d key)) = mset ((d, key) # ?xs)"
    using hk_digest.foreach_add [OF t(1)] by simp
  ultimately have "holds (map_of ((d, key) # ?xs)) (silc_hash_table_add t d key)"
    using t hk_digest.for_add [OF t(1)] assms(2) by (intro holds_cong) auto
  then show ?thesis using t(4) by simp
qed

lemma digest_del:
  assumes "holds m t" "20 \<le> length d"
  shows "holds (m(take 20 d := None)) (snd (silc_hash_table_del t d))"
proof -
  let ?xs = "silc_hash_table_foreach t" and ?d = "take 20 d"
  have t: "digest_table t" "distinct (map fst ?xs)" "\<forall>e \<in> set ?xs. length (fst e) = 20" "map_of ?xs = m"
    using assms(1) by (auto simp: holds_def)
  have c: "silc_hash_data_compare 20 (fst e) d \<longleftrightarrow> fst e = ?d" if "e \<in> set ?xs" for e
    using t(3) that by (auto simp: silc_hash_data_compare_def)
  define v where "v = (case m ?d of None \<Rightarrow> undefined | Some v \<Rightarrow> v)"
  have one: "snd e = v" if "e \<in> set ?xs" "fst e = ?d" for e
  proof -
    have "(?d, snd e) \<in> set ?xs" using that by (metis prod.collapse)
    then have "m ?d = Some (snd e)" using t(2,4) map_of_is_SomeI by metis
    then show ?thesis by (simp add: v_def)
  qed
  have del: "silc_hash_table_del t d = silc_hash_table_del_by_context t d v"
    using one c by (intro hk_digest.del_key_context [OF t(1)]) auto
  have "del_first (\<lambda>e. silc_hash_data_compare 20 (fst e) d \<and> snd e = v) ?xs = del_first (\<lambda>e. fst e = ?d) ?xs"
    using c one by (intro del_first_cong_set) auto
  then have "mset (silc_hash_table_foreach (snd (silc_hash_table_del t d))) = mset (del_first (\<lambda>e. fst e = ?d) ?xs)"
    unfolding del using hk_digest.foreach_del_context [OF t(1), of d v] by simp
  moreover have "del_first (\<lambda>e. fst e = ?d) ?xs = filter (\<lambda>e. fst e \<noteq> ?d) ?xs"
    using t(2) by (rule del_first_filter)
  ultimately have "holds (map_of (filter (\<lambda>e. fst e \<noteq> ?d) ?xs)) (snd (silc_hash_table_del t d))"
    using t hk_digest.del_stored(2) [OF t(1)] by (intro holds_cong) (auto simp: distinct_map_filter)
  moreover have "map_of (filter (\<lambda>e. fst e \<noteq> ?d) ?xs) = m(?d := None)"
    using t(4) by (simp add: map_of_filter_other)
  ultimately show ?thesis by simp
qed

lemma new_table_holds: assumes "new_chpk_table = Some t" shows "holds Map.empty t"
proof -
  have t: "digest_table t" "ht_entry_count t = 0"
    using alloc_ok [of 0 "silc_hash_data 20" "Some (silc_hash_data_compare 20)" True True t] hk_digest.for_alloc [of 0 True True t] assms
    by (auto simp: new_chpk_table_def)
  then have "silc_hash_table_foreach t = []" by (simp add: ht_for_def ht_wf_def silc_hash_table_foreach_def)
  with t(1) show ?thesis by (simp add: holds_def)
qed

section \<open>The abstract list of keys\<close>

definition chpk_step :: "pkcs_env \<Rightarrow> u32 \<Rightarrow> byte list \<Rightarrow> (byte list \<rightharpoonup> ptr) \<Rightarrow> u8 \<times> (byte list \<rightharpoonup> ptr)" where
  "chpk_step env type pk m =
     (if pk = [] then (SILC_STATUS_ERR_NOT_ENOUGH_PARAMS, m)
      else case silc_public_key_payload_decode env pk of
        None \<Rightarrow> (SILC_STATUS_ERR_UNSUPPORTED_PUBLIC_KEY, m)
      | Some key \<Rightarrow>
          let d = pk_sha1 env (drop 4 pk) in
          if type = 0x00 then
            (if card (dom m) > 64 then (SILC_STATUS_ERR_RESOURCE_LIMIT, m)
             else (SILC_STATUS_OK, if d \<in> dom m then m else m(d \<mapsto> key)))
          else if type = 0x01 then (SILC_STATUS_OK, m(d := None))
          else (SILC_STATUS_ERR_NOT_ENOUGH_PARAMS, m))"

fun chpk_fold :: "pkcs_env \<Rightarrow> (u32 \<times> byte list) list \<Rightarrow> (byte list \<rightharpoonup> ptr) \<Rightarrow> u8 \<times> (byte list \<rightharpoonup> ptr)" where
  "chpk_fold env [] m = (SILC_STATUS_OK, m)"
| "chpk_fold env ((type, pk) # pks) m =
     (case chpk_step env (if type = 0x03 then 0x00 else type) pk m of
        (ret, m) \<Rightarrow> if ret \<noteq> SILC_STATUS_OK then (ret, m) else chpk_fold env pks m)"

text \<open>The keys of an argument list, up to the first argument without data.\<close>

fun chpk_args :: "arg_entry list \<Rightarrow> (u32 \<times> byte list) list" where
  "chpk_args ((Some d, len, type) # as) = (type, take (unat len) d) # chpk_args as"
| "chpk_args _ = []"

lemma process_refines:
  assumes "chpk_rep pubkeys m" "\<And>x. length (pk_sha1 env x) = 20"
  shows "\<exists>pubkeys'. silc_server_process_channel_pk env type pk pubkeys = Some (fst (chpk_step env type pk m), pubkeys') \<and>
    chpk_rep pubkeys' (snd (chpk_step env type pk m))"
proof (cases "pk = [] \<or> silc_public_key_payload_decode env pk = None")
  case True
  then show ?thesis using assms(1) by (auto simp: silc_server_process_channel_pk_def chpk_step_def)
next
  case False
  then obtain key where pk: "pk \<noteq> []" "silc_public_key_payload_decode env pk = Some key" by blast
  let ?d = "pk_sha1 env (drop 4 pk)"
  obtain t where t: "(case pubkeys of None \<Rightarrow> new_chpk_table | Some table \<Rightarrow> Some table) = Some t" "holds m t"
  proof (cases pubkeys)
    case None
    obtain t where "new_chpk_table = Some t" using alloc_succeeds by (metis new_chpk_table_def not_None_eq)
    with None that [of t] assms(1) new_table_holds show ?thesis by (simp add: chpk_rep_def)
  qed (use that assms(1) in \<open>simp add: chpk_rep_def\<close>)
  have d: "length ?d = 20" by (rule assms(2))
  have "silc_hash_table_find t ?d = None \<longleftrightarrow> m ?d = None" using digest_find [OF t(2), of ?d] d by (metis map_option_is_None take_all order_refl)
  with pk t d digest_count [OF t(2)] digest_add [OF t(2) d] digest_del [OF t(2), of ?d] show ?thesis
    by (auto simp: silc_server_process_channel_pk_def chpk_step_def chpk_rep_def Let_def domIff)
qed

lemma chpk_loop_refines:
  assumes sha: "\<And>x. length (pk_sha1 env x) = 20"
  shows "chpk_rep pubkeys m \<Longrightarrow> unat (ap_argc args) = length (ap_args args) \<Longrightarrow> drop (ap_pos args) (ap_args args) = rest \<Longrightarrow>
    \<exists>pubkeys'. chpk_loop env args chpk type len pubkeys = Some (fst (chpk_fold env (chpk_args ((chpk, len, type) # rest)) m), pubkeys') \<and>
      chpk_rep pubkeys' (snd (chpk_fold env (chpk_args ((chpk, len, type) # rest)) m))"
proof (induction rest arbitrary: args chpk type len pubkeys m)
  case (Nil args chpk type len pubkeys m)
  show ?case
  proof (cases chpk)
    case (Some d)
    have n: "silc_argument_get_next_arg args = ((None, 0, 0), args)" using Nil(2,3) by (simp add: silc_argument_get_next_arg_def)
    have e: "chpk_loop env args None 0 0 x = Some (SILC_STATUS_OK, x)" for x by (simp add: chpk_loop.simps)
    let ?st = "chpk_step env (if type = 0x03 then 0x00 else type) (take (unat len) d) m"
    obtain p' where p': "silc_server_process_channel_pk env (if type = 0x03 then 0x00 else type) (take (unat len) d) pubkeys = Some (fst ?st, p')"
      "chpk_rep p' (snd ?st)" using process_refines [OF Nil(1) sha] by blast
    then show ?thesis using Some n e by (cases ?st) (simp add: chpk_loop.simps [of env args "Some d"])
  qed (use Nil(1) in \<open>simp add: chpk_loop.simps\<close>)
next
  case (Cons a rest args chpk type len pubkeys m)
  obtain d' len' type' where a: "a = (d', len', type')" by (cases a)
  show ?case
  proof (cases chpk)
    case (Some d)
    let ?args = "args\<lparr>ap_pos := ap_pos args + 1\<rparr>"
    have lt: "ap_pos args < length (ap_args args)" using Cons(4) by (metis drop_eq_Nil list.distinct(1) not_le)
    then have "ap_args args ! ap_pos args = a" "drop (ap_pos args + 1) (ap_args args) = rest"
      using Cons(4) by (metis Cons_nth_drop_Suc list.inject, metis Suc_eq_plus1 Cons_nth_drop_Suc list.inject)
    then have n: "silc_argument_get_next_arg args = ((d', type', len'), ?args)" and r: "drop (ap_pos ?args) (ap_args ?args) = rest"
      using lt Cons(3) a by (simp_all add: silc_argument_get_next_arg_def)
    let ?st = "chpk_step env (if type = 0x03 then 0x00 else type) (take (unat len) d) m"
    obtain p' where p': "silc_server_process_channel_pk env (if type = 0x03 then 0x00 else type) (take (unat len) d) pubkeys = Some (fst ?st, p')"
      "chpk_rep p' (snd ?st)" using process_refines [OF Cons(2) sha] by blast
    from Cons(1) [OF p'(2) _ r, of d' type' len'] Cons(3) p' Some n a show ?thesis
      by (cases ?st) (auto simp: chpk_loop.simps [of env args "Some d"])
  qed (use Cons(2) in \<open>simp add: chpk_loop.simps\<close>)
qed

section \<open>Setting the list\<close>

definition announced :: "arg_entry list \<Rightarrow> silc_channel_entry \<Rightarrow> bool" where
  "announced as channel \<longleftrightarrow> (\<exists>d len as'. as = (Some d, len, 0x03) # as') \<and> ch_channel_pubkeys channel \<noteq> None"

definition key_list_bytes :: "arg_entry list \<Rightarrow> byte list" where
  "key_list_bytes as = SILC_PUT16_MSB (of_nat (length as)) @ args_bytes as"

lemma notify_list_removed_ok:
  assumes "sv_id s = Some i" "id_wf (ServerID i)"
  shows "\<exists>ev. notify_list_removed p channel s = Some (emit ev s)"
proof -
  obtain d where "silc_id_id2str (ServerID i) 32 = Some d" using id2str_eq [OF assms(2)] by blast
  then have "\<exists>b. silc_id_payload_encode (ServerID i) = Some b" using payload_encode_eq [OF assms(2)] by blast
  with assms(1) show ?thesis by (auto simp: notify_list_removed_def)
qed

text \<open>
  Property C9. The public keys of a channel are a map from digests to keys: setting a list of keys gives the status and the map
  that adding and deleting them one after the other gives, on top of the keys that were there, or of none where a server replaces
  its keys by those its router announces; a router that has keys refuses others that do not come from its own router.
  Nothing else of any channel changes.
\<close>

theorem channel_keys_refine:
  assumes "\<And>x. length (pk_sha1 env x) = 20" "sv_channels s p = Some channel" "chpk_rep (ch_channel_pubkeys channel) m"
    "\<forall>e \<in> set as. entry_ok e" "as \<noteq> []" "length as < 65536" "length (key_list_bytes as) < 2 ^ 32 - 1"
    "sv_id s = Some i" "id_wf (ServerID i)"
  shows "\<exists>st s' pubkeys'. silc_server_set_channel_pk_list env sender p (Some (key_list_bytes as)) s = Some (st, s') \<and>
    sv_channels s' = (sv_channels s)(p \<mapsto> channel\<lparr>ch_channel_pubkeys := pubkeys'\<rparr>) \<and>
    (if announced as channel \<and> sv_server_type s = SILC_ROUTER \<and> sender \<noteq> SILC_PRIMARY_ROUTE s
     then st = SILC_STATUS_ERR_OPERATION_ALLOWED \<and> s' = s
     else \<exists>m'. (st, m') = chpk_fold env (chpk_args as) (if announced as channel \<and> sv_server_type s \<noteq> SILC_ROUTER then Map.empty else m) \<and>
       chpk_rep pubkeys' m')"
proof -
  let ?l = "key_list_bytes as" and ?n = "of_nat (length as) :: u32"
  obtain d len ty as' where as: "as = (d, len, ty) # as'" using assms(5) by (cases as) auto
  have n: "unat ?n = length as" using assms(6) by (simp add: unat_of_nat)
  have argc: "ucast (ucast (SILC_GET16_MSB ?l) :: u16) = ?n"
    using assms(6) by (simp add: key_list_bytes_def GET16_PUT16 flip: ucast_u16_u32)
  let ?args = "\<lparr>ap_argc = ?n, ap_args = as, ap_pos = 0\<rparr>"
  have parse: "silc_argument_payload_parse (drop 2 ?l) ?n = Some ?args"
    using argument_parse_iff [of "args_bytes as" ?n ?args] assms(4-7) n
    by (simp add: key_list_bytes_def SILC_MAX_ALLOC_def word_less_nat_alt)
  have loop: "\<exists>pubkeys'. chpk_loop env (?args\<lparr>ap_pos := 1\<rparr>) d ty len pubkeys = Some (fst (chpk_fold env (chpk_args as) m'), pubkeys') \<and>
      chpk_rep pubkeys' (snd (chpk_fold env (chpk_args as) m'))" if "chpk_rep pubkeys m'" for pubkeys m'
    using chpk_loop_refines [OF assms(1) that, of "?args\<lparr>ap_pos := 1\<rparr>" as' d ty len] n as by simp
  have l2: "\<not> length ?l < 2" by (simp add: key_list_bytes_def SILC_PUT16_MSB_def)
  have first: "silc_argument_get_first_arg ?args = Some ((d, ty, len), ?args\<lparr>ap_pos := 1\<rparr>)"
    using as n by (simp add: silc_argument_get_first_arg_def)
  have ann: "announced as channel \<longleftrightarrow> d \<noteq> None \<and> ty = 0x03 \<and> ch_channel_pubkeys channel \<noteq> None"
    using as by (auto simp: announced_def)
  let ?cfg = "announced as channel \<and> sv_server_type s \<noteq> SILC_ROUTER"
  have set: "silc_server_set_channel_pk_list env sender p (Some ?l) s =
      (if announced as channel \<and> sv_server_type s = SILC_ROUTER \<and> sender \<noteq> SILC_PRIMARY_ROUTE s
       then Some (SILC_STATUS_ERR_OPERATION_ALLOWED, s)
       else Option.bind (if ?cfg then map_option (Pair None) (notify_list_removed p channel (update_channel p (\<lambda>e. e\<lparr>ch_channel_pubkeys := None\<rparr>) s))
           else Some (ch_channel_pubkeys channel, s)) (\<lambda>(pubkeys, s).
         map_option (\<lambda>(ret, pubkeys). (ret, update_channel p (\<lambda>e. e\<lparr>ch_channel_pubkeys := pubkeys\<rparr>) s))
           (chpk_loop env (?args\<lparr>ap_pos := 1\<rparr>) d ty len pubkeys)))"
    using assms(2) l2 parse argc first ann by (auto simp: silc_server_set_channel_pk_list_def Let_def)
  show ?thesis
  proof (cases ?cfg)
    case True
    let ?s = "update_channel p (\<lambda>e. e\<lparr>ch_channel_pubkeys := None\<rparr>) s"
    obtain ev where "notify_list_removed p channel ?s = Some (emit ev ?s)"
      using notify_list_removed_ok [of ?s i p channel] assms(8,9) by (auto simp: update_channel_def)
    moreover have "chpk_rep None Map.empty" by (simp add: chpk_rep_def)
    then obtain pubkeys' where "chpk_loop env (?args\<lparr>ap_pos := 1\<rparr>) d ty len None = Some (fst (chpk_fold env (chpk_args as) Map.empty), pubkeys')"
      "chpk_rep pubkeys' (snd (chpk_fold env (chpk_args as) Map.empty))" using loop by blast
    moreover have "sv_channels (update_channel p (\<lambda>e. e\<lparr>ch_channel_pubkeys := pubkeys'\<rparr>) (emit ev ?s)) =
        (sv_channels s)(p \<mapsto> channel\<lparr>ch_channel_pubkeys := pubkeys'\<rparr>)"
      using assms(2) by (simp add: update_channel_def emit_def)
    ultimately show ?thesis using set True
      by (cases "chpk_fold env (chpk_args as) Map.empty") auto
  next
    case False
    obtain pubkeys' where "chpk_loop env (?args\<lparr>ap_pos := 1\<rparr>) d ty len (ch_channel_pubkeys channel) = Some (fst (chpk_fold env (chpk_args as) m), pubkeys')"
      "chpk_rep pubkeys' (snd (chpk_fold env (chpk_args as) m))" using loop [OF assms(3)] by blast
    moreover have "\<exists>x. sv_channels s = (sv_channels s)(p \<mapsto> channel\<lparr>ch_channel_pubkeys := x\<rparr>)"
      using assms(2) by (intro exI [of _ "ch_channel_pubkeys channel"]) (simp add: fun_upd_idem)
    ultimately show ?thesis using set False assms(2)
      by (cases "chpk_fold env (chpk_args as) m") (auto simp: update_channel_def)
  qed
qed

definition sample_pkcs :: pkcs_env where
  "sample_pkcs = \<lparr>pk_type = \<lambda>_. 1, pk_encode = \<lambda>_. Some [8], pk_alloc = \<lambda>_ d. Some 3, pk_compare = (=), pk_sign = \<lambda>_ _. None,
     pk_verify = \<lambda>_ sig data. sig = [of_nat (length data)], pk_sha1 = \<lambda>_. replicate 20 7\<rparr>"

theorem channel_keys_refine_witness:
  "\<exists>s s' t. sv_channels s 6 = Some (undefined\<lparr>ch_channel_pubkeys := None\<rparr>) \<and>
    silc_server_set_channel_pk_list sample_pkcs None 6 (Some (key_list_bytes [(Some [0, 1, 0, 1, 8], 5, 3)])) s = Some (SILC_STATUS_OK, s') \<and>
    map_option ch_channel_pubkeys (sv_channels s' 6) = Some (Some t) \<and> holds [replicate 20 7 \<mapsto> 3] t"
proof -
  let ?i = "\<lparr>sid_ip = \<lparr>ip_data = replicate 16 0, ip_data_len = 4\<rparr>, sid_port = 1, sid_rnd = 2\<rparr>"
  let ?ch = "undefined\<lparr>ch_channel_pubkeys := None\<rparr>"
  let ?s = "undefined\<lparr>sv_id := Some ?i, sv_channels := [6 \<mapsto> ?ch]\<rparr>"
  let ?as = "[(Some [0, 1, 0, 1, 8], 5, 3)] :: arg_entry list"
  have "silc_public_key_payload_decode sample_pkcs (key_payload_bytes 1 [8] @ []) = Some 3"
    using decode_key_bytes [of "[8]" "[]" sample_pkcs 1] by (simp add: sample_pkcs_def)
  moreover have "key_payload_bytes 1 [8] = [0, 1, 0, 1, 8]" by code_simp
  ultimately have d: "silc_public_key_payload_decode sample_pkcs [0, 1, 0, 1, 8] = Some 3" by simp
  show ?thesis
    using channel_keys_refine [of sample_pkcs ?s 6 ?ch Map.empty ?as ?i None] d
    by - (rule exI [of _ ?s], auto simp: announced_def chpk_step_def sample_pkcs_def chpk_rep_def ip_wf_def key_list_bytes_def SILC_PUT16_MSB_def split: option.splits)
qed

section \<open>Authentication with the keys of a channel\<close>

text \<open>
  Property C10. Authentication with the keys of a channel succeeds exactly when the data are an Authentication Payload of public
  key method whose random data start with the digest of a key on the list of the channel and whose signature is good, with
  that key, for the random data, the ID of the client and the key.
\<close>

theorem channel_auth_iff:
  assumes "chpk_rep (ch_channel_pubkeys channel) m" "length auth < 2 ^ 32 - 1" "id_wf (ClientID i)" "silc_id_id2str (ClientID i) 32 = Some d"
    "\<And>key. key \<in> ran m \<Longrightarrow> \<exists>pk. pk_encode env key = Some pk \<and> length pk < 65536"
  shows "silc_server_verify_channel_auth env channel (Some i) (Some auth) \<longleftrightarrow>
    (\<exists>r a z key pk. auth_ok SILC_AUTH_PUBLIC_KEY r a z \<and> auth = auth_bytes SILC_AUTH_PUBLIC_KEY r a z \<and>
       m (take 20 r) = Some key \<and> pk_encode env key = Some pk \<and> pk_verify env key a (r @ d @ pk))"
    (is "?L \<longleftrightarrow> ?R")
proof (cases "\<exists>n r a z. auth_ok n r a z \<and> auth = auth_bytes n r a z")
  case False
  then have "silc_auth_payload_parse auth = None" using auth_parse_bytes [OF assms(2)] by (metis not_Some_eq)
  with False show ?thesis by (auto simp: silc_server_verify_channel_auth_def split: option.splits)
next
  case True
  then obtain n r a z where ok: "auth_ok n r a z" and auth: "auth = auth_bytes n r a z" by blast
  note dt = auth_of_data [OF ok]
  have rl: "unat (au_random_len (auth_of n r a z)) = length r" using ok by (simp add: auth_of_def auth_ok_def unat_of_nat)
  have ne: "auth \<noteq> []" using auth_bytes_length [of n r a z] unfolding auth by force
  have R: "?R \<longleftrightarrow> n = SILC_AUTH_PUBLIC_KEY \<and> (\<exists>key pk. m (take 20 r) = Some key \<and> pk_encode env key = Some pk \<and> pk_verify env key a (r @ d @ pk))"
    using ok auth auth_bytes_inj [OF ok] by metis
  show ?thesis
  proof (cases "ch_channel_pubkeys channel")
    case None
    with assms(1) R show ?thesis by (simp add: silc_server_verify_channel_auth_def chpk_rep_def)
  next
    case (Some t)
    with assms(1) have h: "holds m t" by (simp add: chpk_rep_def)
    have L: "?L \<longleftrightarrow> 128 \<le> length r \<and> (case silc_hash_table_find t r of None \<Rightarrow> False
        | Some (_, chpk) \<Rightarrow> silc_auth_verify env (Some (auth_of n r a z)) SILC_AUTH_PUBLIC_KEY (Key chpk) (ClientID i) = Some True)"
      using Some ne auth_parse_of [OF ok] dt(1) rl
      by (auto simp: silc_server_verify_channel_auth_def auth Let_def word_less_nat_alt)
    show ?thesis
    proof (cases "n = SILC_AUTH_PUBLIC_KEY \<and> 128 \<le> length r")
      case False
      with ok have "n \<noteq> SILC_AUTH_PUBLIC_KEY" by (auto simp: auth_ok_def)
      with L R dt(3) show ?thesis by (auto simp: silc_auth_verify_def split: option.splits)
    next
      case n: True
      have f: "map_option snd (silc_hash_table_find t r) = m (take 20 r)" using n by (intro digest_find [OF h]) simp
      have v: "silc_auth_verify env (Some (auth_of n r a z)) SILC_AUTH_PUBLIC_KEY (Key key) (ClientID i) = Some (pk_verify env key a (r @ d @ pk))"
        if "pk_encode env key = Some pk" "length pk < 65536" for key pk
        using n dt encode_data_bytes [OF assms(3) that(1) _ that(2) assms(4), of r] ok
        by (simp add: silc_auth_verify_def silc_auth_public_key_auth_verify_def auth_ok_def)
      show ?thesis
      proof (cases "silc_hash_table_find t r")
        case None
        with f L R show ?thesis by simp
      next
        case (Some e)
        with f have mk: "m (take 20 r) = Some (snd e)" by simp
        then obtain pk where "pk_encode env (snd e) = Some pk" "length pk < 65536" using assms(5) by (meson ranI)
        with v [OF this] L R Some mk n show ?thesis by (auto split: prod.splits)
      qed
    qed
  qed
qed

theorem channel_auth_iff_witness:
  "\<exists>channel r sig. silc_server_verify_channel_auth sample_pkcs channel
      (Some \<lparr>cid_ip = \<lparr>ip_data = replicate 16 0, ip_data_len = 4\<rparr>, cid_rnd = 1, cid_hash = replicate 11 0\<rparr>)
      (Some (auth_bytes SILC_AUTH_PUBLIC_KEY r sig []))"
proof -
  let ?i = "\<lparr>cid_ip = \<lparr>ip_data = replicate 16 0, ip_data_len = 4\<rparr>, cid_rnd = 1, cid_hash = replicate 11 0\<rparr>"
  obtain t where t: "new_chpk_table = Some t" using alloc_succeeds by (metis new_chpk_table_def not_None_eq)
  have h: "holds [replicate 20 7 \<mapsto> 3] (silc_hash_table_add t (replicate 20 7) 3)"
    using digest_add [OF new_table_holds [OF t], of "replicate 20 7" 3] by simp
  let ?ch = "undefined\<lparr>ch_channel_pubkeys := Some (silc_hash_table_add t (replicate 20 7) 3)\<rparr>"
  have wf: "id_wf (ClientID ?i)" by (simp add: ip_wf_def CLIENTID_HASH_LEN_def)
  then obtain d where d: "silc_id_id2str (ClientID ?i) 32 = Some d" using id2str_eq by blast
  let ?r = "replicate 128 7" and ?sig = "[of_nat (length (replicate 128 (7 :: byte) @ d @ [8]))]"
  have "silc_server_verify_channel_auth sample_pkcs ?ch (Some ?i) (Some (auth_bytes SILC_AUTH_PUBLIC_KEY ?r ?sig []))"
  proof (subst channel_auth_iff [OF _ _ wf d, of _ "[replicate 20 7 \<mapsto> 3]"])
    show "chpk_rep (ch_channel_pubkeys ?ch) [replicate 20 7 \<mapsto> 3]" using h by (simp add: chpk_rep_def)
    show "\<exists>pk. pk_encode sample_pkcs key = Some pk \<and> length pk < 65536" for key by (simp add: sample_pkcs_def)
    have "auth_ok SILC_AUTH_PUBLIC_KEY ?r ?sig []" by (simp add: auth_ok_def)
    then show "\<exists>r a z key pk. auth_ok SILC_AUTH_PUBLIC_KEY r a z \<and> auth_bytes SILC_AUTH_PUBLIC_KEY ?r ?sig [] = auth_bytes SILC_AUTH_PUBLIC_KEY r a z \<and>
        [replicate 20 7 \<mapsto> 3] (take 20 r) = Some key \<and> pk_encode sample_pkcs key = Some pk \<and> pk_verify sample_pkcs key a (r @ d @ pk)"
      by (intro exI [of _ ?r] exI [of _ ?sig] exI [of _ "[]"] exI [of _ 3] exI [of _ "[8]"]) (simp add: sample_pkcs_def)
  qed simp
  then show ?thesis by blast
qed

end
