(* ===== verification/Server_Join.thy ===== *)
theory Server_Join
  imports Server_Leave Server_Chpk
begin

text \<open>
  Joining a channel, from \<^verbatim>\<open>apps/silcd/command.c\<close>, with the query for the client from
  \<^verbatim>\<open>apps/silcd/server_query.c\<close> and the lists of users in \<^verbatim>\<open>apps/silcd/server.c\<close>.  Public keys and
  the verification of authentication payloads are parameters, as is the host name of the connection.
\<close>

section \<open>Definitions\<close>

abbreviation SILC_STATUS_ERR_NO_SUCH_CLIENT_ID :: u8 where "SILC_STATUS_ERR_NO_SUCH_CLIENT_ID \<equiv> 22"
abbreviation SILC_STATUS_ERR_USER_ON_CHANNEL :: u8 where "SILC_STATUS_ERR_USER_ON_CHANNEL \<equiv> 27"
abbreviation SILC_STATUS_ERR_PERM_DENIED :: u8 where "SILC_STATUS_ERR_PERM_DENIED \<equiv> 31"
abbreviation SILC_STATUS_ERR_BAD_PASSWORD :: u8 where "SILC_STATUS_ERR_BAD_PASSWORD \<equiv> 33"
abbreviation SILC_STATUS_ERR_CHANNEL_IS_FULL :: u8 where "SILC_STATUS_ERR_CHANNEL_IS_FULL \<equiv> 34"
abbreviation SILC_STATUS_ERR_NOT_INVITED :: u8 where "SILC_STATUS_ERR_NOT_INVITED \<equiv> 35"
abbreviation SILC_STATUS_ERR_BANNED_FROM_CHANNEL :: u8 where "SILC_STATUS_ERR_BANNED_FROM_CHANNEL \<equiv> 36"

abbreviation SILC_COMMAND_WHOIS :: u8 where "SILC_COMMAND_WHOIS \<equiv> 1"
abbreviation SILC_COMMAND_GETKEY :: u8 where "SILC_COMMAND_GETKEY \<equiv> 26"

abbreviation SILC_NOTIFY_TYPE_JOIN :: u16 where "SILC_NOTIFY_TYPE_JOIN \<equiv> 2"
abbreviation SILC_NOTIFY_TYPE_CUMODE_CHANGE :: u16 where "SILC_NOTIFY_TYPE_CUMODE_CHANGE \<equiv> 8"

text \<open>Appending strings to the one in an array.\<close>

fun strncat_all :: "byte list \<Rightarrow> byte list list \<Rightarrow> byte list option" where
  "strncat_all dest [] = Some dest"
| "strncat_all dest (src # srcs) =
     Option.bind (silc_strncat dest src (of_nat (length (cstr src)))) (\<lambda>dest. strncat_all dest srcs)"

text \<open>
  The query: the client that was found, or \<open>None\<close> and whether it is being resolved.  The identifier
  of the query is a new one only when the client was found.
\<close>

definition silc_server_query_client :: "silc_client_id \<Rightarrow> bool \<Rightarrow> silc_server \<Rightarrow> (ptr option \<times> bool \<times> silc_server) option" where
  "silc_server_query_client i always_resolve s =
     (let client = (case silc_idlist_find_client_by_id Local_List (Some i) True s of
            Some c \<Rightarrow> Some c | None \<Rightarrow> silc_idlist_find_client_by_id Global_List (Some i) True s);
          count = update_stat (st_commands_sent_update (\<lambda>n. n + 1)) in
      case client of
        None \<Rightarrow>
          Some (if sv_server_type s = SILC_ROUTER \<or> sv_standalone s then (None, False, s)
            else (None, True, emit (Ev_Command (SILC_PRIMARY_ROUTE s) SILC_COMMAND_WHOIS (sv_cmd_ident s)) (count s)))
      | Some c \<Rightarrow>
          (case sv_clients s c of
             None \<Rightarrow> None
           | Some client \<Rightarrow>
               if cl_nickname client = None \<or> cl_username client = None \<or> always_resolve then
                 let ident = sv_cmd_ident s + 1;
                     s = update_client c (\<lambda>e. e\<lparr>
                           cl_data := (cl_data e)\<lparr>id_status := (id_status (cl_data e) OR SILC_IDLIST_STATUS_RESOLVING)
                             AND NOT SILC_IDLIST_STATUS_RESOLVED\<rparr>,
                           cl_resolve_cmd_ident := ident\<rparr>) ((count s)\<lparr>sv_cmd_ident := ident\<rparr>);
                     dest = (case cl_router client of None \<Rightarrow> SILC_PRIMARY_ROUTE s
                       | Some r \<Rightarrow> Option.bind (sv_servers s r) se_connection) in
                 Some (None, True, emit (Ev_Command dest SILC_COMMAND_WHOIS ident) s)
               else Some (Some c, False, s)))"

record join_cmd =
  jc_conn_client :: "ptr option"                   \<comment> \<open>the client whose connection this is\<close>
  jc_connection :: "ptr option"
  jc_client_id :: silc_client_id
  jc_pending :: nat
  jc_passphrase :: "byte list option"
  jc_auth :: "byte list option"
  jc_cauth :: "byte list option"

record join_env =
  je_crypto :: crypto_env
  je_inviteban :: inviteban_env
  je_hostname :: "byte list"
  je_server_name :: "byte list"
  je_pkcs :: pkcs_env

datatype join_outcome = Join_Dropped | Join_Error u8 | Join_Wait u8 | Joined ptr

text \<open>Who joins: the client of the connection, or the one that a server asks for.\<close>

definition join_client :: "join_cmd \<Rightarrow> silc_channel_entry \<Rightarrow> silc_server \<Rightarrow> ((join_outcome + ptr) \<times> silc_server) option" where
  "join_client cmd channel s =
     (case jc_conn_client cmd of
        Some c \<Rightarrow> Some (Inr c, s)
      | None \<Rightarrow>
          map_option (\<lambda>(co, resolve, s).
            case co of
              None \<Rightarrow>
                if \<not> resolve \<or> jc_pending cmd \<noteq> 0 then (Inl (Join_Error SILC_STATUS_ERR_NO_SUCH_CLIENT_ID), s)
                else (Inl (Join_Wait SILC_COMMAND_WHOIS), s)
            | Some c \<Rightarrow>
                if Option.bind (sv_clients s c) (\<lambda>e. id_public_key (cl_data e)) = None \<and>
                   (jc_auth cmd \<noteq> None \<or> jc_cauth cmd \<noteq> None \<or> ch_ban_list channel \<noteq> None \<or>
                    has_mode (ch_mode channel) SILC_CHANNEL_MODE_INVITE) then
                  if jc_pending cmd = 2 then (Inl Join_Dropped, s)
                  else
                    let ident = sv_cmd_ident s + 1 in
                    (Inl (Join_Wait SILC_COMMAND_GETKEY),
                     emit (Ev_Command (jc_connection cmd) SILC_COMMAND_GETKEY ident)
                       (update_stat (st_commands_sent_update (\<lambda>n. n + 1)) (s\<lparr>sv_cmd_ident := ident\<rparr>)))
                else (Inr c, s))
            (silc_server_query_client (jc_client_id cmd) False s))"

text \<open>Founder rights by authentication: whoever was founder loses them.\<close>

definition update_chl :: "ptr \<Rightarrow> (silc_channel_client_entry \<Rightarrow> silc_channel_client_entry) \<Rightarrow> silc_server \<Rightarrow> silc_server" where
  "update_chl k f s = s\<lparr>sv_chls := (sv_chls s)(k := map_option f (sv_chls s k))\<rparr>"

fun drop_founder :: "ptr \<Rightarrow> ptr list \<Rightarrow> silc_server \<Rightarrow> silc_server option" where
  "drop_founder p [] s = Some s"
| "drop_founder p (k # ks) s =
     (case sv_chls s k of
        None \<Rightarrow> None
      | Some chl \<Rightarrow>
          if has_mode (cce_mode chl) SILC_CHANNEL_UMODE_CHANFO then
            let mode = cce_mode chl AND NOT SILC_CHANNEL_UMODE_CHANFO in
            Some (emit (Ev_Force_Cumode p k mode) (update_chl k (\<lambda>e. e\<lparr>cce_mode := mode\<rparr>) s))
          else drop_founder p ks s)"

definition founder_umode :: u32 where
  "founder_umode = SILC_CHANNEL_UMODE_CHANOP OR SILC_CHANNEL_UMODE_CHANFO"

definition founder_auth_ok :: "join_env \<Rightarrow> join_cmd \<Rightarrow> silc_channel_entry \<Rightarrow> silc_client_entry \<Rightarrow> bool" where
  "founder_auth_ok env cmd channel client \<longleftrightarrow>
     jc_auth cmd \<noteq> None \<and> the (jc_auth cmd) \<noteq> [] \<and> has_mode (ch_mode channel) SILC_CHANNEL_MODE_FOUNDER_AUTH \<and>
     (case (ch_founder_key channel, id_public_key (cl_data client)) of
        (Some fkey, Some key) \<Rightarrow> pk_compare (je_pkcs env) fkey key \<and> client_key_auth (je_pkcs env) (the (jc_auth cmd)) fkey (cl_id client)
      | _ \<Rightarrow> False)"

text \<open>
  The names that patterns are matched with: the nickname, \<open>nickname!username@host\<close> and
  \<open>nickname@server!username@host\<close>.  \<open>None\<close> is a null pointer.
\<close>

definition at_host :: "join_env \<Rightarrow> byte list \<Rightarrow> byte list list" where
  "at_host env username = (if 0x40 \<in> set (cstr username) then [username] else [username, [0x40], je_hostname env])"

definition join_names :: "join_env \<Rightarrow> silc_client_entry \<Rightarrow> silc_server \<Rightarrow> (byte list \<times> byte list \<times> byte list) option" where
  "join_names env client s =
     (case (cl_nickname client, cl_username client) of
        (Some nickname, Some username) \<Rightarrow>
          Option.bind (if 0x40 \<in> set (cstr nickname) then Some []
              else map_option (\<lambda>name. [[0x40], name])
                (if SILC_IS_LOCAL (cl_data client) then Some (je_server_name env)
                 else Option.bind (Option.bind (cl_router client) (sv_servers s)) se_server_name)) (\<lambda>at_server.
          Option.bind (strncat_all (replicate 512 0) ([nickname, [0x21]] @ at_host env username)) (\<lambda>check.
          Option.bind (strncat_all (replicate 512 0) ([nickname] @ at_server @ [[0x21]] @ at_host env username)) (\<lambda>check2.
          Some (nickname, check, check2))))
      | _ \<Rightarrow> None)"

definition list_matches :: "join_env \<Rightarrow> inviteban_list \<Rightarrow> silc_client_entry \<Rightarrow> byte list \<times> byte list \<times> byte list \<Rightarrow> bool" where
  "list_matches env list client names =
     (let match = silc_server_inviteban_match (je_inviteban env) list in
      match (map_option Check_Client (cl_id client)) \<or>
      match (map_option Check_Key (id_public_key (cl_data client))) \<or>
      match (Some (Check_String (fst names))) \<or>
      match (Some (Check_String (fst (snd names)))) \<or> match (Some (Check_String (snd (snd names)))))"

text \<open>The conditions on joining; the result is the error.\<close>

definition modes_refuse :: "join_env \<Rightarrow> silc_channel_entry \<Rightarrow> silc_client_entry \<Rightarrow> silc_server \<Rightarrow> u8 option option" where
  "modes_refuse env channel client s =
     (case join_names env client s of
        None \<Rightarrow> None
      | Some names \<Rightarrow>
          Some (if has_mode (ch_mode channel) SILC_CHANNEL_MODE_INVITE \<and>
                   (case ch_invite_list channel of None \<Rightarrow> True
                    | Some l \<Rightarrow> silc_hash_table_count l = 0 \<or> \<not> list_matches env l client names)
                then Some SILC_STATUS_ERR_NOT_INVITED
                else if (case ch_ban_list channel of None \<Rightarrow> False
                    | Some l \<Rightarrow> silc_hash_table_count l \<noteq> 0 \<and> list_matches env l client names)
                then Some SILC_STATUS_ERR_BANNED_FROM_CHANNEL
                else if has_mode (ch_mode channel) SILC_CHANNEL_MODE_ULIMIT \<and>
                   unat (ch_user_limit channel) < silc_hash_table_count (ch_user_list channel) + 1
                then Some SILC_STATUS_ERR_CHANNEL_IS_FULL
                else None))"

definition passphrase_ok :: "join_cmd \<Rightarrow> silc_channel_entry \<Rightarrow> bool" where
  "passphrase_ok cmd channel \<longleftrightarrow>
     (case (jc_passphrase cmd, ch_passphrase channel) of
        (Some passphrase, Some own) \<Rightarrow> cstr own = cstr passphrase
      | _ \<Rightarrow> False)"

definition join_refused ::
  "join_env \<Rightarrow> join_cmd \<Rightarrow> u32 \<Rightarrow> ptr \<Rightarrow> silc_channel_entry \<Rightarrow> ptr \<Rightarrow> silc_client_entry \<Rightarrow> silc_server \<Rightarrow> u8 option option" where
  "join_refused env cmd umode p channel c client s =
     map_option (\<lambda>err.
       case err of Some e \<Rightarrow> Some e
       | None \<Rightarrow>
           if has_mode (ch_mode channel) SILC_CHANNEL_MODE_PASSPHRASE \<and> \<not> passphrase_ok cmd channel
           then Some SILC_STATUS_ERR_BAD_PASSWORD
           else if has_mode (ch_mode channel) SILC_CHANNEL_MODE_CHANNEL_AUTH \<and>
                   \<not> silc_server_verify_channel_auth (je_pkcs env) channel (cl_id client) (jc_cauth cmd)
           then Some SILC_STATUS_ERR_PERM_DENIED
           else if silc_server_client_on_channel (Some c) (Some p) s \<noteq> None
           then Some SILC_STATUS_ERR_USER_ON_CHANNEL
           else None)
       (if umode = 0 then modes_refuse env channel client s else Some None)"

text \<open>
  The users of a channel and their modes as two buffers; \<open>Some None\<close> is FALSE, for an empty
  channel.  A put that does not fit writes nothing.
\<close>

fun users_len :: "ptr list \<Rightarrow> silc_server \<Rightarrow> nat option" where
  "users_len [] s = Some 0"
| "users_len (k # ks) s =
     (case Option.bind (chl_client s k) cl_id of
        None \<Rightarrow> None
      | Some i \<Rightarrow> map_option (\<lambda>n. (silc_id_get_len (ClientID i) + 4 + n) mod 2 ^ 32) (users_len ks s))"

fun put_users :: "ptr list \<Rightarrow> silc_server \<Rightarrow> silc_buffer \<Rightarrow> silc_buffer \<Rightarrow> (silc_buffer \<times> silc_buffer) option" where
  "put_users [] s ids modes = Some (ids, modes)"
| "put_users (k # ks) s ids modes =
     (case (sv_chls s k, Option.bind (chl_client s k) cl_id) of
        (Some chl, Some i) \<Rightarrow>
          (case silc_id_payload_encode (ClientID i) of
             None \<Rightarrow> None
           | Some idp \<Rightarrow>
               let d = silc_buffer_data idp in
               if silc_buffer_len modes < 4 then None
               else put_users ks s (buf_pull (buf_put ids d (length d)) (length d))
                 (buf_pull (buf_put modes (SILC_PUT32_MSB (cce_mode chl)) 4) 4))
      | _ \<Rightarrow> None)"

definition silc_server_get_users_on_channel ::
  "ptr \<Rightarrow> silc_server \<Rightarrow> (silc_buffer \<times> silc_buffer \<times> u32) option option" where
  "silc_server_get_users_on_channel p s =
     (case sv_channels s p of
        None \<Rightarrow> None
      | Some channel \<Rightarrow>
          let n = silc_hash_table_count (ch_user_list channel) in
          if n = 0 then Some None
          else
            Option.bind (users_len (users channel) s) (\<lambda>len.
              case (silc_buffer_alloc_size len, silc_buffer_alloc_size (4 * n)) of
                (Some ids, Some modes) \<Rightarrow>
                  map_option (\<lambda>(ids, modes). Some (buf_push ids (silc_buffer_headlen ids),
                      buf_push modes (silc_buffer_headlen modes), of_nat (length (users channel))))
                    (put_users (users channel) s ids modes)
              | _ \<Rightarrow> None))"

text \<open>The counters; the first one counts every join, but leaving counts local clients only.\<close>

definition count_join :: "silc_server \<Rightarrow> silc_server" where
  "count_join s =
     (let s = update_stat (st_my_chanclients_update (\<lambda>n. n + 1)) s in
      if sv_server_type s = SILC_ROUTER
      then update_stat (st_chanclients_update (\<lambda>n. n + 1) \<circ> st_cell_chanclients_update (\<lambda>n. n + 1)) s else s)"

text \<open>
  The reply to the client and the notifications, after the membership was made.  Of the reply, the
  event has the lists of users, and the notification of a new founder lacks the founder key; the names of the cipher and of the HMAC are asked from their objects.
\<close>

definition join_announce ::
  "bool \<Rightarrow> bool \<Rightarrow> nat \<Rightarrow> u32 \<Rightarrow> ptr \<Rightarrow> ptr \<Rightarrow> silc_server \<Rightarrow> silc_server option" where
  "join_announce created founder pending umode c p s =
     (case (sv_channels s p, sv_clients s c) of
        (Some channel, Some client) \<Rightarrow>
          (case (silc_server_get_users_on_channel p s,
                 Option.bind (cl_id client) (\<lambda>i. silc_id_payload_encode (ClientID i)),
                 Option.bind (ch_id channel) (\<lambda>i. silc_id_payload_encode (ChannelID i))) of
             (Some (Some (user_list, mode_list, user_count)), Some clidp, Some chidp) \<Rightarrow>
               let privkey = has_mode (ch_mode channel) SILC_CHANNEL_MODE_PRIVKEY;
                   cd = silc_buffer_data clidp; hd = silc_buffer_data chidp in
               if \<not> privkey \<and> ch_send_key channel = None \<or> ch_hmac channel = None then None
               else
                 let s = emit (Ev_Join_Reply p c created user_count (silc_buffer_data user_list) (silc_buffer_data mode_list)) s;
                     s = update_stat (st_commands_sent_update (\<lambda>n. n + 1)) s;
                     s = emit (Ev_Notify_To_Channel p SILC_NOTIFY_TYPE_JOIN [cd, hd]) s;
                     s = count_join s;
                     s = (if pending \<noteq> 0 then s
                       else
                         let s = emit (Ev_Notify_Join p (cl_id client)) s;
                             s = (if privkey then s else emit (Ev_Backup_Channel_Key p) s) in
                         if founder then emit (Ev_Notify_To_Channel p SILC_NOTIFY_TYPE_CUMODE_CHANGE
                             [cd, SILC_PUT32_MSB umode, cd]) s
                         else s) in
                 Some (if founder then emit (Ev_Notify_Cumode p umode (cl_id client) (cl_id client) (ch_founder_key channel)) s else s)
           | _ \<Rightarrow> None)
      | _ \<Rightarrow> None)"

text \<open>\<open>k\<close> is the address of the new membership.\<close>

definition silc_server_command_join_channel ::
  "join_env \<Rightarrow> join_cmd \<Rightarrow> ptr \<Rightarrow> ptr option \<Rightarrow> bool \<Rightarrow> bool \<Rightarrow> u32 \<Rightarrow> silc_server \<Rightarrow> (join_outcome \<times> silc_server) option" where
  "silc_server_command_join_channel env cmd k channel created create_key umode s =
     (case channel of
        None \<Rightarrow> Some (Join_Dropped, s)
      | Some p \<Rightarrow>
          Option.bind (sv_channels s p) (\<lambda>channel.
          Option.bind (join_client cmd channel s) (\<lambda>(who, s).
            case who of
              Inl out \<Rightarrow> Some (out, s)
            | Inr c \<Rightarrow>
                Option.bind (sv_clients s c) (\<lambda>client.
                let pending = (if jc_conn_client cmd = None then 0 else jc_pending cmd);
                    founder = founder_auth_ok env cmd channel client;
                    umode = (if founder then founder_umode else umode) in
                Option.bind (if founder then drop_founder p (users channel) s else Some s) (\<lambda>s.
                Option.bind (join_refused env cmd umode p channel c client s) (\<lambda>err.
                  case err of
                    Some e \<Rightarrow> Some (Join_Error e, s)
                  | None \<Rightarrow>
                      Option.bind (if create_key then silc_server_create_channel_key (je_crypto env) p 0 s else Some (True, s))
                        (\<lambda>(ok, s).
                          if \<not> ok then Some (Join_Dropped, s)
                          else
                            let s = (if create_key \<and> \<not> has_mode (ch_mode channel) SILC_CHANNEL_MODE_PRIVKEY
                                  then emit (Ev_Send_Channel_Key None p
                                    (if sv_server_type s = SILC_ROUTER then False else \<not> sv_standalone s)) s
                                  else s);
                                s = update_channel p (\<lambda>e. e\<lparr>ch_disabled := False\<rparr>) (add_member k umode c p s) in
                            map_option (Pair (Joined c)) (join_announce created founder pending umode c p s))))))))"

section \<open>Who joins\<close>

lemma quiet_ident [simp, intro]: "quiet s (s\<lparr>sv_cmd_ident := n\<rparr>)"
  unfolding quiet_def
  by (intro conjI same_listsI) (simp_all add: get_list_def client_local_def client_table_def channel_table_def fun_eq_iff split: which_list.split)

lemma local_not_resolving:
  "SILC_IS_LOCAL (d\<lparr>id_status := (id_status d OR SILC_IDLIST_STATUS_RESOLVING) AND NOT SILC_IDLIST_STATUS_RESOLVED\<rparr>) = SILC_IS_LOCAL d"
proof -
  have "(x OR 4) AND NOT 2 AND 0x20 = x AND 0x20" for x :: u8
    by (rule bit_word_eqI) (auto simp: bit_simps numeral_eq_Suc less_Suc_eq)
  then show ?thesis by (simp add: SILC_IS_LOCAL_def ac_simps)
qed

lemma query_quiet:
  assumes "silc_server_query_client i always s = Some (co, r, s')"
  shows "quiet s s' \<and> sv_channels s' = sv_channels s \<and> (co \<noteq> None \<longrightarrow> s' = s)"
proof -
  have u: "quiet t (update_client c (\<lambda>e. e\<lparr>cl_data := (cl_data e)\<lparr>id_status := (id_status (cl_data e) OR SILC_IDLIST_STATUS_RESOLVING)
      AND NOT SILC_IDLIST_STATUS_RESOLVED\<rparr>, cl_resolve_cmd_ident := n\<rparr>) t)" for c n t
    using local_not_resolving by (intro quiet_update_client) simp_all
  have "quiet s (emit ev (update_stat f s))" for ev f by (rule quiet_trans [OF quiet_stat quiet_emit])
  moreover have "quiet s (emit ev (update_client c (\<lambda>e. e\<lparr>cl_data := (cl_data e)\<lparr>id_status := (id_status (cl_data e) OR SILC_IDLIST_STATUS_RESOLVING)
      AND NOT SILC_IDLIST_STATUS_RESOLVED\<rparr>, cl_resolve_cmd_ident := n\<rparr>) ((update_stat f s)\<lparr>sv_cmd_ident := n\<rparr>)))" for ev c n f
    by (rule quiet_trans [OF quiet_trans [OF quiet_trans [OF quiet_stat quiet_ident] u] quiet_emit])
  ultimately have "quiet s s'"
    using assms by (auto simp: silc_server_query_client_def Let_def split: option.splits if_splits)
  moreover have "sv_channels s' = sv_channels s \<and> (co \<noteq> None \<longrightarrow> s' = s)"
    using assms
    by (auto simp: silc_server_query_client_def Let_def emit_def update_client_def update_stat_def split: option.splits if_splits)
  ultimately show ?thesis by simp
qed

lemma join_client_quiet:
  assumes "join_client cmd channel s = Some (who, s')"
  shows "quiet s s' \<and> sv_channels s' = sv_channels s \<and> (\<forall>c. jc_conn_client cmd = Some c \<longrightarrow> who = Inr c \<and> s' = s)"
proof (cases "jc_conn_client cmd")
  case None
  from assms None obtain co r t where t: "silc_server_query_client (jc_client_id cmd) False s = Some (co, r, t)"
    by (auto simp: join_client_def)
  have "quiet s (emit ev (update_stat f (t\<lparr>sv_cmd_ident := n\<rparr>)))" for ev f n
    by (rule quiet_trans [OF quiet_trans [OF quiet_trans [OF _ quiet_ident] quiet_stat] quiet_emit]) (use query_quiet [OF t] in blast)
  with query_quiet [OF t] None t assms show ?thesis
    by (auto simp: join_client_def Let_def emit_def update_stat_def split: option.splits if_splits)
next
  case (Some c)
  with assms show ?thesis by (simp add: join_client_def)
qed

section \<open>Memberships and modes\<close>

lemma members_inv_modes:
  assumes "\<And>k. map_option (\<lambda>x. (cce_client x, cce_channel x)) (sv_chls s' k) = map_option (\<lambda>x. (cce_client x, cce_channel x)) (sv_chls s k)"
    "client_table s' = client_table s" "channel_table s' = channel_table s"
  shows "members_inv X s' = members_inv X s"
proof -
  have e: "(\<exists>x. sv_chls s' k = Some x \<and> P (cce_client x) (cce_channel x)) \<longleftrightarrow> (\<exists>x. sv_chls s k = Some x \<and> P (cce_client x) (cce_channel x))" for k P
    using assms(1) [of k] by (cases "sv_chls s k"; cases "sv_chls s' k") auto
  have a: "(\<forall>x. sv_chls s' k = Some x \<longrightarrow> P (cce_client x) (cce_channel x)) \<longleftrightarrow> (\<forall>x. sv_chls s k = Some x \<longrightarrow> P (cce_client x) (cce_channel x))" for k P
    using assms(1) [of k] by (cases "sv_chls s k"; cases "sv_chls s' k") auto
  have r: "client_rows (sv_chls s') c = client_rows (sv_chls s) c" "channel_rows (sv_chls s') p = channel_rows (sv_chls s) p" for c p
    using e [of _ "\<lambda>u v. u = c \<and> v = _"] e [of _ "\<lambda>u v. v = p \<and> u = _"] by (auto simp: rows_iff intro!: set_eqI)
  have u: "memberships_unique m \<longleftrightarrow> (\<forall>k c p. (\<exists>x. m k = Some x \<and> cce_client x = c \<and> cce_channel x = p) \<longrightarrow>
      (\<forall>k'. (\<exists>x. m k' = Some x \<and> cce_client x = c \<and> cce_channel x = p) \<longrightarrow> k = k'))" for m
    unfolding memberships_unique_def by metis
  have "memberships_unique (sv_chls s') = memberships_unique (sv_chls s)"
    unfolding u e [of _ "\<lambda>u v. u = _ \<and> v = _"] ..
  then show ?thesis
    unfolding members_inv_def r assms(2,3) a [of _ "\<lambda>u v. client_table s u \<noteq> None \<and> channel_table s v \<noteq> None"] by simp
qed

text \<open>Changes of modes only.\<close>

definition remoded :: "silc_server \<Rightarrow> silc_server \<Rightarrow> bool" where
  "remoded s s' \<longleftrightarrow> same_lists s s' \<and> sv_clients s' = sv_clients s \<and> sv_channels s' = sv_channels s \<and>
     sv_server_type s' = sv_server_type s \<and> sv_servers s' = sv_servers s \<and>
     (\<forall>k. map_option (\<lambda>x. (cce_client x, cce_channel x)) (sv_chls s' k) = map_option (\<lambda>x. (cce_client x, cce_channel x)) (sv_chls s k))"

lemma remoded_inv:
  assumes "remoded s s'" shows "server_inv s' = server_inv s" "channels_ok s' = channels_ok s" "members_of s' p = members_of s p"
proof -
  have t: "client_table s' = client_table s" "channel_table s' = channel_table s"
    using assms by (simp_all add: remoded_def client_table_def channel_table_def fun_eq_iff)
  note l = same_lists_ok [of s s'] members_inv_modes [OF _ t, of "{}"]
  show "server_inv s' = server_inv s"
    using assms l by (simp add: server_inv_def remoded_def listed_def)
  show "channels_ok s' = channels_ok s" using assms by (simp add: remoded_def channels_ok_def)
  have "(\<exists>x. sv_chls s' k = Some x \<and> cce_channel x = p) \<longleftrightarrow> (\<exists>x. sv_chls s k = Some x \<and> cce_channel x = p)" for k
    using assms by (cases "sv_chls s k"; cases "sv_chls s' k") (auto simp: remoded_def dest!: spec [of _ k])
  then show "members_of s' p = members_of s p" by (simp add: members_of_def)
qed

text \<open>No channel has two founders.\<close>

definition founders :: "silc_server \<Rightarrow> ptr \<Rightarrow> ptr set" where
  "founders s p = {k. \<exists>x. sv_chls s k = Some x \<and> cce_channel x = p \<and> has_mode (cce_mode x) SILC_CHANNEL_UMODE_CHANFO}"

definition one_founder :: "silc_server \<Rightarrow> bool" where
  "one_founder s \<longleftrightarrow> (\<forall>p. \<forall>k \<in> founders s p. \<forall>k' \<in> founders s p. k = k')"

lemma and_not_self: "(m AND NOT x) AND x = (0 :: u32)"
  by (simp add: and.assoc)

lemma no_founder_mode: "\<not> has_mode (m AND NOT SILC_CHANNEL_UMODE_CHANFO) SILC_CHANNEL_UMODE_CHANFO"
  unfolding has_mode_def and_not_self by simp

lemma update_mode:
  assumes "sv_chls s k = Some x" "cce_channel x = p"
  shows "remoded s (update_chl k (\<lambda>e. e\<lparr>cce_mode := m\<rparr>) s)"
    "founders (update_chl k (\<lambda>e. e\<lparr>cce_mode := m\<rparr>) s) q =
      (if q \<noteq> p then founders s q else founders s p - {k} \<union> (if has_mode m SILC_CHANNEL_UMODE_CHANFO then {k} else {}))"
proof -
  show "remoded s (update_chl k (\<lambda>e. e\<lparr>cce_mode := m\<rparr>) s)"
    unfolding remoded_def using assms by (intro conjI same_listsI) (auto simp: update_chl_def)
  show "founders (update_chl k (\<lambda>e. e\<lparr>cce_mode := m\<rparr>) s) q =
      (if q \<noteq> p then founders s q else founders s p - {k} \<union> (if has_mode m SILC_CHANNEL_UMODE_CHANFO then {k} else {}))"
    using assms by (auto simp: founders_def update_chl_def split: if_splits)
qed

lemma remoded_emit: "remoded s t \<Longrightarrow> remoded s (emit ev t)"
  unfolding remoded_def using same_lists_trans [OF _ same_lists_update(3)] by (auto simp: emit_def)

lemma remoded_refl: "remoded s s" by (simp add: remoded_def)

lemma drop_founder_ok:
  assumes "\<And>k. k \<in> set ks \<Longrightarrow> \<exists>x. sv_chls s k = Some x \<and> cce_channel x = p" "one_founder s" "founders s p \<subseteq> set ks"
  shows "\<exists>s'. drop_founder p ks s = Some s' \<and> remoded s s' \<and> founders s' = (founders s)(p := {})"
  using assms(1,3)
proof (induction ks)
  case Nil
  then show ?case by (simp add: remoded_refl fun_upd_idem)
next
  case (Cons k ks)
  obtain x where x: "sv_chls s k = Some x" "cce_channel x = p" using Cons.prems(1) [of k] by auto
  show ?case
  proof (cases "has_mode (cce_mode x) SILC_CHANNEL_UMODE_CHANFO")
    case True
    let ?m = "cce_mode x AND NOT SILC_CHANNEL_UMODE_CHANFO"
    have "k \<in> founders s p" using x True by (simp add: founders_def)
    then have "founders s p = {k}" using assms(2) by (auto simp: one_founder_def)
    then have "founders (update_chl k (\<lambda>e. e\<lparr>cce_mode := ?m\<rparr>) s) = (founders s)(p := {})"
      using update_mode(2) [OF x, of ?m] no_founder_mode by (auto simp: fun_eq_iff)
    moreover have "founders (emit ev t) = founders t" for ev t by (simp add: founders_def emit_def fun_eq_iff)
    ultimately show ?thesis
      using True x remoded_emit [OF update_mode(1) [OF x]] by (simp add: Let_def fun_upd_def)
  next
    case False
    with x have "k \<notin> founders s p" by (simp add: founders_def)
    with Cons x False show ?thesis by auto
  qed
qed

lemma drop_founder_remoded:
  assumes "drop_founder p ks s = Some u" shows "remoded s u"
  using assms
proof (induction ks)
  case (Cons k ks)
  obtain x where x: "sv_chls s k = Some x" using Cons.prems by (auto split: option.splits)
  with Cons remoded_emit [OF update_mode(1) [OF x refl]] show ?case by (auto simp: Let_def split: if_splits)
qed (simp add: remoded_refl)

section \<open>A new membership\<close>

text \<open>The effect of a new membership on everything else.\<close>

lemma add_member_state:
  assumes "server_inv s" "sv_clients s c = Some ec" "sv_channels s p = Some ep" "sv_chls s k = None"
    "\<And>j x. sv_chls s j = Some x \<Longrightarrow> cce_client x = c \<Longrightarrow> cce_channel x \<noteq> p"
  shows "server_inv (add_member k umode c p s)" "channels_ok s \<Longrightarrow> channels_ok (add_member k umode c p s)"
    "founders (add_member k umode c p s) = (founders s)(p := founders s p \<union> (if has_mode umode SILC_CHANNEL_UMODE_CHANFO then {k} else {}))"
proof -
  let ?s = "add_member k umode c p s"
  have "members_inv {} ?s" using add_member_inv assms unfolding server_inv_def by blast
  moreover have "same_lists s (s\<lparr>sv_chls := m\<rparr>)" for m by (rule same_listsI) simp_all
  then have l: "same_lists s ?s" unfolding add_member_def
    by (rule same_lists_trans [OF same_lists_trans [OF same_lists_trans [OF _ same_lists_update(2)] same_lists_update(1)] same_lists_update(2)]) simp_all
  moreover have "(sv_channels ?s q = None) = (sv_channels s q = None)" for q
    by (simp add: add_member_def update_client_def update_channel_def)
  ultimately show "server_inv ?s"
    using assms(1) same_lists_ok [OF l] by (simp add: server_inv_def listed_def)
  show "channels_ok ?s" if "channels_ok s"
    using that assms(3)
    by (auto simp: channels_ok_def channel_ok_def add_member_def update_client_def update_channel_def split: if_splits)
  show "founders ?s = (founders s)(p := founders s p \<union> (if has_mode umode SILC_CHANNEL_UMODE_CHANFO then {k} else {}))"
    using assms(4) by (auto simp: founders_def add_member_def update_client_def update_channel_def fun_eq_iff)
qed

lemma one_founder_upd:
  assumes "one_founder s" "founders s' = (founders s)(p := F)" "\<And>k k'. k \<in> F \<Longrightarrow> k' \<in> F \<Longrightarrow> k = k'"
  shows "one_founder s'"
  using assms by (auto simp: one_founder_def)

lemma founders_chls: "sv_chls s' = sv_chls s \<Longrightarrow> founders s' = founders s"
  by (simp add: founders_def fun_eq_iff)

section \<open>The lists of users\<close>

definition user_bytes :: "silc_server \<Rightarrow> ptr \<Rightarrow> byte list" where
  "user_bytes s k = client_bytes (the (cl_id (the (chl_client s k))))"

definition user_mode :: "silc_server \<Rightarrow> ptr \<Rightarrow> byte list" where
  "user_mode s k = SILC_PUT32_MSB (cce_mode (the (sv_chls s k)))"

text \<open>Every client has an ID.\<close>

definition identified :: "silc_server \<Rightarrow> bool" where
  "identified s \<longleftrightarrow> (\<forall>c e. sv_clients s c = Some e \<longrightarrow> (\<exists>i. cl_id e = Some i \<and> id_wf (ClientID i)))"

text \<open>A buffer that is being filled.\<close>

definition filled :: "byte list \<Rightarrow> nat \<Rightarrow> silc_buffer" where
  "filled xs m = \<lparr>bmem = xs @ replicate m 0, bdata = length xs, btail = length xs + m\<rparr>"

lemma fill_step: "length d \<le> m \<Longrightarrow> buf_pull (buf_put (filled xs m) d (length d)) (length d) = filled (xs @ d) (m - length d)"
  by (simp add: filled_def silc_buffer_put_def silc_buffer_pull_def silc_buffer_len_def memcpy_at_def)

lemma filled_len: "silc_buffer_len (filled xs m) = m"
  by (simp add: filled_def silc_buffer_len_def)

lemma filled_done: "buf_push (filled xs 0) (silc_buffer_headlen (filled xs 0)) = silc_buffer_set xs"
  by (simp add: filled_def silc_buffer_push_def silc_buffer_headlen_def silc_buffer_set_def)

lemma client_bytes_len: "id_wf (ClientID i) \<Longrightarrow> length (client_bytes i) = silc_id_get_len (ClientID i) + 4"
  using id2str_eq [of "ClientID i"] id2str_length [of "ClientID i"] by (auto simp: client_bytes_def id_payload_bytes_def SILC_PUT16_MSB_def)

lemma user_of:
  assumes "members_inv {} s" "identified s" "sv_chls s k = Some x"
  obtains i where "Option.bind (chl_client s k) cl_id = Some i" "id_wf (ClientID i)" "user_bytes s k = client_bytes i"
proof -
  obtain e where e: "sv_clients s (cce_client x) = Some e" using members_entries [OF assms(1,3)] by metis
  then obtain i where "cl_id e = Some i" "id_wf (ClientID i)" using assms(2) by (auto simp: identified_def)
  with e assms(3) show ?thesis using that [of i] by (simp add: chl_client_def user_bytes_def)
qed

lemma put_users_ok:
  assumes "members_inv {} s" "identified s" "\<And>k. k \<in> set ks \<Longrightarrow> sv_chls s k \<noteq> None"
  shows "put_users ks s (filled xs (length (concat (map (user_bytes s) ks)))) (filled ys (4 * length ks)) =
    Some (filled (xs @ concat (map (user_bytes s) ks)) 0, filled (ys @ concat (map (user_mode s) ks)) 0)"
  using assms(3)
proof (induction ks arbitrary: xs ys)
  case (Cons k ks)
  obtain x where x: "sv_chls s k = Some x" using Cons.prems [of k] by auto
  obtain i where i: "Option.bind (chl_client s k) cl_id = Some i" "id_wf (ClientID i)" "user_bytes s k = client_bytes i"
    using user_of [OF assms(1,2) x] .
  have m: "user_mode s k = SILC_PUT32_MSB (cce_mode x)" using x by (simp add: user_mode_def)
  then have l: "length (user_mode s k) = 4" by (simp add: SILC_PUT32_MSB_def)
  have "put_users (k # ks) s (filled xs (length (concat (map (user_bytes s) (k # ks))))) (filled ys (4 * length (k # ks))) =
      put_users ks s (filled (xs @ user_bytes s k) (length (concat (map (user_bytes s) ks)))) (filled (ys @ user_mode s k) (4 * length ks))"
    using x i fill_step [of "user_bytes s k"] fill_step [of "user_mode s k" "4 * length (k # ks)" ys] l
    by (simp add: client_payload(1) filled_len m Let_def)
  with Cons show ?case by simp
qed (simp add: filled_def)

lemma users_len_ok:
  assumes "members_inv {} s" "identified s" "\<And>k. k \<in> set ks \<Longrightarrow> sv_chls s k \<noteq> None" "32 * length ks < 2 ^ 32"
  shows "users_len ks s = Some (length (concat (map (user_bytes s) ks))) \<and> length (concat (map (user_bytes s) ks)) \<le> 32 * length ks"
  using assms(3,4)
proof (induction ks)
  case (Cons k ks)
  obtain x where x: "sv_chls s k = Some x" using Cons.prems(1) [of k] by auto
  obtain i where i: "Option.bind (chl_client s k) cl_id = Some i" "id_wf (ClientID i)" "user_bytes s k = client_bytes i"
    using user_of [OF assms(1,2) x] .
  with Cons client_bytes_len [OF i(2)] client_bytes_length [OF i(2)] show ?case by simp
qed simp

lemma get_users_ok:
  assumes "members_inv {} s" "identified s" "sv_channels s p = Some e" "32 * length (users e) < SILC_MAX_ALLOC" "users e \<noteq> []"
  shows "silc_server_get_users_on_channel p s = Some (Some (silc_buffer_set (concat (map (user_bytes s) (users e))),
    silc_buffer_set (concat (map (user_mode s) (users e))), of_nat (length (users e))))"
proof -
  have k: "sv_chls s k \<noteq> None" if "k \<in> set (users e)" for k using users_rows(1) [OF assms(1,3)] that by auto
  have n: "silc_hash_table_count (ch_user_list e) = length (users e)"
    using count_members(1) [OF assms(1,3)] users_rows [OF assms(1,3)] distinct_card [of "users e"] by (simp add: members_of_def)
  note l = users_len_ok [OF assms(1,2), of "users e"]
  have al: "silc_buffer_alloc_size m = Some (filled [] m)" if "m < SILC_MAX_ALLOC" for m using that by (simp add: filled_def)
  have "users_len (users e) s = Some (length (concat (map (user_bytes s) (users e))))"
    "length (concat (map (user_bytes s) (users e))) < SILC_MAX_ALLOC" "4 * length (users e) < SILC_MAX_ALLOC"
    using l k assms(4) by (auto simp: SILC_MAX_ALLOC_def)
  moreover note put_users_ok [OF assms(1,2) k, of "users e" "[]" "[]"]
  ultimately show ?thesis
    using assms(3,5) by (simp add: silc_server_get_users_on_channel_def Let_def n al filled_done del: alloc_size_ok)
qed

section \<open>The whole operation\<close>

lemma strncat_all_ok: "length dest = 512 \<Longrightarrow> \<exists>d. strncat_all dest srcs = Some d"
proof (induction srcs arbitrary: dest)
  case (Cons x srcs)
  have "dest \<noteq> []" "length dest < 2 ^ 31" using Cons.prems by auto
  from strncat_ok [OF this, of x "of_nat (length (cstr x))"] obtain d where
    "silc_strncat dest x (of_nat (length (cstr x))) = Some d" "length d = 512" using Cons.prems by auto
  with Cons.IH show ?case by auto
qed simp

text \<open>A client that can be matched with patterns: it has its names, and its server, if it is another, has one.\<close>

definition named :: "silc_client_entry \<Rightarrow> silc_server \<Rightarrow> bool" where
  "named client s \<longleftrightarrow> cl_nickname client \<noteq> None \<and> cl_username client \<noteq> None \<and>
     (SILC_IS_LOCAL (cl_data client) \<or> Option.bind (Option.bind (cl_router client) (sv_servers s)) se_server_name \<noteq> None)"

lemma join_names_ok:
  assumes "named client s" shows "join_names env client s \<noteq> None"
proof -
  obtain nick user where n: "cl_nickname client = Some nick" "cl_username client = Some user" using assms by (auto simp: named_def)
  obtain at where at: "(if 0x40 \<in> set (cstr nick) then Some [] else map_option (\<lambda>name. [[0x40], name])
      (if SILC_IS_LOCAL (cl_data client) then Some (je_server_name env)
       else Option.bind (Option.bind (cl_router client) (sv_servers s)) se_server_name)) = Some at"
    using assms by (cases "0x40 \<in> set (cstr nick)"; cases "SILC_IS_LOCAL (cl_data client)") (auto simp: named_def)
  have l: "length (replicate 512 (0 :: byte)) = 512" by simp
  obtain a b where ab: "strncat_all (replicate 512 0) ([nick, [0x21]] @ at_host env user) = Some a"
    "strncat_all (replicate 512 0) ([nick] @ at @ [[0x21]] @ at_host env user) = Some b"
    using strncat_all_ok [OF l] by metis
  show ?thesis unfolding join_names_def n prod.case option.case at by (simp only: Option.bind.bind_lunit ab) simp
qed

lemma join_client_found:
  assumes "join_client cmd channel s = Some (Inr c, s')"
  shows "s' = s" "jc_conn_client cmd = None \<Longrightarrow> \<exists>e. sv_clients s c = Some e \<and> cl_nickname e \<noteq> None \<and> cl_username e \<noteq> None"
proof -
  have "s' = s \<and> (jc_conn_client cmd = None \<longrightarrow> (\<exists>e. sv_clients s c = Some e \<and> cl_nickname e \<noteq> None \<and> cl_username e \<noteq> None))"
  proof (cases "jc_conn_client cmd")
    case None
    from assms None obtain r t where t: "silc_server_query_client (jc_client_id cmd) False s = Some (Some c, r, t)" "s' = t"
      by (auto simp: join_client_def Let_def split: option.splits if_splits)
    then have "t = s" using query_quiet by blast
    moreover from t(1) have "\<exists>e. sv_clients s c = Some e \<and> cl_nickname e \<noteq> None \<and> cl_username e \<noteq> None"
      by (auto simp: silc_server_query_client_def Let_def split: option.splits if_splits)
    ultimately show ?thesis using t(2) by simp
  qed (use assms in \<open>simp add: join_client_def\<close>)
  then show "s' = s" "jc_conn_client cmd = None \<Longrightarrow> \<exists>e. sv_clients s c = Some e \<and> cl_nickname e \<noteq> None \<and> cl_username e \<noteq> None"
    by simp_all
qed

lemma find_client_exists:
  assumes "lists_ok s" "silc_idlist_find_client_by_id w (Some i) reg s = Some c" shows "\<exists>e. sv_clients s c = Some e"
proof -
  obtain r where "silc_idcache_find_by_id_one (cache_of s (w, Clients)) (ClientID i) = Some r" "entry_context s r = Some c"
    using assms(2) by (auto simp: silc_idlist_find_client_by_id_def Let_def split: option.splits if_splits)
  then have "directory s (w, Clients) (ClientID i) = Some c" using find_directory [OF assms(1), of "(w, Clients)" "ClientID i"] by simp
  then show ?thesis using directory_entry [OF assms(1)] by fastforce
qed

lemma query_client_total:
  assumes "lists_ok s" shows "\<exists>r. silc_server_query_client i always s = Some r"
proof -
  let ?f = "\<lambda>w. silc_idlist_find_client_by_id w (Some i) True s"
  have "\<exists>e. sv_clients s c = Some e" if "(case ?f Local_List of Some c \<Rightarrow> Some c | None \<Rightarrow> ?f Global_List) = Some c" for c
    using that find_client_exists [OF assms] by (auto split: option.splits)
  then show ?thesis unfolding silc_server_query_client_def Let_def by (fastforce split: option.split)
qed

lemma join_client_total:
  assumes "lists_ok s" shows "\<exists>who s'. join_client cmd channel s = Some (who, s')"
proof (cases "jc_conn_client cmd")
  case None
  obtain r where "silc_server_query_client (jc_client_id cmd) False s = Some r" using query_client_total [OF assms] by blast
  with None have "join_client cmd channel s \<noteq> None" by (simp add: join_client_def)
  then show ?thesis by auto
qed (simp add: join_client_def)

lemma join_client_waits: "join_client cmd channel s = Some (Inl out, s') \<Longrightarrow> out \<noteq> Joined c"
  by (auto simp: join_client_def Let_def split: option.splits if_splits prod.splits)

text \<open>The mode of the new user, and the state after the founder was dropped.\<close>

definition join_umode :: "join_env \<Rightarrow> join_cmd \<Rightarrow> silc_channel_entry \<Rightarrow> silc_client_entry \<Rightarrow> u32 \<Rightarrow> u32" where
  "join_umode env cmd channel client umode = (if founder_auth_ok env cmd channel client then founder_umode else umode)"

definition founder_dropped :: "join_env \<Rightarrow> join_cmd \<Rightarrow> ptr \<Rightarrow> silc_channel_entry \<Rightarrow> silc_client_entry \<Rightarrow> silc_server \<Rightarrow> silc_server option" where
  "founder_dropped env cmd p channel client s =
     (if founder_auth_ok env cmd channel client then drop_founder p (users channel) s else Some s)"

definition join_key :: "join_env \<Rightarrow> bool \<Rightarrow> ptr \<Rightarrow> silc_server \<Rightarrow> (bool \<times> silc_server) option" where
  "join_key env create_key p s = (if create_key then silc_server_create_channel_key (je_crypto env) p 0 s else Some (True, s))"

lemma join_cases:
  assumes "silc_server_command_join_channel env cmd k (Some p) created create_key umode s = Some (out, s')"
  obtains (who) channel where "join_client cmd channel s = Some (Inl out, s')"
  | (refused) channel c client e where "sv_channels s p = Some channel" "sv_clients s c = Some client"
      "founder_dropped env cmd p channel client s = Some s'" "out = Join_Error e"
  | (no_key) channel c client t where "sv_channels s p = Some channel" "sv_clients s c = Some client"
      "founder_dropped env cmd p channel client s = Some t" "join_key env create_key p t = Some (False, s')" "out = Join_Dropped"
  | (joined) channel c client t u v where "sv_channels s p = Some channel" "sv_clients s c = Some client"
      "founder_dropped env cmd p channel client s = Some t"
      "join_refused env cmd (join_umode env cmd channel client umode) p channel c client t = Some None"
      "join_key env create_key p t = Some (True, u)" "v = u \<or> (\<exists>ev. v = emit ev u)"
      "join_announce created (founder_auth_ok env cmd channel client) (if jc_conn_client cmd = None then 0 else jc_pending cmd)
         (join_umode env cmd channel client umode) c p
         (update_channel p (\<lambda>e. e\<lparr>ch_disabled := False\<rparr>) (add_member k (join_umode env cmd channel client umode) c p v)) = Some s'"
      "out = Joined c"
proof -
  obtain channel who t where ch: "sv_channels s p = Some channel" and w: "join_client cmd channel s = Some (who, t)"
    using assms by (auto simp: silc_server_command_join_channel_def bind_eq_Some_conv)
  show thesis
  proof (cases who)
    case (Inl o')
    with assms ch w have "join_client cmd channel s = Some (Inl out, s')" by (simp add: silc_server_command_join_channel_def)
    then show ?thesis by (rule that(1))
  next
    case (Inr c)
    with w have t: "t = s" using join_client_found(1) by blast
    obtain client s0 err where cl: "sv_clients s c = Some client" and s0: "founder_dropped env cmd p channel client s = Some s0"
      and err: "join_refused env cmd (join_umode env cmd channel client umode) p channel c client s0 = Some err"
      using assms ch w Inr t
      by (auto simp: silc_server_command_join_channel_def bind_eq_Some_conv Let_def founder_dropped_def join_umode_def)
    note go = assms [unfolded silc_server_command_join_channel_def Let_def, folded founder_dropped_def join_umode_def,
        folded join_key_def, simplified]
    note go = go [simplified ch] and facts = w Inr t cl s0 err
    show ?thesis
    proof (cases err)
      case (Some e)
      with go facts have "out = Join_Error e" "s' = s0" by simp_all
      with that(2) [OF ch cl] s0 show ?thesis by blast
    next
      case None
      with go facts obtain ok u where u: "join_key env create_key p s0 = Some (ok, u)" by (auto simp: bind_eq_Some_conv)
      show ?thesis
      proof (cases ok)
        case False
        with go facts None u have "out = Join_Dropped" "s' = u" by simp_all
        with that(3) [OF ch cl s0] u False show ?thesis by simp
      next
        case True
        let ?v = "if create_key \<and> \<not> has_mode (ch_mode channel) SILC_CHANNEL_MODE_PRIVKEY
            then emit (Ev_Send_Channel_Key None p (if sv_server_type u = SILC_ROUTER then False else \<not> sv_standalone u)) u else u"
        from go facts None u True show ?thesis
          by (intro that(4) [OF ch cl s0, where u = u and v = ?v]) auto
      qed
    qed
  qed
qed

text \<open>What each part keeps.\<close>

lemma announce_quiet:
  assumes "join_announce created founder pending umode c p s = Some s'"
  shows "quiet s s'" "sv_channels s' = sv_channels s" "sv_clients s' = sv_clients s" "sv_chls s' = sv_chls s"
proof -
  have c: "quiet t (count_join t)" for t
    unfolding count_join_def Let_def using quiet_trans [OF quiet_stat quiet_stat] by (cases "sv_server_type t = SILC_ROUTER") auto
  note q = quiet_trans [OF _ quiet_emit] quiet_trans [OF _ quiet_stat] quiet_trans [OF _ c]
  show "quiet s s'"
    using assms by (auto simp: join_announce_def Let_def split: option.splits if_splits intro!: q)
  show "sv_channels s' = sv_channels s" "sv_clients s' = sv_clients s" "sv_chls s' = sv_chls s"
    using assms by (auto simp: join_announce_def Let_def count_join_def emit_def update_stat_def split: option.splits if_splits)
qed

lemma founder_dropped_ok:
  assumes "server_inv s" "one_founder s" "sv_channels s p = Some channel"
  shows "\<exists>t. founder_dropped env cmd p channel client s = Some t \<and> remoded s t \<and>
    founders t = (if founder_auth_ok env cmd channel client then (founders s)(p := {}) else founders s)"
proof (cases "founder_auth_ok env cmd channel client")
  case True
  have m: "members_inv {} s" using assms(1) by (simp add: server_inv_def)
  have "\<exists>x. sv_chls s k = Some x \<and> cce_channel x = p" if "k \<in> set (users channel)" for k
    using that users_rows(1) [OF m assms(3)] by simp
  moreover have "founders s p \<subseteq> set (users channel)" using users_rows(1) [OF m assms(3)] by (auto simp: founders_def)
  ultimately show ?thesis using drop_founder_ok [OF _ assms(2)] True by (simp add: founder_dropped_def)
qed (simp add: founder_dropped_def remoded_refl)

lemma join_key_ok:
  assumes "crypto_ok (je_crypto env)" "channels_ok t" "sv_channels t p = Some channel"
  shows "\<exists>b u. join_key env create_key p t = Some (b, u) \<and> quiet t u \<and> channels_ok u \<and>
    (if create_key then key_frame p channel b t u else b \<and> u = t)"
  using create_channel_key_ok [OF assms, of 0] assms(2) by (auto simp: join_key_def)

lemma remoded_client_on_channel:
  "remoded s t \<Longrightarrow> silc_server_client_on_channel c p t = silc_server_client_on_channel c p s"
  by (cases c; cases p) (simp_all add: silc_server_client_on_channel_def remoded_def)

lemma on_channel_none:
  assumes "server_inv s" "sv_clients s c = Some client" "silc_server_client_on_channel (Some c) (Some p) s = None"
    "sv_chls s j = Some x" "cce_client x = c"
  shows "cce_channel x \<noteq> p"
proof -
  have "members_inv {} s" using assms(1) by (simp add: server_inv_def)
  from find_membership(1) [OF this assms(2), of p j] assms(2-5) show ?thesis by (auto simp: silc_server_client_on_channel_def)
qed

text \<open>The state when the client has been added.\<close>

lemma joined_state:
  assumes "server_inv s" "channels_ok s" "sv_clients s c = Some client" "sv_channels s p = Some channel" "sv_chls s k = None"
    "silc_server_client_on_channel (Some c) (Some p) s = None"
    "join_announce created founder pending um c p
       (update_channel p (\<lambda>e. e\<lparr>ch_disabled := False\<rparr>) (add_member k um c p s)) = Some s'"
  shows "server_inv s'" "channels_ok s'" "sv_chls s' = (sv_chls s)(k \<mapsto> \<lparr>cce_client = c, cce_mode = um, cce_channel = p\<rparr>)"
    "founders s' = (founders s)(p := founders s p \<union> (if has_mode um SILC_CHANNEL_UMODE_CHANFO then {k} else {}))"
    "sv_server_type s' = sv_server_type s"
proof -
  let ?t = "add_member k um c p s" and ?u = "\<lambda>t. update_channel p (\<lambda>e. e\<lparr>ch_disabled := False\<rparr>) t"
  note n = on_channel_none [OF assms(1,3,6)]
  have a: "server_inv ?t" "channels_ok ?t"
    "founders ?t = (founders s)(p := founders s p \<union> (if has_mode um SILC_CHANNEL_UMODE_CHANFO then {k} else {}))"
    using n assms(2) by (intro add_member_state [OF assms(1,3,4,5)]; blast)+
  have q: "quiet ?t (?u ?t)" by (rule quiet_update_channel) simp_all
  note an = announce_quiet [OF assms(7)]
  have q: "quiet ?t s'" by (rule quiet_trans [OF q an(1)])
  from quiet_inv(1) [OF this] a(1) show "server_inv s'" by simp
  have "channels_ok (?u ?t)" by (rule channels_ok_tables(4)) (rule a(2))
  then show "channels_ok s'" using an(2) by (simp add: channels_ok_def)
  have "sv_chls s' = sv_chls ?t" using q by (simp add: quiet_def)
  then show "sv_chls s' = (sv_chls s)(k \<mapsto> \<lparr>cce_client = c, cce_mode = um, cce_channel = p\<rparr>)"
    "founders s' = (founders s)(p := founders s p \<union> (if has_mode um SILC_CHANNEL_UMODE_CHANFO then {k} else {}))"
    using a(3) founders_chls [of s' ?t] by (simp_all add: add_member_def update_client_def update_channel_def)
  show "sv_server_type s' = sv_server_type s" using q by (simp add: quiet_def add_member_def update_client_def update_channel_def)
qed

text \<open>The state in which the conditions hold and before the client is added.\<close>

lemma join_before:
  assumes "server_inv s" "channels_ok s" "crypto_ok (je_crypto env)" "sv_channels s p = Some channel"
    "sv_clients s c = Some client" "founder_dropped env cmd p channel client s = Some t" "join_key env create_key p t = Some (b, u)"
    "v = u \<or> (\<exists>ev. v = emit ev u)"
  shows "server_inv v" "channels_ok v" "sv_chls v = sv_chls t" "sv_clients v = sv_clients s" "\<exists>channel'. sv_channels v p = Some channel'"
    "one_founder s \<Longrightarrow> founders v = (if founder_auth_ok env cmd channel client then (founders s)(p := {}) else founders s)"
    "remoded s t" "sv_server_type v = sv_server_type s"
proof -
  have t: "remoded s t" using assms(6) drop_founder_remoded remoded_refl by (auto simp: founder_dropped_def split: if_splits)
  have it: "server_inv t" "channels_ok t" using remoded_inv [OF t] assms(1,2) by simp_all
  have ch: "sv_channels t p = Some channel" using t assms(4) by (simp add: remoded_def)
  have u: "quiet t u" "channels_ok u" "sv_clients u = sv_clients t"
    using join_key_ok [OF assms(3) it(2) ch, of create_key] assms(7) by (auto simp: key_frame_def split: if_splits)
  have v: "quiet t v" using assms(8) u(1) quiet_trans [OF u(1) quiet_emit] by auto
  then show "server_inv v" using quiet_inv(1) [OF v] it(1) by simp
  show "channels_ok v" using assms(8) u(2) by (auto simp: channels_ok_same)
  show c: "sv_chls v = sv_chls t" using v by (simp add: quiet_def)
  show "sv_clients v = sv_clients s" using assms(8) u(3) t by (auto simp: remoded_def emit_def)
  show "\<exists>channel'. sv_channels v p = Some channel'" using quiet_entries(2) [OF v, of p] ch by auto
  show "founders v = (if founder_auth_ok env cmd channel client then (founders s)(p := {}) else founders s)" if "one_founder s"
    using founders_chls [OF c] founder_dropped_ok [OF assms(1) that assms(4), of env cmd client] assms(6) by auto
  show "remoded s t" by (rule t)
  show "sv_server_type v = sv_server_type s" using v t by (simp add: quiet_def remoded_def)
qed

lemma join_not_on: "join_refused env cmd um p channel c client t = Some None \<Longrightarrow> silc_server_client_on_channel (Some c) (Some p) t = None"
  by (auto simp: join_refused_def split: option.splits if_splits)

lemma client_on_channel_clients:
  "sv_clients v = sv_clients t \<Longrightarrow> silc_server_client_on_channel (Some c) (Some p) v = silc_server_client_on_channel (Some c) (Some p) t"
  by (simp add: silc_server_client_on_channel_def)

lemma remoded_none: "remoded s t \<Longrightarrow> sv_chls t k = None \<longleftrightarrow> sv_chls s k = None"
  by (auto simp: remoded_def dest!: spec [of _ k])

lemma founder_umode_founder: "has_mode founder_umode SILC_CHANNEL_UMODE_CHANFO"
  by (simp add: founder_umode_def has_mode_def SILC_CHANNEL_UMODE_CHANOP_def SILC_CHANNEL_UMODE_CHANFO_def)

lemma one_founder_drop:
  "one_founder s \<Longrightarrow> founders t = (if b then (founders s)(p := {}) else founders s) \<Longrightarrow> one_founder t"
  by (auto simp: one_founder_def split: if_splits)

text \<open>The last step: a client who was not on the channel becomes its user.\<close>

lemma join_last:
  assumes "server_inv s" "channels_ok s" "crypto_ok (je_crypto env)" "sv_chls s k = None" "sv_channels s p = Some channel"
    "sv_clients s c = Some client" "founder_dropped env cmd p channel client s = Some t"
    "join_refused env cmd um p channel c client t = Some None" "join_key env create_key p t = Some (True, u)"
    "v = u \<or> (\<exists>ev. v = emit ev u)"
    "join_announce created founder pending um c p (update_channel p (\<lambda>e. e\<lparr>ch_disabled := False\<rparr>) (add_member k um c p v)) = Some s'"
  shows "server_inv s'" "channels_ok s'" "sv_chls s' = (sv_chls t)(k \<mapsto> \<lparr>cce_client = c, cce_mode = um, cce_channel = p\<rparr>)"
    "founders s' = (founders v)(p := founders v p \<union> (if has_mode um SILC_CHANNEL_UMODE_CHANFO then {k} else {}))"
    "silc_server_client_on_channel (Some c) (Some p) s = None" "sv_server_type s' = sv_server_type s"
proof -
  note v = join_before [OF assms(1-3,5-7,9,10)]
  obtain channel' where ch: "sv_channels v p = Some channel'" using v(5) by blast
  have cl: "sv_clients v c = Some client" using v(4) assms(6) by simp
  have k: "sv_chls v k = None" using v(3) remoded_none [OF v(7)] assms(4) by simp
  have "sv_clients v = sv_clients t" "sv_clients s = sv_clients t" using v(4,7) by (simp_all add: remoded_def)
  then have on: "silc_server_client_on_channel (Some c) (Some p) v = None" "silc_server_client_on_channel (Some c) (Some p) s = None"
    using client_on_channel_clients join_not_on [OF assms(8)] by metis+
  note j = joined_state [OF v(1,2) cl ch k on(1) assms(11)]
  show "server_inv s'" "channels_ok s'" "sv_chls s' = (sv_chls t)(k \<mapsto> \<lparr>cce_client = c, cce_mode = um, cce_channel = p\<rparr>)"
    "founders s' = (founders v)(p := founders v p \<union> (if has_mode um SILC_CHANNEL_UMODE_CHANFO then {k} else {}))"
    "silc_server_client_on_channel (Some c) (Some p) s = None" "sv_server_type s' = sv_server_type s"
    using j v(3,8) on(2) by simp_all
qed

section \<open>Joining returns\<close>

lemma announce_total:
  assumes "members_inv {} s" "identified s" "sv_channels s p = Some e" "sv_clients s c = Some client" "users e \<noteq> []"
    "32 * length (users e) < SILC_MAX_ALLOC" "ch_id e = Some i" "id_wf (ChannelID i)"
    "has_mode (ch_mode e) SILC_CHANNEL_MODE_PRIVKEY \<or> ch_send_key e \<noteq> None" "ch_hmac e \<noteq> None"
  shows "\<exists>s'. join_announce created founder pending umode c p s = Some s'"
proof -
  obtain j where j: "cl_id client = Some j" "id_wf (ClientID j)" using assms(2,4) by (auto simp: identified_def)
  obtain b where "silc_id_id2str (ChannelID i) 32 = Some b" using id2str_eq [OF assms(8)] by blast
  from payload_encode_eq [OF assms(8) this] obtain hb where "silc_id_payload_encode (ChannelID i) = Some hb" by blast
  moreover have "(\<not> has_mode (ch_mode e) SILC_CHANNEL_MODE_PRIVKEY \<and> ch_send_key e = None \<or> ch_hmac e = None) = False" using assms(9,10) by blast
  ultimately show ?thesis
    using get_users_ok [OF assms(1,2,3,6,5)] assms(3,4,7) j client_payload(1) [OF j(2)] by (auto simp: join_announce_def Let_def)
qed

text \<open>The channel can announce a new user: it has an ID, an HMAC and, unless it has private keys, a key.\<close>

definition announces :: "silc_channel_entry \<Rightarrow> bool" where
  "announces e \<longleftrightarrow> (\<exists>i. ch_id e = Some i \<and> id_wf (ChannelID i)) \<and> ch_hmac e \<noteq> None \<and>
     (has_mode (ch_mode e) SILC_CHANNEL_MODE_PRIVKEY \<or> ch_send_key e \<noteq> None)"

lemma key_frame_announces: "announces e \<Longrightarrow> key_frame p e True t u \<Longrightarrow> \<exists>e'. sv_channels u p = Some e' \<and> announces e'"
  by (auto simp: announces_def key_frame_def split: if_splits)

lemma users_card:
  assumes "members_inv {} s" "sv_channels s p = Some e" shows "length (users e) = card (members_of s p)"
  using users_rows [OF assms] distinct_card [of "users e"] by (simp add: members_of_def)

lemma joined_announces:
  assumes "server_inv s" "identified s" "sv_clients s c = Some client" "sv_channels s p = Some channel" "announces channel" "sv_chls s k = None"
    "silc_server_client_on_channel (Some c) (Some p) s = None" "32 * (card (members_of s p) + 1) < SILC_MAX_ALLOC"
  shows "\<exists>s'. join_announce created founder pending um c p
    (update_channel p (\<lambda>e. e\<lparr>ch_disabled := False\<rparr>) (add_member k um c p s)) = Some s'"
proof -
  let ?t = "add_member k um c p s" and ?u = "update_channel p (\<lambda>e. e\<lparr>ch_disabled := False\<rparr>) (add_member k um c p s)"
  note n = on_channel_none [OF assms(1,3,7)]
  have "server_inv ?t" using n by (intro add_member_state [OF assms(1,3,4,6)]; blast)
  moreover have "quiet ?t ?u" by (rule quiet_update_channel) simp_all
  from quiet_inv(1) [OF this] calculation have "server_inv ?u" by simp
  then have m: "members_inv {} ?u" by (simp add: server_inv_def)
  have id: "identified ?u"
    using assms(2) by (auto simp: identified_def add_member_def update_client_def update_channel_def split: if_splits)
  obtain e where e: "sv_channels ?u p = Some e" "announces e"
    using assms(4,5) by (auto simp: announces_def add_member_def update_client_def update_channel_def)
  obtain client' where cl: "sv_clients ?u c = Some client'"
    using assms(3) by (auto simp: add_member_def update_client_def update_channel_def)
  have "members_of ?u p = insert k (members_of s p)"
    by (auto simp: members_of_def add_member_def update_client_def update_channel_def split: if_splits)
  moreover have "finite (members_of s p)" using count_members(2) [OF _ assms(4)] assms(1) by (simp add: server_inv_def)
  moreover have "k \<notin> members_of s p" using assms(6) by (simp add: members_of_def)
  ultimately have l: "length (users e) = card (members_of s p) + 1" using users_card [OF m e(1)] by simp
  obtain i where i: "ch_id e = Some i" "id_wf (ChannelID i)" using e(2) by (auto simp: announces_def)
  show ?thesis by (rule announce_total [OF m id e(1) cl _ _ i]) (use l assms(8) e(2) in \<open>auto simp: announces_def\<close>)
qed

lemma join_refused_total:
  assumes "named client s" shows "\<exists>err. join_refused env cmd um p channel c client s = Some err"
  using join_names_ok [OF assms, of env] by (auto simp: join_refused_def modes_refuse_def)

lemma join_refused_remoded:
  assumes "remoded s t" shows "join_refused env cmd um p channel c client t = join_refused env cmd um p channel c client s"
proof -
  have "sv_servers t = sv_servers s" using assms by (simp add: remoded_def)
  then have "join_names env client t = join_names env client s" unfolding join_names_def by (simp only:)
  then show ?thesis unfolding join_refused_def modes_refuse_def remoded_client_on_channel [OF assms] by (simp only:)
qed

text \<open>The run for a client that is known.\<close>

lemma join_runs:
  assumes "server_inv s" "channels_ok s" "one_founder s" "crypto_ok (je_crypto env)" "sv_chls s k = None" "identified s"
    "named client s" "join_client cmd channel s = Some (Inr c, s)"
    "sv_channels s p = Some channel" "announces channel" "32 * (card (members_of s p) + 1) < SILC_MAX_ALLOC" "sv_clients s c = Some client"
  shows "\<exists>out s' err. silc_server_command_join_channel env cmd k (Some p) created create_key umode s = Some (out, s') \<and>
    join_refused env cmd (join_umode env cmd channel client umode) p channel c client s = Some err \<and>
    (case err of Some e \<Rightarrow> out = Join_Error e | None \<Rightarrow> out = Joined c \<or> create_key \<and> out = Join_Dropped)"
proof -
  note eq = silc_server_command_join_channel_def Let_def and cl = assms(12)
  obtain t where t: "founder_dropped env cmd p channel client s = Some t" "remoded s t"
    using founder_dropped_ok [OF assms(1,3,9), of env cmd client] by blast
  have "named client t" using assms(7) t(2) by (simp add: named_def remoded_def)
  then obtain err where err: "join_refused env cmd (join_umode env cmd channel client umode) p channel c client t = Some err"
    using join_refused_total by blast
  have ct: "channels_ok t" "sv_channels t p = Some channel"
    using remoded_inv(2) [OF t(2)] t(2) assms(2,9) by (simp_all add: remoded_def)
  obtain b u where u: "join_key env create_key p t = Some (b, u)" "if create_key then key_frame p channel b t u else b \<and> u = t"
    using join_key_ok [OF assms(4) ct, of create_key] by blast
  note facts = assms(8,9) cl t(1) [unfolded founder_dropped_def] err [unfolded join_umode_def] u(1) [unfolded join_key_def]
  have err': "join_refused env cmd (join_umode env cmd channel client umode) p channel c client s = Some err"
    using err join_refused_remoded [OF t(2)] by simp
  show ?thesis
  proof (cases "err = None \<and> b")
    case False
    with facts err' u(2) show ?thesis by (cases err) (auto simp: eq split: if_splits)
  next
    case True
    let ?v = "if create_key \<and> \<not> has_mode (ch_mode channel) SILC_CHANNEL_MODE_PRIVKEY
        then emit (Ev_Send_Channel_Key None p (if sv_server_type u = SILC_ROUTER then False else \<not> sv_standalone u)) u else u"
    have "?v = u \<or> (\<exists>ev. ?v = emit ev u)" by auto
    note v = join_before [OF assms(1,2,4,9) cl t(1) u(1) this]
    have "sv_channels ?v = sv_channels u" by (simp add: emit_def)
    moreover obtain channel' where "sv_channels u p = Some channel'" "announces channel'"
      using u(2) True ct(2) key_frame_announces [OF assms(10), of p t u] assms(10) by (auto split: if_splits)
    ultimately have ch: "sv_channels ?v p = Some channel'" "announces channel'" by simp_all
    have on: "silc_server_client_on_channel (Some c) (Some p) ?v = None"
      using client_on_channel_clients [of ?v t] v(4,7) join_not_on err True by (simp add: remoded_def)
    have m: "members_of ?v p = members_of s p" using v(3) remoded_inv(3) [OF v(7), of p] by (simp add: members_of_def)
    have "\<exists>s'. join_announce created (founder_auth_ok env cmd channel client) (if jc_conn_client cmd = None then 0 else jc_pending cmd)
       (join_umode env cmd channel client umode) c p
       (update_channel p (\<lambda>e. e\<lparr>ch_disabled := False\<rparr>) (add_member k (join_umode env cmd channel client umode) c p ?v)) = Some s'"
    proof (rule joined_announces [OF v(1) _ _ ch _ on])
      show "identified ?v" using assms(6) v(4) by (simp add: identified_def)
      show "sv_clients ?v c = Some client" using v(4) cl by simp
      show "sv_chls ?v k = None" using v(3) remoded_none [OF v(7)] assms(5) by simp
      show "32 * (card (members_of ?v p) + 1) < SILC_MAX_ALLOC" using m assms(11) by simp
    qed
    with facts err' True show ?thesis by (auto simp: eq join_umode_def)
  qed
qed

section \<open>Who is admitted\<close>

lemma modes_admit:
  assumes "modes_refuse env channel client s = Some None"
  obtains names where "join_names env client s = Some names"
    "has_mode (ch_mode channel) SILC_CHANNEL_MODE_INVITE \<Longrightarrow> \<exists>l. ch_invite_list channel = Some l \<and> list_matches env l client names"
    "\<And>l. ch_ban_list channel = Some l \<Longrightarrow> silc_hash_table_count l = 0 \<or> \<not> list_matches env l client names"
    "has_mode (ch_mode channel) SILC_CHANNEL_MODE_ULIMIT \<Longrightarrow>
      silc_hash_table_count (ch_user_list channel) + 1 \<le> unat (ch_user_limit channel)"
  using assms unfolding modes_refuse_def by (auto split: option.splits if_splits)

lemma join_admits:
  assumes "join_refused env cmd um p channel c client s = Some None"
  shows "um = 0 \<Longrightarrow> modes_refuse env channel client s = Some None"
    "has_mode (ch_mode channel) SILC_CHANNEL_MODE_PASSPHRASE \<Longrightarrow> passphrase_ok cmd channel"
    "has_mode (ch_mode channel) SILC_CHANNEL_MODE_CHANNEL_AUTH \<Longrightarrow> silc_server_verify_channel_auth (je_pkcs env) channel (cl_id client) (jc_cauth cmd)"
  using assms by (auto simp: join_refused_def split: option.splits if_splits)

lemma founder_umode_nonzero: "founder_umode \<noteq> 0"
  by (simp add: founder_umode_def SILC_CHANNEL_UMODE_CHANOP_def SILC_CHANNEL_UMODE_CHANFO_def)

section \<open>A concrete run\<close>

abbreviation sample_client_id :: silc_client_id where
  "sample_client_id \<equiv> \<lparr>cid_ip = \<lparr>ip_data = replicate 16 0, ip_data_len = 4\<rparr>, cid_rnd = 1, cid_hash = replicate 11 0\<rparr>"

abbreviation sample_channel_id :: silc_channel_id where
  "sample_channel_id \<equiv> \<lparr>chid_ip = \<lparr>ip_data = replicate 16 0, ip_data_len = 4\<rparr>, chid_port = 706, chid_rnd = 0\<rparr>"

text \<open>A server with one local client and one empty channel without modes.\<close>

lemma join_state:
  "\<exists>s client channel. server_inv s \<and> channels_ok s \<and> one_founder s \<and> identified s \<and> sv_clients s = [5 \<mapsto> client] \<and>
    sv_channels s = [6 \<mapsto> channel] \<and> sv_chls s = Map.empty \<and> named client s \<and> announces channel \<and> ch_mode channel = 0 \<and>
    ch_ban_list channel = None"
proof -
  obtain s client channel where s: "server_inv s" "sv_clients s = [5 \<mapsto> client]" "sv_channels s = [6 \<mapsto> channel]" "sv_chls s = Map.empty"
    "cl_id client = Some sample_client_id" "ch_id channel = Some sample_channel_id" "ch_key channel = None" "ch_invite_list channel = None"
    "ch_ban_list channel = None" "ch_mode channel = 0" "ch_send_key channel = Some 11" "ch_hmac channel = Some 12"
    using one_channel_state [of sample_client_id sample_channel_id 0 "Some 11" 12] by blast
  let ?f = "\<lambda>e. e\<lparr>cl_nickname := Some [0x61], cl_username := Some [0x62], cl_data := (cl_data e)\<lparr>id_status := SILC_IDLIST_STATUS_LOCAL\<rparr>\<rparr>"
  let ?s = "update_client 5 ?f s"
  have "server_inv ?s" by (rule server_inv_update_client) (use s(1) in simp_all)
  moreover have "channels_ok ?s" using s(3,7,8) by (simp add: channels_ok_def channel_ok_def update_client_def)
  moreover have "one_founder ?s" using s(4) by (simp add: one_founder_def founders_def update_client_def)
  moreover have "identified ?s" using s(2,5) by (auto simp: identified_def update_client_def ip_wf_def CLIENTID_HASH_LEN_def)
  moreover have "named (?f client) ?s" by (simp add: named_def SILC_IS_LOCAL_def)
  moreover have "announces channel" using s(6,11,12) by (simp add: announces_def ip_wf_def)
  moreover have "sv_clients ?s = [5 \<mapsto> ?f client]" "sv_channels ?s = [6 \<mapsto> channel]" "sv_chls ?s = Map.empty"
    using s(2-4) by (simp_all add: update_client_def)
  ultimately show ?thesis using s(9,10) by (intro exI [of _ ?s] exI [of _ "?f client"] exI [of _ channel]) simp
qed

definition own_join :: "ptr \<Rightarrow> join_cmd" where
  "own_join c = \<lparr>jc_conn_client = Some c, jc_connection = None, jc_client_id = sample_client_id, jc_pending = 0,
     jc_passphrase = None, jc_auth = None, jc_cauth = None\<rparr>"

lemma join_happens:
  "\<exists>env s s' client channel. server_inv s \<and> channels_ok s \<and> one_founder s \<and> crypto_ok (je_crypto env) \<and> identified s \<and>
    sv_chls s = Map.empty \<and> sv_clients s = [5 \<mapsto> client] \<and> sv_channels s = [6 \<mapsto> channel] \<and> named client s \<and> announces channel \<and>
    ch_mode channel = 0 \<and> silc_server_command_join_channel env (own_join 5) 9 (Some 6) True False umode s = Some (Joined 5, s')"
proof -
  fix e :: join_env
  let ?env = "e\<lparr>je_crypto := (je_crypto e)\<lparr>cr_key_len := \<lambda>_. 256\<rparr>\<rparr>"
  obtain s client channel where s: "server_inv s" "channels_ok s" "one_founder s" "identified s" "sv_clients s = [5 \<mapsto> client]"
    "sv_channels s = [6 \<mapsto> channel]" "sv_chls s = Map.empty" "named client s" "announces channel" "ch_mode channel = 0" "ch_ban_list channel = None"
    using join_state by blast
  have cr: "crypto_ok (je_crypto ?env)" by (simp add: crypto_ok_def)
  have e: "sv_clients s 5 = Some client" "sv_channels s 6 = Some channel" "sv_chls s 9 = None" using s(5-7) by simp_all
  have m: "32 * (card (members_of s 6) + 1) < SILC_MAX_ALLOC" using s(7) by (simp add: members_of_def SILC_MAX_ALLOC_def)
  have w: "join_client (own_join 5) channel s = Some (Inr 5, s)" by (simp add: join_client_def own_join_def)
  have "silc_server_client_on_channel (Some 5) (Some 6) s = None" using s(7) e by (intro not_on_channel [OF s(1)]) auto
  then have ok: "join_refused ?env (own_join 5) um 6 channel 5 client s = Some None" for um
    using join_names_ok [OF s(8), of ?env] s(10,11) by (auto simp: join_refused_def modes_refuse_def has_mode_def)
  obtain out s' where "silc_server_command_join_channel ?env (own_join 5) 9 (Some 6) True False umode s = Some (out, s')" "out = Joined 5"
    using join_runs [OF s(1-3) cr e(3) s(4,8) w e(2) s(9) m e(1), of True False umode] ok by auto
  then have "silc_server_command_join_channel ?env (own_join 5) 9 (Some 6) True False umode s = Some (Joined 5, s')" by simp
  with s cr show ?thesis by blast
qed

section \<open>Joining keeps the invariants\<close>

text \<open>
  Whatever \<^verbatim>\<open>silc_server_command_join_channel\<close> does - wait for the client, refuse, or join it -
  the lists and memberships stay consistent, the channels stay well-formed and no channel has two
  founders, provided the caller asks for founder rights only where there is no founder yet.
\<close>

lemma join_keeps:
  assumes "server_inv s" "channels_ok s" "crypto_ok (je_crypto env)" "sv_chls s k = None"
    "silc_server_command_join_channel env cmd k (Some p) created create_key umode s = Some (out, s')"
  shows "server_inv s' \<and> channels_ok s' \<and> sv_server_type s' = sv_server_type s \<and>
    (one_founder s \<and> (has_mode umode SILC_CHANNEL_UMODE_CHANFO \<longrightarrow> founders s p = {}) \<longrightarrow> one_founder s')"
  using assms(5)
proof (cases rule: join_cases)
  case (who channel)
  then have q: "quiet s s'" "sv_channels s' = sv_channels s" using join_client_quiet by blast+
  then have "founders s' = founders s" by (intro founders_chls) (simp add: quiet_def)
  then show ?thesis using quiet_inv(1) [OF q(1)] q assms(1,2) by (simp add: channels_ok_def one_founder_def quiet_def)
next
  case (refused channel c client e)
  have t: "remoded s s'" using refused(3) drop_founder_remoded remoded_refl by (auto simp: founder_dropped_def split: if_splits)
  have "one_founder s'" if o: "one_founder s"
    using founder_dropped_ok [OF assms(1) o refused(1), of env cmd client] refused(3) one_founder_drop [OF o, of s'] by auto
  then show ?thesis using remoded_inv [OF t] t assms(1,2) by (simp add: remoded_def)
next
  case (no_key channel c client t)
  note v = join_before [OF assms(1-3) no_key(1-4) disjI1 [OF refl]]
  show ?thesis using v(1,2,8) one_founder_drop v(6) by blast
next
  case (joined channel c client t u v)
  note v = join_before [OF assms(1-3) joined(1-3,5,6)]
  note j = join_last [OF assms(1-4) joined(1-7)]
  have "one_founder s'" if o: "one_founder s" "has_mode umode SILC_CHANNEL_UMODE_CHANFO \<longrightarrow> founders s p = {}"
  proof -
    have "founders v p = {}" if "has_mode (join_umode env cmd channel client umode) SILC_CHANNEL_UMODE_CHANFO"
      using that v(6) [OF o(1)] o(2) by (auto simp: join_umode_def split: if_splits)
    moreover have "one_founder v" by (rule one_founder_drop [OF o(1) v(6) [OF o(1)]])
    ultimately show ?thesis using j(4) by (auto simp: one_founder_def split: if_splits)
  qed
  with j(1,2,6) show ?thesis by simp
qed

section \<open>Who joins and whether it returns\<close>

text \<open>
  Property C6. A client that \<^verbatim>\<open>silc_server_command_join_channel\<close> has joined was not on the channel before
  and is its only new user, with the rights that were asked for or, after founder authentication, those
  of the founder.  Without such rights it was invited if the channel is invite-only, no entry of a
  nonempty ban list matched it and the channel is within its user limit, with it counted.  With or
  without, it knew the passphrase and passed the channel authentication where the mode asks for it.
\<close>

theorem join_admission:
  assumes "server_inv s" "channels_ok s" "crypto_ok (je_crypto env)" "sv_chls s k = None"
    "sv_channels s p = Some channel" "sv_clients s c = Some client"
    "silc_server_command_join_channel env cmd k (Some p) created create_key umode s = Some (Joined c, s')"
    "um = (if founder_auth_ok env cmd channel client then founder_umode else umode)"
  shows "silc_server_client_on_channel (Some c) (Some p) s = None \<and>
    sv_chls s' k = Some \<lparr>cce_client = c, cce_mode = um, cce_channel = p\<rparr> \<and> members_of s' p = insert k (members_of s p) \<and>
    (um = 0 \<longrightarrow> (\<exists>names. join_names env client s = Some names \<and>
      (has_mode (ch_mode channel) SILC_CHANNEL_MODE_INVITE \<longrightarrow>
         (\<exists>l. ch_invite_list channel = Some l \<and> list_matches env l client names)) \<and>
      (\<forall>l. ch_ban_list channel = Some l \<longrightarrow> silc_hash_table_count l = 0 \<or> \<not> list_matches env l client names) \<and>
      (has_mode (ch_mode channel) SILC_CHANNEL_MODE_ULIMIT \<longrightarrow> card (members_of s' p) \<le> unat (ch_user_limit channel)))) \<and>
    (has_mode (ch_mode channel) SILC_CHANNEL_MODE_PASSPHRASE \<longrightarrow> passphrase_ok cmd channel) \<and>
    (has_mode (ch_mode channel) SILC_CHANNEL_MODE_CHANNEL_AUTH \<longrightarrow> silc_server_verify_channel_auth (je_pkcs env) channel (cl_id client) (jc_cauth cmd))"
  using assms(7)
proof (cases rule: join_cases)
  case (joined channel' c' client' t u v)
  then have eq: "channel' = channel" "c' = c" "client' = client" "join_umode env cmd channel client umode = um"
    using assms(5,6,8) by (auto simp: join_umode_def)
  note joined = joined [unfolded eq]
  note j = join_last [OF assms(1-4) joined(1-7)] and ad = join_admits [OF joined(4)]
  have m: "members_inv {} s" using assms(1) by (simp add: server_inv_def)
  have t: "remoded s t" by (rule join_before(7) [OF assms(1-3) joined(1-3,5,6)])
  have mem: "members_of s' p = insert k (members_of s p)"
    using j(3) remoded_inv(3) [OF t, of p] by (auto simp: members_of_def split: if_splits)
  have "k \<notin> members_of s p" using assms(4) by (simp add: members_of_def)
  then have card: "card (members_of s' p) = silc_hash_table_count (ch_user_list channel) + 1"
    using count_members [OF m assms(5)] mem by simp
  have "\<exists>names. join_names env client s = Some names \<and>
      (has_mode (ch_mode channel) SILC_CHANNEL_MODE_INVITE \<longrightarrow>
         (\<exists>l. ch_invite_list channel = Some l \<and> list_matches env l client names)) \<and>
      (\<forall>l. ch_ban_list channel = Some l \<longrightarrow> silc_hash_table_count l = 0 \<or> \<not> list_matches env l client names) \<and>
      (has_mode (ch_mode channel) SILC_CHANNEL_MODE_ULIMIT \<longrightarrow> card (members_of s' p) \<le> unat (ch_user_limit channel))" if z: "um = 0"
  proof -
    have "t = s" using z assms(8) joined(3) founder_umode_nonzero by (simp add: founder_dropped_def split: if_splits)
    with ad(1) [OF z] obtain names where n: "join_names env client s = Some names"
      "has_mode (ch_mode channel) SILC_CHANNEL_MODE_INVITE \<Longrightarrow> \<exists>l. ch_invite_list channel = Some l \<and> list_matches env l client names"
      "\<And>l. ch_ban_list channel = Some l \<Longrightarrow> silc_hash_table_count l = 0 \<or> \<not> list_matches env l client names"
      "has_mode (ch_mode channel) SILC_CHANNEL_MODE_ULIMIT \<Longrightarrow>
        silc_hash_table_count (ch_user_list channel) + 1 \<le> unat (ch_user_limit channel)"
      using modes_admit [of env channel client s] by metis
    show ?thesis by (rule exI [of _ names]) (use n card in simp)
  qed
  then show ?thesis using j(3,5) mem ad(2,3) by simp
qed (use join_client_waits in blast)+

theorem join_admission_witness:
  "\<exists>env s s'. silc_server_command_join_channel env (own_join 5) 9 (Some 6) True False 0 s = Some (Joined 5, s') \<and>
    sv_chls s' 9 = Some \<lparr>cce_client = 5, cce_mode = 0, cce_channel = 6\<rparr> \<and> members_of s' 6 = {9}"
proof -
  obtain env s s' client channel where s: "server_inv s" "channels_ok s" "one_founder s" "crypto_ok (je_crypto env)"
    "sv_chls s = Map.empty" "sv_clients s = [5 \<mapsto> client]" "sv_channels s = [6 \<mapsto> channel]"
    "silc_server_command_join_channel env (own_join 5) 9 (Some 6) True False 0 s = Some (Joined 5, s')"
    using join_happens [of 0] by blast
  have e: "sv_chls s 9 = None" "sv_channels s 6 = Some channel" "sv_clients s 5 = Some client" using s(5-7) by simp_all
  have "(0 :: u32) = (if founder_auth_ok env (own_join 5) channel client then founder_umode else 0)"
    by (simp add: founder_auth_ok_def own_join_def)
  from join_admission [OF s(1,2,4) e s(8) this] s(5,8) show ?thesis by (auto simp: members_of_def)
qed



end
