(* ===== verification/Server_Command.thy ===== *)
theory Server_Command
  imports Server_Join Silc_Command
begin

text \<open>
  Commands of clients on channels, from \<^verbatim>\<open>apps/silcd/command.c\<close>: LEAVE, KICK, TOPIC, UMODE and CUMODE, with
  the checks before each command and the replies.  A command is its parsed payload and the context
  of its connection.  An operation that gives \<open>None\<close> follows a null pointer, reads past the end of
  an object or takes an object of one type for one of another.  Public keys, signatures and what
  an ID of the wrong type reads as are parameters.
\<close>

section \<open>Contexts and replies\<close>

abbreviation SILC_STATUS_ERR_NO_CLIENT_ID :: u8 where "SILC_STATUS_ERR_NO_CLIENT_ID \<equiv> 17"
abbreviation SILC_STATUS_ERR_NO_CHANNEL_ID :: u8 where "SILC_STATUS_ERR_NO_CHANNEL_ID \<equiv> 18"
abbreviation SILC_STATUS_ERR_NO_SUCH_CHANNEL_ID :: u8 where "SILC_STATUS_ERR_NO_SUCH_CHANNEL_ID \<equiv> 23"
abbreviation SILC_STATUS_ERR_NOT_ON_CHANNEL :: u8 where "SILC_STATUS_ERR_NOT_ON_CHANNEL \<equiv> 25"
abbreviation SILC_STATUS_ERR_USER_NOT_ON_CHANNEL :: u8 where "SILC_STATUS_ERR_USER_NOT_ON_CHANNEL \<equiv> 26"
abbreviation SILC_STATUS_ERR_TOO_MANY_PARAMS :: u8 where "SILC_STATUS_ERR_TOO_MANY_PARAMS \<equiv> 30"
abbreviation SILC_STATUS_ERR_NOT_YOU :: u8 where "SILC_STATUS_ERR_NOT_YOU \<equiv> 38"
abbreviation SILC_STATUS_ERR_NO_CHANNEL_PRIV :: u8 where "SILC_STATUS_ERR_NO_CHANNEL_PRIV \<equiv> 39"
abbreviation SILC_STATUS_ERR_NO_CHANNEL_FOPRIV :: u8 where "SILC_STATUS_ERR_NO_CHANNEL_FOPRIV \<equiv> 40"
abbreviation SILC_STATUS_ERR_AUTH_FAILED :: u8 where "SILC_STATUS_ERR_AUTH_FAILED \<equiv> 45"

abbreviation SILC_COMMAND_TOPIC :: u8 where "SILC_COMMAND_TOPIC \<equiv> 6"
abbreviation SILC_COMMAND_UMODE :: u8 where "SILC_COMMAND_UMODE \<equiv> 16"
abbreviation SILC_COMMAND_CUMODE :: u8 where "SILC_COMMAND_CUMODE \<equiv> 18"
abbreviation SILC_COMMAND_KICK :: u8 where "SILC_COMMAND_KICK \<equiv> 19"
abbreviation SILC_COMMAND_LEAVE :: u8 where "SILC_COMMAND_LEAVE \<equiv> 24"

abbreviation SILC_NOTIFY_TYPE_TOPIC_SET :: u16 where "SILC_NOTIFY_TYPE_TOPIC_SET \<equiv> 5"
abbreviation SILC_NOTIFY_TYPE_KICKED :: u16 where "SILC_NOTIFY_TYPE_KICKED \<equiv> 12"
abbreviation SILC_NOTIFY_TYPE_UMODE_CHANGE :: u16 where "SILC_NOTIFY_TYPE_UMODE_CHANGE \<equiv> 14"

definition SILC_CHANNEL_MODE_TOPIC :: u32 where "SILC_CHANNEL_MODE_TOPIC = 0x0010"

definition SILC_CHANNEL_UMODE_BLOCK_MESSAGES :: u32 where "SILC_CHANNEL_UMODE_BLOCK_MESSAGES = 0x0004"
definition SILC_CHANNEL_UMODE_BLOCK_MESSAGES_USERS :: u32 where "SILC_CHANNEL_UMODE_BLOCK_MESSAGES_USERS = 0x0008"
definition SILC_CHANNEL_UMODE_BLOCK_MESSAGES_ROBOTS :: u32 where "SILC_CHANNEL_UMODE_BLOCK_MESSAGES_ROBOTS = 0x0010"
definition SILC_CHANNEL_UMODE_QUIET :: u32 where "SILC_CHANNEL_UMODE_QUIET = 0x0020"

definition SILC_UMODE_GONE :: u32 where "SILC_UMODE_GONE = 0x0004"
definition SILC_UMODE_ANONYMOUS :: u32 where "SILC_UMODE_ANONYMOUS = 0x0100"

text \<open>What the stream of the command belongs to, the payload and, for a pending command, the reply it waited for.\<close>

datatype stream_context = No_Context | Client_Context ptr | Server_Context ptr

record silc_server_command_context =
  cc_context :: stream_context
  cc_payload :: silc_command_payload
  cc_pending :: nat
  cc_reply :: "silc_command_payload option"

record command_env =
  ce_now :: u64
  ce_crypto :: crypto_env
  ce_inviteban :: inviteban_env
  ce_junk :: "nat \<Rightarrow> byte"
  ce_channel_view :: "silc_id \<Rightarrow> silc_channel_id"
  ce_client_view :: "silc_id \<Rightarrow> silc_client_id"
  ce_pkcs :: pkcs_env

definition count_command :: "silc_server \<Rightarrow> silc_server" where
  "count_command = update_stat (st_commands_sent_update (\<lambda>n. n + 1))"

text \<open>A status with arguments; the payload is sent without a check that it was made.\<close>

definition send_status ::
  "silc_server_command_context \<Rightarrow> u8 \<Rightarrow> u8 \<Rightarrow> u8 \<Rightarrow> va_arg list \<Rightarrow> silc_server \<Rightarrow> silc_server option" where
  "send_status cmd command status error args s =
     map_option (\<lambda>buffer. emit (Ev_Reply (silc_buffer_data buffer)) (count_command s))
       (silc_command_reply_payload_encode_vap command status error (cp_ident (cc_payload cmd)) args)"

text \<open>An argument of the command as one of the reply.\<close>

definition command_arg :: "silc_server_command_context \<Rightarrow> u32 \<Rightarrow> (byte list \<times> u32) option" where
  "command_arg cmd n = silc_argument_get_arg_type (cp_args (cc_payload cmd)) n"

definition va_of :: "u32 \<Rightarrow> (byte list \<times> u32) option \<Rightarrow> va_arg" where
  "va_of n arg = (case arg of None \<Rightarrow> (n, None, 0) | Some (d, len) \<Rightarrow> (n, Some d, len))"

definition silc_server_command_send_status_reply ::
  "silc_server_command_context \<Rightarrow> u8 \<Rightarrow> u8 \<Rightarrow> u8 \<Rightarrow> silc_server \<Rightarrow> silc_server option" where
  "silc_server_command_send_status_reply cmd command status error = send_status cmd command status error []"

definition silc_server_command_send_status_data ::
  "silc_server_command_context \<Rightarrow> u8 \<Rightarrow> u8 \<Rightarrow> u8 \<Rightarrow> va_arg \<Rightarrow> silc_server \<Rightarrow> silc_server option" where
  "silc_server_command_send_status_data cmd command status error arg = send_status cmd command status 0 [arg]"

definition silc_server_command_send_status_data2 ::
  "silc_server_command_context \<Rightarrow> u8 \<Rightarrow> u8 \<Rightarrow> u8 \<Rightarrow> va_arg \<Rightarrow> va_arg \<Rightarrow> silc_server \<Rightarrow> silc_server option" where
  "silc_server_command_send_status_data2 cmd command status error arg1 arg2 = send_status cmd command status 0 [arg1, arg2]"

definition silc_server_send_command_reply ::
  "u8 \<Rightarrow> u8 \<Rightarrow> u8 \<Rightarrow> u16 \<Rightarrow> va_arg list \<Rightarrow> silc_server \<Rightarrow> silc_server" where
  "silc_server_send_command_reply command status error ident args s =
     (case silc_command_reply_payload_encode_vap command status error ident args of
        None \<Rightarrow> count_command s
      | Some packet \<Rightarrow> emit (Ev_Reply (silc_buffer_data packet)) (count_command s))"

section \<open>Checks before a command\<close>

definition silc_server_command_pending_error_check ::
  "silc_server_command_context \<Rightarrow> silc_server \<Rightarrow> (bool \<times> silc_server) option" where
  "silc_server_command_pending_error_check cmd s =
     (case cc_reply cmd of
        None \<Rightarrow> Some (False, s)
      | Some cmdr \<Rightarrow>
          if cc_pending cmd = 0 \<or> fst (silc_command_get_status cmdr) then Some (False, s)
          else
            map_option (\<lambda>buffer. (True, emit (Ev_Reply (silc_buffer_data buffer)) (count_command s)))
              (silc_command_payload_encode_payload (silc_command_set_ident
                (silc_command_set_command cmdr (cp_cmd (cc_payload cmd))) (cp_ident (cc_payload cmd)))))"

text \<open>The command goes on with \<open>body\<close> unless a check fails.\<close>

definition SILC_SERVER_COMMAND_CHECK ::
  "u8 \<Rightarrow> silc_server_command_context \<Rightarrow> u32 \<Rightarrow> u32 \<Rightarrow> (silc_server \<Rightarrow> silc_server option) \<Rightarrow> silc_server \<Rightarrow> silc_server option" where
  "SILC_SERVER_COMMAND_CHECK command cmd mn mx body s =
     Option.bind (silc_server_command_pending_error_check cmd s) (\<lambda>(err, s).
       if err then Some s
       else
         let argc = silc_argument_get_arg_num (cp_args (cc_payload cmd)) in
         if argc < mn then silc_server_command_send_status_reply cmd command SILC_STATUS_ERR_NOT_ENOUGH_PARAMS 0 s
         else if argc > mx then silc_server_command_send_status_reply cmd command SILC_STATUS_ERR_TOO_MANY_PARAMS 0 s
         else body s)"

definition id_arg :: "silc_server_command_context \<Rightarrow> u32 \<Rightarrow> silc_id option" where
  "id_arg cmd n =
     (case silc_argument_get_decoded (\<lambda>_. None :: unit option) (\<lambda>_. None :: unit option) False
             (cp_args (cc_payload cmd)) n SILC_ARGUMENT_ID of
        Some (D_ID i) \<Rightarrow> Some i | _ \<Rightarrow> None)"

text \<open>An ID is not checked for its type: another one is read as if it were a Channel ID or a Client ID.\<close>

definition as_channel :: "command_env \<Rightarrow> silc_id \<Rightarrow> silc_channel_id" where
  "as_channel env i = (case i of ChannelID c \<Rightarrow> c | _ \<Rightarrow> ce_channel_view env i)"

definition as_client :: "command_env \<Rightarrow> silc_id \<Rightarrow> silc_client_id" where
  "as_client env i = (case i of ClientID c \<Rightarrow> c | _ \<Rightarrow> ce_client_view env i)"

definition find_client :: "command_env \<Rightarrow> silc_id \<Rightarrow> silc_server \<Rightarrow> ptr option" where
  "find_client env i s =
     (case silc_idlist_find_client_by_id Local_List (Some (as_client env i)) True s of
        Some c \<Rightarrow> Some c | None \<Rightarrow> silc_idlist_find_client_by_id Global_List (Some (as_client env i)) True s)"

text \<open>The channel of the first argument, in the local list and then in the list \<open>second\<close>.\<close>

definition with_channel ::
  "command_env \<Rightarrow> silc_server_command_context \<Rightarrow> u8 \<Rightarrow> which_list \<Rightarrow> (silc_id \<Rightarrow> ptr \<Rightarrow> silc_server \<Rightarrow> silc_server option) \<Rightarrow>
     silc_server \<Rightarrow> silc_server option" where
  "with_channel env cmd command second body s =
     (case id_arg cmd 1 of
        None \<Rightarrow> silc_server_command_send_status_reply cmd command SILC_STATUS_ERR_NO_CHANNEL_ID 0 s
      | Some i \<Rightarrow>
          Option.bind (silc_idlist_find_channel_by_id (ce_now env) Local_List (Some (as_channel env i)) s) (\<lambda>(po, s).
          Option.bind (case po of Some p \<Rightarrow> Some (Some p, s)
              | None \<Rightarrow> silc_idlist_find_channel_by_id (ce_now env) second (Some (as_channel env i)) s) (\<lambda>(po, s).
            case po of
              None \<Rightarrow> silc_server_command_send_status_data cmd command SILC_STATUS_ERR_NO_SUCH_CHANNEL_ID 0 (va_of 2 (command_arg cmd 1)) s
            | Some p \<Rightarrow> body i p s)))"

text \<open>The membership of the client on the channel.\<close>

definition with_member ::
  "silc_server_command_context \<Rightarrow> u8 \<Rightarrow> ptr \<Rightarrow> ptr \<Rightarrow> (ptr \<Rightarrow> silc_channel_client_entry \<Rightarrow> silc_server \<Rightarrow> silc_server option) \<Rightarrow>
     silc_server \<Rightarrow> silc_server option" where
  "with_member cmd command c p body s =
     (case silc_server_client_on_channel (Some c) (Some p) s of
        None \<Rightarrow> silc_server_command_send_status_data cmd command SILC_STATUS_ERR_NOT_ON_CHANNEL 0 (va_of 2 (command_arg cmd 1)) s
      | Some k \<Rightarrow> Option.bind (sv_chls s k) (\<lambda>chl. body k chl s))"

section \<open>LEAVE and KICK\<close>

definition new_channel_key :: "command_env \<Rightarrow> ptr \<Rightarrow> ptr option \<Rightarrow> silc_server \<Rightarrow> silc_server option" where
  "new_channel_key env p conn s =
     Option.bind (sv_channels s p) (\<lambda>channel.
       if has_mode (ch_mode channel) SILC_CHANNEL_MODE_PRIVKEY then Some s
       else
         map_option (\<lambda>(ok, s).
           if ok then emit (Ev_Send_Channel_Key conn p (if sv_server_type s = SILC_ROUTER then False else \<not> sv_standalone s)) s
           else s) (silc_server_create_channel_key (ce_crypto env) p 0 s))"

text \<open>A client off the channel and a new key for the others; there is none when the channel is gone.\<close>

definition remove_and_rekey :: "command_env \<Rightarrow> ptr \<Rightarrow> ptr \<Rightarrow> bool \<Rightarrow> ptr option \<Rightarrow> silc_server \<Rightarrow> silc_server option" where
  "remove_and_rekey env p c notify conn s =
     Option.bind (silc_server_remove_from_one_channel p c notify s) (\<lambda>(stays, s).
       if stays then new_channel_key env p conn s else Some s)"

definition silc_server_command_leave :: "command_env \<Rightarrow> silc_server_command_context \<Rightarrow> silc_server \<Rightarrow> silc_server option" where
  "silc_server_command_leave env cmd s =
     (case cc_context cmd of
        No_Context \<Rightarrow> None
      | Server_Context _ \<Rightarrow> Some s
      | Client_Context c \<Rightarrow>
          SILC_SERVER_COMMAND_CHECK SILC_COMMAND_LEAVE cmd 1 2
            (with_channel env cmd SILC_COMMAND_LEAVE Global_List (\<lambda>i p.
              with_member cmd SILC_COMMAND_LEAVE c p (\<lambda>k chl s.
                Option.bind (sv_clients s c) (\<lambda>client.
                Option.bind (silc_server_command_send_status_data cmd SILC_COMMAND_LEAVE SILC_STATUS_OK 0 (va_of 2 (command_arg cmd 1))
                    (emit (Ev_Notify_Leave p (cl_id client)) s)) (remove_and_rekey env p c True None))))) s)"

text \<open>The reply, the notifications and the removal, when a client may be kicked; a comment of more than 128 bytes is dropped.\<close>

definition kick_client ::
  "command_env \<Rightarrow> silc_server_command_context \<Rightarrow> silc_client_entry \<Rightarrow> ptr \<Rightarrow> ptr \<Rightarrow> silc_server \<Rightarrow> silc_server option" where
  "kick_client env cmd client target p s =
     (case (command_arg cmd 2, Option.bind (cl_id client) (\<lambda>i. silc_id_payload_encode (ClientID i)), sv_clients s target) of
        (Some (target_idp, target_idp_len), Some idp, Some target_client) \<Rightarrow>
          let comment = (case command_arg cmd 3 of None \<Rightarrow> None
                | Some (d, clen) \<Rightarrow> if clen > 128 then None else Some (cstr d));
              s = silc_server_send_command_reply SILC_COMMAND_KICK SILC_STATUS_OK 0 (cp_ident (cc_payload cmd))
                [va_of 2 (command_arg cmd 1), va_of 3 (command_arg cmd 2)] s;
              s = emit (Ev_Notify_To_Channel p SILC_NOTIFY_TYPE_KICKED
                ([take (unat target_idp_len) target_idp] @ (case comment of None \<Rightarrow> [] | Some m \<Rightarrow> [m]) @ [silc_buffer_data idp])) s;
              s = emit (Ev_Notify_Kicked p (cl_id target_client) (cl_id client) comment) s in
          Option.bind (drop_invite (ce_inviteban env) (ce_junk env) p (take (unat target_idp_len) target_idp) s)
            (remove_and_rekey env p target False (cl_connection target_client))
      | _ \<Rightarrow> None)"

text \<open>The second lookup of the channel is in the local list again; the number of arguments is reported for LEAVE.\<close>

definition silc_server_command_kick :: "command_env \<Rightarrow> silc_server_command_context \<Rightarrow> silc_server \<Rightarrow> silc_server option" where
  "silc_server_command_kick env cmd s =
     (case cc_context cmd of
        No_Context \<Rightarrow> Some s
      | Server_Context _ \<Rightarrow> None
      | Client_Context c \<Rightarrow>
          SILC_SERVER_COMMAND_CHECK SILC_COMMAND_LEAVE cmd 1 3
            (with_channel env cmd SILC_COMMAND_KICK Local_List (\<lambda>i p.
              with_member cmd SILC_COMMAND_KICK c p (\<lambda>k chl s.
                if \<not> has_mode (cce_mode chl) SILC_CHANNEL_UMODE_CHANOP \<and> \<not> has_mode (cce_mode chl) SILC_CHANNEL_UMODE_CHANFO
                then silc_server_command_send_status_data cmd SILC_COMMAND_KICK SILC_STATUS_ERR_NO_CHANNEL_PRIV 0 (va_of 2 (command_arg cmd 1)) s
                else
                  case id_arg cmd 2 of
                    None \<Rightarrow> silc_server_command_send_status_reply cmd SILC_COMMAND_KICK SILC_STATUS_ERR_NO_CLIENT_ID 0 s
                  | Some j \<Rightarrow>
                      let target = find_client env j s in
                      (case silc_server_client_on_channel target (Some p) s of
                         None \<Rightarrow> silc_server_command_send_status_data2 cmd SILC_COMMAND_KICK SILC_STATUS_ERR_USER_NOT_ON_CHANNEL 0
                           (va_of 2 (command_arg cmd 2)) (va_of 3 (command_arg cmd 1)) s
                       | Some k2 \<Rightarrow>
                           Option.bind (sv_chls s k2) (\<lambda>chl2.
                             if has_mode (cce_mode chl2) SILC_CHANNEL_UMODE_CHANFO
                             then silc_server_command_send_status_data cmd SILC_COMMAND_KICK SILC_STATUS_ERR_NO_CHANNEL_FOPRIV 0
                               (va_of 2 (command_arg cmd 1)) s
                             else Option.bind (sv_clients s c) (\<lambda>client. kick_client env cmd client (the target) p s)))))) s)"

section \<open>TOPIC and UMODE\<close>

text \<open>A longer topic is cut after 255 bytes and a zero; it is a string of the payload, terminated there.\<close>

definition topic_arg :: "byte list \<Rightarrow> u32 \<Rightarrow> byte list" where
  "topic_arg d len = (if len > 256 then take 255 d @ [0] else take (unat len) d)"

definition set_topic :: "command_env \<Rightarrow> ptr \<Rightarrow> ptr \<Rightarrow> byte list \<Rightarrow> silc_server \<Rightarrow> silc_server option" where
  "set_topic env c p topic s =
     (case (sv_channels s p, Option.bind (sv_clients s c) cl_id) of
        (Some channel, Some i) \<Rightarrow>
          if map_option cstr (ch_topic channel) = Some (cstr topic) then Some s
          else
            let s = update_channel p (\<lambda>e. e\<lparr>ch_topic := Some (cstr topic)\<rparr>) s;
                s = emit (Ev_Notify_Topic p i (cstr topic)) s in
            map_option (\<lambda>idp. emit (Ev_Notify_To_Channel p SILC_NOTIFY_TYPE_TOPIC_SET [silc_buffer_data idp, cstr topic]) s)
              (silc_id_payload_encode (ClientID i))
      | _ \<Rightarrow> None)"

definition topic_reply :: "silc_server_command_context \<Rightarrow> command_env \<Rightarrow> silc_id \<Rightarrow> ptr \<Rightarrow> silc_server \<Rightarrow> silc_server option" where
  "topic_reply cmd env i p s =
     (case (sv_channels s p, silc_id_payload_encode (ChannelID (as_channel env i))) of
        (Some channel, Some idp) \<Rightarrow>
          Some (silc_server_send_command_reply SILC_COMMAND_TOPIC SILC_STATUS_OK 0 (cp_ident (cc_payload cmd))
            [(2, Some (silc_buffer_data idp), of_nat (silc_buffer_len idp)),
             (3, map_option cstr (ch_topic channel), of_nat (case ch_topic channel of None \<Rightarrow> 0 | Some t \<Rightarrow> length (cstr t)))] s)
      | _ \<Rightarrow> None)"

definition silc_server_command_topic :: "command_env \<Rightarrow> silc_server_command_context \<Rightarrow> silc_server \<Rightarrow> silc_server option" where
  "silc_server_command_topic env cmd s =
     (case cc_context cmd of
        No_Context \<Rightarrow> None
      | Server_Context _ \<Rightarrow> Some s
      | Client_Context c \<Rightarrow>
          SILC_SERVER_COMMAND_CHECK SILC_COMMAND_TOPIC cmd 1 2
            (with_channel env cmd SILC_COMMAND_TOPIC Global_List (\<lambda>i p s.
              if silc_argument_get_arg_num (cp_args (cc_payload cmd)) > 1 then
                case command_arg cmd 2 of
                  None \<Rightarrow> silc_server_command_send_status_reply cmd SILC_COMMAND_TOPIC SILC_STATUS_ERR_NOT_ENOUGH_PARAMS 0 s
                | Some (d, len) \<Rightarrow>
                    let topic = topic_arg d len in
                    if \<not> silc_utf8_valid topic
                    then silc_server_command_send_status_reply cmd SILC_COMMAND_TOPIC SILC_STATUS_ERR_NOT_ENOUGH_PARAMS 0 s
                    else
                      with_member cmd SILC_COMMAND_TOPIC c p (\<lambda>k chl s.
                        Option.bind (sv_channels s p) (\<lambda>channel.
                          if has_mode (ch_mode channel) SILC_CHANNEL_MODE_TOPIC \<and>
                             \<not> has_mode (cce_mode chl) SILC_CHANNEL_UMODE_CHANOP \<and> \<not> has_mode (cce_mode chl) SILC_CHANNEL_UMODE_CHANFO
                          then silc_server_command_send_status_data cmd SILC_COMMAND_TOPIC SILC_STATUS_ERR_NO_CHANNEL_PRIV 0
                            (va_of 2 (command_arg cmd 1)) s
                          else Option.bind (set_topic env c p topic s) (topic_reply cmd env i p))) s
              else topic_reply cmd env i p s)) s)"

definition count_away :: "silc_client_entry \<Rightarrow> u32 \<Rightarrow> silc_server \<Rightarrow> silc_server" where
  "count_away client umask s =
     (if has_mode umask SILC_UMODE_GONE
      then (if \<not> has_mode (cl_mode client) SILC_UMODE_GONE then update_stat (st_my_aways_update (\<lambda>n. n + 1)) s else s)
      else (if has_mode (cl_mode client) SILC_UMODE_GONE then update_stat (st_my_aways_update (\<lambda>n. n - 1)) s else s))"

text \<open>Changing the mode; \<open>None\<close> in the result is a refusal.\<close>

definition set_umode :: "ptr \<Rightarrow> u32 \<Rightarrow> silc_server \<Rightarrow> (bool \<times> silc_server) option" where
  "set_umode c umask s =
     Option.bind (sv_clients s c) (\<lambda>client.
       let (ok, s) = silc_server_check_umode_rights client umask s in
       if \<not> ok then Some (False, s)
       else if has_mode umask SILC_UMODE_ANONYMOUS \<and> \<not> has_mode (cl_mode client) SILC_UMODE_ANONYMOUS then Some (False, s)
       else
         let s = count_away client umask s;
             new = (if has_mode (cl_mode client) SILC_UMODE_ANONYMOUS then umask OR SILC_UMODE_ANONYMOUS else umask);
             s = update_client c (\<lambda>e. e\<lparr>cl_mode := new\<rparr>) s;
             s = emit (Ev_Notify_Umode (cl_id client) new) s in
         Some (True, if sv_server_type s = SILC_ROUTER then emit (Ev_Check_Watchers c None SILC_NOTIFY_TYPE_UMODE_CHANGE) s else s))"

definition silc_server_command_umode :: "silc_server_command_context \<Rightarrow> silc_server \<Rightarrow> silc_server option" where
  "silc_server_command_umode cmd s =
     (case cc_context cmd of
        No_Context \<Rightarrow> None
      | Server_Context _ \<Rightarrow> Some s
      | Client_Context c \<Rightarrow>
          SILC_SERVER_COMMAND_CHECK SILC_COMMAND_UMODE cmd 1 2 (\<lambda>s.
            Option.bind (case command_arg cmd 2 of
                Some (d, len) \<Rightarrow> if len = 4 then set_umode c (SILC_GET32_MSB d) s else Some (True, s)
              | None \<Rightarrow> Some (True, s)) (\<lambda>(ok, s).
              if \<not> ok then silc_server_command_send_status_reply cmd SILC_COMMAND_UMODE SILC_STATUS_ERR_PERM_DENIED 0 s
              else Option.bind (sv_clients s c) (\<lambda>client.
                Some (silc_server_send_command_reply SILC_COMMAND_UMODE SILC_STATUS_OK 0 (cp_ident (cc_payload cmd))
                  [(2, Some (SILC_PUT32_MSB (cl_mode client)), 4)] s)))) s)"

section \<open>CUMODE\<close>

text \<open>
  The bits of the new mode in order.  Each step has the mode and whether it was changed; an error
  ends the command, with the changes made so far.  The arguments of an error's reply are the
  channel or nothing.
\<close>

type_synonym cumode_step = "u32 \<times> bool \<Rightarrow> (u8 \<times> bool) option \<times> (u32 \<times> bool)"

definition cumode_op :: "u32 \<Rightarrow> u32 \<Rightarrow> cumode_step" where
  "cumode_op target_mask sender_mask st =
     (case st of (mode, notify) \<Rightarrow>
        let denied = (\<not> has_mode sender_mask SILC_CHANNEL_UMODE_CHANOP \<and> \<not> has_mode sender_mask SILC_CHANNEL_UMODE_CHANFO) in
        if has_mode target_mask SILC_CHANNEL_UMODE_CHANOP then
          (if has_mode mode SILC_CHANNEL_UMODE_CHANOP then (None, st)
           else if denied then (Some (SILC_STATUS_ERR_NO_CHANNEL_PRIV, True), st)
           else (None, mode OR SILC_CHANNEL_UMODE_CHANOP, True))
        else
          (if \<not> has_mode mode SILC_CHANNEL_UMODE_CHANOP then (None, st)
           else if denied then (Some (SILC_STATUS_ERR_NO_CHANNEL_PRIV, True), st)
           else (None, mode AND NOT SILC_CHANNEL_UMODE_CHANOP, True)))"

definition cumode_block :: "u32 \<Rightarrow> bool \<Rightarrow> u32 \<Rightarrow> cumode_step" where
  "cumode_block target_mask self flag st =
     (case st of (mode, notify) \<Rightarrow>
        if has_mode target_mask flag then
          (if \<not> self then (Some (SILC_STATUS_ERR_NOT_YOU, False), st)
           else if \<not> has_mode mode flag then (None, mode OR flag, True) else (None, st))
        else if has_mode mode flag then
          (if \<not> self then (Some (SILC_STATUS_ERR_NOT_YOU, False), st) else (None, mode AND NOT flag, True))
        else (None, st))"

definition cumode_quiet :: "u32 \<Rightarrow> bool \<Rightarrow> cumode_step" where
  "cumode_quiet target_mask self st =
     (case st of (mode, notify) \<Rightarrow>
        if has_mode target_mask SILC_CHANNEL_UMODE_QUIET then
          (if has_mode mode SILC_CHANNEL_UMODE_QUIET then (None, st)
           else if self then (Some (SILC_STATUS_ERR_PERM_DENIED, False), st)
           else (None, mode OR SILC_CHANNEL_UMODE_QUIET, True))
        else if has_mode mode SILC_CHANNEL_UMODE_QUIET then
          (if self then (Some (SILC_STATUS_ERR_PERM_DENIED, False), st)
           else (None, mode AND NOT SILC_CHANNEL_UMODE_QUIET, True))
        else (None, st))"

fun cumode_steps :: "cumode_step list \<Rightarrow> cumode_step" where
  "cumode_steps [] st = (None, st)"
| "cumode_steps (f # fs) st = (case f st of (Some e, st) \<Rightarrow> (Some e, st) | (None, st) \<Rightarrow> cumode_steps fs st)"

definition cumode_list :: "u32 \<Rightarrow> u32 \<Rightarrow> bool \<Rightarrow> cumode_step list" where
  "cumode_list target_mask sender_mask self =
     [cumode_op target_mask sender_mask,
      cumode_block target_mask self SILC_CHANNEL_UMODE_BLOCK_MESSAGES,
      cumode_block target_mask self SILC_CHANNEL_UMODE_BLOCK_MESSAGES_USERS,
      cumode_block target_mask self SILC_CHANNEL_UMODE_BLOCK_MESSAGES_ROBOTS,
      cumode_quiet target_mask self]"

text \<open>
  The founder bit.  Claiming founder rights takes the key of the channel; only a router then takes
  them from the founder of the time.  The result has the sender's mask, whether the mode was changed
  and the founder key for the notifications.
\<close>

definition cumode_founder ::
  "command_env \<Rightarrow> silc_server_command_context \<Rightarrow> silc_channel_entry \<Rightarrow> silc_client_entry \<Rightarrow> bool \<Rightarrow> u32 \<Rightarrow> u32 \<Rightarrow>
     ptr \<Rightarrow> ptr \<Rightarrow> u32 \<Rightarrow> silc_server \<Rightarrow> ((u8 + u32 \<times> u32 \<times> bool \<times> ptr option) \<times> silc_server) option" where
  "cumode_founder env cmd channel client self target_mask sender_mask p k mode s =
     (if has_mode target_mask SILC_CHANNEL_UMODE_CHANFO then
        (if \<not> self then Some (Inl SILC_STATUS_ERR_NO_CHANNEL_FOPRIV, s)
         else if has_mode mode SILC_CHANNEL_UMODE_CHANFO then Some (Inr (mode, sender_mask, False, None), s)
         else
           case (ch_founder_key channel, command_arg cmd 4) of
             (Some key, Some (auth, auth_len)) \<Rightarrow>
               if \<not> has_mode (ch_mode channel) SILC_CHANNEL_MODE_FOUNDER_AUTH \<or>
                  \<not> client_key_auth (ce_pkcs env) (take (unat auth_len) auth) key (cl_id client) \<or> silc_public_key_payload_encode (ce_pkcs env) (Some key) = None
               then Some (Inl SILC_STATUS_ERR_AUTH_FAILED, s)
               else
                 map_option (\<lambda>s.
                   let mode = mode OR SILC_CHANNEL_UMODE_CHANFO in
                   (Inr (mode, mode, True, Some key), update_chl k (\<lambda>e. e\<lparr>cce_mode := mode\<rparr>) s))
                   (if sv_server_type s = SILC_ROUTER then drop_founder p (users channel) s else Some s)
           | _ \<Rightarrow> Some (Inl SILC_STATUS_ERR_AUTH_FAILED, s))
      else if has_mode mode SILC_CHANNEL_UMODE_CHANFO then
        (if self then
           let mode = mode AND NOT SILC_CHANNEL_UMODE_CHANFO in
           Some (Inr (mode, sender_mask, True, None), update_chl k (\<lambda>e. e\<lparr>cce_mode := mode\<rparr>) s)
         else Some (Inl SILC_STATUS_ERR_NOT_YOU, s))
      else Some (Inr (mode, sender_mask, False, None), s))"

text \<open>The notifications and the reply.\<close>

definition cumode_reply ::
  "command_env \<Rightarrow> silc_server_command_context \<Rightarrow> silc_client_entry \<Rightarrow> silc_client_entry \<Rightarrow> u32 \<Rightarrow> byte list \<Rightarrow> bool \<Rightarrow> ptr option \<Rightarrow>
     ptr \<Rightarrow> silc_server \<Rightarrow> silc_server option" where
  "cumode_reply env cmd client target_client target_mask tmp_mask notify key p s =
     (case (Option.bind (cl_id client) (\<lambda>i. silc_id_payload_encode (ClientID i)), command_arg cmd 3) of
        (Some idp, Some (d, len)) \<Rightarrow>
          let s = (if \<not> notify then s
                else
                  let s = emit (Ev_Notify_To_Channel p SILC_NOTIFY_TYPE_CUMODE_CHANGE
                        ([silc_buffer_data idp, take 4 tmp_mask, take (unat len) d] @
                         (case silc_public_key_payload_encode (ce_pkcs env) key of None \<Rightarrow> [] | Some f \<Rightarrow> [silc_buffer_data f]))) s in
                  emit (Ev_Notify_Cumode p target_mask (cl_id client) (cl_id target_client) key) s) in
          Some (silc_server_send_command_reply SILC_COMMAND_CUMODE SILC_STATUS_OK 0 (cp_ident (cc_payload cmd))
            [(2, Some tmp_mask, 4), va_of 3 (command_arg cmd 1), va_of 4 (command_arg cmd 3)] s)
      | _ \<Rightarrow> None)"

definition cumode_change ::
  "command_env \<Rightarrow> silc_server_command_context \<Rightarrow> ptr \<Rightarrow> ptr \<Rightarrow> u32 \<Rightarrow> u32 \<Rightarrow> byte list \<Rightarrow> ptr \<Rightarrow> ptr \<Rightarrow> silc_server \<Rightarrow> silc_server option" where
  "cumode_change env cmd c target target_mask sender_mask tmp_mask p k s =
     (case (sv_channels s p, sv_clients s c, sv_clients s target, sv_chls s k) of
        (Some channel, Some client, Some target_client, Some chl) \<Rightarrow>
          if has_mode (cce_mode chl) SILC_CHANNEL_UMODE_CHANFO \<and> c \<noteq> target
          then silc_server_command_send_status_data cmd SILC_COMMAND_CUMODE SILC_STATUS_ERR_NO_CHANNEL_FOPRIV 0
            (va_of 2 (command_arg cmd 1)) s
          else
            Option.bind (cumode_founder env cmd channel client (target = c) target_mask sender_mask p k (cce_mode chl) s) (\<lambda>(r, s).
              case r of
                Inl err \<Rightarrow> silc_server_command_send_status_reply cmd SILC_COMMAND_CUMODE err 0 s
              | Inr (mode, sender_mask, notify, key) \<Rightarrow>
                  (case cumode_steps (cumode_list target_mask sender_mask (target = c)) (mode, notify) of
                     (err, mode, notify) \<Rightarrow>
                       let s = update_chl k (\<lambda>e. e\<lparr>cce_mode := mode\<rparr>) s in
                       (case err of
                          Some (status, True) \<Rightarrow> silc_server_command_send_status_data cmd SILC_COMMAND_CUMODE status 0
                            (va_of 2 (command_arg cmd 1)) s
                        | Some (status, False) \<Rightarrow> silc_server_command_send_status_reply cmd SILC_COMMAND_CUMODE status 0 s
                        | None \<Rightarrow> cumode_reply env cmd client target_client target_mask tmp_mask notify key p s)))
      | _ \<Rightarrow> None)"

text \<open>The mask is read without a look at the length of its argument; the parser puts one zero after an argument.\<close>

definition silc_server_command_cumode :: "command_env \<Rightarrow> silc_server_command_context \<Rightarrow> silc_server \<Rightarrow> silc_server option" where
  "silc_server_command_cumode env cmd s =
     (case cc_context cmd of
        No_Context \<Rightarrow> Some s
      | Server_Context _ \<Rightarrow> None
      | Client_Context c \<Rightarrow>
          SILC_SERVER_COMMAND_CHECK SILC_COMMAND_CUMODE cmd 3 4
            (with_channel env cmd SILC_COMMAND_CUMODE Global_List (\<lambda>i p.
              with_member cmd SILC_COMMAND_CUMODE c p (\<lambda>k chl s.
                case command_arg cmd 2 of
                  None \<Rightarrow> silc_server_command_send_status_reply cmd SILC_COMMAND_CUMODE SILC_STATUS_ERR_NOT_ENOUGH_PARAMS 0 s
                | Some (d, len) \<Rightarrow>
                    let tmp_mask = take (unat len) d @ [0] in
                    if length tmp_mask < 4 then None
                    else
                      case id_arg cmd 3 of
                        None \<Rightarrow> silc_server_command_send_status_reply cmd SILC_COMMAND_CUMODE SILC_STATUS_ERR_NO_CLIENT_ID 0 s
                      | Some j \<Rightarrow>
                          let target = find_client env j s in
                          if target \<noteq> Some c \<and> \<not> has_mode (cce_mode chl) SILC_CHANNEL_UMODE_CHANFO \<and>
                             \<not> has_mode (cce_mode chl) SILC_CHANNEL_UMODE_CHANOP
                          then silc_server_command_send_status_data cmd SILC_COMMAND_CUMODE SILC_STATUS_ERR_NOT_YOU 0
                            (va_of 2 (command_arg cmd 1)) s
                          else
                            case (if target = Some c then Some k else silc_server_client_on_channel target (Some p) s) of
                              None \<Rightarrow> silc_server_command_send_status_data2 cmd SILC_COMMAND_CUMODE SILC_STATUS_ERR_USER_NOT_ON_CHANNEL 0
                                (va_of 2 (command_arg cmd 3)) (va_of 3 (command_arg cmd 1)) s
                            | Some k2 \<Rightarrow>
                                cumode_change env cmd c (the target) (SILC_GET32_MSB tmp_mask) (cce_mode chl) tmp_mask p k2 s))) s)"

section \<open>Changes of no consequence\<close>

text \<open>Events, counters and times of access.\<close>

definition noise :: "silc_server \<Rightarrow> silc_server \<Rightarrow> bool" where
  "noise s s' \<longleftrightarrow> quiet s s' \<and> sv_clients s' = sv_clients s \<and>
     (\<forall>p. map_option (ch_updated_update (\<lambda>_. 0)) (sv_channels s' p) = map_option (ch_updated_update (\<lambda>_. 0)) (sv_channels s p))"

lemma noise_refl [simp, intro]: "noise s s"
  by (simp add: noise_def)

lemma noise_trans: "noise a b \<Longrightarrow> noise b c \<Longrightarrow> noise a c"
  unfolding noise_def using quiet_trans by metis

lemma noise_basic [simp, intro]:
  "noise s (emit ev s)" "noise s (update_stat f s)" "noise s (count_command s)" "noise s (touch_channel now p s)"
proof -
  show "noise s (emit ev s)" "noise s (update_stat f s)" "noise s (count_command s)"
    unfolding noise_def count_command_def by (intro conjI quiet_emit quiet_stat; simp add: emit_def update_stat_def)+
  have "quiet s (touch_channel now p s)" unfolding touch_channel_def by (rule quiet_update_channel) simp_all
  then show "noise s (touch_channel now p s)"
    by (simp add: noise_def touch_channel_def update_channel_def option.map_comp comp_def)
qed

lemma noise_entries:
  assumes "noise s s'"
  shows "sv_clients s' = sv_clients s" "sv_chls s' = sv_chls s" "sv_server_type s' = sv_server_type s"
    "sv_channels s p = Some e \<Longrightarrow> \<exists>u. sv_channels s' p = Some (e\<lparr>ch_updated := u\<rparr>)"
    "silc_server_client_on_channel c q s' = silc_server_client_on_channel c q s"
proof -
  show "sv_clients s' = sv_clients s" "sv_chls s' = sv_chls s" "sv_server_type s' = sv_server_type s"
    using assms by (simp_all add: noise_def quiet_def)
  then show "silc_server_client_on_channel c q s' = silc_server_client_on_channel c q s"
    by (cases c; cases q) (simp_all add: silc_server_client_on_channel_def)
  assume e: "sv_channels s p = Some e"
  with assms obtain e' where e': "sv_channels s' p = Some e'" "e'\<lparr>ch_updated := 0\<rparr> = e\<lparr>ch_updated := 0\<rparr>"
    by (auto simp: noise_def dest!: spec [of _ p])
  have "e' = e'\<lparr>ch_updated := 0\<rparr>\<lparr>ch_updated := ch_updated e'\<rparr>" by simp
  also have "\<dots> = e\<lparr>ch_updated := ch_updated e'\<rparr>" unfolding e'(2) by simp
  finally have "sv_channels s' p = Some (e\<lparr>ch_updated := ch_updated e'\<rparr>)" using e'(1) by simp
  then show "\<exists>u. sv_channels s' p = Some (e\<lparr>ch_updated := u\<rparr>)" by blast
qed

lemma noise_channels_ok: assumes "noise s s'" "channels_ok s" shows "channels_ok s'"
  unfolding channels_ok_def
proof (intro allI impI)
  fix p e' assume e': "sv_channels s' p = Some e'"
  have "quiet s s'" using assms(1) by (simp add: noise_def)
  then obtain e where e: "sv_channels s p = Some e" using quiet_entries(2) e' by (metis not_None_eq)
  with noise_entries(4) [OF assms(1) e] e' assms(2) show "channel_ok e'" by (auto simp: channels_ok_def channel_ok_def)
qed

lemma noise_status:
  assumes "send_status cmd command status error args s = Some s'" shows "noise s s'"
  using assms noise_trans [OF noise_basic(3) noise_basic(1)] by (auto simp: send_status_def)

lemmas reply_defs = silc_server_command_send_status_reply_def silc_server_command_send_status_data_def
  silc_server_command_send_status_data2_def

lemma noise_replies:
  "silc_server_command_send_status_reply cmd command status error s = Some s' \<Longrightarrow> noise s s'"
  "silc_server_command_send_status_data cmd command status error a s = Some s' \<Longrightarrow> noise s s'"
  "silc_server_command_send_status_data2 cmd command status error a b s = Some s' \<Longrightarrow> noise s s'"
  "noise s (silc_server_send_command_reply command status error ident args s)"
  using noise_status noise_trans [OF noise_basic(3) noise_basic(1)]
  by (auto simp: silc_server_command_send_status_reply_def silc_server_command_send_status_data_def
      silc_server_command_send_status_data2_def silc_server_send_command_reply_def split: option.split)

text \<open>A command answers with an error, or its body runs.\<close>

lemma check_cases:
  assumes "SILC_SERVER_COMMAND_CHECK command cmd mn mx body s = Some s'"
  obtains (stop) "noise s s'" | (run) "body s = Some s'"
proof -
  obtain err t where p: "silc_server_command_pending_error_check cmd s = Some (err, t)"
    using assms by (auto simp: SILC_SERVER_COMMAND_CHECK_def bind_eq_Some_conv)
  have t: "noise s t \<and> (\<not> err \<longrightarrow> t = s)"
    using p noise_trans [OF noise_basic(3) noise_basic(1)]
    by (auto simp: silc_server_command_pending_error_check_def split: option.splits if_splits)
  show ?thesis
  proof (cases "err")
    case True
    with assms p t stop show ?thesis by (simp add: SILC_SERVER_COMMAND_CHECK_def)
  next
    case False
    with assms p t stop run noise_replies(1) show ?thesis
      by (auto simp: SILC_SERVER_COMMAND_CHECK_def Let_def split: if_splits)
  qed
qed

lemma find_channel_noise:
  assumes "silc_idlist_find_channel_by_id now w i s = Some (po, s')" shows "noise s s'"
  using assms by (auto simp: silc_idlist_find_channel_by_id_def split: option.splits)

lemma channel_cases:
  assumes "with_channel env cmd command second body s = Some s'"
  obtains (stop) "noise s s'"
  | (run) i p t where "id_arg cmd 1 = Some i" "noise s t" "body i p t = Some s'"
proof -
  show thesis
  proof (cases "id_arg cmd 1")
    case None
    with assms stop noise_replies(1) show ?thesis by (auto simp: with_channel_def)
  next
    case (Some i)
    let ?c = "Some (as_channel env i)"
    from assms Some obtain po t where t: "silc_idlist_find_channel_by_id (ce_now env) Local_List ?c s = Some (po, t)"
      by (auto simp: with_channel_def bind_eq_Some_conv)
    from assms Some t obtain po' u where u: "(case po of Some p \<Rightarrow> Some (Some p, t)
        | None \<Rightarrow> silc_idlist_find_channel_by_id (ce_now env) second ?c t) = Some (po', u)"
      by (auto simp: with_channel_def bind_eq_Some_conv)
    have n: "noise s u"
      using noise_trans [OF find_channel_noise [OF t]] find_channel_noise [of "ce_now env" second ?c t] u find_channel_noise [OF t]
      by (cases po) auto
    show ?thesis
    proof (cases po')
      case None
      with assms Some t u have "silc_server_command_send_status_data cmd command SILC_STATUS_ERR_NO_SUCH_CHANNEL_ID 0
          (va_of 2 (command_arg cmd 1)) u = Some s'" by (simp add: with_channel_def)
      from noise_trans [OF n noise_replies(2) [OF this]] show ?thesis by (rule stop)
    next
      case (Some p)
      with assms \<open>id_arg cmd 1 = Some i\<close> t u have "body i p u = Some s'" by (simp add: with_channel_def)
      with \<open>id_arg cmd 1 = Some i\<close> n show ?thesis by (rule run)
    qed
  qed
qed

lemma member_cases:
  assumes "with_member cmd command c p body s = Some s'"
  obtains (stop) "noise s s'"
  | (run) k chl where "silc_server_client_on_channel (Some c) (Some p) s = Some k" "sv_chls s k = Some chl" "body k chl s = Some s'"
  using assms noise_replies(2) by (auto simp: with_member_def bind_eq_Some_conv split: option.splits)

section \<open>The invariant\<close>

text \<open>Lists, memberships and channels are in order and, on a router, no channel has two founders.\<close>

definition sane :: "silc_server \<Rightarrow> bool" where
  "sane s \<longleftrightarrow> server_inv s \<and> channels_ok s \<and> (sv_server_type s = SILC_ROUTER \<longrightarrow> one_founder s)"

lemma sane_noise: assumes "noise s s'" "sane s" shows "sane s'"
proof -
  have "quiet s s'" using assms(1) by (simp add: noise_def)
  from quiet_inv(1) [OF this] assms(2) have "server_inv s'" by (simp add: sane_def)
  moreover have "founders s' = founders s" using noise_entries(2) [OF assms(1)] by (rule founders_chls)
  ultimately show ?thesis
    using noise_channels_ok [OF assms(1)] noise_entries(3) [OF assms(1)] assms(2) by (auto simp: sane_def one_founder_def)
qed

lemmas sane_status = sane_noise [OF noise_status]

lemma sane_quiet: "quiet s s' \<Longrightarrow> channels_ok s' \<Longrightarrow> sane s \<Longrightarrow> sane s'"
  using quiet_inv(1) [of s s'] founders_chls [of s' s] by (auto simp: sane_def one_founder_def quiet_def)

lemma sane_ended: assumes "ended K s s'" "channels_ok s'" "sane s" shows "sane s'"
proof -
  have "founders s' p \<subseteq> founders s p" for p
    using assms(1) by (auto simp: founders_def ended_def restrict_map_def split: if_splits)
  then have "one_founder s'" if "one_founder s" using that unfolding one_founder_def by blast
  then show ?thesis using assms by (auto simp: sane_def ended_def)
qed

lemma remove_one_run:
  assumes "server_inv s" "channels_ok s" "silc_server_remove_from_one_channel p c notify s = Some (b, s')"
  shows "\<exists>K. ended K s s' \<and> channels_ok s' \<and> leaves c K s \<and> K \<subseteq> members_of s p"
proof -
  have m: "members_inv {} s" using assms(1) by (simp add: server_inv_def)
  obtain channel client where e: "sv_channels s p = Some channel" "sv_clients s c = Some client"
    using assms(3) by (auto simp: silc_server_remove_from_one_channel_def split: option.splits)
  show ?thesis
  proof (cases "silc_hash_table_find (cl_channels client) p")
    case None
    with e assms show ?thesis using ended_quiet [OF assms(1) quiet_refl]
      by (intro exI [of _ "{}"]) (auto simp: silc_server_remove_from_one_channel_def leaves_def)
  next
    case (Some f)
    obtain q k where f: "f = (q, k)" by (cases f)
    obtain x where x: "sv_chls s k = Some x" "cce_client x = c" "cce_channel x = p"
      using find_membership(1) [OF m e(2), of p k] Some f by auto
    have own: "leaves c (insert k K) s" "insert k K \<subseteq> members_of s p" if "leaves c K s" "K \<subseteq> members_of s p" for K
      using that x by (auto simp: leaves_def members_of_def)
    show ?thesis
    proof (cases "cl_id client")
      case (Some i)
      with remove_one_ok [OF assms(1,2) e, of i q k notify] \<open>silc_hash_table_find _ _ = Some f\<close> f assms(3) own show ?thesis by auto
    next
      case None
      with assms(3) e \<open>silc_hash_table_find _ _ = Some f\<close> f obtain b2 where
        d: "sv_server_type s \<noteq> SILC_SERVER" "silc_hash_table_count (ch_user_list channel) < 2" "silc_server_channel_delete p s = Some (b2, s')"
        by (auto simp: silc_server_remove_from_one_channel_def split: option.splits if_splits)
      with one_channel [OF assms(1,2) x e(1)] own [of "{}"] show ?thesis by (auto simp: leaves_def)
    qed
  qed
qed

lemma sane_remove_one: "silc_server_remove_from_one_channel p c notify s = Some (b, s') \<Longrightarrow> sane s \<Longrightarrow> sane s'"
  using remove_one_run [of s p c notify b s'] sane_ended by (force simp: sane_def)

lemma sane_new_key:
  assumes "crypto_ok (ce_crypto env)" "sane s" "new_channel_key env p conn s = Some s'" shows "sane s'"
proof -
  obtain e where e: "sv_channels s p = Some e" using assms(3) by (auto simp: new_channel_key_def bind_eq_Some_conv)
  obtain b t where t: "silc_server_create_channel_key (ce_crypto env) p 0 s = Some (b, t)" "quiet s t" "channels_ok t"
    using create_channel_key_ok [OF assms(1) _ e, of 0] assms(2) by (auto simp: sane_def)
  then have "sane t" using sane_quiet assms(2) by blast
  with assms(2,3) e t(1) show ?thesis using sane_noise [OF noise_basic(1), of t] by (auto simp: new_channel_key_def split: if_splits)
qed

lemma drop_invite_frame:
  assumes "drop_invite ib junk p d s = Some s'"
  shows "sv_clients s' = sv_clients s" "sv_chls s' = sv_chls s" "sv_server_type s' = sv_server_type s"
  using assms by (auto simp: drop_invite_def update_channel_def split: option.splits if_splits)

lemma sane_drop_invite:
  assumes "drop_invite ib junk p d s = Some s'" "sane s" shows "sane s'"
proof -
  obtain e where e: "sv_channels s p = Some e" using assms(1) by (auto simp: drop_invite_def split: option.splits)
  consider "s' = s" | iargs list lo where "ch_invite_list e = Some list" "silc_server_inviteban_process ib (Some list) 1 iargs = Some lo"
      "s' = update_channel p (\<lambda>e. e\<lparr>ch_invite_list := lo\<rparr>) s"
    using assms(1) e by (auto simp: drop_invite_def split: option.splits if_splits)
  then show ?thesis
  proof cases
    case 1
    with assms(2) show ?thesis by simp
  next
    case (2 iargs list lo)
    have il: "inviteban_ok list" using assms(2) e 2(1) by (auto simp: sane_def channels_ok_def channel_ok_def)
    have "lo = Some l \<Longrightarrow> inviteban_ok l" for l using inviteban_process_del_ok [OF _ il] 2(2) by blast
    then have "channels_ok s'"
      unfolding 2(3) using assms(2) by (intro channels_ok_update) (auto simp: sane_def channel_ok_def)
    moreover have "quiet s s'" unfolding 2(3) by (rule quiet_update_channel) simp_all
    ultimately show ?thesis using sane_quiet assms(2) by blast
  qed
qed

lemma sane_remove_rekey:
  assumes "crypto_ok (ce_crypto env)" "sane s" "remove_and_rekey env p c notify conn s = Some s'" shows "sane s'"
proof -
  obtain b t where "silc_server_remove_from_one_channel p c notify s = Some (b, t)"
    "if b then new_channel_key env p conn t = Some s' else s' = t"
    using assms(3) by (auto simp: remove_and_rekey_def bind_eq_Some_conv split: if_splits)
  then show ?thesis using sane_remove_one [of p c notify s b t] sane_new_key [OF assms(1)] assms(2) by (cases b) auto
qed

section \<open>The commands keep the invariant\<close>

lemma leave_sane:
  assumes "crypto_ok (ce_crypto env)" "sane s" "silc_server_command_leave env cmd s = Some s'" shows "sane s'"
proof (cases "cc_context cmd")
  case (Client_Context c)
  from assms(3) [unfolded silc_server_command_leave_def Client_Context, simplified] show ?thesis
  proof (cases rule: check_cases)
    case stop
    then show ?thesis using sane_noise assms(2) by blast
  next
    case run
    then show ?thesis
    proof (cases rule: channel_cases)
      case (run i p t)
      note t = sane_noise [OF run(2) assms(2)]
      from run(3) show ?thesis
      proof (cases rule: member_cases)
        case stop
        then show ?thesis using sane_noise t by blast
      next
        case (run k chl)
        then obtain client :: silc_client_entry and u where u: "silc_server_command_send_status_data cmd SILC_COMMAND_LEAVE SILC_STATUS_OK 0 (va_of 2 (command_arg cmd 1))
            (emit (Ev_Notify_Leave p (cl_id client)) t) = Some u" and v: "remove_and_rekey env p c True None u = Some s'"
          unfolding bind_eq_Some_conv by blast
        have "sane u" using sane_noise [OF noise_trans [OF noise_basic(1) noise_replies(2) [OF u]] t] .
        with v sane_remove_rekey [OF assms(1)] show ?thesis by blast
      qed
    qed (use sane_noise assms(2) in blast)
  qed
qed (use assms in \<open>simp_all add: silc_server_command_leave_def\<close>)

lemma kick_client_cases:
  assumes "kick_client env cmd client target p s = Some s'"
  obtains t d conn u where "noise s t" "drop_invite (ce_inviteban env) (ce_junk env) p d t = Some u"
    "remove_and_rekey env p target False conn u = Some s'"
proof -
  have n: "noise s (emit e (emit e' (silc_server_send_command_reply a b c d f s)))" for e e' a b c d f
    using noise_trans [OF noise_trans [OF noise_replies(4) noise_basic(1)] noise_basic(1)] .
  obtain a l idp tc where "command_arg cmd 2 = Some (a, l)" "Option.bind (cl_id client) (\<lambda>i. silc_id_payload_encode (ClientID i)) = Some idp"
    "sv_clients s target = Some tc"
    using assms by (auto simp: kick_client_def split: option.splits)
  with assms that show thesis unfolding kick_client_def Let_def by (simp add: bind_eq_Some_conv) (metis n)
qed

lemma kick_client_sane:
  assumes "crypto_ok (ce_crypto env)" "sane s" "kick_client env cmd client target p s = Some s'" shows "sane s'"
proof -
  obtain t d conn u where t: "noise s t" and u: "drop_invite (ce_inviteban env) (ce_junk env) p d t = Some u"
    and v: "remove_and_rekey env p target False conn u = Some s'" by (rule kick_client_cases [OF assms(3)])
  have "sane u" using sane_drop_invite [OF u] sane_noise [OF t assms(2)] by blast
  with v sane_remove_rekey [OF assms(1)] show ?thesis by blast
qed

lemma kick_sane:
  assumes "crypto_ok (ce_crypto env)" "sane s" "silc_server_command_kick env cmd s = Some s'" shows "sane s'"
proof (cases "cc_context cmd")
  case (Client_Context c)
  from assms(3) [unfolded silc_server_command_kick_def Client_Context, simplified] show ?thesis
  proof (cases rule: check_cases)
    case stop
    then show ?thesis using sane_noise assms(2) by blast
  next
    case run
    then show ?thesis
    proof (cases rule: channel_cases)
      case (run i p t)
      note t = sane_noise [OF run(2) assms(2)]
      from run(3) show ?thesis
      proof (cases rule: member_cases)
        case (run k chl)
        then show ?thesis using kick_client_sane [OF assms(1) t] sane_status [OF _ t]
          by (auto simp: Let_def bind_eq_Some_conv reply_defs split: option.splits if_splits)
      qed (use sane_noise t in blast)
    qed (use sane_noise assms(2) in blast)
  qed
qed (use assms in \<open>simp_all add: silc_server_command_kick_def\<close>)

lemma topic_reply_noise: "topic_reply cmd env i p s = Some s' \<Longrightarrow> noise s s'"
  using noise_replies(4) by (auto simp: topic_reply_def split: option.splits)

lemma set_topic_sane:
  assumes "set_topic env c p topic s = Some s'" "sane s" shows "sane s'"
proof -
  let ?t = "update_channel p (\<lambda>e. e\<lparr>ch_topic := Some (cstr topic)\<rparr>) s"
  have q: "quiet s ?t" by (rule quiet_update_channel) simp_all
  have "channels_ok ?t" using assms(2) by (intro channels_ok_update) (auto simp: sane_def channel_ok_def)
  with q have t: "sane ?t" using sane_quiet assms(2) by blast
  have "sane (emit e (emit e' ?t))" for e e' by (rule sane_noise [OF noise_trans [OF noise_basic(1) noise_basic(1)] t])
  with assms show ?thesis by (auto simp: set_topic_def Let_def split: option.splits if_splits)
qed

lemma topic_done_sane: "set_topic env c p topic s = Some u \<Longrightarrow> topic_reply cmd env i p u = Some s' \<Longrightarrow> sane s \<Longrightarrow> sane s'"
  using set_topic_sane sane_noise [OF topic_reply_noise] by blast

lemma topic_sane:
  assumes "sane s" "silc_server_command_topic env cmd s = Some s'" shows "sane s'"
proof (cases "cc_context cmd")
  case (Client_Context c)
  from assms(2) [unfolded silc_server_command_topic_def Client_Context, simplified] show ?thesis
  proof (cases rule: check_cases)
    case run
    then show ?thesis
    proof (cases rule: channel_cases)
      case (run i p t)
      note t = sane_noise [OF run(2) assms(1)]
      show ?thesis
      proof (cases "silc_argument_get_arg_num (cp_args (cc_payload cmd)) > 1")
        case False
        with run(3) topic_reply_noise sane_noise [OF _ t] show ?thesis by simp
      next
        case True
        with run(3) consider (stop) "noise t s'" | (go) d l where "command_arg cmd 2 = Some (d, l)" "with_member cmd SILC_COMMAND_TOPIC c p (\<lambda>k chl s.
            Option.bind (sv_channels s p) (\<lambda>channel.
              if has_mode (ch_mode channel) SILC_CHANNEL_MODE_TOPIC \<and>
                 \<not> has_mode (cce_mode chl) SILC_CHANNEL_UMODE_CHANOP \<and> \<not> has_mode (cce_mode chl) SILC_CHANNEL_UMODE_CHANFO
              then silc_server_command_send_status_data cmd SILC_COMMAND_TOPIC SILC_STATUS_ERR_NO_CHANNEL_PRIV 0
                (va_of 2 (command_arg cmd 1)) s
              else Option.bind (set_topic env c p (topic_arg d l) s) (topic_reply cmd env i p))) t = Some s'"
          using noise_replies(1) by (auto simp: Let_def split: option.splits if_splits)
        then show ?thesis
        proof cases
          case go
          from go(2) show ?thesis
          proof (cases rule: member_cases)
            case (run k chl)
            then show ?thesis using sane_status [OF _ t] topic_done_sane [OF _ _ t]
              by (auto simp: bind_eq_Some_conv reply_defs split: if_splits)
          qed (use sane_noise t in blast)
        qed (use sane_noise t in blast)
      qed
    qed (use sane_noise assms(1) in blast)
  qed (use sane_noise assms(1) in blast)
qed (use assms in \<open>simp_all add: silc_server_command_topic_def\<close>)

lemma umode_rights_stat: "silc_server_check_umode_rights client m s = (ok, s') \<Longrightarrow> s' = update_stat (\<lambda>_. sv_stat s') s"
  by (auto simp: silc_server_check_umode_rights_def SILC_UMODE_STATS_UPDATE_def update_stat_def Let_def split: if_splits)

lemma count_away_stat: "\<exists>f. count_away client m s = update_stat f s"
proof -
  have "s = update_stat (\<lambda>x. x) s" by (simp add: update_stat_def)
  then show ?thesis unfolding count_away_def by (metis (full_types))
qed

lemma set_umode_frame:
  assumes "set_umode c m s = Some (ok, s')"
  shows "quiet s s' \<and> sv_channels s' = sv_channels s"
proof -
  obtain client where c: "sv_clients s c = Some client" using assms by (auto simp: set_umode_def bind_eq_Some_conv)
  obtain b t where t: "silc_server_check_umode_rights client m s = (b, t)" by force
  obtain f where a: "count_away client m t = update_stat f t" using count_away_stat by blast
  note t' = umode_rights_stat [OF t]
  have q: "quiet s t" "sv_channels t = sv_channels s" by (subst t', simp, subst t', simp add: update_stat_def)
  have u: "quiet x (update_client c (\<lambda>e. e\<lparr>cl_mode := n\<rparr>) x)" for n x by (rule quiet_update_client) simp_all
  note w = quiet_trans [OF quiet_trans [OF quiet_trans [OF q(1) quiet_stat] u] quiet_emit]
  show ?thesis
    using assms c t q(1,2) w quiet_trans [OF w quiet_emit]
    by (auto simp: set_umode_def a Let_def emit_def update_stat_def update_client_def split: if_splits)
qed

lemma set_umode_sane:
  assumes "set_umode c m s = Some (ok, s')" "sane s" shows "sane s'"
proof -
  have "channels_ok s'" using set_umode_frame [OF assms(1)] assms(2) by (simp add: sane_def channels_ok_def)
  then show ?thesis using set_umode_frame [OF assms(1)] sane_quiet assms(2) by blast
qed

lemma umode_sane:
  assumes "sane s" "silc_server_command_umode cmd s = Some s'" shows "sane s'"
proof (cases "cc_context cmd")
  case (Client_Context c)
  from assms(2) [unfolded silc_server_command_umode_def Client_Context, simplified] show ?thesis
  proof (cases rule: check_cases)
    case run
    let ?r = "case command_arg cmd 2 of
        Some (d, len) \<Rightarrow> if len = 4 then set_umode c (SILC_GET32_MSB d) s else Some (True, s)
      | None \<Rightarrow> Some (True, s)"
    from run obtain ok t where t: "?r = Some (ok, t)" by (auto simp: bind_eq_Some_conv)
    have n: "noise t s'" using run noise_replies(1,4) unfolding t by (cases ok) (auto simp: bind_eq_Some_conv)
    have "sane t" using t set_umode_sane assms(1) by (auto split: option.splits if_splits)
    with n show ?thesis using sane_noise by blast
  qed (use sane_noise assms(1) in blast)
qed (use assms in \<open>simp_all add: silc_server_command_umode_def\<close>)

section \<open>The bits of CUMODE\<close>

lemma umode_flags:
  "SILC_CHANNEL_UMODE_BLOCK_MESSAGES = 2 ^ 2" "SILC_CHANNEL_UMODE_BLOCK_MESSAGES_USERS = 2 ^ 3"
  "SILC_CHANNEL_UMODE_BLOCK_MESSAGES_ROBOTS = 2 ^ 4" "SILC_CHANNEL_UMODE_QUIET = 2 ^ 5"
  by (simp_all add: SILC_CHANNEL_UMODE_BLOCK_MESSAGES_def SILC_CHANNEL_UMODE_BLOCK_MESSAGES_USERS_def
      SILC_CHANNEL_UMODE_BLOCK_MESSAGES_ROBOTS_def SILC_CHANNEL_UMODE_QUIET_def)

text \<open>Only one bit is another one.\<close>

definition flips :: "nat \<Rightarrow> u32 \<Rightarrow> u32 \<Rightarrow> bool" where
  "flips b m m' \<longleftrightarrow> (\<forall>i. i \<noteq> b \<longrightarrow> bit m' i = bit m i)"

lemma flips_flag: "flips b m (m OR 2 ^ b)" "flips b m (m AND NOT (2 ^ b))"
  by (auto simp: flips_def bit_or_iff bit_and_iff bit_not_iff bit_exp_iff possible_bit_word dest: bit_imp_le_length)

text \<open>
  What the steps after the founder bit do to a mode: the founder bit stays, the operator bit takes
  rights, nobody changes the quiet bit of their own, and of another user's mode only these two bits change.
\<close>

definition cumode_allowed :: "bool \<Rightarrow> u32 \<Rightarrow> u32 \<Rightarrow> u32 \<Rightarrow> bool" where
  "cumode_allowed self sender_mask m m' \<longleftrightarrow> bit m' 0 = bit m 0 \<and> (self \<longrightarrow> bit m' 5 = bit m 5) \<and>
     (\<not> self \<longrightarrow> (\<forall>i. i \<noteq> 1 \<and> i \<noteq> 5 \<longrightarrow> bit m' i = bit m i)) \<and>
     (bit m' 1 \<noteq> bit m 1 \<longrightarrow> has_mode sender_mask SILC_CHANNEL_UMODE_CHANOP \<or> has_mode sender_mask SILC_CHANNEL_UMODE_CHANFO)"

lemma allowed_refl: "cumode_allowed self sm m m"
  by (simp add: cumode_allowed_def)

lemma allowed_trans: "cumode_allowed self sm a b \<Longrightarrow> cumode_allowed self sm b c \<Longrightarrow> cumode_allowed self sm a c"
  unfolding cumode_allowed_def by metis

lemma allowed_op:
  assumes "cumode_op tm sm (m, n) = (e, m', n')" shows "cumode_allowed self sm m m'"
proof -
  have "m' = m \<or> flips 1 m m' \<and> (has_mode sm SILC_CHANNEL_UMODE_CHANOP \<or> has_mode sm SILC_CHANNEL_UMODE_CHANFO)"
    using assms flips_flag [of 1 m, folded flag_bits(9)] by (auto simp: cumode_op_def Let_def split: if_splits)
  then show ?thesis by (auto simp: cumode_allowed_def flips_def)
qed

lemma allowed_block:
  assumes "cumode_block tm self f (m, n) = (e, m', n')" "f = 2 ^ b" "b = 2 \<or> b = 3 \<or> b = 4" shows "cumode_allowed self sm m m'"
proof -
  have "m' = m \<or> self \<and> flips b m m'"
    using assms(1) flips_flag [of b m, folded assms(2)] by (auto simp: cumode_block_def split: if_splits)
  then show ?thesis using assms(3) by (auto simp: cumode_allowed_def flips_def)
qed

lemma allowed_quiet:
  assumes "cumode_quiet tm self (m, n) = (e, m', n')" shows "cumode_allowed self sm m m'"
proof -
  have "m' = m \<or> \<not> self \<and> flips 5 m m'"
    using assms flips_flag [of 5 m, folded umode_flags(4)] by (auto simp: cumode_quiet_def split: if_splits)
  then show ?thesis by (auto simp: cumode_allowed_def flips_def)
qed

lemma steps_related:
  assumes "\<And>a. R a a" "\<And>a b c. R a b \<Longrightarrow> R b c \<Longrightarrow> R a c" "\<And>f m n e m' n'. f \<in> set fs \<Longrightarrow> f (m, n) = (e, m', n') \<Longrightarrow> R m m'"
    "cumode_steps fs (m, n) = (e, m', n')"
  shows "R m m'"
  using assms(3,4)
proof (induction fs arbitrary: m n)
  case (Cons f fs)
  obtain e1 m1 n1 where f: "f (m, n) = (e1, m1, n1)" by (metis surj_pair)
  then have r: "R m m1" using Cons.prems(1) [of f] by auto
  show ?case
  proof (cases e1)
    case None
    with f Cons.prems(2) have "cumode_steps fs (m1, n1) = (e, m', n')" by simp
    moreover have "R a a'" if "g \<in> set fs" "g (a, b) = (x, a', b')" for g a b x a' b'
      using Cons.prems(1) [of g a b x a' b'] that by simp
    ultimately have "R m1 m'" by (intro Cons.IH [of m1 n1])
    with r assms(2) show ?thesis by blast
  next
    case (Some x)
    with f Cons.prems(2) r show ?thesis by simp
  qed
qed (use assms(1) in simp)

lemma steps_allowed:
  assumes "cumode_steps (cumode_list tm sm self) (m, n) = (e, m', n')" shows "cumode_allowed self sm m m'"
proof (rule steps_related [OF allowed_refl allowed_trans _ assms])
  fix f :: cumode_step and m n e m' n'
  assume "f \<in> set (cumode_list tm sm self)" "f (m, n) = (e, m', n')"
  then show "cumode_allowed self sm m m'"
    using allowed_op allowed_quiet allowed_block [OF _ umode_flags(1)] allowed_block [OF _ umode_flags(2)] allowed_block [OF _ umode_flags(3)]
    by (auto simp: cumode_list_def)
qed

section \<open>The runs of CUMODE\<close>

text \<open>A claim of founder rights that the founder key of the channel confirms.\<close>

definition founder_claim :: "command_env \<Rightarrow> silc_server_command_context \<Rightarrow> silc_channel_entry \<Rightarrow> silc_client_entry \<Rightarrow> bool" where
  "founder_claim env cmd channel client \<longleftrightarrow> has_mode (ch_mode channel) SILC_CHANNEL_MODE_FOUNDER_AUTH \<and>
     (\<exists>key auth len. ch_founder_key channel = Some key \<and> command_arg cmd 4 = Some (auth, len) \<and>
        client_key_auth (ce_pkcs env) (take (unat len) auth) key (cl_id client))"

lemma cumode_founder_cases:
  assumes "cumode_founder env cmd channel client self tm sm p k m s = Some (r, t)"
  obtains (refused) e where "r = Inl e" "t = s"
  | (same) n key where "r = Inr (m, sm, n, key)" "t = s"
  | (claim) n key u where "self" "\<not> has_mode m SILC_CHANNEL_UMODE_CHANFO" "founder_claim env cmd channel client"
      "r = Inr (m OR SILC_CHANNEL_UMODE_CHANFO, m OR SILC_CHANNEL_UMODE_CHANFO, n, key)"
      "(if sv_server_type s = SILC_ROUTER then drop_founder p (users channel) s else Some s) = Some u"
      "t = update_chl k (\<lambda>e. e\<lparr>cce_mode := m OR SILC_CHANNEL_UMODE_CHANFO\<rparr>) u"
  | (resign) n key where "self" "has_mode m SILC_CHANNEL_UMODE_CHANFO" "r = Inr (m AND NOT SILC_CHANNEL_UMODE_CHANFO, sm, n, key)"
      "t = update_chl k (\<lambda>e. e\<lparr>cce_mode := m AND NOT SILC_CHANNEL_UMODE_CHANFO\<rparr>) s"
proof (cases "has_mode tm SILC_CHANNEL_UMODE_CHANFO")
  case False
  with assms refused same resign show ?thesis
    by (cases "has_mode m SILC_CHANNEL_UMODE_CHANFO"; cases self) (auto simp: cumode_founder_def Let_def)
next
  case tm: True
  show ?thesis
  proof (cases "self \<and> \<not> has_mode m SILC_CHANNEL_UMODE_CHANFO \<and> (\<exists>e. r = Inl e) = False")
    case False
    with tm assms refused same show ?thesis
      by (auto simp: cumode_founder_def Let_def split: if_splits option.splits prod.splits)
  next
    case True
    then obtain key auth len where "ch_founder_key channel = Some key" "command_arg cmd 4 = Some (auth, len)"
      using tm assms by (auto simp: cumode_founder_def Let_def split: if_splits option.splits prod.splits)
    with True tm assms claim show ?thesis
      by (auto simp: cumode_founder_def Let_def founder_claim_def split: if_splits)
  qed
qed

lemma cumode_reply_noise: "cumode_reply env cmd client tc tm tmp n key p s = Some s' \<Longrightarrow> noise s s'"
  using noise_replies(4) noise_trans [OF noise_trans [OF noise_basic(1) noise_basic(1)] noise_replies(4)]
  by (auto simp: cumode_reply_def Let_def split: option.splits prod.splits if_splits)

lemma cumode_change_cases:
  assumes "cumode_change env cmd c target tm sm tmp p k s = Some s'"
  obtains (stop) "noise s s'"
  | (run) channel client chl mode sm' n key t err m n' where "sv_channels s p = Some channel" "sv_clients s c = Some client"
      "sv_chls s k = Some chl" "has_mode (cce_mode chl) SILC_CHANNEL_UMODE_CHANFO \<Longrightarrow> target = c"
      "cumode_founder env cmd channel client (target = c) tm sm p k (cce_mode chl) s = Some (Inr (mode, sm', n, key), t)"
      "cumode_steps (cumode_list tm sm' (target = c)) (mode, n) = (err, m, n')"
      "noise (update_chl k (\<lambda>e. e\<lparr>cce_mode := m\<rparr>) t) s'"
proof -
  obtain channel client tc chl where e: "sv_channels s p = Some channel" "sv_clients s c = Some client" "sv_clients s target = Some tc"
    "sv_chls s k = Some chl" using assms by (auto simp: cumode_change_def split: option.splits)
  show ?thesis
  proof (cases "has_mode (cce_mode chl) SILC_CHANNEL_UMODE_CHANFO \<and> c \<noteq> target")
    case True
    with assms e have "noise s s'" using noise_replies(2) by (simp add: cumode_change_def)
    then show ?thesis by (rule stop)
  next
    case False
    with assms e obtain r t where f: "cumode_founder env cmd channel client (target = c) tm sm p k (cce_mode chl) s = Some (r, t)"
      by (auto simp: cumode_change_def bind_eq_Some_conv)
    show ?thesis
    proof (cases r)
      case (Inl err)
      with f have "t = s" by (cases rule: cumode_founder_cases) auto
      with assms e False f Inl have "noise s s'" using noise_replies(1) by (auto simp: cumode_change_def)
      then show ?thesis by (rule stop)
    next
      case (Inr x)
      obtain mode sm' n key where x: "x = (mode, sm', n, key)" by (cases x)
      obtain err m n' where st: "cumode_steps (cumode_list tm sm' (target = c)) (mode, n) = (err, m, n')" by (metis surj_pair)
      have "noise (update_chl k (\<lambda>e. e\<lparr>cce_mode := m\<rparr>) t) s'"
        using assms e False f Inr x st noise_replies(1) noise_replies(2) cumode_reply_noise
        by (auto simp: cumode_change_def Let_def split: option.splits bool.splits prod.splits)
      with e False f Inr x st show ?thesis by (intro run) auto
    qed
  qed
qed

text \<open>Who was founder is it no more; other memberships stay as they are.\<close>

lemma drop_founder_rows:
  assumes "drop_founder p ks s = Some u" "sv_chls s j = Some x"
  shows "sv_chls u j = Some x \<or> j \<in> set ks \<and> has_mode (cce_mode x) SILC_CHANNEL_UMODE_CHANFO \<and>
    sv_chls u j = Some (x\<lparr>cce_mode := cce_mode x AND NOT SILC_CHANNEL_UMODE_CHANFO\<rparr>)"
  using assms
  by (induction ks) (auto simp: Let_def emit_def update_chl_def split: option.splits if_splits)

lemma remoded_trans: assumes "remoded a b" "remoded b c" shows "remoded a c"
proof -
  have "same_lists a c" using same_lists_trans assms by (auto simp: remoded_def)
  with assms show ?thesis by (simp add: remoded_def)
qed

lemma remoded_row: "remoded s t \<Longrightarrow> sv_chls s j = Some x \<Longrightarrow> \<exists>m. sv_chls t j = Some (x\<lparr>cce_mode := m\<rparr>)"
  by (cases x; cases "sv_chls t j") (auto simp: remoded_def dest!: spec [of _ j], metis silc_channel_client_entry.surjective
      silc_channel_client_entry.update_convs(2) old.unit.exhaust)

text \<open>Changing a mode: nobody else may be founder then.\<close>

lemma sane_mode:
  assumes "sane s" "remoded s u" "sv_chls u k = Some x" "sv_server_type s = SILC_ROUTER \<Longrightarrow> one_founder u"
    "sv_server_type s = SILC_ROUTER \<Longrightarrow> has_mode m SILC_CHANNEL_UMODE_CHANFO \<Longrightarrow> founders u (cce_channel x) \<subseteq> {k}"
  shows "sane (update_chl k (\<lambda>e. e\<lparr>cce_mode := m\<rparr>) u)" (is "sane ?s")
proof -
  note u = update_mode [OF assms(3) refl, of m]
  have r: "remoded s ?s" by (rule remoded_trans [OF assms(2) u(1)])
  have "one_founder ?s" if "sv_server_type s = SILC_ROUTER"
    using assms(4,5) [OF that] by (auto simp: one_founder_def u(2) split: if_splits)
  with remoded_inv [OF r] r assms(1) show ?thesis by (simp add: sane_def remoded_def)
qed

lemma update_chl_twice:
  "update_chl k (\<lambda>e. e\<lparr>cce_mode := a\<rparr>) (update_chl k (\<lambda>e. e\<lparr>cce_mode := b\<rparr>) s) = update_chl k (\<lambda>e. e\<lparr>cce_mode := a\<rparr>) s"
  by (simp add: update_chl_def option.map_comp comp_def)

lemma cumode_change_sane:
  assumes "sane s" "cumode_change env cmd c target tm sm tmp p k s = Some s'"
    "\<And>x. sv_chls s k = Some x \<Longrightarrow> cce_channel x = p"
  shows "sane s'"
  using assms(2)
proof (cases rule: cumode_change_cases)
  case stop
  then show ?thesis using sane_noise assms(1) by blast
next
  case (run channel client chl mode sm' n key t err m n')
  have p: "cce_channel chl = p" using run(3) assms(3) by blast
  have keep: "has_mode m SILC_CHANNEL_UMODE_CHANFO = has_mode mode SILC_CHANNEL_UMODE_CHANFO"
    using steps_allowed [OF run(6)] unfolding has_mode_bits by (simp add: cumode_allowed_def)
  have "sane (update_chl k (\<lambda>e. e\<lparr>cce_mode := m\<rparr>) t)"
    using run(5)
  proof (cases rule: cumode_founder_cases)
    case (same n key)
    have "founders s p \<subseteq> {k}" if "one_founder s" "has_mode m SILC_CHANNEL_UMODE_CHANFO"
      using that keep same(1) run(3) p by (auto simp: one_founder_def founders_def)
    with same(2) sane_mode [OF assms(1) remoded_refl run(3), of m] p assms(1) show ?thesis by (auto simp: sane_def)
  next
    case (claim n key u)
    have u: "remoded s u" using claim(5) drop_founder_remoded remoded_refl by (auto split: if_splits)
    obtain x where x: "sv_chls u k = Some x" "cce_channel x = p" using remoded_row [OF u run(3)] p by auto
    have "founders u = (founders s)(p := {})" if r: "sv_server_type s = SILC_ROUTER"
    proof -
      have m: "members_inv {} s" "one_founder s" using assms(1) r by (simp_all add: sane_def server_inv_def)
      have "\<exists>x. sv_chls s j = Some x \<and> cce_channel x = p" if "j \<in> set (users channel)" for j
        using that users_rows(1) [OF m(1) run(1)] by simp
      moreover have "founders s p \<subseteq> set (users channel)" using users_rows(1) [OF m(1) run(1)] by (auto simp: founders_def)
      ultimately show ?thesis using drop_founder_ok [OF _ m(2), of "users channel" p] claim(5) r by auto
    qed
    moreover from this have "sv_server_type s = SILC_ROUTER \<Longrightarrow> one_founder u"
      using assms(1) one_founder_drop [of s u True p] by (simp add: sane_def)
    ultimately have "sane (update_chl k (\<lambda>e. e\<lparr>cce_mode := m\<rparr>) u)"
      using sane_mode [OF assms(1) u x(1), of m] x(2) by simp
    then show ?thesis using claim(6) update_chl_twice by simp
  next
    case (resign n key)
    then have "\<not> has_mode m SILC_CHANNEL_UMODE_CHANFO" using keep no_founder_mode by simp
    with sane_mode [OF assms(1) remoded_refl run(3), of m] assms(1) resign(4) update_chl_twice show ?thesis by (simp add: sane_def)
  qed simp
  then show ?thesis using sane_noise [OF run(7)] by blast
qed

lemma on_channel_row:
  assumes "server_inv s" "silc_server_client_on_channel (Some c) (Some p) s = Some k"
  shows "\<exists>x. sv_chls s k = Some x \<and> cce_client x = c \<and> cce_channel x = p"
proof -
  have m: "members_inv {} s" using assms(1) by (simp add: server_inv_def)
  obtain e where e: "sv_clients s c = Some e" using assms(2) by (auto simp: silc_server_client_on_channel_def bind_eq_Some_conv)
  with assms(2) find_membership(1) [OF m e, of p k] show ?thesis by (simp add: silc_server_client_on_channel_def)
qed

text \<open>What a CUMODE comes to.\<close>

lemma cumode_cases:
  assumes "silc_server_command_cumode env cmd s = Some s'" "cc_context cmd = Client_Context c" "server_inv s"
  obtains (stop) "noise s s'"
  | (run) p k chl target tm tmp k2 t where "noise s t" "silc_server_client_on_channel (Some c) (Some p) s = Some k" "sv_chls s k = Some chl"
      "target = c \<and> k2 = k \<or> target \<noteq> c \<and> (has_mode (cce_mode chl) SILC_CHANNEL_UMODE_CHANFO \<or> has_mode (cce_mode chl) SILC_CHANNEL_UMODE_CHANOP)"
      "silc_server_client_on_channel (Some target) (Some p) s = Some k2"
      "cumode_change env cmd c target tm (cce_mode chl) tmp p k2 t = Some s'"
proof -
  from assms(1) [unfolded silc_server_command_cumode_def assms(2), simplified] show thesis
  proof (cases rule: check_cases)
    case run
    then show ?thesis
    proof (cases rule: channel_cases)
      case (run i p t)
      note t = run(2) and same = noise_entries [OF run(2)]
      from run(3) show ?thesis
      proof (cases rule: member_cases)
        case stop
        then show ?thesis using that(1) noise_trans [OF t] by blast
      next
        case (run k chl)
        note st = noise_trans [OF t noise_status]
        show ?thesis
        proof (cases "\<exists>d l j target k2. command_arg cmd 2 = Some (d, l) \<and> id_arg cmd 3 = Some j \<and> find_client env j t = Some target \<and>
            (if target = c then k2 = k else (has_mode (cce_mode chl) SILC_CHANNEL_UMODE_CHANFO \<or> has_mode (cce_mode chl) SILC_CHANNEL_UMODE_CHANOP) \<and>
               silc_server_client_on_channel (Some target) (Some p) t = Some k2)")
          case False
          with run have "noise s s'"
            by (auto simp: Let_def reply_defs silc_server_client_on_channel_def split: option.splits if_splits intro: st)
          then show ?thesis by (rule that(1))
        next
          case True
          then obtain d l j target k2 where *: "command_arg cmd 2 = Some (d, l)" "id_arg cmd 3 = Some j" "find_client env j t = Some target"
            "if target = c then k2 = k else (has_mode (cce_mode chl) SILC_CHANNEL_UMODE_CHANFO \<or> has_mode (cce_mode chl) SILC_CHANNEL_UMODE_CHANOP) \<and>
               silc_server_client_on_channel (Some target) (Some p) t = Some k2" by blast
          then have "cumode_change env cmd c target (SILC_GET32_MSB (take (unat l) d @ [0])) (cce_mode chl) (take (unat l) d @ [0]) p k2 t = Some s'"
            using run(3) by (auto simp: Let_def split: if_splits)
          with * run same t show ?thesis by (intro that(2) [where t = t]) (auto split: if_splits)
        qed
      qed
    qed (rule that(1))
  qed (rule that(1))
qed

lemma cumode_sane:
  assumes "sane s" "silc_server_command_cumode env cmd s = Some s'" shows "sane s'"
proof (cases "cc_context cmd")
  case (Client_Context c)
  have i: "server_inv s" using assms(1) by (simp add: sane_def)
  from assms(2) Client_Context i show ?thesis
  proof (cases rule: cumode_cases)
    case (run p k chl target tm tmp k2 t)
    have "sane t" using sane_noise [OF run(1) assms(1)] .
    then show ?thesis
      by (rule cumode_change_sane [OF _ run(6)]) (use on_channel_row [OF i run(5)] noise_entries(2) [OF run(1)] in auto)
  qed (use sane_noise assms(1) in blast)
qed (use assms in \<open>simp_all add: silc_server_command_cumode_def\<close>)

end
