(* ===== verification/Server_Privileges.thy ===== *)
theory Server_Privileges
  imports Server_Command
begin

text \<open>
  Who may change the mode of whom with CUMODE, and who may kick whom with KICK
  (\<^verbatim>\<open>apps/silcd/command.c\<close>), with a server, a client and a channel on which both commands run.
\<close>

section \<open>Who may change whose mode\<close>

lemma quiet_bit: "has_mode m SILC_CHANNEL_UMODE_QUIET \<longleftrightarrow> bit m 5"
  unfolding has_mode_def umode_flags(4) and_exp_eq_0_iff_not_bit by blast

lemma founder_bits: "i \<noteq> 0 \<Longrightarrow> bit (m OR SILC_CHANNEL_UMODE_CHANFO) i = bit m i"
  "i \<noteq> 0 \<Longrightarrow> bit (m AND NOT SILC_CHANNEL_UMODE_CHANFO) i = bit m i" "\<not> bit (m AND NOT SILC_CHANNEL_UMODE_CHANFO) 0"
  using flips_flag [of 0 m, folded flag_bits(8)] no_founder_mode [of m] unfolding flips_def has_mode_bits by simp_all

text \<open>The rights to a change of \<open>x\<close>'s mode to \<open>m\<close>, for the sender \<open>c\<close> with the membership \<open>chl\<close>.\<close>

definition cumode_permits ::
  "bool \<Rightarrow> bool \<Rightarrow> ptr \<Rightarrow> silc_channel_client_entry \<Rightarrow> silc_channel_client_entry \<Rightarrow> u32 \<Rightarrow> bool" where
  "cumode_permits router claim c chl x m \<longleftrightarrow>
     (if cce_client x = c
      then has_mode m SILC_CHANNEL_UMODE_QUIET = has_mode (cce_mode x) SILC_CHANNEL_UMODE_QUIET \<and>
        (has_mode m SILC_CHANNEL_UMODE_CHANFO \<longrightarrow> has_mode (cce_mode x) SILC_CHANNEL_UMODE_CHANFO \<or> claim) \<and>
        (has_mode m SILC_CHANNEL_UMODE_CHANOP \<longrightarrow>
           has_mode (cce_mode x) SILC_CHANNEL_UMODE_CHANOP \<or> has_mode (cce_mode x) SILC_CHANNEL_UMODE_CHANFO \<or> claim)
      else if has_mode (cce_mode x) SILC_CHANNEL_UMODE_CHANFO
      then router \<and> claim \<and> m = cce_mode x AND NOT SILC_CHANNEL_UMODE_CHANFO
      else (has_mode (cce_mode chl) SILC_CHANNEL_UMODE_CHANFO \<or> has_mode (cce_mode chl) SILC_CHANNEL_UMODE_CHANOP) \<and>
        (\<forall>i. i \<noteq> 1 \<and> i \<noteq> 5 \<longrightarrow> bit m i = bit (cce_mode x) i))"

lemma cumode_change_rights:
  assumes "server_inv s" "silc_server_client_on_channel (Some c) (Some p) s = Some k" "sv_chls s k = Some chl"
    "target = c \<and> k2 = k \<or> target \<noteq> c \<and> (has_mode (cce_mode chl) SILC_CHANNEL_UMODE_CHANFO \<or> has_mode (cce_mode chl) SILC_CHANNEL_UMODE_CHANOP)"
    "silc_server_client_on_channel (Some target) (Some p) s = Some k2"
    "cumode_change env cmd c target tm (cce_mode chl) tmp p k2 s = Some s'" "sv_chls s j = Some x"
  shows "\<exists>m. sv_chls s' j = Some (x\<lparr>cce_mode := m\<rparr>) \<and> (m = cce_mode x \<or> cce_channel x = p \<and>
    (\<exists>channel client. sv_channels s p = Some channel \<and> sv_clients s c = Some client \<and>
      cumode_permits (sv_server_type s = SILC_ROUTER) (founder_claim env cmd channel client) c chl x m))"
  using assms(6)
proof (cases rule: cumode_change_cases)
  case stop
  then have "sv_chls s' j = Some (x\<lparr>cce_mode := cce_mode x\<rparr>)" using noise_entries(2) assms(7) by simp
  then show ?thesis by blast
next
  case (run channel client y mode sm' n key t err m n')
  note al = steps_allowed [OF run(6), unfolded cumode_allowed_def]
  have y: "cce_client y = target" "cce_channel y = p" using on_channel_row [OF assms(1,5)] run(3) by auto
  have self: "target = c \<Longrightarrow> y = chl" using assms(3,4) run(3) by auto
  have s': "sv_chls s' i = (if i = k2 then map_option (\<lambda>e. e\<lparr>cce_mode := m\<rparr>) (sv_chls t k2) else sv_chls t i)" for i
    using noise_entries(2) [OF run(7)] by (simp add: update_chl_def)
  have "memberships_unique (sv_chls s)" using assms(1) by (simp add: server_inv_def members_inv_def)
  then have other: "cce_client x \<noteq> c" if "j \<noteq> k" "cce_channel x = p"
    using that on_channel_row [OF assms(1,2)] assms(7) unfolding memberships_unique_def by metis
  have keep: ?thesis if "sv_chls s' j = Some x" using that by (intro exI [of _ "cce_mode x"]) simp
  note bits = quiet_bit has_mode_bits founder_bits
  show ?thesis
    using run(5)
  proof (cases rule: cumode_founder_cases)
    case (same n key)
    have "cumode_permits r cl c chl y m" for r cl
      using same(1) al y self assms(4) run(4) unfolding cumode_permits_def bits by (cases "target = c") auto
    with same(2) s' run(1-3) y assms(7) keep show ?thesis by (cases "j = k2") auto
  next
    case (claim n key u)
    then have k: "k2 = k" "target = c" using assms(4) by auto
    have me: "cumode_permits r True c chl y m" for r
      using claim(4) al y k unfolding cumode_permits_def bits by (auto simp: founder_bits)
    show ?thesis
    proof (cases "j = k2")
      case True
      have "remoded s u" using claim(5) drop_founder_remoded remoded_refl by (auto split: if_splits)
      from remoded_row [OF this run(3)] obtain m0 where "sv_chls u k2 = Some (y\<lparr>cce_mode := m0\<rparr>)" by blast
      then have "sv_chls s' j = Some (y\<lparr>cce_mode := m\<rparr>)" using True s' claim(6) by (simp add: update_chl_def)
      with True me run(1-3) y assms(7) claim(3) show ?thesis by auto
    next
      case False
      have eq: "sv_chls s' j = sv_chls u j" using False s' claim(6) by (simp add: update_chl_def)
      consider "sv_chls u j = Some x" | "sv_server_type s = SILC_ROUTER" "j \<in> set (users channel)"
          "has_mode (cce_mode x) SILC_CHANNEL_UMODE_CHANFO" "sv_chls u j = Some (x\<lparr>cce_mode := cce_mode x AND NOT SILC_CHANNEL_UMODE_CHANFO\<rparr>)"
        using claim(5) drop_founder_rows [of p "users channel" s u j x] assms(7) by (auto split: if_splits)
      then show ?thesis
      proof cases
        case 2
        have "cce_channel x = p" using 2(2) users_rows(1) [OF _ run(1)] assms(1,7) by (auto simp: server_inv_def)
        with 2 other False k eq run(1,2) claim(3) show ?thesis
          by (intro exI [of _ "cce_mode x AND NOT SILC_CHANNEL_UMODE_CHANFO"]) (simp add: cumode_permits_def)
      qed (use eq keep in simp)
    qed
  next
    case (resign n key)
    then have k: "k2 = k" "target = c" using assms(4) by auto
    have "cumode_permits r cl c chl y m" for r cl
      using resign(2,3) al y k unfolding cumode_permits_def bits by (auto simp: founder_bits)
    with resign(4) s' run(1-3) y assms(7) keep show ?thesis by (cases "j = k2") (auto simp: update_chl_def)
  qed simp
qed

lemma claim_updated: "founder_claim env cmd (e\<lparr>ch_updated := u\<rparr>) client = founder_claim env cmd e client"
  by (simp add: founder_claim_def)

lemma noise_sym: "noise s s' \<Longrightarrow> noise s' s"
  by (simp add: noise_def quiet_def same_lists_def)

text \<open>
  Property C2. CUMODE changes nothing of a membership but its mode, and the mode of \<open>x\<close> only if the sender is on the channel and
  has the rights: nobody changes their own quiet bit, gets founder rights without the founder
  key, or operator rights without being founder or operator; another user's mode takes operator or
  founder rights and loses or gets the operator and the quiet bit only; a founder loses that mode to no one but, on a
  router, to a sender with the founder key.  This holds also when the command answers with an error.
\<close>

theorem cumode_rights:
  assumes "sane s" "cc_context cmd = Client_Context c" "silc_server_command_cumode env cmd s = Some s'" "sv_chls s j = Some x"
  shows "\<exists>m. sv_chls s' j = Some (x\<lparr>cce_mode := m\<rparr>) \<and> (m = cce_mode x \<or>
    (\<exists>k chl channel client. silc_server_client_on_channel (Some c) (Some (cce_channel x)) s = Some k \<and> sv_chls s k = Some chl \<and>
      sv_channels s (cce_channel x) = Some channel \<and> sv_clients s c = Some client \<and>
      cumode_permits (sv_server_type s = SILC_ROUTER) (founder_claim env cmd channel client) c chl x m))"
proof -
  have i: "server_inv s" using assms(1) by (simp add: sane_def)
  from assms(3,2) i show ?thesis
  proof (cases rule: cumode_cases)
    case stop
    then have "sv_chls s' j = Some (x\<lparr>cce_mode := cce_mode x\<rparr>)" using noise_entries(2) assms(4) by simp
    then show ?thesis by blast
  next
    case (run p k chl target tm tmp k2 t)
    note n = noise_entries [OF run(1)]
    have it: "server_inv t" using sane_noise [OF run(1) assms(1)] by (simp add: sane_def)
    obtain m where m: "sv_chls s' j = Some (x\<lparr>cce_mode := m\<rparr>)" "m = cce_mode x \<or> cce_channel x = p \<and>
      (\<exists>channel client. sv_channels t p = Some channel \<and> sv_clients t c = Some client \<and>
        cumode_permits (sv_server_type t = SILC_ROUTER) (founder_claim env cmd channel client) c chl x m)"
      using cumode_change_rights [OF it _ _ run(4) _ run(6), of j x] run(2,3,5) assms(4) by (auto simp: n(2,5))
    show ?thesis
    proof (cases "m = cce_mode x")
      case False
      with m(2) obtain channel client where c: "cce_channel x = p" "sv_channels t p = Some channel" "sv_clients t c = Some client"
        "cumode_permits (sv_server_type t = SILC_ROUTER) (founder_claim env cmd channel client) c chl x m" by blast
      obtain u where "sv_channels s p = Some (channel\<lparr>ch_updated := u\<rparr>)" using noise_entries(4) [OF noise_sym [OF run(1)] c(2)] by blast
      with m(1) c run(2,3) n(1,3) claim_updated show ?thesis by (intro exI [of _ m]) auto
    qed (use m(1) in blast)
  qed
qed

section \<open>Who may be kicked\<close>

lemma remove_rekey_run:
  assumes "crypto_ok (ce_crypto env)" "server_inv s" "channels_ok s" "remove_and_rekey env p c notify conn s = Some s'"
  shows "\<exists>K. sv_chls s' = sv_chls s |` (- K) \<and> leaves c K s \<and> K \<subseteq> members_of s p"
proof -
  obtain b t where t: "silc_server_remove_from_one_channel p c notify s = Some (b, t)"
    "if b then new_channel_key env p conn t = Some s' else s' = t"
    using assms(4) by (auto simp: remove_and_rekey_def bind_eq_Some_conv split: if_splits)
  obtain K where K: "ended K s t" "channels_ok t" "leaves c K s" "K \<subseteq> members_of s p"
    using remove_one_run [OF assms(2,3) t(1)] by blast
  have "sv_chls s' = sv_chls t"
  proof (cases b)
    case True
    with t(2) obtain e where e: "sv_channels t p = Some e" by (auto simp: new_channel_key_def bind_eq_Some_conv)
    obtain b' u where "silc_server_create_channel_key (ce_crypto env) p 0 t = Some (b', u)" "quiet t u"
      using create_channel_key_ok [OF assms(1) K(2) e, of 0] by auto
    with True t(2) e show ?thesis by (auto simp: new_channel_key_def quiet_def emit_def split: if_splits)
  qed (use t(2) in simp)
  with K show ?thesis by (auto simp: ended_def)
qed

lemma kick_client_run:
  assumes "crypto_ok (ce_crypto env)" "sane s" "kick_client env cmd client target p s = Some s'"
  shows "\<exists>K. sv_chls s' = sv_chls s |` (- K) \<and> leaves target K s \<and> K \<subseteq> members_of s p"
proof -
  obtain t d conn u where t: "noise s t" and u: "drop_invite (ce_inviteban env) (ce_junk env) p d t = Some u"
    and v: "remove_and_rekey env p target False conn u = Some s'" by (rule kick_client_cases [OF assms(3)])
  have "sane u" using sane_drop_invite [OF u] sane_noise [OF t assms(2)] by blast
  then have i: "server_inv u" "channels_ok u" by (simp_all add: sane_def)
  have eq: "sv_chls u = sv_chls s" "sv_clients u = sv_clients s" "sv_server_type u = sv_server_type s"
    using drop_invite_frame [OF u] noise_entries [OF t] by simp_all
  then have "leaves target K u = leaves target K s" "members_of u p = members_of s p" for K
    by (simp_all add: leaves_def local_client_def client_local_def members_of_def)
  with remove_rekey_run [OF assms(1) i v] eq(1) show ?thesis by simp
qed

lemma kick_cases:
  assumes "silc_server_command_kick env cmd s = Some s'" "cc_context cmd = Client_Context c"
  obtains (stop) "noise s s'"
  | (run) p k chl target k2 chl2 t client where "noise s t" "silc_server_client_on_channel (Some c) (Some p) s = Some k" "sv_chls s k = Some chl"
      "has_mode (cce_mode chl) SILC_CHANNEL_UMODE_CHANOP \<or> has_mode (cce_mode chl) SILC_CHANNEL_UMODE_CHANFO"
      "silc_server_client_on_channel (Some target) (Some p) s = Some k2" "sv_chls s k2 = Some chl2"
      "\<not> has_mode (cce_mode chl2) SILC_CHANNEL_UMODE_CHANFO" "kick_client env cmd client target p t = Some s'"
proof -
  from assms(1) [unfolded silc_server_command_kick_def assms(2), simplified] show thesis
  proof (cases rule: check_cases)
    case run
    then show ?thesis
    proof (cases rule: channel_cases)
      case (run i p t)
      note t = run(2) and same = noise_entries [OF run(2)]
      from run(3) show ?thesis
      proof (cases rule: member_cases)
        case stop
        then show ?thesis using that(1) noise_trans [OF t] by blast
      next
        case (run k chl)
        note st = noise_trans [OF t noise_status]
        show ?thesis
        proof (cases "\<exists>j target k2 chl2. id_arg cmd 2 = Some j \<and> find_client env j t = Some target \<and>
            (has_mode (cce_mode chl) SILC_CHANNEL_UMODE_CHANOP \<or> has_mode (cce_mode chl) SILC_CHANNEL_UMODE_CHANFO) \<and>
            silc_server_client_on_channel (Some target) (Some p) t = Some k2 \<and> sv_chls t k2 = Some chl2 \<and>
            \<not> has_mode (cce_mode chl2) SILC_CHANNEL_UMODE_CHANFO")
          case False
          have on: "silc_server_client_on_channel None (Some p) t = None" by (simp add: silc_server_client_on_channel_def)
          from False run have "noise s s'"
            by (cases "id_arg cmd 2"; cases "find_client env (the (id_arg cmd 2)) t")
              (auto simp: Let_def reply_defs on bind_eq_Some_conv split: option.splits if_splits intro: st)
          then show ?thesis by (rule that(1))
        next
          case True
          then obtain j target k2 chl2 where *: "id_arg cmd 2 = Some j" "find_client env j t = Some target"
            "has_mode (cce_mode chl) SILC_CHANNEL_UMODE_CHANOP \<or> has_mode (cce_mode chl) SILC_CHANNEL_UMODE_CHANFO"
            "silc_server_client_on_channel (Some target) (Some p) t = Some k2" "sv_chls t k2 = Some chl2"
            "\<not> has_mode (cce_mode chl2) SILC_CHANNEL_UMODE_CHANFO" by blast
          then have "Option.bind (sv_clients t c) (\<lambda>client. kick_client env cmd client target p t) = Some s'"
            using run(3) by (auto simp: Let_def)
          then obtain client where "kick_client env cmd client target p t = Some s'" by (auto simp: bind_eq_Some_conv)
          with * run same t show ?thesis by (intro that(2) [where t = t]) auto
        qed
      qed
    qed (rule that(1))
  qed (rule that(1))
qed


section \<open>A state with a member\<close>

text \<open>A command with a channel, a mask and a client.\<close>

definition id_bytes :: "silc_id \<Rightarrow> byte list" where
  "id_bytes i = id_payload_bytes (the (silc_id_id2str i 32)) (silc_id_type i)"

lemma id_bytes_parse:
  assumes "id_wf i" shows "silc_id_payload_parse_id (id_bytes i) = Some i" "length (id_bytes i) \<le> 32"
proof -
  obtain s where s: "silc_id_id2str i 32 = Some s" using id2str_eq [OF assms] by blast
  have l: "length s \<le> 28" using id2str_length [OF assms s] get_len_bounds [OF assms] by auto
  then show "length (id_bytes i) \<le> 32" using s by (simp add: id_bytes_def id_payload_bytes_def SILC_PUT16_MSB_def)
  show "silc_id_payload_parse_id (id_bytes i) = Some i"
    using parse_id_bytes [OF assms s, of "[]"] l s by (simp add: id_bytes_def id_payload_bytes_def SILC_PUT16_MSB_def)
qed

abbreviation sample_channel :: silc_id where "sample_channel \<equiv> ChannelID sample_channel_id"
abbreviation sample_client :: silc_id where "sample_client \<equiv> ClientID sample_client_id"

lemma sample_wf: "id_wf sample_channel" "id_wf sample_client"
  by (simp_all add: ip_wf_def CLIENTID_HASH_LEN_def)

definition sample_command :: "(byte list \<times> u32) list \<Rightarrow> silc_server_command_context" where
  "sample_command as = \<lparr>cc_context = Client_Context 5, cc_payload = \<lparr>cp_cmd = 0, cp_ident = 1,
     cp_args = Some \<lparr>ap_argc = of_nat (length as), ap_args = map (\<lambda>(d, t). (Some d, of_nat (length d), t)) as, ap_pos = 0\<rparr>\<rparr>,
     cc_pending = 0, cc_reply = None\<rparr>"

lemma found_in_directory:
  "directory s (w, Channels) (ChannelID k) = Some p \<Longrightarrow>
    silc_idlist_find_channel_by_id now w (Some k) s = Some (Some p, touch_channel now p s)"
  "directory s (w, Clients) (ClientID i) = Some p \<Longrightarrow> sv_clients s p = Some client \<Longrightarrow> is_registered (cl_data client) \<Longrightarrow>
    silc_idlist_find_client_by_id w (Some i) True s = Some p"
  by (auto simp: silc_idlist_find_channel_by_id_def silc_idlist_find_client_by_id_def directory_def dir_of_def entry_context_of
      registered_ok_def bind_eq_Some_conv Let_def)

lemma command_state:
  "\<exists>s client channel. sane s \<and> sv_server_type s = SILC_SERVER \<and> sv_clients s = [5 \<mapsto> client] \<and> sv_channels s = [6 \<mapsto> channel] \<and>
    sv_chls s = [9 \<mapsto> \<lparr>cce_client = 5, cce_mode = umode, cce_channel = 6\<rparr>] \<and> cl_id client = Some sample_client_id \<and>
    ch_invite_list channel = None \<and> ch_mode channel = 0 \<and> silc_server_client_on_channel (Some 5) (Some 6) s = Some 9 \<and>
    (\<forall>now. silc_idlist_find_channel_by_id now Local_List (Some sample_channel_id) s = Some (Some 6, touch_channel now 6 s)) \<and>
    (\<forall>env now. find_client env sample_client (touch_channel now 6 s) = Some 5)"
proof -
  obtain t client channel where t: "server_inv t" "sv_server_type t = SILC_SERVER" "sv_clients t = [5 \<mapsto> client]"
    "sv_channels t = [6 \<mapsto> channel]" "sv_chls t = Map.empty" "cl_id client = Some sample_client_id" "ch_id channel = Some sample_channel_id"
    "ch_key channel = None" "ch_invite_list channel = None" "ch_mode channel = 0"
    "directory t = (\<lambda>_. Map.empty)((Local_List, Clients) := [ClientID sample_client_id \<mapsto> 5], (Local_List, Channels) := [ChannelID sample_channel_id \<mapsto> 6])"
    using one_channel_state [of sample_client_id sample_channel_id 0 None 1] by blast
  let ?f = "\<lambda>e. e\<lparr>cl_data := (cl_data e)\<lparr>id_status := SILC_IDLIST_STATUS_REGISTERED\<rparr>\<rparr>"
  let ?u = "add_member 9 umode 5 6 t"
  let ?s = "update_client 5 ?f ?u"
  have "server_inv ?u" using add_member_server_inv [OF t(1), of 5 client 6 channel 9] t(3-5) by simp
  then have i: "server_inv ?s" by (intro server_inv_update_client) simp_all
  have "get_list w ?s = get_list w t" "sv_cache_heap ?s = sv_cache_heap t" for w
    by (cases w; simp add: add_member_def update_client_def update_channel_def get_list_def)+
  moreover from this have "cache_of ?s (w, k) = cache_of t (w, k)" for w k by (cases k) simp_all
  ultimately have d: "directory ?s = directory t" by (simp add: directory_def [abs_def] fun_eq_iff)
  have d2: "directory (touch_channel now 6 ?s) = directory ?s" for now
    unfolding touch_channel_def by (rule same_lists_ok(2) [OF same_lists_update(2)]) simp
  have lo: "lists_ok ?s" using i by (simp add: server_inv_def)
  obtain client' channel' where e: "sv_clients ?s = [5 \<mapsto> client']" "sv_channels ?s = [6 \<mapsto> channel']" "cl_id client' = Some sample_client_id"
      "is_registered (cl_data client')" "ch_key channel' = None" "ch_invite_list channel' = None" "ch_mode channel' = 0"
    using t(3-10) by (simp add: add_member_def update_client_def update_channel_def is_registered_def fun_eq_iff)
  have k: "sv_chls ?s = [9 \<mapsto> \<lparr>cce_client = 5, cce_mode = umode, cce_channel = 6\<rparr>]" "sv_server_type ?s = SILC_SERVER"
    using t(2-5) by (simp_all add: add_member_def update_client_def update_channel_def)
  have "sane ?s" using i e(2,5,6) k(2) by (simp add: sane_def channels_ok_def channel_ok_def)
  moreover have "silc_server_client_on_channel (Some 5) (Some 6) ?s = Some 9"
    using find_membership(1) [of "{}" ?s 5 client' 6 9] i e(1) k(1) by (simp add: silc_server_client_on_channel_def server_inv_def)
  moreover have "silc_idlist_find_channel_by_id now Local_List (Some sample_channel_id) ?s = Some (Some 6, touch_channel now 6 ?s)" for now
    using d t(11) by (intro found_in_directory) simp
  moreover have "find_client env sample_client (touch_channel now 6 ?s) = Some 5" for env now
  proof -
    let ?t = "touch_channel now 6 ?s"
    have "directory ?t (Local_List, Clients) (ClientID sample_client_id) = Some 5" using d d2 t(11) by simp
    moreover have "sv_clients ?t = [5 \<mapsto> client']" using e(1) by (simp add: touch_channel_def update_channel_def)
    ultimately show ?thesis using e(4) found_in_directory(2) [of ?t Local_List sample_client_id 5 client']
      by (simp add: find_client_def as_client_def)
  qed
  ultimately show ?thesis using e k by blast
qed

lemma sample_args:
  assumes "silc_argument_get_arg_type (cp_args (cc_payload cmd)) n = Some (id_bytes i, of_nat (length (id_bytes i)))" "id_wf i"
  shows "id_arg cmd n = Some i"
  using assms id_bytes_parse [OF assms(2)]
  by (simp add: id_arg_def silc_argument_get_decoded_def silc_argument_decode_def unat_of_nat take_bit_nat_eq_self)

definition sample_env :: command_env where
  "sample_env = \<lparr>ce_now = 0, ce_crypto = \<lparr>cr_cipher_alloc = Some 21, cr_hmac_alloc = Some 22, cr_key_len = \<lambda>_. 256,
     cr_random = \<lambda>n. replicate n 7, cr_rekey = 23\<rparr>, ce_inviteban = undefined, ce_junk = \<lambda>_. 0,
     ce_channel_view = \<lambda>_. sample_channel_id, ce_client_view = \<lambda>_. sample_client_id,
     ce_pkcs = sample_pkcs\<rparr>"

lemma sample_context:
  "cc_context (sample_command as) = Client_Context 5" "cc_reply (sample_command as) = None" "ce_now sample_env = 0"
  "as_channel env sample_channel = sample_channel_id"
  by (simp_all add: sample_command_def sample_env_def as_channel_def)

lemmas sample_run = SILC_SERVER_COMMAND_CHECK_def silc_server_command_pending_error_check_def with_channel_def with_member_def sample_context

text \<open>The members of the state are found while a command runs.\<close>

lemma command_runs_on:
  "\<exists>s t client channel. sane s \<and> sane t \<and> sv_chls s = [9 \<mapsto> \<lparr>cce_client = 5, cce_mode = umode, cce_channel = 6\<rparr>] \<and>
    sv_chls t = sv_chls s \<and> sv_clients t = [5 \<mapsto> client] \<and> sv_channels t = [6 \<mapsto> channel] \<and> cl_id client = Some sample_client_id \<and>
    ch_invite_list channel = None \<and> ch_mode channel = 0 \<and> noise s t \<and> silc_server_client_on_channel (Some 5) (Some 6) t = Some 9 \<and>
    silc_idlist_find_channel_by_id 0 Local_List (Some sample_channel_id) s = Some (Some 6, t) \<and> (\<forall>env. find_client env sample_client t = Some 5)"
proof -
  obtain s client channel where s: "sane s" "sv_clients s = [5 \<mapsto> client]" "sv_channels s = [6 \<mapsto> channel]"
    "sv_chls s = [9 \<mapsto> \<lparr>cce_client = 5, cce_mode = umode, cce_channel = 6\<rparr>]" "cl_id client = Some sample_client_id"
    "ch_invite_list channel = None" "ch_mode channel = 0" "silc_server_client_on_channel (Some 5) (Some 6) s = Some 9"
    "\<And>now. silc_idlist_find_channel_by_id now Local_List (Some sample_channel_id) s = Some (Some 6, touch_channel now 6 s)"
    "\<And>env now. find_client env sample_client (touch_channel now 6 s) = Some 5"
    using command_state [of umode] by blast
  let ?t = "touch_channel 0 6 s"
  have "sv_channels ?t = [6 \<mapsto> channel\<lparr>ch_updated := 0\<rparr>]" using s(3) by (simp add: touch_channel_def update_channel_def)
  moreover have "sane ?t" using sane_noise [OF noise_basic(4)] s(1) by blast
  ultimately show ?thesis
    using s noise_entries [OF noise_basic(4) [of s 0 6]] by (intro exI [of _ s] exI [of _ ?t] exI [of _ client] exI) auto
qed

abbreviation sample_cumode :: silc_server_command_context where
  "sample_cumode \<equiv> sample_command [(id_bytes sample_channel, 1), ([0, 0, 0, 0], 2), (id_bytes sample_client, 3)]"

lemma sample_cumode_args:
  "id_arg sample_cumode 1 = Some sample_channel" "id_arg sample_cumode 3 = Some sample_client"
  "command_arg sample_cumode 2 = Some ([0, 0, 0, 0], 4)" "\<exists>d len. command_arg sample_cumode 3 = Some (d, len)"
  "silc_argument_get_arg_num (cp_args (cc_payload sample_cumode)) = 3"
  by ((rule sample_args [OF _ sample_wf(1)] sample_args [OF _ sample_wf(2)])?,
    simp add: sample_command_def command_arg_def silc_argument_get_arg_type_def silc_argument_get_arg_num_def)+

text \<open>Operator rights given back.\<close>

lemma sample_cumode_runs:
  "\<exists>s s'. sane s \<and> silc_server_command_cumode sample_env sample_cumode s = Some s' \<and>
    sv_chls s 9 = Some \<lparr>cce_client = 5, cce_mode = SILC_CHANNEL_UMODE_CHANOP, cce_channel = 6\<rparr> \<and> map_option cce_mode (sv_chls s' 9) = Some 0"
proof -
  obtain s t client channel where s: "sane s" "sv_chls s = [9 \<mapsto> \<lparr>cce_client = 5, cce_mode = SILC_CHANNEL_UMODE_CHANOP, cce_channel = 6\<rparr>]"
    "sv_chls t = sv_chls s" "sv_clients t = [5 \<mapsto> client]" "sv_channels t = [6 \<mapsto> channel]" "cl_id client = Some sample_client_id"
    "silc_server_client_on_channel (Some 5) (Some 6) t = Some 9"
    "silc_idlist_find_channel_by_id 0 Local_List (Some sample_channel_id) s = Some (Some 6, t)"
    "find_client sample_env sample_client t = Some 5"
    using command_runs_on [of SILC_CHANNEL_UMODE_CHANOP] by blast
  have i: "silc_id_payload_encode (ClientID sample_client_id) = Some (silc_buffer_set (client_bytes sample_client_id))"
    using client_payload(1) [of sample_client_id] sample_wf(2) by simp
  have "\<exists>s'. cumode_change sample_env sample_cumode 5 5 0 2 [0, 0, 0, 0, 0] 6 9 t = Some s' \<and>
      map_option cce_mode (sv_chls s' 9) = Some 0"
    using s(2-6) i sample_cumode_args(4)
    by (auto simp: cumode_change_def cumode_founder_def cumode_list_def cumode_op_def cumode_block_def cumode_quiet_def
        cumode_reply_def has_mode_def silc_server_send_command_reply_def SILC_CHANNEL_UMODE_CHANOP_def
        SILC_CHANNEL_UMODE_CHANFO_def update_chl_def Let_def emit_def count_command_def update_stat_def split: option.splits)
  moreover have "silc_server_command_cumode sample_env sample_cumode s =
      cumode_change sample_env sample_cumode 5 5 0 2 [0, 0, 0, 0, 0] 6 9 t"
    using s(2,3,7-9) sample_cumode_args
    by (simp add: silc_server_command_cumode_def sample_run SILC_GET32_MSB_def SILC_CHANNEL_UMODE_CHANOP_def)
  ultimately show ?thesis using s(1,2) by auto
qed

theorem cumode_rights_witness:
  "\<exists>s s'. sane s \<and> silc_server_command_cumode sample_env sample_cumode s = Some s' \<and> sv_chls s' 9 \<noteq> sv_chls s 9 \<and>
    (\<exists>k chl. silc_server_client_on_channel (Some 5) (Some 6) s = Some k \<and> sv_chls s k = Some chl)"
proof -
  obtain s s' where s: "sane s" "silc_server_command_cumode sample_env sample_cumode s = Some s'"
    "sv_chls s 9 = Some \<lparr>cce_client = 5, cce_mode = SILC_CHANNEL_UMODE_CHANOP, cce_channel = 6\<rparr>" "map_option cce_mode (sv_chls s' 9) = Some 0"
    using sample_cumode_runs by blast
  then have "sv_chls s' 9 \<noteq> sv_chls s 9" by (auto simp: SILC_CHANNEL_UMODE_CHANOP_def)
  with s cumode_rights [OF s(1) sample_context(1) s(2,3)] show ?thesis by auto
qed

abbreviation sample_kick :: silc_server_command_context where
  "sample_kick \<equiv> sample_command [(id_bytes sample_channel, 1), (id_bytes sample_client, 2)]"

lemma sample_kick_args:
  "id_arg sample_kick 1 = Some sample_channel" "id_arg sample_kick 2 = Some sample_client"
  "\<exists>d len. command_arg sample_kick 2 = Some (d, len)"
  "silc_argument_get_arg_num (cp_args (cc_payload sample_kick)) = 2"
  by ((rule sample_args [OF _ sample_wf(1)] sample_args [OF _ sample_wf(2)])?,
    simp add: sample_command_def command_arg_def silc_argument_get_arg_type_def silc_argument_get_arg_num_def)+

lemma remove_and_rekey_runs:
  assumes "crypto_ok (ce_crypto env)" "sane s" "sv_channels s p = Some channel" "sv_clients s c = Some client" "cl_id client = Some i"
    "silc_server_client_on_channel (Some c) (Some p) s = Some k"
  shows "\<exists>s'. remove_and_rekey env p c notify conn s = Some s' \<and> sv_chls s' k = None"
proof -
  obtain q where "silc_hash_table_find (cl_channels client) p = Some (q, k)"
    using assms(4,6) by (auto simp: silc_server_client_on_channel_def)
  then obtain K b t where t: "silc_server_remove_from_one_channel p c notify s = Some (b, t)" "ended (insert k K) s t" "channels_ok t"
      "b \<longrightarrow> sv_channels t p \<noteq> None"
    using remove_one_ok [OF _ _ assms(3-5), of q k notify] assms(2) by (auto simp: sane_def)
  have k: "sv_chls t k = None" using t(2) by (simp add: ended_def restrict_map_def)
  show ?thesis
  proof (cases b)
    case True
    with t(4) obtain e where e: "sv_channels t p = Some e" by blast
    obtain b' u where "silc_server_create_channel_key (ce_crypto env) p 0 t = Some (b', u)" "quiet t u"
      using create_channel_key_ok [OF assms(1) t(3) e, of 0] by auto
    with True t(1) e k show ?thesis by (auto simp: remove_and_rekey_def new_channel_key_def quiet_def emit_def)
  qed (use t(1) k in \<open>simp add: remove_and_rekey_def\<close>)
qed

lemma kick_client_runs:
  assumes "crypto_ok (ce_crypto env)" "sane s" "sv_channels s p = Some channel" "ch_invite_list channel = None"
    "sv_clients s c = Some client" "cl_id client = Some i" "id_wf (ClientID i)" "command_arg cmd 2 = Some (d, len)"
    "silc_server_client_on_channel (Some c) (Some p) s = Some k"
  shows "\<exists>s'. kick_client env cmd client c p s = Some s' \<and> sv_chls s' k = None"
proof -
  have n: "noise s (emit e (emit e' (silc_server_send_command_reply a b c' d f s)))" for e e' a b c' d f
    using noise_trans [OF noise_trans [OF noise_replies(4) noise_basic(1)] noise_basic(1)] .
  have k: "drop_invite (ce_inviteban env) (ce_junk env) p x t = Some t \<and>
      (\<exists>s'. remove_and_rekey env p c False conn t = Some s' \<and> sv_chls s' k = None)" if "noise s t" for t x conn
  proof -
    note e = noise_entries [OF that]
    obtain u where u: "sv_channels t p = Some (channel\<lparr>ch_updated := u\<rparr>)" using e(4) [OF assms(3)] by blast
    with remove_and_rekey_runs [OF assms(1) sane_noise [OF that assms(2)] u _ assms(6), of c k False conn] assms(4,5,9) e(1,5)
    show ?thesis by (simp add: drop_invite_def)
  qed
  from assms(5,6,8) client_payload(1) [OF assms(7)] k [OF n] show ?thesis
    by (simp add: kick_client_def Let_def)
qed

text \<open>An operator off the channel.\<close>

lemma sample_kick_runs:
  "\<exists>s s'. sane s \<and> silc_server_command_kick sample_env sample_kick s = Some s' \<and>
    sv_chls s 9 = Some \<lparr>cce_client = 5, cce_mode = SILC_CHANNEL_UMODE_CHANOP, cce_channel = 6\<rparr> \<and> sv_chls s' 9 = None"
proof -
  obtain s t client channel where s: "sane s" "sane t" "sv_chls s = [9 \<mapsto> \<lparr>cce_client = 5, cce_mode = SILC_CHANNEL_UMODE_CHANOP, cce_channel = 6\<rparr>]"
    "sv_chls t = sv_chls s" "sv_clients t = [5 \<mapsto> client]" "sv_channels t = [6 \<mapsto> channel]" "cl_id client = Some sample_client_id"
    "ch_invite_list channel = None" "silc_server_client_on_channel (Some 5) (Some 6) t = Some 9"
    "silc_idlist_find_channel_by_id 0 Local_List (Some sample_channel_id) s = Some (Some 6, t)"
    "find_client sample_env sample_client t = Some 5"
    using command_runs_on [of SILC_CHANNEL_UMODE_CHANOP] by blast
  obtain d len where d: "command_arg sample_kick 2 = Some (d, len)" using sample_kick_args(3) by blast
  have "crypto_ok (ce_crypto sample_env)" by (simp add: crypto_ok_def sample_env_def)
  from kick_client_runs [OF this s(2) _ s(8) _ s(7) sample_wf(2) d s(9)] s(5,6)
  obtain s' where s': "kick_client sample_env sample_kick client 5 6 t = Some s'" "sv_chls s' 9 = None" by auto
  have "silc_server_command_kick sample_env sample_kick s = Some s'"
    using s(3-5,9-11) s'(1) sample_kick_args
    by (simp add: silc_server_command_kick_def sample_run has_mode_def SILC_CHANNEL_UMODE_CHANOP_def SILC_CHANNEL_UMODE_CHANFO_def Let_def)
  with s(1,3) s'(2) show ?thesis by auto
qed


end
