(* ===== verification/Server_Cmode.thy ===== *)
theory Server_Cmode
  imports Server_Privileges
begin

text \<open>
  The CMODE command, from \<^verbatim>\<open>apps/silcd/command.c\<close>: showing and changing the mode of a channel, with the user
  limit, passphrase, cipher, MAC, founder key and public keys that come with a mode.
\<close>

section \<open>The command\<close>

abbreviation SILC_STATUS_ERR_UNKNOWN_ALGORITHM :: u8 where "SILC_STATUS_ERR_UNKNOWN_ALGORITHM \<equiv> 46"
abbreviation SILC_COMMAND_CMODE :: u8 where "SILC_COMMAND_CMODE \<equiv> 17"

definition SILC_CHANNEL_MODE_HMAC :: u32 where "SILC_CHANNEL_MODE_HMAC = 0x0100"

text \<open>The registry of ciphers and MACs, which gives two ciphers of a name and one MAC, and the copying of public keys.\<close>

record cmode_env =
  cm_command :: command_env
  cm_send_alloc :: "byte list \<Rightarrow> ptr option"
  cm_receive_alloc :: "byte list \<Rightarrow> ptr option"
  cm_hmac_alloc :: "byte list \<Rightarrow> ptr option"
  cm_cipher_name :: "ptr \<Rightarrow> byte list"
  cm_hmac_name :: "ptr \<Rightarrow> byte list"
  cm_default_cipher :: "byte list"
  cm_default_hmac :: "byte list"
  cm_key_copy :: "ptr \<Rightarrow> ptr option"

record cmode_locals =
  lo_cipher :: "byte list option"
  lo_hmac :: "byte list option"
  lo_passphrase :: "byte list option"
  lo_founder_key :: "ptr option"
  lo_fkey :: "silc_buffer option"
  lo_chpkdata :: "byte list option"
  lo_set_chpk :: bool

text \<open>
  A step takes the local variables and the state.  It goes on with new ones, or to the label
  \<open>out\<close>, which is \<open>Some (None, s)\<close>.
\<close>

type_synonym cmode_step = "cmode_locals \<Rightarrow> silc_server \<Rightarrow> (cmode_locals option \<times> silc_server) option"

definition cmode_fail :: "silc_server_command_context \<Rightarrow> u8 \<Rightarrow> silc_server \<Rightarrow> (cmode_locals option \<times> silc_server) option" where
  "cmode_fail cmd status s = map_option (Pair None) (silc_server_command_send_status_reply cmd SILC_COMMAND_CMODE status 0 s)"

definition cmode_fail_name ::
  "silc_server_command_context \<Rightarrow> byte list option \<Rightarrow> silc_server \<Rightarrow> (cmode_locals option \<times> silc_server) option" where
  "cmode_fail_name cmd name s =
     Option.bind name (\<lambda>name. map_option (Pair None)
       (silc_server_command_send_status_data cmd SILC_COMMAND_CMODE SILC_STATUS_ERR_UNKNOWN_ALGORITHM 0
         (2, Some name, of_nat (length name)) s))"

definition send_new_key :: "ptr \<Rightarrow> silc_server \<Rightarrow> silc_server" where
  "send_new_key p s = emit (Ev_Send_Channel_Key None p (if sv_server_type s = SILC_ROUTER then False else \<not> sv_standalone s)) s"

definition cmode_privkey :: "cmode_env \<Rightarrow> u32 \<Rightarrow> ptr \<Rightarrow> cmode_step" where
  "cmode_privkey env mode_mask p l s =
     Option.bind (sv_channels s p) (\<lambda>channel.
       if \<not> has_mode mode_mask SILC_CHANNEL_MODE_PRIVKEY \<and> has_mode (ch_mode channel) SILC_CHANNEL_MODE_PRIVKEY then
         Option.bind (silc_server_create_channel_key (ce_crypto (cm_command env)) p 0
             (update_channel p (\<lambda>e. e\<lparr>ch_mode := ch_mode e AND NOT SILC_CHANNEL_MODE_PRIVKEY\<rparr>) s)) (\<lambda>(ok, s).
           if \<not> ok then Some (None, s)
           else
             let s = send_new_key p s in
             case sv_channels s p of None \<Rightarrow> None
             | Some channel \<Rightarrow>
                 (case (ch_send_key channel, ch_hmac channel) of
                    (Some key, Some hmac) \<Rightarrow> Some (Some (l\<lparr>lo_cipher := Some (cm_cipher_name env key), lo_hmac := Some (cm_hmac_name env hmac)\<rparr>), s)
                  | _ \<Rightarrow> None))
       else Some (Some l, s))"

text \<open>The limit is read whatever the length of the argument; a string that is allocated ends with a zero.\<close>

definition cmode_ulimit :: "silc_server_command_context \<Rightarrow> u32 \<Rightarrow> ptr \<Rightarrow> cmode_step" where
  "cmode_ulimit cmd mode_mask p l s =
     Option.bind (sv_channels s p) (\<lambda>channel.
       if has_mode mode_mask SILC_CHANNEL_MODE_ULIMIT then
         case command_arg cmd 3 of
           None \<Rightarrow> if \<not> has_mode (ch_mode channel) SILC_CHANNEL_MODE_ULIMIT then cmode_fail cmd SILC_STATUS_ERR_NOT_ENOUGH_PARAMS s
             else Some (Some l, s)
         | Some (d, len) \<Rightarrow>
             if length (d @ [0]) < 4 then None
             else Some (Some l, update_channel p (\<lambda>e. e\<lparr>ch_user_limit := SILC_GET32_MSB (d @ [0])\<rparr>) s)
       else if has_mode (ch_mode channel) SILC_CHANNEL_MODE_ULIMIT then Some (Some l, update_channel p (\<lambda>e. e\<lparr>ch_user_limit := 0\<rparr>) s)
       else Some (Some l, s))"

definition cmode_passphrase :: "silc_server_command_context \<Rightarrow> u32 \<Rightarrow> ptr \<Rightarrow> cmode_step" where
  "cmode_passphrase cmd mode_mask p l s =
     Option.bind (sv_channels s p) (\<lambda>channel.
       if has_mode mode_mask SILC_CHANNEL_MODE_PASSPHRASE then
         if \<not> has_mode (ch_mode channel) SILC_CHANNEL_MODE_PASSPHRASE then
           case command_arg cmd 4 of
             None \<Rightarrow> cmode_fail cmd SILC_STATUS_ERR_NOT_ENOUGH_PARAMS s
           | Some (d, len) \<Rightarrow>
               Some (Some (l\<lparr>lo_passphrase := Some (cstr d)\<rparr>), update_channel p (\<lambda>e. e\<lparr>ch_passphrase := Some (cstr d)\<rparr>) s)
         else Some (Some l, s)
       else if has_mode (ch_mode channel) SILC_CHANNEL_MODE_PASSPHRASE
       then Some (Some l, update_channel p (\<lambda>e. e\<lparr>ch_passphrase := None\<rparr>) s)
       else Some (Some l, s))"

text \<open>New ciphers and a key for them; when there is no key, the old ciphers stay.\<close>

definition set_cipher ::
  "cmode_env \<Rightarrow> silc_server_command_context \<Rightarrow> ptr \<Rightarrow> silc_channel_entry \<Rightarrow> byte list option \<Rightarrow> cmode_step" where
  "set_cipher env cmd p channel cipher l s =
     (let name = (case cipher of None \<Rightarrow> cm_default_cipher env | Some c \<Rightarrow> c) in
      case (cm_send_alloc env name, cm_receive_alloc env name) of
        (Some send_key, Some receive_key) \<Rightarrow>
          Option.bind (silc_server_create_channel_key (ce_crypto (cm_command env)) p 0
              (update_channel p (\<lambda>e. e\<lparr>ch_send_key := Some send_key, ch_receive_key := Some receive_key\<rparr>) s)) (\<lambda>(ok, s).
            if \<not> ok then
              Some (None, update_channel p (\<lambda>e. e\<lparr>ch_send_key := ch_send_key channel, ch_receive_key := ch_receive_key channel\<rparr>) s)
            else Some (Some (l\<lparr>lo_cipher := cipher\<rparr>), send_new_key p s))
      | _ \<Rightarrow> cmode_fail_name cmd cipher s)"

definition cmode_cipher :: "cmode_env \<Rightarrow> silc_server_command_context \<Rightarrow> u32 \<Rightarrow> ptr \<Rightarrow> cmode_step" where
  "cmode_cipher env cmd mode_mask p l s =
     Option.bind (sv_channels s p) (\<lambda>channel.
       if has_mode mode_mask SILC_CHANNEL_MODE_CIPHER then
         if \<not> has_mode (ch_mode channel) SILC_CHANNEL_MODE_CIPHER then
           case command_arg cmd 5 of
             None \<Rightarrow> cmode_fail cmd SILC_STATUS_ERR_NOT_ENOUGH_PARAMS s
           | Some (d, len) \<Rightarrow> set_cipher env cmd p channel (Some (cstr d)) l s
         else Some (Some l, s)
       else if has_mode (ch_mode channel) SILC_CHANNEL_MODE_CIPHER
       then set_cipher env cmd p channel (map_option cstr (ch_cipher channel)) l s
       else Some (Some l, s))"

text \<open>A new MAC; its key, made of the channel key, is inside the object.\<close>

definition set_hmac :: "cmode_env \<Rightarrow> silc_server_command_context \<Rightarrow> ptr \<Rightarrow> byte list option \<Rightarrow> cmode_step" where
  "set_hmac env cmd p hmac l s =
     (case cm_hmac_alloc env (case hmac of None \<Rightarrow> cm_default_hmac env | Some h \<Rightarrow> h) of
        None \<Rightarrow> cmode_fail_name cmd hmac s
      | Some newhmac \<Rightarrow> Some (Some (l\<lparr>lo_hmac := hmac\<rparr>), update_channel p (\<lambda>e. e\<lparr>ch_hmac := Some newhmac\<rparr>) s))"

definition cmode_hmac :: "cmode_env \<Rightarrow> silc_server_command_context \<Rightarrow> u32 \<Rightarrow> ptr \<Rightarrow> cmode_step" where
  "cmode_hmac env cmd mode_mask p l s =
     Option.bind (sv_channels s p) (\<lambda>channel.
       if has_mode mode_mask SILC_CHANNEL_MODE_HMAC then
         if \<not> has_mode (ch_mode channel) SILC_CHANNEL_MODE_HMAC then
           case command_arg cmd 6 of
             None \<Rightarrow> cmode_fail cmd SILC_STATUS_ERR_NOT_ENOUGH_PARAMS s
           | Some (d, len) \<Rightarrow> set_hmac env cmd p (Some (cstr d)) l s
         else Some (Some l, s)
       else if has_mode (ch_mode channel) SILC_CHANNEL_MODE_HMAC
       then set_hmac env cmd p (map_option cstr (ch_hmac_name channel)) l s
       else Some (Some l, s))"

text \<open>
  The founder key: \<open>key\<close> is the key that the sender proves to hold and \<open>stored\<close> the object that the channel keeps.
\<close>

definition set_founder_key ::
  "cmode_env \<Rightarrow> silc_server_command_context \<Rightarrow> silc_client_entry \<Rightarrow> ptr \<Rightarrow> ptr \<Rightarrow> ptr option \<Rightarrow> cmode_step" where
  "set_founder_key env cmd client p key stored l s =
     (let pkcs = ce_pkcs (cm_command env) in
      case command_arg cmd 7 of
        None \<Rightarrow> cmode_fail cmd SILC_STATUS_ERR_NOT_ENOUGH_PARAMS s
      | Some (auth, auth_len) \<Rightarrow>
          if \<not> client_key_auth pkcs (take (unat auth_len) auth) key (cl_id client) then cmode_fail cmd SILC_STATUS_ERR_AUTH_FAILED s
          else
            let s = update_channel p (\<lambda>e. e\<lparr>ch_founder_key := stored\<rparr>) s in
            (case stored of
               None \<Rightarrow> cmode_fail cmd SILC_STATUS_ERR_AUTH_FAILED s
             | Some k \<Rightarrow>
                 (case silc_public_key_payload_encode pkcs (Some k) of
                    None \<Rightarrow> map_option (\<lambda>(lo, s). (lo, update_channel p (\<lambda>e. e\<lparr>ch_founder_key := None\<rparr>) s))
                      (cmode_fail cmd SILC_STATUS_ERR_AUTH_FAILED s)
                  | Some fkey \<Rightarrow> Some (Some (l\<lparr>lo_founder_key := Some key, lo_fkey := Some fkey\<rparr>), s))))"

text \<open>
  Only a founder sets the key.  Without a key in the command it is the client's own (a client without a
  key would be a null pointer), and a channel that has a founder key keeps it.
\<close>

definition cmode_founder :: "cmode_env \<Rightarrow> silc_server_command_context \<Rightarrow> silc_client_entry \<Rightarrow> u32 \<Rightarrow> u32 \<Rightarrow> ptr \<Rightarrow> cmode_step" where
  "cmode_founder env cmd client umode mode_mask p l s =
     Option.bind (sv_channels s p) (\<lambda>channel.
       if \<not> has_mode umode SILC_CHANNEL_UMODE_CHANFO then Some (Some l, s)
       else if has_mode mode_mask SILC_CHANNEL_MODE_FOUNDER_AUTH then
         case command_arg cmd 8 of
           Some (d, len) \<Rightarrow>
             (case silc_public_key_payload_decode (ce_pkcs (cm_command env)) (take (unat len) d) of
                None \<Rightarrow> cmode_fail cmd SILC_STATUS_ERR_AUTH_FAILED s
              | Some key \<Rightarrow> set_founder_key env cmd client p key (Some key) l s)
         | None \<Rightarrow>
             if has_mode (ch_mode channel) SILC_CHANNEL_MODE_FOUNDER_AUTH
             then Some (Some (l\<lparr>lo_founder_key := id_public_key (cl_data client)\<rparr>), s)
             else Option.bind (id_public_key (cl_data client)) (\<lambda>key. set_founder_key env cmd client p key (cm_key_copy env key) l s)
       else if has_mode (ch_mode channel) SILC_CHANNEL_MODE_FOUNDER_AUTH
       then Some (Some l, update_channel p (\<lambda>e. e\<lparr>ch_founder_key := None\<rparr>) s)
       else Some (Some l, s))"

definition cmode_chpk :: "cmode_env \<Rightarrow> silc_server_command_context \<Rightarrow> u32 \<Rightarrow> u32 \<Rightarrow> ptr \<Rightarrow> cmode_step" where
  "cmode_chpk env cmd umode mode_mask p l s =
     Option.bind (sv_channels s p) (\<lambda>channel.
       if \<not> has_mode umode SILC_CHANNEL_UMODE_CHANFO then Some (Some l, s)
       else if has_mode mode_mask SILC_CHANNEL_MODE_CHANNEL_AUTH then
         let chpkdata = map_option (\<lambda>(d, len). take (unat len) d) (command_arg cmd 9);
             l = l\<lparr>lo_chpkdata := chpkdata\<rparr> in
         if chpkdata = None \<and> has_mode (ch_mode channel) SILC_CHANNEL_MODE_CHANNEL_AUTH then Some (Some l, s)
         else
           Option.bind (silc_server_set_channel_pk_list (ce_pkcs (cm_command env)) None p chpkdata s) (\<lambda>(st, s).
             if st \<noteq> SILC_STATUS_OK then cmode_fail cmd st s else Some (Some (l\<lparr>lo_set_chpk := True\<rparr>), s))
       else if has_mode (ch_mode channel) SILC_CHANNEL_MODE_CHANNEL_AUTH
       then Some (Some (l\<lparr>lo_set_chpk := True\<rparr>), update_channel p (\<lambda>e. e\<lparr>ch_channel_pubkeys := None\<rparr>) s)
       else Some (Some l, s))"

definition va_buffer :: "u32 \<Rightarrow> silc_buffer option \<Rightarrow> va_arg" where
  "va_buffer n b = (case b of None \<Rightarrow> (n, None, 0) | Some b \<Rightarrow> (n, Some (silc_buffer_data b), of_nat (silc_buffer_len b)))"

text \<open>The mode, the notifications and the reply; an argument of a notification that is not sent is empty.\<close>

definition cmode_finish ::
  "cmode_env \<Rightarrow> silc_server_command_context \<Rightarrow> silc_client_entry \<Rightarrow> byte list \<Rightarrow> u32 \<Rightarrow> ptr \<Rightarrow> cmode_locals \<Rightarrow> silc_server \<Rightarrow> silc_server option" where
  "cmode_finish env cmd client tmp_mask mode_mask p l s =
     (let s = update_channel p (\<lambda>e. e\<lparr>ch_mode := mode_mask\<rparr>) s in
      case (sv_channels s p, cl_id client, Option.bind (cl_id client) (\<lambda>i. silc_id_payload_encode (ClientID i))) of
        (Some channel, Some i, Some cidp) \<Rightarrow>
          let ulimit = (if has_mode mode_mask SILC_CHANNEL_MODE_ULIMIT then Some (SILC_PUT32_MSB (ch_user_limit channel)) else None);
              s = emit (Ev_Notify_To_Channel p SILC_NOTIFY_TYPE_CMODE_CHANGE
                [silc_buffer_data cidp, take 4 tmp_mask, or_empty (lo_cipher l), or_empty (lo_hmac l), or_empty (lo_passphrase l),
                 or_empty (map_option silc_buffer_data (lo_fkey l)), or_empty (lo_chpkdata l), or_empty ulimit]) s;
              s = emit (Ev_Notify_Cmode p mode_mask i (lo_cipher l) (lo_hmac l) (lo_passphrase l) (lo_founder_key l) (lo_chpkdata l)) s;
              chpklist = (if lo_set_chpk l
                then silc_server_get_channel_pk_list (ce_pkcs (cm_command env)) (ce_junk (cm_command env)) channel False False else None) in
          Some (silc_server_send_command_reply SILC_COMMAND_CMODE SILC_STATUS_OK 0 (cp_ident (cc_payload cmd))
            [va_of 2 (command_arg cmd 1), (3, Some tmp_mask, 4), va_buffer 4 (lo_fkey l), va_buffer 5 chpklist,
             (6, ulimit, if has_mode mode_mask SILC_CHANNEL_MODE_ULIMIT then 4 else 0)] s)
      | _ \<Rightarrow> None)"

text \<open>Without a mode in the command the present one is sent.\<close>

definition cmode_show :: "cmode_env \<Rightarrow> silc_server_command_context \<Rightarrow> silc_channel_entry \<Rightarrow> silc_server \<Rightarrow> silc_server" where
  "cmode_show env cmd channel s =
     (let pkcs = ce_pkcs (cm_command env) in
      silc_server_send_command_reply SILC_COMMAND_CMODE SILC_STATUS_OK 0 (cp_ident (cc_payload cmd))
        [va_of 2 (command_arg cmd 1), (3, Some (SILC_PUT32_MSB (ch_mode channel)), 4),
         va_buffer 4 (silc_public_key_payload_encode pkcs (ch_founder_key channel)),
         va_buffer 5 (silc_server_get_channel_pk_list pkcs (ce_junk (cm_command env)) channel False False)] s)"

fun cmode_steps :: "cmode_step list \<Rightarrow> cmode_step" where
  "cmode_steps [] l s = Some (Some l, s)"
| "cmode_steps (f # fs) l s =
     (case f l s of None \<Rightarrow> None
      | Some (None, s) \<Rightarrow> Some (None, s)
      | Some (Some l, s) \<Rightarrow> cmode_steps fs l s)"

definition cmode_list ::
  "cmode_env \<Rightarrow> silc_server_command_context \<Rightarrow> silc_client_entry \<Rightarrow> u32 \<Rightarrow> u32 \<Rightarrow> ptr \<Rightarrow> cmode_step list" where
  "cmode_list env cmd client umode mode_mask p =
     [cmode_privkey env mode_mask p, cmode_ulimit cmd mode_mask p, cmode_passphrase cmd mode_mask p,
      cmode_cipher env cmd mode_mask p, cmode_hmac env cmd mode_mask p, cmode_founder env cmd client umode mode_mask p,
      cmode_chpk env cmd umode mode_mask p]"

definition no_locals :: cmode_locals where
  "no_locals = \<lparr>lo_cipher = None, lo_hmac = None, lo_passphrase = None, lo_founder_key = None, lo_fkey = None, lo_chpkdata = None,
     lo_set_chpk = False\<rparr>"

text \<open>After a step that goes to \<open>out\<close>, the channel has its old mode.\<close>

definition cmode_change ::
  "cmode_env \<Rightarrow> silc_server_command_context \<Rightarrow> silc_client_entry \<Rightarrow> u32 \<Rightarrow> byte list \<Rightarrow> ptr \<Rightarrow> silc_channel_entry \<Rightarrow> silc_server \<Rightarrow>
     silc_server option" where
  "cmode_change env cmd client umode tmp_mask p channel s =
     (let mode_mask = SILC_GET32_MSB tmp_mask in
      if \<not> silc_server_check_cmode_rights (ch_mode channel) umode mode_mask then
        silc_server_command_send_status_data cmd SILC_COMMAND_CMODE
          (if \<not> has_mode umode SILC_CHANNEL_UMODE_CHANOP then SILC_STATUS_ERR_NO_CHANNEL_PRIV else SILC_STATUS_ERR_NO_CHANNEL_FOPRIV) 0
          (va_of 2 (command_arg cmd 1)) s
      else
        Option.bind (cmode_steps (cmode_list env cmd client umode mode_mask p) no_locals s) (\<lambda>(lo, s).
          case lo of
            None \<Rightarrow> Some (update_channel p (\<lambda>e. e\<lparr>ch_mode := ch_mode channel\<rparr>) s)
          | Some l \<Rightarrow> cmode_finish env cmd client tmp_mask mode_mask p l s))"

definition silc_server_command_cmode :: "cmode_env \<Rightarrow> silc_server_command_context \<Rightarrow> silc_server \<Rightarrow> silc_server option" where
  "silc_server_command_cmode env cmd s =
     (case cc_context cmd of
        No_Context \<Rightarrow> Some s
      | Server_Context _ \<Rightarrow> None
      | Client_Context c \<Rightarrow>
          SILC_SERVER_COMMAND_CHECK SILC_COMMAND_CMODE cmd 1 9
            (with_channel (cm_command env) cmd SILC_COMMAND_CMODE Global_List (\<lambda>i p.
              with_member cmd SILC_COMMAND_CMODE c p (\<lambda>k chl s.
                case (sv_channels s p, sv_clients s c) of
                  (Some channel, Some client) \<Rightarrow>
                    (case command_arg cmd 2 of
                       Some (tmp_mask, len) \<Rightarrow>
                         if len = 4 then cmode_change env cmd client (cce_mode chl) tmp_mask p channel s
                         else Some (cmode_show env cmd channel s)
                     | None \<Rightarrow> Some (cmode_show env cmd channel s))
                | _ \<Rightarrow> None))) s)"

section \<open>What the steps change\<close>

text \<open>One channel changes, by \<open>R\<close>, and neither the lists nor the memberships see it.\<close>

definition touches :: "(silc_channel_entry \<Rightarrow> silc_channel_entry \<Rightarrow> bool) \<Rightarrow> ptr \<Rightarrow> silc_server \<Rightarrow> silc_server \<Rightarrow> bool" where
  "touches R p s s' \<longleftrightarrow> quiet s s' \<and> sv_clients s' = sv_clients s \<and> channels_ok s' \<and> (\<forall>q. q \<noteq> p \<longrightarrow> sv_channels s' q = sv_channels s q) \<and>
     (\<forall>e. sv_channels s p = Some e \<longrightarrow> (\<exists>e'. sv_channels s' p = Some e' \<and> R e e'))"

text \<open>Relations that hold of no change and of changes in a row.\<close>

definition preorder_on_entries :: "(silc_channel_entry \<Rightarrow> silc_channel_entry \<Rightarrow> bool) \<Rightarrow> bool" where
  "preorder_on_entries R \<longleftrightarrow> reflp R \<and> transp R"

lemma touches_trans: assumes "preorder_on_entries R" "touches R p a b" "touches R p b c" shows "touches R p a c"
proof -
  have "\<exists>e''. sv_channels c p = Some e'' \<and> R e e''" if "sv_channels a p = Some e" for e
  proof -
    obtain e' where e': "sv_channels b p = Some e'" "R e e'" using assms(2) \<open>sv_channels a p = Some e\<close> by (auto simp: touches_def)
    then obtain e'' where "sv_channels c p = Some e''" "R e' e''" using assms(3) by (auto simp: touches_def)
    with e'(2) assms(1) show ?thesis by (auto simp: preorder_on_entries_def dest: transpD)
  qed
  then show ?thesis using assms(2,3) quiet_trans [of a b c] by (simp add: touches_def)
qed

lemma touches_same: "preorder_on_entries R \<Longrightarrow> channels_ok s \<Longrightarrow> noise s s' \<Longrightarrow> sv_channels s' = sv_channels s \<Longrightarrow> touches R p s s'"
  using noise_channels_ok [of s s'] by (auto simp: touches_def noise_def preorder_on_entries_def reflp_def)

lemma touches_update:
  assumes "channels_ok s" "\<And>e. sv_channels s p = Some e \<Longrightarrow> R e (f e)" "\<And>e. ch_id (f e) = ch_id e" "\<And>e. ch_user_list (f e) = ch_user_list e"
    "\<And>e. ch_user_count (f e) = ch_user_count e" "\<And>e. ch_key (f e) = ch_key e" "\<And>e. ch_invite_list (f e) = ch_invite_list e"
  shows "touches R p s (update_channel p f s)"
proof -
  have "quiet s (update_channel p f s)" by (rule quiet_update_channel) (simp_all add: assms(3-5))
  moreover have "channels_ok (update_channel p f s)" using assms(6,7) by (intro channels_ok_update [OF assms(1)]) (simp add: channel_ok_def)
  ultimately show ?thesis using assms(2) by (auto simp: touches_def update_channel_def)
qed

lemma reply_channels:
  "send_status cmd command status error args s = Some s' \<Longrightarrow> sv_channels s' = sv_channels s"
  "sv_channels (silc_server_send_command_reply command status error ident args s) = sv_channels s"
  by (auto simp: send_status_def silc_server_send_command_reply_def emit_def count_command_def update_stat_def split: option.split)

lemma touches_fail:
  assumes "preorder_on_entries R" "channels_ok s"
  shows "cmode_fail cmd st s = Some (lo, s') \<Longrightarrow> touches R p s s'" "cmode_fail_name cmd name s = Some (lo, s') \<Longrightarrow> touches R p s s'"
  using noise_status reply_channels(1) touches_same [OF assms]
  by (auto simp: cmode_fail_def cmode_fail_name_def reply_defs bind_eq_Some_conv)

lemma touches_send: "preorder_on_entries R \<Longrightarrow> channels_ok s \<Longrightarrow> touches R p s (send_new_key p s)"
  using noise_basic(1) by (intro touches_same) (simp_all add: send_new_key_def, simp add: emit_def)

text \<open>Making a key changes five fields.\<close>

definition keyless :: "silc_channel_entry \<Rightarrow> silc_channel_entry" where
  "keyless e = e\<lparr>ch_send_key := None, ch_receive_key := None, ch_key := None, ch_hmac := None, ch_rekey := None\<rparr>"

lemma create_key_fields:
  assumes "silc_server_create_channel_key cr p n s = Some (b, s')"
  shows "map_option keyless (sv_channels s' p) = map_option keyless (sv_channels s p)"
  using assms
  by (auto simp: silc_server_create_channel_key_def update_channel_def emit_def Let_def keyless_def split: option.splits if_splits)

lemma touches_create_key:
  assumes "crypto_ok cr" "channels_ok s" "silc_server_create_channel_key cr p 0 s = Some (b, s')"
    "\<And>e e'. keyless e' = keyless e \<Longrightarrow> R e e'"
  shows "touches R p s s'"
proof -
  obtain e where e: "sv_channels s p = Some e" using assms(3) by (auto simp: silc_server_create_channel_key_def split: option.splits)
  with create_channel_key_ok [OF assms(1,2) e, of 0] assms(3) have k: "quiet s s'" "channels_ok s'" "key_frame p e b s s'" by auto
  moreover obtain e' where "sv_channels s' p = Some e'" "keyless e' = keyless e" using create_key_fields [OF assms(3)] e by auto
  ultimately show ?thesis using e assms(4) by (auto simp: touches_def key_frame_def)
qed

text \<open>The founder keys that a command can set: none, or one that the sender proved to hold.\<close>

definition founder_keys :: "cmode_env \<Rightarrow> silc_server_command_context \<Rightarrow> silc_client_entry \<Rightarrow> ptr option set" where
  "founder_keys env cmd client = insert None {stored. \<exists>key auth len. command_arg cmd 7 = Some (auth, len) \<and>
     client_key_auth (ce_pkcs (cm_command env)) (take (unat len) auth) key (cl_id client) \<and>
     (case command_arg cmd 8 of
        Some (d, n) \<Rightarrow> silc_public_key_payload_decode (ce_pkcs (cm_command env)) (take (unat n) d) = Some key \<and> stored = Some key
      | None \<Rightarrow> id_public_key (cl_data client) = Some key \<and> stored = cm_key_copy env key)}"

text \<open>What the steps leave as it is, whoever the sender is.\<close>

definition cmode_keeps :: "ptr option set \<Rightarrow> silc_channel_entry \<Rightarrow> silc_channel_entry \<Rightarrow> bool" where
  "cmode_keeps F e e' \<longleftrightarrow> ch_channel_name e' = ch_channel_name e \<and> ch_id e' = ch_id e \<and> ch_topic e' = ch_topic e \<and>
     ch_invite_list e' = ch_invite_list e \<and> ch_ban_list e' = ch_ban_list e \<and> ch_user_list e' = ch_user_list e \<and>
     ch_user_count e' = ch_user_count e \<and> ch_router e' = ch_router e \<and> ch_disabled e' = ch_disabled e \<and>
     (ch_founder_key e' = ch_founder_key e \<or> ch_founder_key e' \<in> F)"

lemma keeps_preorder: "preorder_on_entries (cmode_keeps F)"
  by (auto simp: preorder_on_entries_def cmode_keeps_def reflp_def transp_def)

lemma keyless_keeps: "keyless e' = keyless e \<Longrightarrow> cmode_keeps F e e'"
proof -
  assume a: "keyless e' = keyless e"
  have "f (keyless e') = f (keyless e)" for f :: "silc_channel_entry \<Rightarrow> 'a" using a by simp
  from this [of ch_channel_name] this [of ch_id] this [of ch_topic] this [of ch_invite_list] this [of ch_ban_list] this [of ch_user_list]
    this [of ch_user_count] this [of ch_router] this [of ch_disabled] this [of ch_founder_key]
  show ?thesis by (simp add: cmode_keeps_def keyless_def)
qed

lemma touches_ok: "touches R p s s' \<Longrightarrow> channels_ok s'"
  by (simp add: touches_def)

text \<open>Steps that make a key, for relations that do not look at keys.\<close>

locale key_blind =
  fixes R :: "silc_channel_entry \<Rightarrow> silc_channel_entry \<Rightarrow> bool"
  assumes pre: "preorder_on_entries R"
    and keys: "keyless e' = keyless e \<Longrightarrow> R e e'"
    and small: "R e (e\<lparr>ch_mode := m\<rparr>)" "R e (e\<lparr>ch_user_limit := n\<rparr>)" "R e (e\<lparr>ch_passphrase := w\<rparr>)"
      "R e (e\<lparr>ch_channel_pubkeys := t\<rparr>)"
begin

lemmas trans = touches_trans [OF pre]
lemmas same = touches_same [OF pre]
lemmas fail = touches_fail [OF pre]
lemmas send = touches_send [OF pre]

lemma none: "channels_ok s \<Longrightarrow> touches R p s s"
  using same by blast

lemma ciphers: "channels_ok s \<Longrightarrow> touches R p s (update_channel p (\<lambda>e. e\<lparr>ch_send_key := a, ch_receive_key := b\<rparr>) s)"
  by (rule touches_update) (simp_all add: keys keyless_def)

lemma privkey:
  assumes "crypto_ok (ce_crypto (cm_command env))" "channels_ok s" "cmode_privkey env m p l s = Some (lo, s')"
  shows "touches R p s s'"
proof -
  let ?s = "update_channel p (\<lambda>e. e\<lparr>ch_mode := ch_mode e AND NOT SILC_CHANNEL_MODE_PRIVKEY\<rparr>) s"
  have u: "touches R p s ?s" by (rule touches_update [OF assms(2)]) (simp_all add: small)
  obtain e where e: "sv_channels s p = Some e" using assms(3) by (auto simp: cmode_privkey_def bind_eq_Some_conv)
  show ?thesis
  proof (cases "\<not> has_mode m SILC_CHANNEL_MODE_PRIVKEY \<and> has_mode (ch_mode e) SILC_CHANNEL_MODE_PRIVKEY")
    case True
    with e assms(3) obtain ok t where t: "silc_server_create_channel_key (ce_crypto (cm_command env)) p 0 ?s = Some (ok, t)"
      by (auto simp: cmode_privkey_def bind_eq_Some_conv)
    have s': "s' = (if ok then send_new_key p t else t)"
      using True e assms(3) t by (cases ok) (auto simp: cmode_privkey_def Let_def split: option.splits)
    have k: "touches R p ?s t" by (rule touches_create_key [OF assms(1) touches_ok [OF u] t]) (rule keys)
    show ?thesis using trans [OF u k] trans [OF trans [OF u k] send [OF touches_ok [OF k]]] s' by simp
  qed (use e assms(2,3) none in \<open>auto simp: cmode_privkey_def\<close>)
qed

lemma ulimit: "channels_ok s \<Longrightarrow> cmode_ulimit cmd m p l s = Some (lo, s') \<Longrightarrow> touches R p s s'"
  using touches_update [of s p R "\<lambda>e. e\<lparr>ch_user_limit := n\<rparr>" for n] small(2) none fail(1)
  by (auto simp: cmode_ulimit_def bind_eq_Some_conv split: if_splits option.splits)

lemma passphrase: "channels_ok s \<Longrightarrow> cmode_passphrase cmd m p l s = Some (lo, s') \<Longrightarrow> touches R p s s'"
  using touches_update [of s p R "\<lambda>e. e\<lparr>ch_passphrase := w\<rparr>" for w] small(3) none fail(1)
  by (auto simp: cmode_passphrase_def bind_eq_Some_conv split: if_splits option.splits)

lemma cipher_set:
  assumes "crypto_ok (ce_crypto (cm_command env))" "channels_ok s" "set_cipher env cmd p channel name l s = Some (lo, s')"
  shows "touches R p s s'"
proof (cases "(cm_send_alloc env (case name of None \<Rightarrow> cm_default_cipher env | Some c \<Rightarrow> c),
    cm_receive_alloc env (case name of None \<Rightarrow> cm_default_cipher env | Some c \<Rightarrow> c))")
  case (Pair x y)
  show ?thesis
  proof (cases "x = None \<or> y = None")
    case True
    with Pair assms show ?thesis using fail(2) [OF assms(2)] by (auto simp: set_cipher_def split: option.splits)
  next
    case False
    then obtain a b where xy: "x = Some a" "y = Some b" by auto
    let ?s = "update_channel p (\<lambda>e. e\<lparr>ch_send_key := Some a, ch_receive_key := Some b\<rparr>) s"
    note u = ciphers [OF assms(2), where p = p and a = "Some a" and b = "Some b"]
    from Pair xy assms(3) obtain ok t where t: "silc_server_create_channel_key (ce_crypto (cm_command env)) p 0 ?s = Some (ok, t)"
      by (auto simp: set_cipher_def bind_eq_Some_conv)
    have s': "s' = (if ok then send_new_key p t else
        update_channel p (\<lambda>e. e\<lparr>ch_send_key := ch_send_key channel, ch_receive_key := ch_receive_key channel\<rparr>) t)"
      using Pair xy assms(3) t by (cases ok) (auto simp: set_cipher_def)
    have k: "touches R p s t" by (rule trans [OF u touches_create_key [OF assms(1) touches_ok [OF u] t]]) (rule keys)
    show ?thesis using trans [OF k send [OF touches_ok [OF k]]] trans [OF k ciphers [OF touches_ok [OF k]]] s' by simp
  qed
qed

lemma cipher:
  "crypto_ok (ce_crypto (cm_command env)) \<Longrightarrow> channels_ok s \<Longrightarrow> cmode_cipher env cmd m p l s = Some (lo, s') \<Longrightarrow> touches R p s s'"
  using cipher_set none fail(1) by (auto simp: cmode_cipher_def bind_eq_Some_conv split: if_splits option.splits)

lemma hmac: "channels_ok s \<Longrightarrow> cmode_hmac env cmd m p l s = Some (lo, s') \<Longrightarrow> touches R p s s'"
  using touches_update [of s p R "\<lambda>e. e\<lparr>ch_hmac := h\<rparr>" for h] none fail keys
  by (auto simp: cmode_hmac_def set_hmac_def bind_eq_Some_conv keyless_def split: if_splits option.splits)

lemma set_list:
  assumes "channels_ok s" "silc_server_set_channel_pk_list pkcs sender p pk s = Some (st, s')"
  shows "touches R p s s'"
proof -
  have u: "touches R p t (update_channel p (\<lambda>e. e\<lparr>ch_channel_pubkeys := x\<rparr>) t)" if "channels_ok t" for t x
    by (rule touches_update [OF that]) (simp_all add: small)
  have n: "touches R p s (update_channel p (\<lambda>e. e\<lparr>ch_channel_pubkeys := x\<rparr>) t)"
    if rm: "notify_list_removed p channel (update_channel p (\<lambda>e. e\<lparr>ch_channel_pubkeys := None\<rparr>) s) = Some t" for t x channel
  proof -
    let ?s = "update_channel p (\<lambda>e. e\<lparr>ch_channel_pubkeys := None\<rparr>) s"
    obtain ev where t: "t = emit ev ?s" using rm by (auto simp: notify_list_removed_def)
    have "touches R p ?s t" using touches_ok [OF u [OF assms(1)]] by (intro same) (simp_all add: t, simp add: emit_def)
    with trans [OF u [OF assms(1)]] trans u touches_ok show ?thesis by blast
  qed
  show ?thesis
    using assms(2) none [OF assms(1)] u [OF assms(1)] n
    by (auto simp: silc_server_set_channel_pk_list_def Let_def bind_eq_Some_conv split: option.splits if_splits)
qed

lemma chpk: "channels_ok s \<Longrightarrow> cmode_chpk env cmd um m p l s = Some (lo, s') \<Longrightarrow> touches R p s s'"
proof -
  assume a: "channels_ok s" "cmode_chpk env cmd um m p l s = Some (lo, s')"
  have u: "touches R p s (update_channel p (\<lambda>e. e\<lparr>ch_channel_pubkeys := x\<rparr>) s)" for x
    by (rule touches_update [OF a(1)]) (simp_all add: small)
  have f: "touches R p s s'" if "silc_server_set_channel_pk_list pkcs sender p pk s = Some (st, t)" "cmode_fail cmd st t = Some (lo, s')" for pkcs sender pk st t
    using trans [OF set_list [OF a(1) that(1)] fail(1) [OF _ that(2)]] touches_ok [OF set_list [OF a(1) that(1)]] by blast
  obtain e where e: "sv_channels s p = Some e" using a(2) by (auto simp: cmode_chpk_def bind_eq_Some_conv)
  let ?d = "map_option (\<lambda>(d, len). take (unat len) d) (command_arg cmd 9)"
  let ?run = "has_mode um SILC_CHANNEL_UMODE_CHANFO \<and> has_mode m SILC_CHANNEL_MODE_CHANNEL_AUTH \<and>
    \<not> (?d = None \<and> has_mode (ch_mode e) SILC_CHANNEL_MODE_CHANNEL_AUTH)"
  show ?thesis
  proof (cases ?run)
    case True
    with a(2) e obtain st t where t: "silc_server_set_channel_pk_list (ce_pkcs (cm_command env)) None p ?d s = Some (st, t)"
      by (auto simp: cmode_chpk_def bind_eq_Some_conv Let_def simp del: map_option_is_None split: if_splits)
    show ?thesis
    proof (cases "st = SILC_STATUS_OK")
      case False
      with True a(2) e t have "cmode_fail cmd st t = Some (lo, s')" by (simp add: cmode_chpk_def Let_def del: map_option_is_None) (simp split: if_splits)
      with f t show ?thesis by blast
    next
      case st: True
      with True a(2) e t have "s' = t" by (auto simp: cmode_chpk_def Let_def simp del: map_option_is_None split: if_splits)
      with set_list [OF a(1) t] show ?thesis by simp
    qed
  next
    case False
    with a(2) e have "s' = s \<or> s' = update_channel p (\<lambda>e. e\<lparr>ch_channel_pubkeys := None\<rparr>) s"
      by (simp add: cmode_chpk_def Let_def split: if_splits)
    then show ?thesis
    proof
      assume "s' = s"
      then show ?thesis using none [OF a(1)] by simp
    next
      assume eq: "s' = update_channel p (\<lambda>e. e\<lparr>ch_channel_pubkeys := None\<rparr>) s"
      show ?thesis unfolding eq by (rule u)
    qed
  qed
qed

end

interpretation keeps: key_blind "cmode_keeps F"
  by unfold_locales (rule keeps_preorder, erule keyless_keeps, simp_all add: cmode_keeps_def)

lemma founder_step:
  assumes "channels_ok s" "cmode_founder env cmd client um m p l s = Some (lo, s')"
  shows "touches (cmode_keeps (founder_keys env cmd client)) p s s'"
proof -
  let ?F = "founder_keys env cmd client"
  have u: "touches (cmode_keeps ?F) p t (update_channel p (\<lambda>e. e\<lparr>ch_founder_key := k\<rparr>) t)" if "channels_ok t" "k \<in> ?F" for t k
    by (rule touches_update [OF that(1)]) (simp_all add: cmode_keeps_def that(2))
  have none: "None \<in> ?F" by (simp add: founder_keys_def)
  have set: "touches (cmode_keeps ?F) p s s'"
    if k: "set_founder_key env cmd client p key stored l s = Some (lo, s')" and
      F: "\<And>auth len. command_arg cmd 7 = Some (auth, len) \<Longrightarrow>
        client_key_auth (ce_pkcs (cm_command env)) (take (unat len) auth) key (cl_id client) \<Longrightarrow> stored \<in> ?F" for key stored
  proof (cases "\<exists>auth len. command_arg cmd 7 = Some (auth, len) \<and> client_key_auth (ce_pkcs (cm_command env)) (take (unat len) auth) key (cl_id client)")
    case False
    then show ?thesis using k keeps.fail(1) [OF assms(1)] by (auto simp: set_founder_key_def Let_def split: option.splits)
  next
    case True
    then obtain auth len where a: "command_arg cmd 7 = Some (auth, len)"
      "client_key_auth (ce_pkcs (cm_command env)) (take (unat len) auth) key (cl_id client)" by blast
    let ?s = "update_channel p (\<lambda>e. e\<lparr>ch_founder_key := stored\<rparr>) s"
    have t: "touches (cmode_keeps ?F) p s ?s" using u [OF assms(1)] F [OF a] by blast
    have f: "touches (cmode_keeps ?F) p s t" if "cmode_fail cmd st ?s = Some (lo', t)" for st lo' t
      using keeps.trans [OF t keeps.fail(1) [OF touches_ok [OF t] that]] .
    have g: "touches (cmode_keeps ?F) p s (update_channel p (\<lambda>e. e\<lparr>ch_founder_key := None\<rparr>) t)" if "cmode_fail cmd st ?s = Some (lo', t)" for st lo' t
      using keeps.trans [OF f [OF that] u [OF touches_ok [OF f [OF that]] none]] .
    show ?thesis using k a t f g by (auto simp: set_founder_key_def Let_def split: option.splits)
  qed
  have arg: "touches (cmode_keeps ?F) p s s'" if "command_arg cmd 8 = Some (d, n)"
      "silc_public_key_payload_decode (ce_pkcs (cm_command env)) (take (unat n) d) = Some key"
      "set_founder_key env cmd client p key (Some key) l s = Some (lo, s')" for d n key
    using that by (intro set [OF that(3)]) (auto simp: founder_keys_def)
  have own: "touches (cmode_keeps ?F) p s s'" if "command_arg cmd 8 = None" "id_public_key (cl_data client) = Some key"
      "set_founder_key env cmd client p key (cm_key_copy env key) l s = Some (lo, s')" for key
    using that by (intro set [OF that(3)]) (auto simp: founder_keys_def)
  show ?thesis
  proof (cases "command_arg cmd 8")
    case None
    with assms(2) own keeps.none [OF assms(1)] u [OF assms(1) none] show ?thesis
      by (auto simp: cmode_founder_def bind_eq_Some_conv split: if_splits)
  next
    case (Some a)
    obtain d n where a: "a = (d, n)" by (cases a)
    show ?thesis
      using assms(2) Some a arg keeps.none [OF assms(1)] keeps.fail(1) [OF assms(1)] u [OF assms(1) none]
      by (cases "silc_public_key_payload_decode (ce_pkcs (cm_command env)) (take (unat n) d)")
        (auto simp: cmode_founder_def bind_eq_Some_conv split: if_splits)
  qed
qed

section \<open>What the command changes\<close>

definition step_touches :: "(silc_channel_entry \<Rightarrow> silc_channel_entry \<Rightarrow> bool) \<Rightarrow> ptr \<Rightarrow> cmode_step \<Rightarrow> bool" where
  "step_touches R p f \<longleftrightarrow> (\<forall>l s lo s'. channels_ok s \<longrightarrow> f l s = Some (lo, s') \<longrightarrow> touches R p s s')"

lemma steps_touch:
  assumes "preorder_on_entries R" "\<forall>f \<in> set fs. step_touches R p f" "channels_ok s" "cmode_steps fs l s = Some (lo, s')"
  shows "touches R p s s'"
  using assms(2-4)
proof (induction fs arbitrary: l s)
  case Nil
  then show ?case using touches_same [OF assms(1) Nil(2) noise_refl] by simp
next
  case (Cons f fs)
  from Cons.prems(3) obtain lo1 t where f: "f l s = Some (lo1, t)" by (auto split: option.splits)
  have t: "touches R p s t" using Cons.prems(1,2) f by (simp add: step_touches_def)
  show ?case
  proof (cases lo1)
    case (Some l1)
    with f Cons.prems(3) have "cmode_steps fs l1 t = Some (lo, s')" by simp
    then have "touches R p t s'" using Cons.prems(1) by (intro Cons.IH [OF _ touches_ok [OF t]]) simp_all
    then show ?thesis by (rule touches_trans [OF assms(1) t])
  qed (use f t Cons.prems(3) in simp)
qed

lemma list_keeps:
  assumes "crypto_ok (ce_crypto (cm_command env))" "channels_ok s" "cmode_steps (cmode_list env cmd client um m p) l s = Some (lo, s')"
  shows "touches (cmode_keeps (founder_keys env cmd client)) p s s'"
proof (rule steps_touch [OF keeps_preorder _ assms(2,3)])
  show "\<forall>f \<in> set (cmode_list env cmd client um m p). step_touches (cmode_keeps (founder_keys env cmd client)) p f"
    using keeps.privkey [OF assms(1)] keeps.ulimit keeps.passphrase keeps.cipher [OF assms(1)] keeps.hmac founder_step keeps.chpk
    unfolding cmode_list_def step_touches_def by simp
qed

text \<open>Operators without founder rights.\<close>

definition limitless :: "silc_channel_entry \<Rightarrow> silc_channel_entry" where
  "limitless e = e\<lparr>ch_user_limit := 0, ch_hmac := None\<rparr>"

definition operator_keeps :: "u32 \<Rightarrow> silc_channel_entry \<Rightarrow> silc_channel_entry \<Rightarrow> bool" where
  "operator_keeps M e e' \<longleftrightarrow> (ch_mode e = M \<longrightarrow> limitless e' = limitless e)"

lemma limitless_mode: "limitless e' = limitless e \<Longrightarrow> ch_mode e' = ch_mode e"
  by (drule arg_cong [of _ _ ch_mode]) (simp add: limitless_def)

lemma operator_preorder: "preorder_on_entries (operator_keeps M)"
  unfolding preorder_on_entries_def reflp_def transp_def operator_keeps_def using limitless_mode by metis

lemma operator_same: "operator_keeps M e e"
  using operator_preorder by (simp add: preorder_on_entries_def reflp_def)

lemma operator_small: "operator_keeps M e (e\<lparr>ch_user_limit := n\<rparr>)" "operator_keeps M e (e\<lparr>ch_hmac := h\<rparr>)"
  by (simp_all add: operator_keeps_def limitless_def)

lemma operator_step:
  assumes "f \<in> set (cmode_list env cmd client um m p)" "channels_ok s" "crypto_ok (ce_crypto (cm_command env))" "f l s = Some (lo, s')"
    "\<not> has_mode um SILC_CHANNEL_UMODE_CHANFO" "\<not> has_mode m SILC_CHANNEL_MODE_PRIVKEY" "\<not> has_mode M SILC_CHANNEL_MODE_PRIVKEY"
    "has_mode m SILC_CHANNEL_MODE_PASSPHRASE = has_mode M SILC_CHANNEL_MODE_PASSPHRASE" "has_mode m SILC_CHANNEL_MODE_CIPHER = has_mode M SILC_CHANNEL_MODE_CIPHER"
  shows "touches (operator_keeps M) p s s'"
proof -
  note o = operator_preorder [of M]
  have none: "touches (operator_keeps M) p s s" by (rule touches_same [OF o assms(2) noise_refl refl])
  have up: "touches (operator_keeps M) p s (update_channel p (\<lambda>e. e\<lparr>ch_user_limit := n\<rparr>) s)"
    "touches (operator_keeps M) p s (update_channel p (\<lambda>e. e\<lparr>ch_hmac := h\<rparr>) s)" for n h
    by (rule touches_update [OF assms(2)]; simp add: operator_small)+
  have idle: ?thesis if k: "touches (cmode_keeps (founder_keys env cmd client)) p s s'"
    and same: "\<And>e. sv_channels s p = Some e \<Longrightarrow> ch_mode e = M \<Longrightarrow> s' = s"
  proof -
    have "\<exists>e'. sv_channels s' p = Some e' \<and> operator_keeps M e e'" if e: "sv_channels s p = Some e" for e
    proof (cases "ch_mode e = M")
      case True
      then show ?thesis using same [of e] e operator_same by simp
    next
      case False
      then show ?thesis using k e by (auto simp: touches_def operator_keeps_def)
    qed
    with k show ?thesis by (simp add: touches_def)
  qed
  consider "f = cmode_privkey env m p" | "f = cmode_ulimit cmd m p" | "f = cmode_passphrase cmd m p" | "f = cmode_cipher env cmd m p" |
    "f = cmode_hmac env cmd m p" | "f = cmode_founder env cmd client um m p" | "f = cmode_chpk env cmd um m p"
    using assms(1) by (auto simp: cmode_list_def)
  then show ?thesis
  proof cases
    case 1
    then have f: "cmode_privkey env m p l s = Some (lo, s')" using assms(4) by simp
    show ?thesis
    proof (rule idle [OF keeps.privkey [OF assms(3,2) f]])
      fix e assume "sv_channels s p = Some e" "ch_mode e = M"
      with f assms(6-9) show "s' = s" by (simp add: cmode_privkey_def split: if_splits)
    qed
  next
    case 2
    with assms(4) show ?thesis using none up(1) touches_fail(1) [OF o assms(2)]
      by (auto simp: cmode_ulimit_def bind_eq_Some_conv split: if_splits option.splits)
  next
    case 3
    then have f: "cmode_passphrase cmd m p l s = Some (lo, s')" using assms(4) by simp
    show ?thesis
    proof (rule idle [OF keeps.passphrase [OF assms(2) f]])
      fix e assume "sv_channels s p = Some e" "ch_mode e = M"
      with f assms(6-9) show "s' = s" by (simp add: cmode_passphrase_def split: if_splits)
    qed
  next
    case 4
    then have f: "cmode_cipher env cmd m p l s = Some (lo, s')" using assms(4) by simp
    show ?thesis
    proof (rule idle [OF keeps.cipher [OF assms(3,2) f]])
      fix e assume "sv_channels s p = Some e" "ch_mode e = M"
      with f assms(6-9) show "s' = s" by (simp add: cmode_cipher_def split: if_splits)
    qed
  next
    case 5
    with assms(4) show ?thesis using none up(2) touches_fail [OF o assms(2)]
      by (auto simp: cmode_hmac_def set_hmac_def bind_eq_Some_conv split: if_splits option.splits)
  next
    case 6
    with assms(4,5) none show ?thesis by (auto simp: cmode_founder_def bind_eq_Some_conv)
  next
    case 7
    with assms(4,5) none show ?thesis by (auto simp: cmode_chpk_def bind_eq_Some_conv)
  qed
qed

lemma set_mode_touches: "channels_ok s \<Longrightarrow> touches (\<lambda>e e'. e' = e\<lparr>ch_mode := m\<rparr>) p s (update_channel p (\<lambda>e. e\<lparr>ch_mode := m\<rparr>) s)"
  by (rule touches_update) simp_all

lemma finish_run:
  assumes "channels_ok s" "cmode_finish env cmd client tmp m p l s = Some s'"
  shows "touches (\<lambda>e e'. e' = e\<lparr>ch_mode := m\<rparr>) p s s'"
proof -
  let ?s = "update_channel p (\<lambda>e. e\<lparr>ch_mode := m\<rparr>) s"
  note t = set_mode_touches [OF assms(1), of m p]
  obtain a b as ident e e' where s': "s' = silc_server_send_command_reply a b 0 ident as (emit e (emit e' ?s))"
    using assms(2) by (auto simp: cmode_finish_def Let_def split: option.splits)
  have n: "noise ?s s'" unfolding s' using noise_trans [OF noise_trans [OF noise_basic(1) noise_basic(1)] noise_replies(4)] .
  moreover have "sv_channels s' = sv_channels ?s" unfolding s' reply_channels(2) by (simp add: emit_def)
  ultimately have "touches (=) p ?s s'"
    using touches_ok [OF t] by (intro touches_same) (simp_all add: preorder_on_entries_def transp_def reflp_def)
  with t quiet_trans [of s ?s s'] show ?thesis by (auto simp: touches_def)
qed

lemma change_cases:
  assumes "channels_ok s" "sv_channels s p = Some channel" "cmode_change env cmd client um tmp p channel s = Some s'"
    "\<And>lo t. silc_server_check_cmode_rights (ch_mode channel) um (SILC_GET32_MSB tmp) \<Longrightarrow>
      cmode_steps (cmode_list env cmd client um (SILC_GET32_MSB tmp) p) no_locals s = Some (lo, t) \<Longrightarrow> touches R p s t"
  obtains (refused) "noise s s'"
  | (run) e m where "silc_server_check_cmode_rights (ch_mode channel) um (SILC_GET32_MSB tmp)" "m = ch_mode channel \<or> m = SILC_GET32_MSB tmp"
      "R channel e" "sv_channels s' p = Some (e\<lparr>ch_mode := m\<rparr>)" "touches (\<lambda>_ _. True) p s s'"
proof (cases "silc_server_check_cmode_rights (ch_mode channel) um (SILC_GET32_MSB tmp)")
  case False
  then have "noise s s'" using assms(3) noise_replies(2) by (simp add: cmode_change_def)
  then show thesis by (rule refused)
next
  case True
  with assms(3) obtain lo t where st: "cmode_steps (cmode_list env cmd client um (SILC_GET32_MSB tmp) p) no_locals s = Some (lo, t)"
    by (auto simp: cmode_change_def Let_def bind_eq_Some_conv)
  note t = assms(4) [OF True st]
  then obtain e where e: "sv_channels t p = Some e" "R channel e" using assms(2) by (auto simp: touches_def)
  obtain m where m: "m = ch_mode channel \<or> m = SILC_GET32_MSB tmp" "touches (\<lambda>e e'. e' = e\<lparr>ch_mode := m\<rparr>) p t s'"
  proof (cases lo)
    case None
    with True st assms(3) have "s' = update_channel p (\<lambda>e. e\<lparr>ch_mode := ch_mode channel\<rparr>) t" by (simp add: cmode_change_def Let_def)
    with set_mode_touches [OF touches_ok [OF t], of "ch_mode channel" p] show ?thesis by (intro that [of "ch_mode channel"]) simp_all
  next
    case (Some l)
    with True st assms(3) have "cmode_finish env cmd client tmp (SILC_GET32_MSB tmp) p l t = Some s'" by (simp add: cmode_change_def Let_def)
    from finish_run [OF touches_ok [OF t] this] that show ?thesis by blast
  qed
  from m(2) e(1) have "sv_channels s' p = Some (e\<lparr>ch_mode := m\<rparr>)" by (simp add: touches_def)
  moreover have "touches (\<lambda>_ _. True) p s s'" using t m(2) quiet_trans [of s t s'] by (auto simp: touches_def)
  ultimately show thesis using True m(1) e(2) by (intro run)
qed

text \<open>What a CMODE comes to.\<close>

lemma cmode_cases:
  assumes "silc_server_command_cmode env cmd s = Some s'" "channels_ok s"
  obtains (stop) "noise s s'"
  | (run) c p k chl t channel client tmp where "cc_context cmd = Client_Context c" "noise s t" "channels_ok t"
      "silc_server_client_on_channel (Some c) (Some p) t = Some k" "sv_chls t k = Some chl" "sv_channels t p = Some channel"
      "sv_clients t c = Some client" "command_arg cmd 2 = Some (tmp, 4)" "cmode_change env cmd client (cce_mode chl) tmp p channel t = Some s'"
proof (cases "cc_context cmd")
  case (Client_Context c)
  from assms(1) [unfolded silc_server_command_cmode_def Client_Context, simplified] show thesis
  proof (cases rule: check_cases)
    case run
    then show ?thesis
    proof (cases rule: channel_cases)
      case (run i p t)
      note n = run(2)
      from run(3) show ?thesis
      proof (cases rule: member_cases)
        case (run k chl)
        from run(3) obtain channel client where e: "sv_channels t p = Some channel" "sv_clients t c = Some client"
          by (auto split: option.splits)
        have show_noise: "noise t (cmode_show env cmd channel t)" using noise_replies(4) by (simp add: cmode_show_def Let_def)
        from run(3) e consider "noise t s'" | tmp where "command_arg cmd 2 = Some (tmp, 4)" "cmode_change env cmd client (cce_mode chl) tmp p channel t = Some s'"
          using show_noise by (auto split: option.splits if_splits)
        then show ?thesis
        proof cases
          case 1
          with n noise_trans stop show ?thesis by blast
        next
          case (2 tmp)
          with that(2) [OF Client_Context n noise_channels_ok [OF n assms(2)] run(1,2) e] show ?thesis by blast
        qed
      qed (use n noise_trans stop in blast)
    qed (rule stop)
  qed (rule stop)
qed (use assms(1) stop in \<open>auto simp: silc_server_command_cmode_def\<close>)

lemma cmode_sane:
  assumes "crypto_ok (ce_crypto (cm_command env))" "sane s" "silc_server_command_cmode env cmd s = Some s'" shows "sane s'"
proof -
  have ok: "channels_ok s" using assms(2) by (simp add: sane_def)
  from assms(3) ok show ?thesis
  proof (cases rule: cmode_cases)
    case (run c p k chl t channel client tmp)
    have t: "sane t" by (rule sane_noise [OF run(2) assms(2)])
    from run(3,6,9) show ?thesis
    proof (rule change_cases)
      show "touches (cmode_keeps (founder_keys env cmd client)) p t u"
        if "cmode_steps (cmode_list env cmd client (cce_mode chl) (SILC_GET32_MSB tmp) p) no_locals t = Some (lo, u)" for lo u
        by (rule list_keeps [OF assms(1) run(3) that])
      show ?thesis if "touches (\<lambda>_ _. True) p t s'" using that t sane_quiet by (auto simp: touches_def)
    qed (use sane_noise t in blast)
  qed (use sane_noise assms(2) in blast)
qed

section \<open>Who may change a channel\<close>

lemma keeps_updated: "cmode_keeps F (e\<lparr>ch_updated := u\<rparr>) e' = cmode_keeps F e e'"
  by (simp add: cmode_keeps_def)

text \<open>
  Property C4. CMODE changes a channel only for a sender on it that has the rights to the requested mode.  The
  channel then has its old mode or the requested one, also when the command answers with an error half way;
  its name, ID, topic, users, invite and ban lists stay, and its founder key stays, goes, or becomes one that the sender proved to hold.
  Other channels, clients and memberships do not change.
\<close>

theorem cmode_rights:
  assumes "crypto_ok (ce_crypto (cm_command env))" "channels_ok s" "silc_server_command_cmode env cmd s = Some s'" "sv_channels s q = Some channel"
  shows "sv_clients s' = sv_clients s \<and> sv_chls s' = sv_chls s \<and> (\<exists>channel'. sv_channels s' q = Some channel' \<and>
    ((\<exists>u. channel' = channel\<lparr>ch_updated := u\<rparr>) \<or>
     (\<exists>c client k chl tmp_mask. cc_context cmd = Client_Context c \<and> sv_clients s c = Some client \<and>
        silc_server_client_on_channel (Some c) (Some q) s = Some k \<and> sv_chls s k = Some chl \<and> command_arg cmd 2 = Some (tmp_mask, 4) \<and>
        silc_server_check_cmode_rights (ch_mode channel) (cce_mode chl) (SILC_GET32_MSB tmp_mask) \<and>
        (ch_mode channel' = ch_mode channel \<or> ch_mode channel' = SILC_GET32_MSB tmp_mask) \<and>
        cmode_keeps (founder_keys env cmd client) channel channel')))"
  using assms(3,2)
proof (cases rule: cmode_cases)
  case stop
  then show ?thesis using noise_entries(1,2) [OF stop] noise_entries(4) [OF stop assms(4)] by blast
next
  case (run c p k chl t channel1 client tmp)
  note n = noise_entries [OF run(2)]
  obtain u where u: "sv_channels t q = Some (channel\<lparr>ch_updated := u\<rparr>)" using n(4) [OF assms(4)] by blast
  let ?R = "cmode_keeps (founder_keys env cmd client)"
  have R: "touches ?R p t x" if "cmode_steps (cmode_list env cmd client (cce_mode chl) (SILC_GET32_MSB tmp) p) no_locals t = Some (lo, x)" for lo x
    by (rule list_keeps [OF assms(1) run(3) that])
  from run(3,6,9) R show ?thesis
  proof (rule change_cases)
    assume "noise t s'"
    from noise_trans [OF run(2) this] noise_entries [of s s'] assms(4) show ?thesis by blast
  next
    fix e m
    assume e: "silc_server_check_cmode_rights (ch_mode channel1) (cce_mode chl) (SILC_GET32_MSB tmp)" "m = ch_mode channel1 \<or> m = SILC_GET32_MSB tmp"
      "?R channel1 e" "sv_channels s' p = Some (e\<lparr>ch_mode := m\<rparr>)" "touches (\<lambda>_ _. True) p t s'"
    have same: "sv_clients s' = sv_clients s" "sv_chls s' = sv_chls s" using e(5) n(1,2) by (simp_all add: touches_def quiet_def)
    show ?thesis
    proof (cases "q = p")
      case False
      then have "sv_channels s' q = Some (channel\<lparr>ch_updated := u\<rparr>)" using e(5) u by (simp add: touches_def)
      with same show ?thesis by blast
    next
      case True
      then have c1: "channel1 = channel\<lparr>ch_updated := u\<rparr>" using u run(6) by simp
      have "?R channel (e\<lparr>ch_mode := m\<rparr>)" using e(3) unfolding c1 keeps_updated by (simp add: cmode_keeps_def)
      with e(1,2) run(1,4,5,7,8) n(1,2,5) True c1 have "\<exists>c client k chl tmp_mask. cc_context cmd = Client_Context c \<and> sv_clients s c = Some client \<and>
          silc_server_client_on_channel (Some c) (Some q) s = Some k \<and> sv_chls s k = Some chl \<and> command_arg cmd 2 = Some (tmp_mask, 4) \<and>
          silc_server_check_cmode_rights (ch_mode channel) (cce_mode chl) (SILC_GET32_MSB tmp_mask) \<and>
          (m = ch_mode channel \<or> m = SILC_GET32_MSB tmp_mask) \<and> cmode_keeps (founder_keys env cmd client) channel (e\<lparr>ch_mode := m\<rparr>)" by auto
      with same e(4) True show ?thesis by simp
    qed
  qed
qed

lemma operator_list:
  assumes "crypto_ok (ce_crypto (cm_command env))" "channels_ok s" "cmode_steps (cmode_list env cmd client um m p) l s = Some (lo, s')"
    "silc_server_check_cmode_rights M um m" "\<not> has_mode um SILC_CHANNEL_UMODE_CHANFO"
  shows "touches (operator_keeps M) p s s'"
proof (rule steps_touch [OF operator_preorder _ assms(2,3)])
  have "m AND FOUNDER_MODES = M AND FOUNDER_MODES" "\<not> has_mode m SILC_CHANNEL_MODE_PRIVKEY" "\<not> has_mode M SILC_CHANNEL_MODE_PRIVKEY"
    using assms(4,5) by (simp_all add: cmode_rights_iff)
  with founder_modes_same have "has_mode m SILC_CHANNEL_MODE_PASSPHRASE = has_mode M SILC_CHANNEL_MODE_PASSPHRASE"
    "has_mode m SILC_CHANNEL_MODE_CIPHER = has_mode M SILC_CHANNEL_MODE_CIPHER" "\<not> has_mode m SILC_CHANNEL_MODE_PRIVKEY" "\<not> has_mode M SILC_CHANNEL_MODE_PRIVKEY"
    by (simp_all add: has_mode_bits)
  with operator_step [OF _ _ assms(1)] assms(5)
  show "\<forall>f \<in> set (cmode_list env cmd client um m p). step_touches (operator_keeps M) p f" unfolding step_touches_def by blast
qed

lemma operator_change:
  assumes "crypto_ok (ce_crypto (cm_command env))" "channels_ok t" "sv_channels t p = Some channel"
    "cmode_change env cmd client um tmp p channel t = Some s'" "\<not> has_mode um SILC_CHANNEL_UMODE_CHANFO"
  shows "noise t s' \<or> has_mode um SILC_CHANNEL_UMODE_CHANOP \<and>
    (\<exists>m n h. sv_channels s' p = Some (channel\<lparr>ch_user_limit := n, ch_hmac := h, ch_mode := m\<rparr>) \<and>
      m AND FOUNDER_MODES = ch_mode channel AND FOUNDER_MODES \<and>
      has_mode m SILC_CHANNEL_MODE_PRIVKEY = has_mode (ch_mode channel) SILC_CHANNEL_MODE_PRIVKEY)"
  using assms(2-4)
proof (rule change_cases)
  show "touches (operator_keeps (ch_mode channel)) p t x" if "silc_server_check_cmode_rights (ch_mode channel) um (SILC_GET32_MSB tmp)"
    "cmode_steps (cmode_list env cmd client um (SILC_GET32_MSB tmp) p) no_locals t = Some (lo, x)" for lo x
    by (rule operator_list [OF assms(1,2) that(2,1) assms(5)])
next
  fix e m
  assume e: "silc_server_check_cmode_rights (ch_mode channel) um (SILC_GET32_MSB tmp)" "m = ch_mode channel \<or> m = SILC_GET32_MSB tmp"
    "operator_keeps (ch_mode channel) channel e" "sv_channels s' p = Some (e\<lparr>ch_mode := m\<rparr>)"
  have rights: "has_mode um SILC_CHANNEL_UMODE_CHANOP" "SILC_GET32_MSB tmp AND FOUNDER_MODES = ch_mode channel AND FOUNDER_MODES"
    "\<not> has_mode (SILC_GET32_MSB tmp) SILC_CHANNEL_MODE_PRIVKEY" "\<not> has_mode (ch_mode channel) SILC_CHANNEL_MODE_PRIVKEY"
    using e(1) assms(5) by (simp_all add: cmode_rights_iff)
  have "limitless e = limitless channel" using e(3) by (simp add: operator_keeps_def)
  then have "(limitless e)\<lparr>ch_user_limit := ch_user_limit e, ch_hmac := ch_hmac e\<rparr> =
      (limitless channel)\<lparr>ch_user_limit := ch_user_limit e, ch_hmac := ch_hmac e\<rparr>" by simp
  then obtain n h where "e = channel\<lparr>ch_user_limit := n, ch_hmac := h\<rparr>" by (simp add: limitless_def)
  moreover have "m AND FOUNDER_MODES = ch_mode channel AND FOUNDER_MODES"
    "has_mode m SILC_CHANNEL_MODE_PRIVKEY = has_mode (ch_mode channel) SILC_CHANNEL_MODE_PRIVKEY" using e(2) rights by auto
  ultimately show ?thesis using rights(1) e(4) by blast
qed simp

lemma change_other:
  assumes "crypto_ok (ce_crypto (cm_command env))" "channels_ok t" "sv_channels t p = Some channel"
    "cmode_change env cmd client um tmp p channel t = Some s'" "q \<noteq> p"
  shows "noise t s' \<or> sv_channels s' q = sv_channels t q"
  using assms(2-4) list_keeps [OF assms(1,2)]
  by (rule change_cases) (use assms(5) in \<open>auto simp: touches_def\<close>)

text \<open>
  Property C5. A user without founder rights changes by CMODE nothing of a channel but its user limit, its MAC and mode bits that are
  not reserved to founders: the passphrase, the cipher, the keys, the founder key and the public keys stay.  Without operator
  rights, nothing changes.
\<close>

theorem cmode_operator:
  assumes "crypto_ok (ce_crypto (cm_command env))" "channels_ok s" "silc_server_command_cmode env cmd s = Some s'" "sv_channels s q = Some channel"
    "cc_context cmd = Client_Context c" "silc_server_client_on_channel (Some c) (Some q) s = Some k" "sv_chls s k = Some chl"
    "\<not> has_mode (cce_mode chl) SILC_CHANNEL_UMODE_CHANFO"
  shows "\<exists>m n h u. sv_channels s' q = Some (channel\<lparr>ch_mode := m, ch_user_limit := n, ch_hmac := h, ch_updated := u\<rparr>) \<and>
    m AND FOUNDER_MODES = ch_mode channel AND FOUNDER_MODES \<and>
    has_mode m SILC_CHANNEL_MODE_PRIVKEY = has_mode (ch_mode channel) SILC_CHANNEL_MODE_PRIVKEY \<and>
    (has_mode (cce_mode chl) SILC_CHANNEL_UMODE_CHANOP \<or> m = ch_mode channel \<and> n = ch_user_limit channel \<and> h = ch_hmac channel)"
proof -
  have idle: ?thesis if "sv_channels s' q = Some (channel\<lparr>ch_updated := u\<rparr>)" for u
    using that by (intro exI [of _ "ch_mode channel"] exI [of _ "ch_user_limit channel"] exI [of _ "ch_hmac channel"] exI [of _ u]) simp
  have quiet: ?thesis if "noise s s'" using noise_entries(4) [OF that assms(4)] idle by blast
  from assms(3,2) show ?thesis
  proof (cases rule: cmode_cases)
    case (run d p j chl' t channel1 client tmp)
    note n = noise_entries [OF run(2)]
    obtain u where u: "sv_channels t q = Some (channel\<lparr>ch_updated := u\<rparr>)" using n(4) [OF assms(4)] by blast
    show ?thesis
    proof (cases "q = p")
      case True
      then have eq: "chl' = chl" "channel1 = channel\<lparr>ch_updated := u\<rparr>" using run assms(5-7) n u by auto
      from operator_change [OF assms(1) run(3,6,9) [unfolded eq] assms(8)] consider "noise t s'"
        | m n h where "has_mode (cce_mode chl) SILC_CHANNEL_UMODE_CHANOP"
          "sv_channels s' p = Some (channel\<lparr>ch_updated := u, ch_user_limit := n, ch_hmac := h, ch_mode := m\<rparr>)"
          "m AND FOUNDER_MODES = ch_mode channel AND FOUNDER_MODES"
          "has_mode m SILC_CHANNEL_MODE_PRIVKEY = has_mode (ch_mode channel) SILC_CHANNEL_MODE_PRIVKEY" by auto
      then show ?thesis
      proof cases
        case (2 m n h)
        have "channel\<lparr>ch_updated := u, ch_user_limit := n, ch_hmac := h, ch_mode := m\<rparr> =
          channel\<lparr>ch_mode := m, ch_user_limit := n, ch_hmac := h, ch_updated := u\<rparr>" by (cases channel) simp
        with 2 True show ?thesis by auto
      qed (use noise_trans [OF run(2)] quiet in blast)
    next
      case False
      from change_other [OF assms(1) run(3,6,9) False] show ?thesis
      proof
        assume "noise t s'"
        from quiet [OF noise_trans [OF run(2) this]] show ?thesis .
      next
        assume "sv_channels s' q = sv_channels t q"
        with u idle show ?thesis by simp
      qed
    qed
  qed (rule quiet)
qed

section \<open>A run\<close>

definition sample_cmode_env :: cmode_env where
  "sample_cmode_env = \<lparr>cm_command = sample_env, cm_send_alloc = \<lambda>_. None, cm_receive_alloc = \<lambda>_. None, cm_hmac_alloc = \<lambda>_. None,
     cm_cipher_name = \<lambda>_. [], cm_hmac_name = \<lambda>_. [], cm_default_cipher = [], cm_default_hmac = [], cm_key_copy = \<lambda>_. None\<rparr>"

abbreviation sample_cmode :: silc_server_command_context where
  "sample_cmode \<equiv> sample_command [(id_bytes sample_channel, 1), ([0, 0, 0, 16], 2)]"

lemma sample_cmode_args:
  "id_arg sample_cmode 1 = Some sample_channel" "command_arg sample_cmode 2 = Some ([0, 0, 0, 16], 4)"
  "silc_argument_get_arg_num (cp_args (cc_payload sample_cmode)) = 2"
  by ((rule sample_args [OF _ sample_wf(1)])?,
    simp add: sample_command_def command_arg_def silc_argument_get_arg_type_def silc_argument_get_arg_num_def)+

text \<open>An operator makes the topic of the channel one that only operators set.\<close>

lemma sample_cmode_runs:
  "\<exists>s s' channel. sane s \<and> sv_channels s 6 = Some channel \<and> ch_mode channel = 0 \<and> silc_server_client_on_channel (Some 5) (Some 6) s = Some 9 \<and>
    sv_chls s 9 = Some \<lparr>cce_client = 5, cce_mode = SILC_CHANNEL_UMODE_CHANOP, cce_channel = 6\<rparr> \<and>
    silc_server_command_cmode sample_cmode_env sample_cmode s = Some s' \<and> map_option ch_mode (sv_channels s' 6) = Some 16"
proof -
  obtain s t client channel where s: "sane s" "sv_chls s = [9 \<mapsto> \<lparr>cce_client = 5, cce_mode = SILC_CHANNEL_UMODE_CHANOP, cce_channel = 6\<rparr>]"
    "sv_chls t = sv_chls s" "sv_clients t = [5 \<mapsto> client]" "sv_channels t = [6 \<mapsto> channel]" "cl_id client = Some sample_client_id"
    "silc_server_client_on_channel (Some 5) (Some 6) t = Some 9" "ch_mode channel = 0" "noise s t"
    "silc_idlist_find_channel_by_id 0 Local_List (Some sample_channel_id) s = Some (Some 6, t)"
    using command_runs_on [of SILC_CHANNEL_UMODE_CHANOP] by blast
  have i: "silc_id_payload_encode (ClientID sample_client_id) = Some (silc_buffer_set (client_bytes sample_client_id))"
    using client_payload(1) [of sample_client_id] sample_wf(2) by simp
  have m: "SILC_GET32_MSB [0, 0, 0, 16] = 16" by code_simp
  have rights: "silc_server_check_cmode_rights 0 SILC_CHANNEL_UMODE_CHANOP 16" by code_simp
  have st: "cmode_steps (cmode_list sample_cmode_env sample_cmode client SILC_CHANNEL_UMODE_CHANOP 16 6) no_locals t = Some (Some no_locals, t)"
    using s(5,8)
    by (simp add: cmode_list_def cmode_privkey_def cmode_ulimit_def cmode_passphrase_def cmode_cipher_def cmode_hmac_def cmode_founder_def cmode_chpk_def
        has_mode_def SILC_CHANNEL_MODE_PRIVKEY_def SILC_CHANNEL_MODE_ULIMIT_def SILC_CHANNEL_MODE_PASSPHRASE_def SILC_CHANNEL_MODE_CIPHER_def
        SILC_CHANNEL_MODE_HMAC_def SILC_CHANNEL_UMODE_CHANOP_def SILC_CHANNEL_UMODE_CHANFO_def)
  have "\<exists>s'. cmode_change sample_cmode_env sample_cmode client SILC_CHANNEL_UMODE_CHANOP [0, 0, 0, 16] 6 channel t = Some s' \<and>
      map_option ch_mode (sv_channels s' 6) = Some 16"
  proof -
    have "\<exists>s'. cmode_finish sample_cmode_env sample_cmode client [0, 0, 0, 16] 16 6 no_locals t = Some s'"
      using s(5,6) i unfolding cmode_finish_def Let_def by (simp add: update_channel_def)
    then obtain s' where f: "cmode_finish sample_cmode_env sample_cmode client [0, 0, 0, 16] 16 6 no_locals t = Some s'" by blast
    have "channels_ok t" using sane_noise [OF s(9,1)] by (simp add: sane_def)
    with finish_run [OF _ f] s(5) have "sv_channels s' 6 = Some (channel\<lparr>ch_mode := 16\<rparr>)" by (simp add: touches_def)
    with f s(8) rights st show ?thesis by (simp add: cmode_change_def m Let_def)
  qed
  moreover have "silc_server_command_cmode sample_cmode_env sample_cmode s =
      cmode_change sample_cmode_env sample_cmode client SILC_CHANNEL_UMODE_CHANOP [0, 0, 0, 16] 6 channel t"
    using s(2-5,7,10) sample_cmode_args by (simp add: silc_server_command_cmode_def sample_run sample_cmode_env_def)
  moreover obtain channel' where "sv_channels s 6 = Some channel'" "ch_mode channel' = 0"
    using s(5,8) noise_entries(4) [OF noise_sym [OF s(9)], of 6 channel] by auto
  moreover have "silc_server_client_on_channel (Some 5) (Some 6) s = Some 9" using s(7) noise_entries(5) [OF s(9)] by simp
  ultimately show ?thesis using s(1,2) by auto
qed

theorem cmode_rights_witness:
  "\<exists>s s' channel channel'. channels_ok s \<and> silc_server_command_cmode sample_cmode_env sample_cmode s = Some s' \<and>
    sv_channels s 6 = Some channel \<and> sv_channels s' 6 = Some channel' \<and> ch_mode channel' \<noteq> ch_mode channel \<and>
    (\<exists>c k. cc_context sample_cmode = Client_Context c \<and> silc_server_client_on_channel (Some c) (Some 6) s = Some k)"
proof -
  obtain s s' channel where s: "sane s" "sv_channels s 6 = Some channel" "ch_mode channel = 0"
    "silc_server_command_cmode sample_cmode_env sample_cmode s = Some s'" "map_option ch_mode (sv_channels s' 6) = Some 16"
    using sample_cmode_runs by blast
  have "crypto_ok (ce_crypto (cm_command sample_cmode_env))" by (simp add: crypto_ok_def sample_cmode_env_def sample_env_def)
  with cmode_rights [OF this _ s(4,2)] s show ?thesis by (auto simp: sane_def)
qed

theorem cmode_operator_witness:
  "\<exists>s s' channel m n h u. channels_ok s \<and> silc_server_command_cmode sample_cmode_env sample_cmode s = Some s' \<and> sv_channels s 6 = Some channel \<and>
    sv_channels s' 6 = Some (channel\<lparr>ch_mode := m, ch_user_limit := n, ch_hmac := h, ch_updated := u\<rparr>) \<and> m \<noteq> ch_mode channel"
proof -
  obtain s s' channel where s: "sane s" "sv_channels s 6 = Some channel" "ch_mode channel = 0" "silc_server_client_on_channel (Some 5) (Some 6) s = Some 9"
    "sv_chls s 9 = Some \<lparr>cce_client = 5, cce_mode = SILC_CHANNEL_UMODE_CHANOP, cce_channel = 6\<rparr>"
    "silc_server_command_cmode sample_cmode_env sample_cmode s = Some s'" "map_option ch_mode (sv_channels s' 6) = Some 16"
    using sample_cmode_runs by blast
  have "crypto_ok (ce_crypto (cm_command sample_cmode_env))" by (simp add: crypto_ok_def sample_cmode_env_def sample_env_def)
  moreover have "\<not> has_mode SILC_CHANNEL_UMODE_CHANOP SILC_CHANNEL_UMODE_CHANFO" by code_simp
  ultimately obtain m n h u where c: "sv_channels s' 6 = Some (channel\<lparr>ch_mode := m, ch_user_limit := n, ch_hmac := h, ch_updated := u\<rparr>)"
    using cmode_operator [OF _ _ s(6,2) sample_context(1) s(4,5)] s(1) by (auto simp: sane_def)
  with s(7) have "m = 16" by simp
  with c s show ?thesis by (intro exI [of _ s] exI [of _ s'] exI [of _ channel] exI [of _ m] exI [of _ n] exI [of _ h] exI [of _ u]) (simp add: sane_def)
qed

end
