(* ===== verification/Server_Steps.thy ===== *)
theory Server_Steps
  imports Server_Cmode
begin

text \<open>
  The server as a state machine: the states that the modelled operations reach from a new server,
  and what holds in all of them.
\<close>

section \<open>Steps\<close>

text \<open>
  One operation of the server.  Addresses of new objects are free; a join with founder rights is
  asked for a channel without users only, as \<^verbatim>\<open>silc_server_command_join\<close> does; channel keys fit the array in which they are
  made; the ID of a client that leaves the network is well-formed.
\<close>

inductive server_step :: "silc_server \<Rightarrow> silc_server \<Rightarrow> bool" where
  do_leave: "crypto_ok (ce_crypto env) \<Longrightarrow> silc_server_command_leave env cmd s = Some s' \<Longrightarrow> server_step s s'"
| do_kick: "crypto_ok (ce_crypto env) \<Longrightarrow> silc_server_command_kick env cmd s = Some s' \<Longrightarrow> server_step s s'"
| do_topic: "silc_server_command_topic env cmd s = Some s' \<Longrightarrow> server_step s s'"
| do_umode: "silc_server_command_umode cmd s = Some s' \<Longrightarrow> server_step s s'"
| do_cumode: "silc_server_command_cumode env cmd s = Some s' \<Longrightarrow> server_step s s'"
| do_cmode: "crypto_ok (ce_crypto (cm_command cenv)) \<Longrightarrow> silc_server_command_cmode cenv cmd s = Some s' \<Longrightarrow> server_step s s'"
| do_join: "crypto_ok (je_crypto jenv) \<Longrightarrow> sv_chls s k = None \<Longrightarrow>
    (has_mode umode SILC_CHANNEL_UMODE_CHANFO \<Longrightarrow> members_of s p = {}) \<Longrightarrow>
    silc_server_command_join_channel jenv jcmd k (Some p) created create_key umode s = Some (out, s') \<Longrightarrow> server_step s s'"
| do_signoff: "crypto_ok (le_crypto lenv) \<Longrightarrow> sv_clients s c = Some client \<Longrightarrow> (\<And>i. cl_id client = Some i \<Longrightarrow> id_wf (ClientID i)) \<Longrightarrow>
    silc_server_remove_from_channels lenv (Some c) notify s = Some s' \<Longrightarrow> server_step s s'"
| do_add_client: "sv_clients s p = None \<Longrightarrow>
    silc_idlist_add_client penv p w nick user info i router conn s = Some (ro, s') \<Longrightarrow> server_step s s'"
| do_add_channel: "sv_channels s p = None \<Longrightarrow>
    silc_idlist_add_channel penv p now dh w name m (Some j) router sk rk hmac s = (ro, s') \<Longrightarrow> server_step s s'"
| do_del_client: "silc_idlist_del_client w (Some p) s = Some (ok, s') \<Longrightarrow> server_step s s'"

text \<open>A new server, of any of the three types, and what it comes to.\<close>

inductive server_reachable :: "silc_server \<Rightarrow> bool" where
  start: "silc_server_alloc = Some s \<Longrightarrow> server_reachable (s\<lparr>sv_server_type := type\<rparr>)"
| step: "server_reachable s \<Longrightarrow> server_step s s' \<Longrightarrow> server_reachable s'"

section \<open>The lists\<close>

lemma sane_start:
  assumes "silc_server_alloc = Some s" shows "sane (s\<lparr>sv_server_type := type\<rparr>)" (is "sane ?s")
proof -
  have i: "server_inv s" by (rule alloc_server_inv [OF assms])
  have e: "sv_chls s = Map.empty" "sv_channels s = Map.empty" using assms by (auto simp: silc_server_alloc_def split: option.splits)
  have l: "same_lists s ?s" by (rule same_listsI) (simp_all add: get_list_def split: which_list.split)
  have "client_table ?s = client_table s" "channel_table ?s = channel_table s" by (simp_all add: client_table_def channel_table_def fun_eq_iff)
  then have "server_inv ?s"
    using i members_inv_cong [of ?s s] same_lists_ok [OF l] by (simp add: server_inv_def listed_def)
  with e show ?thesis by (simp add: sane_def channels_ok_def one_founder_def founders_def)
qed

lemma sane_chls:
  assumes "sane s" "server_inv s'" "channels_ok s'" "sv_chls s' = sv_chls s" "sv_server_type s' = sv_server_type s" shows "sane s'"
  using assms founders_chls [OF assms(4)] by (simp add: sane_def one_founder_def)

lemma put_list_rest [simp]:
  "sv_chls (put_list w l s) = sv_chls s" "sv_server_type (put_list w l s) = sv_server_type s" "sv_channels (put_list w l s) = sv_channels s"
  "sv_clients (put_list w l s) = sv_clients s"
  by (simp_all add: put_list_def split: which_list.split)

lemma add_client_sane:
  assumes "sane s" "sv_clients s p = None" "silc_idlist_add_client env p w nick user info i router conn s = Some (ro, s')"
  shows "sane s'"
proof -
  have "sv_channels s' = sv_channels s" "sv_chls s' = sv_chls s" "sv_server_type s' = sv_server_type s"
    using assms(3) by (auto simp: silc_idlist_add_client_def Let_def split: option.splits bool.splits prod.splits)
  moreover have "server_inv s'" using add_client_inv [OF _ assms(2,3)] assms(1) by (simp add: sane_def)
  ultimately show ?thesis using assms(1) by (intro sane_chls [OF assms(1)]) (auto simp: sane_def channels_ok_def)
qed

lemma add_channel_sane:
  assumes "sane s" "sv_channels s p = None" "silc_idlist_add_channel env p now dh w name m (Some j) router sk rk hmac s = (ro, s')"
  shows "sane s'"
proof -
  have "server_inv s'" using add_channel_inv [OF _ assms(2,3)] assms(1) by (simp add: sane_def)
  moreover have "sv_chls s' = sv_chls s \<and> sv_server_type s' = sv_server_type s \<and> channels_ok s'"
    using assms(1,3)
    by (auto simp: silc_idlist_add_channel_def Let_def sane_def channels_ok_def channel_ok_def split: option.splits prod.splits if_splits)
  ultimately show ?thesis by (intro sane_chls [OF assms(1)]) auto
qed

lemma del_client_sane:
  assumes "sane s" "silc_idlist_del_client w (Some p) s = Some (ok, s')" shows "sane s'"
proof -
  have "server_inv s'" using del_client_inv [OF _ assms(2)] assms(1) by (simp add: sane_def)
  moreover have "sv_chls s' = sv_chls s \<and> sv_server_type s' = sv_server_type s \<and> sv_channels s' = sv_channels s"
    using assms(2)
    by (auto simp: silc_idlist_del_client_def silc_idlist_client_destructor_def Let_def split: option.splits prod.splits if_splits)
  ultimately show ?thesis using assms(1) by (intro sane_chls [OF assms(1)]) (auto simp: sane_def channels_ok_def)
qed

section \<open>Reachable states\<close>

lemma join_sane:
  assumes "sane s" "crypto_ok (je_crypto env)" "sv_chls s k = None" "has_mode umode SILC_CHANNEL_UMODE_CHANFO \<Longrightarrow> members_of s p = {}"
    "silc_server_command_join_channel env cmd k (Some p) created create_key umode s = Some (out, s')"
  shows "sane s'"
proof -
  have "has_mode umode SILC_CHANNEL_UMODE_CHANFO \<longrightarrow> founders s p = {}" using assms(4) by (auto simp: founders_def members_of_def)
  with join_keeps [OF _ _ assms(2,3,5)] assms(1) show ?thesis by (auto simp: sane_def)
qed

lemma signoff_sane:
  assumes "sane s" "crypto_ok (le_crypto env)" "sv_clients s c = Some client" "\<And>i. cl_id client = Some i \<Longrightarrow> id_wf (ClientID i)"
    "silc_server_remove_from_channels env (Some c) notify s = Some s'"
  shows "sane s'"
proof -
  have "server_inv s" "channels_ok s" using assms(1) by (simp_all add: sane_def)
  from remove_all_ok [OF this assms(2,3), of notify] assms(4,5) obtain K where "ended K s s'" "channels_ok s'" by auto
  with sane_ended assms(1) show ?thesis by blast
qed

lemma step_sane: "server_step s s' \<Longrightarrow> sane s \<Longrightarrow> sane s'"
  by (cases rule: server_step.cases)
    (auto intro: leave_sane kick_sane topic_sane umode_sane cumode_sane cmode_sane join_sane signoff_sane add_client_sane add_channel_sane del_client_sane)



end
