(* ===== verification/Spec2Isabelle.thy ===== *)
theory Spec2Isabelle
  imports Silc_Channel Silc_Notify Server_Steps
begin

text \<open>
  Verification of the SILC server.

  \<^bold>\<open>The program.\<close>  \<^verbatim>\<open>silcd\<close> is the server and router of the SILC conferencing network.  Below the
  program proper (\<^verbatim>\<open>src/apps/silcd\<close>) are the payload codecs of the protocol
  (\<^verbatim>\<open>src/lib/silccore\<close>), an ID cache and name checks (\<^verbatim>\<open>src/lib/silcapputil\<close>) and utilities
  (\<^verbatim>\<open>src/lib/silcutil\<close>).  A server keeps two lists, local and global, of servers, clients and channels,
  each an ID cache over hash tables; clients and channels point to each other through
  memberships.  Commands and packets arrive as payloads, are parsed with the buffer formatter,
  look up entries by ID or name and change these lists.

  \<^bold>\<open>The utilities.\<close>
  \<^item> \<^verbatim>\<open>Silc_Prelude\<close>: bytes and words, the big-endian macros of \<^verbatim>\<open>silctypes.h\<close>, the limits of
    \<^verbatim>\<open>silcmemory.c\<close>, and the shared lemma collections.
  \<^item> \<^verbatim>\<open>Silc_Buffer\<close> (\<^verbatim>\<open>silcbuffer.h\<close>): a buffer is a record of its memory and the offsets of \<open>data\<close> and
    \<open>tail\<close>.  The locale \<open>byte_cursor\<close> is what parsers rely on: pulls are undone by one push.
  \<^item> \<^verbatim>\<open>Silc_Buffmt\<close> (\<^verbatim>\<open>silcbuffmt.c\<close>): formatting and unformatting, with variable arguments as lists of
    parameters and results.  Unformatting never reads outside the buffer, and reads back what
    was formatted.
  \<^item> \<^verbatim>\<open>Silc_Hashfuncs\<close> (\<^verbatim>\<open>silcutil.c\<close>): hash and comparison functions.  The locale \<open>hash_keys\<close> is the law that
    equal keys hash equally; it is interpreted for each pair of functions that the server uses.
  \<^item> \<^verbatim>\<open>Silc_Hashtable\<close> (\<^verbatim>\<open>silchashtable.c\<close>): chained tables with their prime sizes and resizing.  Every
    reachable table is well formed; lookups follow additions and deletions across resizing.
  \<^item> \<^verbatim>\<open>Silc_Utf8\<close> (\<^verbatim>\<open>silcutf8.c\<close>) and \<^verbatim>\<open>Silc_Stringprep\<close> (\<^verbatim>\<open>silcstringprep.c\<close>, \<^verbatim>\<open>silcapputil.c\<close>,
    \<^verbatim>\<open>silcstrutil.c\<close>): the UTF-8 codec is exact, and accepted names contain no separators.

  \<^bold>\<open>The payloads.\<close>  \<^verbatim>\<open>Silc_Id\<close>, \<^verbatim>\<open>Silc_Argument\<close>, \<^verbatim>\<open>Silc_Command\<close>, \<^verbatim>\<open>Silc_Channel\<close> and \<^verbatim>\<open>Silc_Notify\<close> model the files
  of the same names in \<^verbatim>\<open>silccore\<close>.  Encoders and parsers are inverse to each other on the valid payloads,
  and what a parser accepts is characterised.  \<^verbatim>\<open>Silc_Auth\<close> (\<^verbatim>\<open>silcauth.c\<close>, \<^verbatim>\<open>silcpubkey.c\<close>) says exactly what authenticates.

  \<^bold>\<open>The ID cache.\<close>  \<^verbatim>\<open>Silc_Idcache\<close> (\<^verbatim>\<open>silcidcache.c\<close>): entries live in a heap of cells and three tables
  index them.  The locale \<open>id_cache\<close> states the contract that the lists of the server use.

  \<^bold>\<open>The server.\<close>
  \<^item> \<^verbatim>\<open>Server_Data\<close>: the entries of \<^verbatim>\<open>idlist.h\<close> and the server of \<^verbatim>\<open>server_internal.h\<close> as records.  Entries
    are in stores, maps from addresses, so that a freed pointer is an address without an entry.
    What is sent or scheduled is a trace of events.
  \<^item> \<^verbatim>\<open>Server_Idlist\<close> (\<^verbatim>\<open>idlist.c\<close>) and \<^verbatim>\<open>Server_Directory\<close>: every operation on the two lists, and their
    refinement of an abstract directory, six maps from IDs to entries.
  \<^item> \<^verbatim>\<open>Server_Id\<close> (\<^verbatim>\<open>serverid.c\<close>): creating IDs terminates and gives unused IDs.
  \<^item> \<^verbatim>\<open>Server_Inviteban\<close> and \<^verbatim>\<open>Server_Rights\<close> (\<^verbatim>\<open>server_util.c\<close>): invite and ban lists, and who may change modes.
  \<^item> \<^verbatim>\<open>Server_Channels\<close> (\<^verbatim>\<open>server.c\<close>, \<^verbatim>\<open>server_util.c\<close>): leaving and deleting channels, channel keys.
    \<^verbatim>\<open>Server_Members\<close> has the invariant \<open>server_inv\<close>: the lists are consistent, the user lists of channels and
    the channel lists of clients are two views of one set of memberships, the user counters are exact and
    every channel is in a list.  \<^verbatim>\<open>Server_Leave\<close> shows that leaving returns, keeps the invariant and ends
    the right memberships.
  \<^item> \<^verbatim>\<open>Server_Chpk\<close> (\<^verbatim>\<open>server_util.c\<close>): the public keys of a channel refine a map from digests to keys, and
    authentication with them is exact.
  \<^item> \<^verbatim>\<open>Server_Join\<close> (\<^verbatim>\<open>command.c\<close>): admission to a channel and the new membership.
  \<^item> \<^verbatim>\<open>Server_Command\<close> (\<^verbatim>\<open>command.c\<close>): LEAVE, KICK, TOPIC, UMODE and CUMODE, with the checks before a command
    and the replies.  \<^verbatim>\<open>Server_Privileges\<close> shows whom CUMODE and KICK let change what.
  \<^item> \<^verbatim>\<open>Server_Cmode\<close> (\<^verbatim>\<open>command.c\<close>): CMODE as a chain of steps that share local variables.  The locale \<open>key_blind\<close> has what every
    step does for any relation that does not look at keys; it gives what a sender may change, with and without
    founder rights.
  \<^item> \<^verbatim>\<open>Server_Steps\<close>: the operations as steps of one transition system.  Every reachable state is consistent, and
    on a router no channel has two founders.

  \<^bold>\<open>Errors, bounds and termination.\<close>  Fallible operations give options; an outer \<open>None\<close> stands for undefined
  behaviour (a null or freed pointer, a failed assertion, a write outside an array), so a theorem that an
  operation gives \<open>Some\<close> includes that it does not crash.  Machine integers are words and wrap.  There is no
  fuel: loops are structural or have a termination proof.

  \<^bold>\<open>Not modelled.\<close>  The network, the scheduler, threads, logging and files are input and output.  Cryptography,
  public keys, regular expressions and GNU Libidn are parameters, with documented behaviour as hypotheses
  where a theorem needs it.  The dispatch of commands and packets, queries, backup routers, the key exchange
  and the configuration are left out; they drive the operations above through callbacks and the network.
  Memory allocation is assumed to succeed below the limit of the allocator.
\<close>

end
